(* ===== verification/Prelude.thy ===== *)
theory Prelude
  imports Main "HOL-Library.Word"
begin

text \<open>
  Shared vocabulary of the kernel model: machine integers, C strings, bytes, and the
  result type and combinators in which every kernel function is written.
\<close>

unbundle bit_operations_syntax

named_theorems kmonad \<open>equations that run the kernel combinators\<close>
named_theorems krun \<open>what a kernel operation does in a well-formed state\<close>

section \<open>Machine integers and C strings\<close>

type_synonym u8 = "8 word"
type_synonym u16 = "16 word"
type_synonym u32 = "32 word"
type_synonym u64 = "64 word"

text \<open>A C string is the list of its characters up to the terminating NUL.\<close>

abbreviation NUL :: char where "NUL \<equiv> CHR 0x00"

definition char_at :: "string \<Rightarrow> nat \<Rightarrow> char" where
  "char_at xs i = (if i < length xs then xs ! i else NUL)"

lemma char_at_Nil [simp]: "char_at [] i = NUL"
  by (simp add: char_at_def)

lemma char_at_0 [simp]: "char_at (c # cs) 0 = c"
  by (simp add: char_at_def)

lemma char_at_Suc [simp]: "char_at (c # cs) (Suc i) = char_at cs i"
  by (simp add: char_at_def)

lemma char_at_1 [simp]: "char_at (c # cs) 1 = char_at cs 0"
  using char_at_Suc [of c cs 0] by simp

lemma char_at_2 [simp]: "char_at (c # cs) 2 = char_at cs 1"
  using char_at_Suc [of c cs 1] by (simp add: numeral_2_eq_2)

text \<open>The string a NUL-terminated character array holds.\<close>

definition cstr :: "char list \<Rightarrow> string" where
  "cstr buf = takeWhile (\<lambda>c. c \<noteq> NUL) buf"

lemma cstr_append_NUL: "NUL \<notin> set s \<Longrightarrow> cstr (s @ NUL # rest) = s"
proof -
  assume "NUL \<notin> set s"
  then have "takeWhile (\<lambda>c. c \<noteq> NUL) (s @ NUL # rest) = s @ takeWhile (\<lambda>c. c \<noteq> NUL) (NUL # rest)"
    by (intro takeWhile_append2) auto
  then show ?thesis by (simp add: cstr_def)
qed

lemma cstr_no_NUL: "NUL \<notin> set (cstr s)"
  by (auto simp: cstr_def dest: set_takeWhileD)

text \<open>A char as the byte that stores it, and back.\<close>

definition byte_of :: "char \<Rightarrow> u8" where
  "byte_of c = word_of_nat (of_char c)"

definition char_of_byte :: "u8 \<Rightarrow> char" where
  "char_of_byte b = char_of (unat b)"

lemma char_of_byte_of [simp]: "char_of_byte (byte_of c) = c"
proof -
  have "(of_char c :: nat) < 256" by (rule nat_of_char_less_256)
  then show ?thesis by (simp add: char_of_byte_def byte_of_def unat_of_nat take_bit_eq_mod)
qed

lemma byte_of_char_of [simp]: "byte_of (char_of_byte b) = b"
proof -
  have "unat b < 256" using unsigned_less [of b] by simp
  then show ?thesis by (simp add: char_of_byte_def byte_of_def)
qed

lemma map_char_bytes [simp]: "map char_of_byte (map byte_of s) = s" "map byte_of (map char_of_byte bs) = bs"
  by (simp_all add: comp_def)

section \<open>Little-endian bytes\<close>

fun le_enc :: "nat \<Rightarrow> nat \<Rightarrow> u8 list" where
  "le_enc 0 x = []"
| "le_enc (Suc n) x = of_nat (x mod 256) # le_enc n (x div 256)"

fun le_dec :: "u8 list \<Rightarrow> nat" where
  "le_dec [] = 0"
| "le_dec (b # bs) = unat b + 256 * le_dec bs"

lemma length_le_enc [simp]: "length (le_enc n x) = n"
  by (induction n arbitrary: x) auto

lemma le_dec_enc: "le_dec (le_enc n x) = x mod 256 ^ n"
proof (induction n arbitrary: x)
  case 0
  then show ?case by simp
next
  case (Suc n)
  have "unat (of_nat (x mod 256) :: u8) = x mod 256"
    by (simp add: unat_of_nat take_bit_eq_mod)
  then show ?case
    using Suc mod_mult2_eq [of x 256 "256 ^ n"] by simp
qed

lemma le_dec_bound: "le_dec bs < 256 ^ length bs"
proof (induction bs)
  case Nil
  then show ?case by simp
next
  case (Cons b bs)
  have "unat b < 256" using unsigned_less [of b] by simp
  moreover have "Suc (le_dec bs) \<le> 256 ^ length bs" using Cons by simp
  then have "256 * Suc (le_dec bs) \<le> 256 * 256 ^ length bs" by (rule mult_le_mono2)
  ultimately show ?case by simp
qed

lemma le_enc_dec: "le_enc (length bs) (le_dec bs) = bs"
proof (induction bs)
  case Nil
  then show ?case by simp
next
  case (Cons b bs)
  have "unat b < 256" using unsigned_less [of b] by simp
  then show ?case using Cons by simp
qed

section \<open>Results of kernel code\<close>

text \<open>
  A kernel function runs on a world: the kernel state together with the actions other
  harts, processes and devices will perform while the function waits (spins on a lock or
  a device register, or sleeps). Each wait consumes one of these actions. A run ends
  \<^item> with a value (\<open>Ok\<close>);
  \<^item> at a call of \<open>panic\<close> (\<open>Panic\<close> with the message: control goes to the panic handler);
  \<^item> waiting, when no further action of the environment is given (\<open>Blocked\<close>);
  \<^item> in an endless loop that nothing leaves (\<open>Halted\<close>);
  \<^item> outside the C semantics: a wrong \<open>va_arg\<close>, a bad pointer (\<open>Undef\<close>);
  \<^item> without fuel, for loops given a bound (\<open>NoFuel\<close>).
\<close>

datatype ('a, 'w) res =
    Ok 'a 'w
  | Panic string 'w
  | Blocked 'w
  | Halted 'w
  | Undef 'w
  | NoFuel 'w

type_synonym 's world = "'s \<times> ('s \<Rightarrow> 's) list"
type_synonym ('s, 'a) kfun = "'s world \<Rightarrow> ('a, 's world) res"

text \<open>Each constructor, applied to a world, is itself a statement.\<close>

abbreviation kret :: "'a \<Rightarrow> ('s, 'a) kfun" where "kret \<equiv> Ok"

abbreviation kpanic :: "string \<Rightarrow> ('s, 'a) kfun" where "kpanic \<equiv> Panic"

abbreviation khalt :: "('s, 'a) kfun" where "khalt \<equiv> Halted"

abbreviation kundef :: "('s, 'a) kfun" where "kundef \<equiv> Undef"

abbreviation knofuel :: "('s, 'a) kfun" where "knofuel \<equiv> NoFuel"

definition kbind :: "('s, 'a) kfun \<Rightarrow> ('a \<Rightarrow> ('s, 'b) kfun) \<Rightarrow> ('s, 'b) kfun" where
  "kbind m f w =
     (case m w of
        Ok x w' \<Rightarrow> f x w'
      | Panic msg w' \<Rightarrow> Panic msg w'
      | Blocked w' \<Rightarrow> Blocked w'
      | Halted w' \<Rightarrow> Halted w'
      | Undef w' \<Rightarrow> Undef w'
      | NoFuel w' \<Rightarrow> NoFuel w')"

definition kthen :: "('s, unit) kfun \<Rightarrow> ('s, 'b) kfun \<Rightarrow> ('s, 'b) kfun" where
  "kthen m k = kbind m (\<lambda>_. k)"

text \<open>A block of statements, in order.\<close>

primrec kseq :: "('s, unit) kfun list \<Rightarrow> ('s, unit) kfun" where
  "kseq [] = kret ()"
| "kseq (m # ms) = kthen m (kseq ms)"

definition kget :: "('s \<Rightarrow> 'a) \<Rightarrow> ('s, 'a) kfun" where
  "kget f w = Ok (f (fst w)) w"

definition kmod :: "('s \<Rightarrow> 's) \<Rightarrow> ('s, unit) kfun" where
  "kmod f w = Ok () (f (fst w), snd w)"

text \<open>Give up control until the environment has acted once.\<close>

definition env_step :: "('s, unit) kfun" where
  "env_step w = (case snd w of [] \<Rightarrow> Blocked w | g # gs \<Rightarrow> Ok () (g (fst w), gs))"

definition kif :: "('s \<Rightarrow> bool) \<Rightarrow> ('s, 'a) kfun \<Rightarrow> ('s, 'a) kfun \<Rightarrow> ('s, 'a) kfun" where
  "kif c a b w = (if c (fst w) then a w else b w)"

definition kwhen :: "('s \<Rightarrow> bool) \<Rightarrow> ('s, unit) kfun \<Rightarrow> ('s, unit) kfun" where
  "kwhen c a = kif c a (kret ())"

text \<open>
  Loops over a list of indices: \<open>kfor\<close> runs the body for every element, \<open>kfind\<close> stops at
  the first element whose body yields a value.
\<close>

primrec kfor :: "'i list \<Rightarrow> ('i \<Rightarrow> ('s, unit) kfun) \<Rightarrow> ('s, unit) kfun" where
  "kfor [] f = kret ()"
| "kfor (x # xs) f = kthen (f x) (kfor xs f)"

primrec kfind :: "'i list \<Rightarrow> ('i \<Rightarrow> ('s, 'r option) kfun) \<Rightarrow> ('s, 'r option) kfun" where
  "kfind [] f = kret None"
| "kfind (x # xs) f =
     kbind (f x) (\<lambda>r. case r of Some v \<Rightarrow> kret (Some v) | None \<Rightarrow> kfind xs f)"

text \<open>A while loop that may run at most \<open>n\<close> rounds of its body.\<close>

primrec kwhile :: "nat \<Rightarrow> ('s \<Rightarrow> bool) \<Rightarrow> ('s, unit) kfun \<Rightarrow> ('s, unit) kfun" where
  "kwhile 0 c body = kif c knofuel (kret ())"
| "kwhile (Suc n) c body = kif c (kthen body (kwhile n c body)) (kret ())"

text \<open>
  A loop that waits until a condition holds, testing again after every action of the
  environment: it needs no fuel, since each wait uses up one action.
\<close>

fun await :: "('s \<Rightarrow> bool) \<Rightarrow> ('s, unit) kfun" where
  "await c (s, []) = (if c s then Ok () (s, []) else Blocked (s, []))"
| "await c (s, g # gs) =
     (if c s then Ok () (s, g # gs) else await c (g s, gs))"

text \<open>
  A loop whose body waits at least once per round: the pending actions of the environment
  are fuel enough (see \<open>kloop_total\<close> below).
\<close>

definition kloop :: "('s \<Rightarrow> bool) \<Rightarrow> ('s, unit) kfun \<Rightarrow> ('s, unit) kfun" where
  "kloop c body w = kwhile (Suc (length (snd w))) c body w"

text \<open>Try until the attempt yields a value, waiting after each failure.\<close>

primrec kretry_loop :: "nat \<Rightarrow> ('s, 'r option) kfun \<Rightarrow> ('s, unit) kfun \<Rightarrow> ('s, 'r) kfun" where
  "kretry_loop 0 try m = knofuel"
| "kretry_loop (Suc n) try m =
     kbind try (\<lambda>r. case r of Some v \<Rightarrow> kret v | None \<Rightarrow> kthen m (kretry_loop n try m))"

definition kretry :: "('s, 'r option) kfun \<Rightarrow> ('s, unit) kfun \<Rightarrow> ('s, 'r) kfun" where
  "kretry try m w = kretry_loop (Suc (length (snd w))) try m w"

lemma kget_run [simp, kmonad]: "kget f w = Ok (f (fst w)) w"
  by (simp add: kget_def)

lemma kmod_run [simp, kmonad]: "kmod f w = Ok () (f (fst w), snd w)"
  by (simp add: kmod_def)

lemma kif_run [simp, kmonad]: "kif c a b w = (if c (fst w) then a w else b w)"
  by (simp add: kif_def)

lemma kwhen_run [simp, kmonad]: "kwhen c a w = (if c (fst w) then a w else Ok () w)"
  by (simp add: kwhen_def)

lemma kthen_run [kmonad]: "kthen m k w = kbind m (\<lambda>_. k) w"
  by (simp add: kthen_def)

lemma kbind_Ok [intro]: "m w = Ok x w' \<Longrightarrow> kbind m f w = f x w'"
  by (simp add: kbind_def)

lemma kbind_Panic [intro]: "m w = Panic msg w' \<Longrightarrow> kbind m f w = Panic msg w'"
  by (simp add: kbind_def)

lemma kbind_kret [simp]: "kbind (kret x) f = f x"
  by (rule ext) (simp add: kbind_def)

lemma kthen_kret [simp]: "kthen (kret ()) m = m"
  by (simp add: kthen_def)

lemma kbind_assoc: "kbind (kbind m f) g = kbind m (\<lambda>x. kbind (f x) g)"
  by (rule ext) (simp add: kbind_def split: res.splits)

lemma kthen_assoc: "kthen (kthen m k) l = kthen m (kthen k l)"
  by (simp add: kthen_def kbind_assoc)

lemma kseq_append: "kseq (xs @ ys) = kthen (kseq xs) (kseq ys)"
  by (induction xs) (simp_all add: kthen_def kbind_assoc)

lemma kbind_eq_Ok:
  "kbind m f w = Ok y w' \<longleftrightarrow> (\<exists>x w1. m w = Ok x w1 \<and> f x w1 = Ok y w')"
  by (simp add: kbind_def split: res.splits)

text \<open>Invariants of runs: \<open>kpres P m\<close> says that \<open>m\<close> keeps \<open>P\<close> of the state on every branch.\<close>

primrec res_world :: "('a, 'w) res \<Rightarrow> 'w" where
  "res_world (Ok x w) = w"
| "res_world (Panic msg w) = w"
| "res_world (Blocked w) = w"
| "res_world (Halted w) = w"
| "res_world (Undef w) = w"
| "res_world (NoFuel w) = w"

definition env_pres :: "('s \<Rightarrow> bool) \<Rightarrow> ('s \<Rightarrow> 's) list \<Rightarrow> bool" where
  "env_pres P e \<longleftrightarrow> (\<forall>g \<in> set e. \<forall>s. P s \<longrightarrow> P (g s))"

definition kpres :: "('s \<Rightarrow> bool) \<Rightarrow> ('s, 'a) kfun \<Rightarrow> bool" where
  "kpres P m \<longleftrightarrow>
     (\<forall>w. P (fst w) \<longrightarrow> env_pres P (snd w) \<longrightarrow>
        P (fst (res_world (m w))) \<and> env_pres P (snd (res_world (m w))))"

named_theorems kpres_intros \<open>rules that lift an invariant through the combinators\<close>

lemma kpres_kret [kpres_intros]: "kpres P (kret x)"
  by (simp add: kpres_def)

lemma kpres_kget [kpres_intros]: "kpres P (kget f)"
  by (simp add: kpres_def)

lemma kpres_kpanic [kpres_intros]: "kpres P (kpanic msg)"
  by (simp add: kpres_def)

lemma kpres_khalt [kpres_intros]: "kpres P khalt"
  by (simp add: kpres_def)

lemma kpres_kundef [kpres_intros]: "kpres P kundef"
  by (simp add: kpres_def)

lemma kpres_knofuel [kpres_intros]: "kpres P knofuel"
  by (simp add: kpres_def)

lemma kpres_kmod [kpres_intros]: "(\<And>s. P s \<Longrightarrow> P (f s)) \<Longrightarrow> kpres P (kmod f)"
  by (simp add: kpres_def)

lemma kpres_kbind [kpres_intros]:
  assumes "kpres P m" and "\<And>x. kpres P (f x)"
  shows "kpres P (kbind m f)"
proof -
  have "P (fst (res_world (kbind m f w))) \<and> env_pres P (snd (res_world (kbind m f w)))"
    if "P (fst w)" and "env_pres P (snd w)" for w
  proof -
    have m: "P (fst (res_world (m w))) \<and> env_pres P (snd (res_world (m w)))"
      using assms(1) that unfolding kpres_def by blast
    show ?thesis
    proof (cases "m w")
      case (Ok x w')
      with m have "P (fst w')" and "env_pres P (snd w')" by simp_all
      then have "P (fst (res_world (f x w'))) \<and> env_pres P (snd (res_world (f x w')))"
        using assms(2) [of x] unfolding kpres_def by blast
      then show ?thesis using Ok by (simp add: kbind_def)
    qed (use m in \<open>simp_all add: kbind_def\<close>)
  qed
  then show ?thesis by (simp add: kpres_def)
qed

lemma kpres_kthen [kpres_intros]: "kpres P m \<Longrightarrow> kpres P k \<Longrightarrow> kpres P (kthen m k)"
  by (simp add: kthen_def kpres_kbind)

lemma kpres_kseq [kpres_intros]: "(\<And>m. m \<in> set ms \<Longrightarrow> kpres P m) \<Longrightarrow> kpres P (kseq ms)"
  by (induction ms) (auto intro: kpres_intros)

lemma kpres_kif [kpres_intros]: "kpres P a \<Longrightarrow> kpres P b \<Longrightarrow> kpres P (kif c a b)"
  by (simp add: kpres_def)

lemma kpres_kwhen [kpres_intros]: "kpres P a \<Longrightarrow> kpres P (kwhen c a)"
  by (simp add: kpres_def)

lemma kpres_kfor [kpres_intros]: "(\<And>x. x \<in> set xs \<Longrightarrow> kpres P (f x)) \<Longrightarrow> kpres P (kfor xs f)"
  by (induction xs) (auto intro: kpres_intros)

lemma kpres_kfind [kpres_intros]: "(\<And>x. x \<in> set xs \<Longrightarrow> kpres P (f x)) \<Longrightarrow> kpres P (kfind xs f)"
proof (induction xs)
  case Nil
  then show ?case by (simp add: kpres_def)
next
  case (Cons x xs)
  have "kpres P (case r of Some v \<Rightarrow> kret (Some v) | None \<Rightarrow> kfind xs f)" for r
    using Cons by (cases r) (auto intro: kpres_intros)
  then show ?case using Cons.prems by (auto intro: kpres_intros)
qed

lemma kpres_kwhile [kpres_intros]: "kpres P body \<Longrightarrow> kpres P (kwhile n c body)"
  by (induction n) (auto intro: kpres_intros)

lemma kpres_env_step [kpres_intros]: "kpres P env_step"
  by (auto simp: kpres_def env_step_def env_pres_def split: list.splits)

lemma kpres_await [kpres_intros]: "kpres P (await c)"
proof -
  have "P (fst (res_world (await c w))) \<and> env_pres P (snd (res_world (await c w)))"
    if "P (fst w)" and "env_pres P (snd w)" for w
    using that by (induction c w rule: await.induct) (auto simp: env_pres_def)
  then show ?thesis by (simp add: kpres_def)
qed

lemma kpres_kloop [kpres_intros]: "kpres P body \<Longrightarrow> kpres P (kloop c body)"
  using kpres_kwhile [of P body] unfolding kpres_def kloop_def by blast

text \<open>
  \<open>ktotal m\<close>: a run of \<open>m\<close> does not run out of fuel and does not add actions of the
  environment; \<open>kwaits m\<close>: a run of \<open>m\<close> that returns has used up at least one.
\<close>

definition ktotal :: "('s, 'a) kfun \<Rightarrow> bool" where
  "ktotal m \<longleftrightarrow> (\<forall>w. (\<forall>w'. m w \<noteq> NoFuel w') \<and>
     (\<forall>x w'. m w = Ok x w' \<longrightarrow> length (snd w') \<le> length (snd w)))"

definition kwaits :: "('s, 'a) kfun \<Rightarrow> bool" where
  "kwaits m \<longleftrightarrow> (\<forall>w x w'. m w = Ok x w' \<longrightarrow> length (snd w') < length (snd w))"

named_theorems ktotal_intros \<open>rules that show that code does not run out of fuel\<close>

lemma ktotal_base [ktotal_intros]:
  "ktotal (kret x)" "ktotal (kpanic msg)" "ktotal khalt" "ktotal kundef" "ktotal (kget f)" "ktotal (kmod g)"
  by (simp_all add: ktotal_def)

lemma ktotal_env_step [ktotal_intros]: "ktotal env_step"
  by (auto simp: ktotal_def env_step_def split: list.splits)

lemma ktotal_await [ktotal_intros]: "ktotal (await c)"
proof -
  have "(\<forall>w'. await c w \<noteq> NoFuel w') \<and> (\<forall>x w'. await c w = Ok x w' \<longrightarrow> length (snd w') \<le> length (snd w))" for w
    by (induction c w rule: await.induct) (auto simp: le_Suc_eq)
  then show ?thesis by (simp add: ktotal_def)
qed

lemma ktotal_kbind [ktotal_intros]:
  assumes "ktotal m" and "\<And>x. ktotal (f x)"
  shows "ktotal (kbind m f)"
  using assms unfolding ktotal_def kbind_def by (fastforce split: res.splits)

lemma ktotal_kthen [ktotal_intros]: "ktotal m \<Longrightarrow> ktotal k \<Longrightarrow> ktotal (kthen m k)"
  by (simp add: kthen_def ktotal_kbind)

lemma ktotal_kseq [ktotal_intros]: "(\<And>m. m \<in> set ms \<Longrightarrow> ktotal m) \<Longrightarrow> ktotal (kseq ms)"
  by (induction ms) (auto intro: ktotal_intros)

lemma ktotal_kif [ktotal_intros]: "ktotal a \<Longrightarrow> ktotal b \<Longrightarrow> ktotal (kif c a b)"
  by (simp add: ktotal_def)

lemma ktotal_kwhen [ktotal_intros]: "ktotal a \<Longrightarrow> ktotal (kwhen c a)"
  by (simp add: ktotal_def)

lemma ktotal_kfor [ktotal_intros]: "(\<And>x. x \<in> set xs \<Longrightarrow> ktotal (f x)) \<Longrightarrow> ktotal (kfor xs f)"
  by (induction xs) (auto intro: ktotal_intros)

lemma kwaits_env_step: "kwaits env_step"
  by (auto simp: kwaits_def env_step_def split: list.splits)

lemma kwaits_kthen_left: "kwaits m \<Longrightarrow> ktotal k \<Longrightarrow> kwaits (kthen m k)"
  unfolding kwaits_def ktotal_def kthen_def kbind_def
  by (fastforce split: res.splits)

lemma kwaits_kthen_right: "ktotal m \<Longrightarrow> kwaits k \<Longrightarrow> kwaits (kthen m k)"
  unfolding kwaits_def ktotal_def kthen_def kbind_def
  by (fastforce split: res.splits)

lemma kwaits_kbind: "ktotal m \<Longrightarrow> (\<And>x. kwaits (f x)) \<Longrightarrow> kwaits (kbind m f)"
  unfolding kwaits_def ktotal_def kbind_def
  by (fastforce split: res.splits)

lemma kwaits_kpanic: "kwaits (kpanic msg)" "kwaits kundef"
  by (simp_all add: kwaits_def)

text \<open>The pending actions are fuel enough for a loop that waits in every round.\<close>

lemma kwhile_total:
  assumes "ktotal body" and "kwaits body"
  shows "length (snd w) < n \<Longrightarrow> (\<forall>w'. kwhile n c body w \<noteq> NoFuel w') \<and>
     (\<forall>x w'. kwhile n c body w = Ok x w' \<longrightarrow> length (snd w') \<le> length (snd w))"
proof (induction n arbitrary: w)
  case 0
  then show ?case by simp
next
  case (Suc n)
  show ?case
  proof (cases "c (fst w)")
    case True
    show ?thesis
    proof (cases "body w")
      case (Ok x w1)
      with assms(2) have "length (snd w1) < length (snd w)" unfolding kwaits_def by blast
      moreover from this Suc.prems have "length (snd w1) < n" by simp
      note Suc.IH [OF this]
      ultimately show ?thesis using True Ok by (fastforce simp: kthen_def kbind_def)
    next
      case (NoFuel w1)
      then show ?thesis using assms(1) unfolding ktotal_def by blast
    qed (use True in \<open>simp_all add: kthen_def kbind_def\<close>)
  qed simp
qed

lemma kloop_total [ktotal_intros]: "ktotal body \<Longrightarrow> kwaits body \<Longrightarrow> ktotal (kloop c body)"
  using kwhile_total [of body] unfolding ktotal_def [of "kloop c body"] kloop_def by blast

lemma kloop_done: "\<not> c s \<Longrightarrow> kloop c body (s, e) = Ok () (s, e)"
  by (simp add: kloop_def)

lemma ktotal_case_option [ktotal_intros]:
  "ktotal a \<Longrightarrow> (\<And>x. ktotal (f x)) \<Longrightarrow> ktotal (case v of None \<Rightarrow> a | Some x \<Rightarrow> f x)"
  by (cases v) auto

lemma ktotal_if [ktotal_intros]: "ktotal a \<Longrightarrow> ktotal b \<Longrightarrow> ktotal (if c then a else b)"
  by simp

end
