(* ===== verification/CString.thy ===== *)
theory CString
  imports Prelude
begin

text \<open>
  kernel/string.c. Memory is a function from addresses to bytes; an array inside a struct
  is a list of characters of the array's size. The routines that work on memory are
  written as the byte loops of the source, and shown to do the simultaneous copy or fill
  that their callers rely on.
\<close>

section \<open>Memory as bytes\<close>

type_synonym mem = "u64 \<Rightarrow> u8"

fun mem_write :: "mem \<Rightarrow> u64 \<Rightarrow> u8 list \<Rightarrow> mem" where
  "mem_write m a [] = m"
| "mem_write m a (b # bs) = mem_write (m(a := b)) (a + 1) bs"

definition mem_read :: "mem \<Rightarrow> u64 \<Rightarrow> nat \<Rightarrow> u8 list" where
  "mem_read m a n = map (\<lambda>i. m (a + of_nat i)) [0..<n]"

definition in_range :: "u64 \<Rightarrow> u64 \<Rightarrow> nat \<Rightarrow> bool" where
  "in_range x a n \<longleftrightarrow> unat (x - a) < n"

lemma unat_add64: "unat a + unat b < 2 ^ 64 \<Longrightarrow> unat (a + b :: u64) = unat a + unat b"
  by (simp add: unat_word_ariths(1))

lemma unat_of_nat64: "n < 2 ^ 64 \<Longrightarrow> unat (of_nat n :: u64) = n"
  by (simp add: unat_of_nat take_bit_eq_mod)

lemma word_eq_add_iff: "n < 2 ^ 64 \<Longrightarrow> (x :: u64) = d + of_nat n \<longleftrightarrow> unat (x - d) = n"
proof -
  assume n: "n < 2 ^ 64"
  have "x = d + of_nat n \<longleftrightarrow> x - d = of_nat n" by (auto simp: algebra_simps)
  also have "\<dots> \<longleftrightarrow> unat (x - d) = n"
    using n by (simp add: word_unat_eq_iff unat_of_nat64 del: unat_of_nat)
  finally show ?thesis .
qed

lemma length_mem_read [simp]: "length (mem_read m a n) = n"
  by (simp add: mem_read_def)

lemma nth_mem_read: "i < n \<Longrightarrow> mem_read m a n ! i = m (a + of_nat i)"
  by (simp add: mem_read_def)

lemma unat_minus_one: "(x :: u64) \<noteq> 0 \<Longrightarrow> unat (x - 1) = unat x - 1"
  by (simp add: unat_minus_one)

lemma in_range_Suc:
  assumes "Suc n \<le> 2 ^ 64"
  shows "in_range x a (Suc n) \<longleftrightarrow> x = a \<or> in_range x (a + 1) n"
proof (cases "x = a")
  case True
  then show ?thesis by (simp add: in_range_def)
next
  case False
  then have "x - a \<noteq> 0" by simp
  then have "unat (x - a - 1) = unat (x - a) - 1" and "0 < unat (x - a)"
    by (simp_all add: unat_minus_one unat_gt_0)
  moreover have "x - a - 1 = x - (a + 1)" by simp
  ultimately show ?thesis using False by (auto simp: in_range_def)
qed

lemma mem_write_at:
  "length bs \<le> 2 ^ 64 \<Longrightarrow>
   mem_write m a bs x = (if in_range x a (length bs) then bs ! unat (x - a) else m x)"
proof (induction m a bs rule: mem_write.induct)
  case (1 m a)
  then show ?case by (simp add: in_range_def)
next
  case (2 m a b bs)
  have IH: "mem_write (m(a := b)) (a + 1) bs x =
      (if in_range x (a + 1) (length bs) then bs ! unat (x - (a + 1)) else (m(a := b)) x)"
    using "2.IH" "2.prems" by (simp del: fun_upd_apply)
  show ?case
  proof (cases "x = a")
    case True
    have "unat (- (1 :: u64)) = 2 ^ 64 - 1"
      by (simp add: unsigned_minus_1_eq_mask mask_eq_exp_minus_1)
    then have "\<not> in_range a (a + 1) (length bs)"
      using 2 by (simp add: in_range_def)
    then show ?thesis using True IH by (simp add: in_range_def)
  next
    case False
    then have nz: "x - a \<noteq> 0" by simp
    have e: "x - a - 1 = x - (a + 1)" by simp
    have "unat (x - (a + 1)) = unat (x - a) - 1" using unat_minus_one [OF nz] unfolding e .
    moreover have "0 < unat (x - a)" using nz by (simp add: unat_gt_0)
    ultimately show ?thesis
      using False IH 2 in_range_Suc [of "length bs" x a] by simp
  qed
qed

lemma mem_read_write_same:
  "length bs \<le> 2 ^ 64 \<Longrightarrow> mem_read (mem_write m a bs) a (length bs) = bs"
  by (rule nth_equalityI) (auto simp: nth_mem_read mem_write_at in_range_def unat_of_nat
        take_bit_eq_mod less_le_trans)

lemma mem_read_write_other:
  assumes "length bs \<le> 2 ^ 64" and "\<And>i. i < n \<Longrightarrow> \<not> in_range (c + of_nat i) a (length bs)"
  shows "mem_read (mem_write m a bs) c n = mem_read m c n"
  by (rule nth_equalityI) (use assms in \<open>auto simp: nth_mem_read mem_write_at\<close>)

text \<open>Loads and stores of 64-bit values (page table entries, trap frames).\<close>

definition ld64 :: "mem \<Rightarrow> u64 \<Rightarrow> u64" where
  "ld64 m a = of_nat (le_dec (mem_read m a 8))"

definition st64 :: "mem \<Rightarrow> u64 \<Rightarrow> u64 \<Rightarrow> mem" where
  "st64 m a v = mem_write m a (le_enc 8 (unat v))"

lemma ld64_st64_same: "ld64 (st64 m a v) a = v"
proof -
  have "mem_read (st64 m a v) a 8 = le_enc 8 (unat v)"
    using mem_read_write_same [of "le_enc 8 (unat v)" m a] by (simp add: st64_def)
  moreover have "unat v < 256 ^ 8" using unsigned_less [of v] by simp
  ultimately show ?thesis by (simp add: ld64_def le_dec_enc)
qed

lemma ld64_cong: "(\<And>i. i < 8 \<Longrightarrow> m (a + of_nat i) = m' (a + of_nat i)) \<Longrightarrow> ld64 m a = ld64 m' a"
  unfolding ld64_def mem_read_def by (rule arg_cong [where f = "\<lambda>x. of_nat (le_dec x)"]) simp

text \<open>Two 8-byte cells at addresses that are both multiples of 8 are equal or disjoint.\<close>

definition aligned8 :: "u64 \<Rightarrow> bool" where
  "aligned8 a \<longleftrightarrow> unat a mod 8 = 0"

lemma unat_diff_mod8: "(unat ((x :: u64) - y)) mod 8 = nat ((uint x - uint y) mod 8)"
proof -
  have "uint (x - y) mod 8 = (uint x - uint y) mod 8"
    by (simp add: uint_word_ariths(2) mod_mod_cancel)
  then show ?thesis
    by (metis nat_mod_distrib nat_numeral uint_ge_0 unat_eq_nat_uint zero_le_numeral)
qed

lemma aligned8_disjoint:
  assumes "aligned8 a" and "aligned8 c" and "a \<noteq> c" and "i < 8"
  shows "\<not> in_range (c + of_nat i) a 8"
proof
  assume "in_range (c + of_nat i) a 8"
  then have lt: "unat ((c - a) + of_nat i) < 8" by (simp add: in_range_def algebra_simps)
  have ua: "uint a mod 8 = 0" "uint c mod 8 = 0"
    using assms zmod_int [of "unat a" 8] zmod_int [of "unat c" 8]
    by (simp_all add: aligned8_def)
  have "(uint c - uint a) mod 8 = 0"
    using ua by presburger
  then have "unat (c - a) mod 8 = 0"
    by (simp add: unat_diff_mod8)
  then obtain k where k: "unat (c - a) = 8 * k" by (metis mod_0_imp_dvd dvdE)
  have "c - a \<noteq> 0" using assms by simp
  then have "0 < k" using k unat_gt_0 [of "c - a"] by simp
  then have ge: "8 \<le> unat (c - a)" using k by simp
  have "unat (c - a) < 2 ^ 64" using unsigned_less [of "c - a"] by simp
  then have "k < 2 ^ 61" using k by simp
  then have "unat (c - a) + unat (of_nat i :: u64) < 2 ^ 64"
    using k assms(4) by (simp add: unat_of_nat64)
  then have "unat ((c - a) + of_nat i) = unat (c - a) + i"
    using assms(4) by (simp add: unat_add64 unat_of_nat64)
  with lt ge show False by simp
qed

lemma ld64_st64_other:
  assumes "aligned8 a" and "aligned8 c" and "a \<noteq> c"
  shows "ld64 (st64 m a v) c = ld64 m c"
  unfolding st64_def
  by (rule ld64_cong) (use aligned8_disjoint [OF assms] in \<open>simp add: mem_write_at\<close>)

section \<open>The routines of string.c\<close>

text \<open>memset, memmove (which copes with overlap), memcpy, on memory.\<close>

definition memset :: "mem \<Rightarrow> u64 \<Rightarrow> u8 \<Rightarrow> nat \<Rightarrow> mem" where
  "memset m dst c n = fold (\<lambda>i m. m(dst + of_nat i := c)) [0..<n] m"

fun memmove_back :: "mem \<Rightarrow> u64 \<Rightarrow> u64 \<Rightarrow> nat \<Rightarrow> mem" where
  "memmove_back m d s 0 = m"
| "memmove_back m d s (Suc n) = memmove_back (m(d - 1 := m (s - 1))) (d - 1) (s - 1) n"

fun memmove_fwd :: "mem \<Rightarrow> u64 \<Rightarrow> u64 \<Rightarrow> nat \<Rightarrow> mem" where
  "memmove_fwd m d s 0 = m"
| "memmove_fwd m d s (Suc n) = memmove_fwd (m(d := m s)) (d + 1) (s + 1) n"

definition memmove :: "mem \<Rightarrow> u64 \<Rightarrow> u64 \<Rightarrow> nat \<Rightarrow> mem" where
  "memmove m dst src n =
     (if n = 0 then m
      else if src < dst \<and> src + of_nat n > dst
      then memmove_back m (dst + of_nat n) (src + of_nat n) n
      else memmove_fwd m dst src n)"

definition memcpy :: "mem \<Rightarrow> u64 \<Rightarrow> u64 \<Rightarrow> nat \<Rightarrow> mem" where
  "memcpy m dst src n = memmove m dst src n"

fun memcmp :: "u8 list \<Rightarrow> u8 list \<Rightarrow> int" where
  "memcmp (x # xs) (y # ys) = (if x \<noteq> y then uint x - uint y else memcmp xs ys)"
| "memcmp _ _ = 0"

text \<open>The string routines.\<close>

fun strncmp :: "string \<Rightarrow> string \<Rightarrow> nat \<Rightarrow> int" where
  "strncmp p q 0 = 0"
| "strncmp p q (Suc n) =
     (if char_at p 0 \<noteq> NUL \<and> char_at p 0 = char_at q 0 then strncmp (tl p) (tl q) n
      else of_char (char_at p 0) - of_char (char_at q 0))"

fun strncpy :: "char list \<Rightarrow> string \<Rightarrow> nat \<Rightarrow> char list" where
  "strncpy s t 0 = s"
| "strncpy s t (Suc n) =
     (if char_at t 0 \<noteq> NUL then char_at t 0 # strncpy (tl s) (tl t) n
      else NUL # replicate n NUL @ drop (Suc n) s)"

text \<open>
  The copying loop of safestrcpy: it leaves by the count, or after storing the NUL, and in
  both cases stores one more NUL behind.
\<close>

fun safestrcpy_loop :: "char list \<Rightarrow> string \<Rightarrow> nat \<Rightarrow> char list" where
  "safestrcpy_loop s t 0 = NUL # drop 1 s"
| "safestrcpy_loop s t (Suc n) =
     (if char_at t 0 \<noteq> NUL then char_at t 0 # safestrcpy_loop (tl s) (tl t) n
      else NUL # NUL # drop 2 s)"

definition safestrcpy :: "char list \<Rightarrow> string \<Rightarrow> int \<Rightarrow> char list" where
  "safestrcpy s t n = (if n \<le> 0 then s else safestrcpy_loop s t (nat n - 1))"

fun strlen :: "string \<Rightarrow> nat" where
  "strlen [] = 0"
| "strlen (c # cs) = (if c = NUL then 0 else Suc (strlen cs))"

lemma strlen_cstr: "strlen s = length (cstr s)"
  by (induction s) (auto simp: cstr_def)

lemma cstr_safestrcpy_loop: "cstr (safestrcpy_loop s t n) = take n (cstr t)"
proof (induction s t n rule: safestrcpy_loop.induct)
  case (1 s t)
  then show ?case by (simp add: cstr_def)
next
  case (2 s t n)
  then show ?case by (cases t) (auto simp: cstr_def)
qed

lemma length_safestrcpy_loop: "Suc n \<le> length s \<Longrightarrow> length (safestrcpy_loop s t n) = length s"
proof (induction s t n rule: safestrcpy_loop.induct)
  case (1 s t)
  then show ?case by (cases s) simp_all
next
  case (2 s t n)
  then show ?case by (cases s; cases "tl s") auto
qed

lemma safestrcpy_cstr: "0 < n \<Longrightarrow> cstr (safestrcpy s t n) = take (nat n - 1) (cstr t)"
  by (simp add: safestrcpy_def cstr_safestrcpy_loop)

lemma safestrcpy_length:
  assumes "n \<le> int (length s)"
  shows "length (safestrcpy s t n) = length s"
proof (cases "n \<le> 0")
  case False
  then have "Suc (nat n - 1) \<le> length s" using assms by linarith
  then show ?thesis using False by (simp add: safestrcpy_def length_safestrcpy_loop)
qed (simp add: safestrcpy_def)

lemma length_strncpy: "n \<le> length s \<Longrightarrow> length (strncpy s t n) = length s"
proof (induction s t n rule: strncpy.induct)
  case (2 s t n)
  then show ?case by (cases s) auto
qed simp

lemma take_Cons_replicate: "k \<le> n \<Longrightarrow> take k (c # replicate n c) = replicate k c"
  by (cases k) (simp_all add: min_def)

lemma strncpy_take: "n \<le> length s \<Longrightarrow>
   take n (strncpy s t n) = take n (cstr t @ replicate n NUL)"
proof (induction s t n rule: strncpy.induct)
  case (2 s t n)
  then show ?case
  proof (cases "char_at t 0 = NUL")
    case True
    then have "cstr t = []" by (cases t) (auto simp: cstr_def)
    then show ?thesis using True by (simp add: min_def)
  next
    case False
    then obtain c cs where t: "t = c # cs" and c: "c \<noteq> NUL" by (cases t) auto
    have "take n (strncpy (tl s) cs n) = take n (cstr cs @ replicate n NUL)"
      using 2 t c by (cases s) auto
    moreover have "take n (cstr cs @ replicate (Suc n) NUL) = take n (cstr cs @ replicate n NUL)"
      using take_Cons_replicate [of "n - length (cstr cs)" n NUL] by (simp add: min_def)
    ultimately show ?thesis using t c by (simp add: cstr_def)
  qed
qed simp

text \<open>strncmp compares the first \<open>n\<close> characters of the two C strings.\<close>

lemma strncmp_zero_iff: "strncmp p q n = 0 \<longleftrightarrow> take n (cstr p) = take n (cstr q)"
proof (induction p q n rule: strncmp.induct)
  case (2 p q n)
  have inj: "(of_char c - of_char d = (0 :: int)) = (c = d)" for c d
    by (simp add: of_char_eq_iff)
  have zero: "(of_char c = (0 :: int)) = (c = NUL)" for c
    using of_char_eq_iff [of c NUL] by simp
  show ?case
  proof (cases "char_at p 0 \<noteq> NUL \<and> char_at p 0 = char_at q 0")
    case True
    then obtain c p' q' where "p = c # p'" and "q = c # q'" and "c \<noteq> NUL"
      by (cases p; cases q) auto
    then show ?thesis using 2 True by (simp add: cstr_def)
  next
    case False
    then show ?thesis by (cases p; cases q) (auto simp: inj zero cstr_def)
  qed
qed simp

section \<open>memset and memmove do the simultaneous fill and copy\<close>

lemma memset_at:
  "n \<le> 2 ^ 64 \<Longrightarrow> memset m d c n x = (if in_range x d n then c else m x)"
proof (induction n)
  case 0
  then show ?case by (simp add: memset_def in_range_def)
next
  case (Suc n)
  then have IH: "memset m d c n x = (if in_range x d n then c else m x)" by simp
  have "x = d + of_nat n \<longleftrightarrow> unat (x - d) = n"
    by (rule word_eq_add_iff) (use Suc.prems in simp)
  moreover have "memset m d c (Suc n) x = (if x = d + of_nat n then c else memset m d c n x)"
    by (simp add: memset_def)
  ultimately show ?case using IH by (auto simp: in_range_def)
qed

lemma mem_read_memset: "n \<le> 2 ^ 64 \<Longrightarrow> mem_read (memset m d c n) d n = replicate n c"
  by (rule nth_equalityI)
    (auto simp: nth_mem_read memset_at in_range_def unat_of_nat take_bit_eq_mod less_le_trans)

lemma memmove_back_at:
  assumes "unat s < unat d" and "unat d + n \<le> 2 ^ 64"
  shows "memmove_back m (d + of_nat n) (s + of_nat n) n x =
     (if in_range x d n then m (s + (x - d)) else m x)"
  using assms(2)
proof (induction n arbitrary: m)
  case 0
  then show ?case by (simp add: in_range_def)
next
  case (Suc n)
  have uds: "unat (d - s) = unat d - unat s"
    using assms(1) by (simp add: unat_sub word_le_nat_alt)
  have un: "unat (of_nat n :: u64) = n"
    by (rule unat_of_nat64) (use Suc.prems in simp)
  let ?m = "m(d + of_nat n := m (s + of_nat n))"
  have e: "d + of_nat (Suc n) - 1 = d + of_nat n" "s + of_nat (Suc n) - 1 = s + of_nat n"
    by simp_all
  have "memmove_back m (d + of_nat (Suc n)) (s + of_nat (Suc n)) (Suc n) x =
      memmove_back ?m (d + of_nat n) (s + of_nat n) n x"
    by (simp only: memmove_back.simps e)
  also have "\<dots> = (if in_range x d n then ?m (s + (x - d)) else ?m x)"
    by (rule Suc.IH) (use Suc.prems in simp)
  also have "\<dots> = (if in_range x d (Suc n) then m (s + (x - d)) else m x)"
  proof -
    have iff: "x = d + of_nat n \<longleftrightarrow> unat (x - d) = n"
      by (rule word_eq_add_iff) (use Suc.prems in simp)
    have ne: "s + (x - d) \<noteq> d + of_nat n" if "unat (x - d) < n"
    proof
      assume "s + (x - d) = d + of_nat n"
      then have eq: "x - d = (d - s) + of_nat n" by (simp add: algebra_simps)
      have "unat ((d - s) + of_nat n) = unat (d - s) + n"
        using uds un Suc.prems assms(1) unat_add64 [of "d - s" "of_nat n"] by simp
      then have "unat (x - d) = unat (d - s) + n" by (simp only: eq)
      then show False using that by simp
    qed
    consider "unat (x - d) < n" | "unat (x - d) = n" | "n < unat (x - d)" by linarith
    then show ?thesis
    proof cases
      case 1
      then show ?thesis using ne [OF 1] by (simp add: in_range_def)
    next
      case 2
      then have "x = d + of_nat n" using iff by simp
      then show ?thesis using 2 by (simp add: in_range_def)
    next
      case 3
      then show ?thesis using iff by (simp add: in_range_def)
    qed
  qed
  finally show ?case .
qed

lemma memmove_fwd_at:
  assumes "unat d \<le> unat s \<or> unat s + n \<le> unat d" and "unat s + n \<le> 2 ^ 64" and "unat d + n \<le> 2 ^ 64"
  shows "memmove_fwd m d s n x = (if in_range x d n then m (s + (x - d)) else m x)"
  using assms
proof (induction n arbitrary: m d s)
  case 0
  then show ?case by (simp add: in_range_def)
next
  case (Suc n)
  show ?case
  proof (cases "n = 0")
    case True
    then show ?thesis by (auto simp: in_range_def unat_eq_0)
  next
    case False
    then have us: "unat (s + 1) = unat s + 1" and ud: "unat (d + 1) = unat d + 1"
      using Suc.prems by (simp_all add: unat_word_ariths(1))
    let ?m = "m(d := m s)"
    have IH: "memmove_fwd ?m (d + 1) (s + 1) n x =
        (if in_range x (d + 1) n then ?m ((s + 1) + (x - (d + 1))) else ?m x)"
      by (rule Suc.IH) (use Suc.prems us ud in auto)
    have ne: "s + (x - d) \<noteq> d" if "in_range x (d + 1) n"
    proof
      assume a: "s + (x - d) = d"
      have lt: "unat (x - (d + 1)) < n" using that by (simp add: in_range_def)
      have eq: "d = (s + 1) + (x - (d + 1))" using a by simp
      have "unat (s + 1) + unat (x - (d + 1)) < 2 ^ 64" using lt us Suc.prems(2) by arith
      then have "unat ((s + 1) + (x - (d + 1))) = unat (s + 1) + unat (x - (d + 1))"
        by (rule unat_add64)
      then have "unat d = unat (s + 1) + unat (x - (d + 1))" by (simp only: eq [symmetric])
      then show False using lt us Suc.prems(1) by arith
    qed
    have "s + 1 + (x - (d + 1)) = s + (x - d)" by simp
    then show ?thesis using IH ne in_range_Suc [of n x d] Suc.prems by auto
  qed
qed

theorem memmove_at:
  assumes "unat s + n \<le> 2 ^ 64" and "unat d + n \<le> 2 ^ 64"
  shows "memmove m d s n x = (if in_range x d n then m (s + (x - d)) else m x)"
proof (cases "s < d \<and> s + of_nat n > d \<and> n \<noteq> 0")
  case True
  then have "unat s < unat d" by (simp add: word_less_nat_alt)
  then show ?thesis using memmove_back_at [OF _ assms(2)] True by (simp add: memmove_def)
next
  case False
  have "unat d \<le> unat s \<or> unat s + n \<le> unat d" if n: "n \<noteq> 0"
  proof (cases "s < d")
    case True
    then have le: "s + of_nat n \<le> d" using False n by simp
    have "unat d < 2 ^ 64" using unsigned_less [of d] by simp
    then have "unat (of_nat n :: u64) = n"
      using assms True by (simp add: unat_of_nat take_bit_eq_mod word_less_nat_alt)
    show ?thesis
    proof (cases "unat s + n = 2 ^ 64")
      case True
      then show ?thesis using \<open>s < d\<close> assms n by (simp add: word_less_nat_alt)
    next
      case False
      then have "unat (s + of_nat n) = unat s + n"
        using assms \<open>unat (of_nat n :: u64) = n\<close> by (simp add: unat_word_ariths(1))
      then show ?thesis using le by (simp add: word_le_nat_alt)
    qed
  qed (simp add: word_less_nat_alt)
  then show ?thesis
    using memmove_fwd_at [OF _ assms] False by (auto simp: memmove_def in_range_def)
qed

lemma memmove_eq_write:
  assumes "unat s + n \<le> 2 ^ 64" and "unat d + n \<le> 2 ^ 64"
  shows "memmove m d s n = mem_write m d (mem_read m s n)"
proof
  fix x
  have "n \<le> 2 ^ 64" using assms by simp
  then show "memmove m d s n x = mem_write m d (mem_read m s n) x"
    using memmove_at [OF assms] by (auto simp: mem_write_at nth_mem_read in_range_def)
qed

end
