(* ===== verification/Machine.thy ===== *)
theory Machine
  imports CString
begin

text \<open>
  One hart of the machine and the spin locks: kernel/riscv.h (control registers, interrupt
  enable), struct cpu of kernel/proc.h, cpuid and mycpu of kernel/proc.c, kernel/spinlock.c
  and the machine-mode start-up of kernel/start.c. The state of every later theory extends
  the record \<open>machine\<close>, so that these operations apply to it unchanged.
\<close>

section \<open>Registers\<close>

datatype reg =
    RA | SP | GP | TP | T0 | T1 | T2 | S0 | S1
  | A0 | A1 | A2 | A3 | A4 | A5 | A6 | A7
  | S2 | S3 | S4 | S5 | S6 | S7 | S8 | S9 | S10 | S11
  | T3 | T4 | T5 | T6

record csrs =
  csr_mhartid :: u64
  csr_mstatus :: u64
  csr_mepc :: u64
  csr_sstatus :: u64
  csr_sip :: u64
  csr_sie :: u64
  csr_mie :: u64
  csr_sepc :: u64
  csr_medeleg :: u64
  csr_mideleg :: u64
  csr_stvec :: u64
  csr_stimecmp :: u64
  csr_menvcfg :: u64
  csr_pmpcfg0 :: u64
  csr_pmpaddr0 :: u64
  csr_satp :: u64
  csr_scause :: u64
  csr_stval :: u64
  csr_mcounteren :: u64
  csr_time :: u64

text \<open>Registers a context switch saves (struct context).\<close>

record kcontext =
  ctx_ra :: u64
  ctx_sp :: u64
  ctx_s :: "nat \<Rightarrow> u64"

text \<open>struct cpu; \<open>cproc\<close> is the index of the running process in the process table.\<close>

record cpu =
  cproc :: "nat option"
  ccontext :: kcontext
  noff :: int
  intena :: bool

text \<open>struct spinlock; the locks of the kernel are named by the object they sit in.\<close>

record spinlock =
  locked :: u32
  lname :: string
  lcpu :: "nat option"

datatype lockid =
    LkPr | LkLogbuf | LkTicks | LkUartTx | LkCons | LkKmem | LkPid | LkWait
  | LkProc nat | LkBcache | LkLog | LkItable | LkFtable | LkDisk
  | LkBufSleep nat | LkInodeSleep nat | LkPipe u64

text \<open>
  \<open>gpr\<close> holds the value each register has when code reads it, \<open>pmem\<close> is physical memory
  (mapped at the same addresses in the kernel), \<open>kmapped\<close> tells the kernel addresses a load
  may touch without a page fault.
\<close>

record machine =
  csr :: csrs
  gpr :: "reg \<Rightarrow> u64"
  cpus :: "nat \<Rightarrow> cpu"
  locks :: "lockid \<Rightarrow> spinlock"
  pmem :: mem
  kmapped :: "u64 \<Rightarrow> bool"

definition NCPU :: nat where "NCPU = 8"

section \<open>Control and status registers\<close>

definition r_mhartid :: "('a machine_scheme, u64) kfun" where
  "r_mhartid = kget (\<lambda>s. csr_mhartid (csr s))"

definition r_mstatus :: "('a machine_scheme, u64) kfun" where
  "r_mstatus = kget (\<lambda>s. csr_mstatus (csr s))"

definition w_mstatus :: "u64 \<Rightarrow> ('a machine_scheme, unit) kfun" where
  "w_mstatus x = kmod (\<lambda>s. s\<lparr>csr := (csr s)\<lparr>csr_mstatus := x\<rparr>\<rparr>)"

definition w_mepc :: "u64 \<Rightarrow> ('a machine_scheme, unit) kfun" where
  "w_mepc x = kmod (\<lambda>s. s\<lparr>csr := (csr s)\<lparr>csr_mepc := x\<rparr>\<rparr>)"

definition r_sstatus :: "('a machine_scheme, u64) kfun" where
  "r_sstatus = kget (\<lambda>s. csr_sstatus (csr s))"

definition w_sstatus :: "u64 \<Rightarrow> ('a machine_scheme, unit) kfun" where
  "w_sstatus x = kmod (\<lambda>s. s\<lparr>csr := (csr s)\<lparr>csr_sstatus := x\<rparr>\<rparr>)"

definition r_sip :: "('a machine_scheme, u64) kfun" where
  "r_sip = kget (\<lambda>s. csr_sip (csr s))"

definition w_sip :: "u64 \<Rightarrow> ('a machine_scheme, unit) kfun" where
  "w_sip x = kmod (\<lambda>s. s\<lparr>csr := (csr s)\<lparr>csr_sip := x\<rparr>\<rparr>)"

definition r_sie :: "('a machine_scheme, u64) kfun" where
  "r_sie = kget (\<lambda>s. csr_sie (csr s))"

definition w_sie :: "u64 \<Rightarrow> ('a machine_scheme, unit) kfun" where
  "w_sie x = kmod (\<lambda>s. s\<lparr>csr := (csr s)\<lparr>csr_sie := x\<rparr>\<rparr>)"

definition r_mie :: "('a machine_scheme, u64) kfun" where
  "r_mie = kget (\<lambda>s. csr_mie (csr s))"

definition w_mie :: "u64 \<Rightarrow> ('a machine_scheme, unit) kfun" where
  "w_mie x = kmod (\<lambda>s. s\<lparr>csr := (csr s)\<lparr>csr_mie := x\<rparr>\<rparr>)"

definition w_sepc :: "u64 \<Rightarrow> ('a machine_scheme, unit) kfun" where
  "w_sepc x = kmod (\<lambda>s. s\<lparr>csr := (csr s)\<lparr>csr_sepc := x\<rparr>\<rparr>)"

definition r_sepc :: "('a machine_scheme, u64) kfun" where
  "r_sepc = kget (\<lambda>s. csr_sepc (csr s))"

definition r_medeleg :: "('a machine_scheme, u64) kfun" where
  "r_medeleg = kget (\<lambda>s. csr_medeleg (csr s))"

definition w_medeleg :: "u64 \<Rightarrow> ('a machine_scheme, unit) kfun" where
  "w_medeleg x = kmod (\<lambda>s. s\<lparr>csr := (csr s)\<lparr>csr_medeleg := x\<rparr>\<rparr>)"

definition r_mideleg :: "('a machine_scheme, u64) kfun" where
  "r_mideleg = kget (\<lambda>s. csr_mideleg (csr s))"

definition w_mideleg :: "u64 \<Rightarrow> ('a machine_scheme, unit) kfun" where
  "w_mideleg x = kmod (\<lambda>s. s\<lparr>csr := (csr s)\<lparr>csr_mideleg := x\<rparr>\<rparr>)"

definition w_stvec :: "u64 \<Rightarrow> ('a machine_scheme, unit) kfun" where
  "w_stvec x = kmod (\<lambda>s. s\<lparr>csr := (csr s)\<lparr>csr_stvec := x\<rparr>\<rparr>)"

definition r_stvec :: "('a machine_scheme, u64) kfun" where
  "r_stvec = kget (\<lambda>s. csr_stvec (csr s))"

definition r_stimecmp :: "('a machine_scheme, u64) kfun" where
  "r_stimecmp = kget (\<lambda>s. csr_stimecmp (csr s))"

definition w_stimecmp :: "u64 \<Rightarrow> ('a machine_scheme, unit) kfun" where
  "w_stimecmp x = kmod (\<lambda>s. s\<lparr>csr := (csr s)\<lparr>csr_stimecmp := x\<rparr>\<rparr>)"

definition r_menvcfg :: "('a machine_scheme, u64) kfun" where
  "r_menvcfg = kget (\<lambda>s. csr_menvcfg (csr s))"

definition w_menvcfg :: "u64 \<Rightarrow> ('a machine_scheme, unit) kfun" where
  "w_menvcfg x = kmod (\<lambda>s. s\<lparr>csr := (csr s)\<lparr>csr_menvcfg := x\<rparr>\<rparr>)"

definition w_pmpcfg0 :: "u64 \<Rightarrow> ('a machine_scheme, unit) kfun" where
  "w_pmpcfg0 x = kmod (\<lambda>s. s\<lparr>csr := (csr s)\<lparr>csr_pmpcfg0 := x\<rparr>\<rparr>)"

definition w_pmpaddr0 :: "u64 \<Rightarrow> ('a machine_scheme, unit) kfun" where
  "w_pmpaddr0 x = kmod (\<lambda>s. s\<lparr>csr := (csr s)\<lparr>csr_pmpaddr0 := x\<rparr>\<rparr>)"

definition w_satp :: "u64 \<Rightarrow> ('a machine_scheme, unit) kfun" where
  "w_satp x = kmod (\<lambda>s. s\<lparr>csr := (csr s)\<lparr>csr_satp := x\<rparr>\<rparr>)"

definition r_satp :: "('a machine_scheme, u64) kfun" where
  "r_satp = kget (\<lambda>s. csr_satp (csr s))"

definition r_scause :: "('a machine_scheme, u64) kfun" where
  "r_scause = kget (\<lambda>s. csr_scause (csr s))"

definition r_stval :: "('a machine_scheme, u64) kfun" where
  "r_stval = kget (\<lambda>s. csr_stval (csr s))"

definition w_mcounteren :: "u64 \<Rightarrow> ('a machine_scheme, unit) kfun" where
  "w_mcounteren x = kmod (\<lambda>s. s\<lparr>csr := (csr s)\<lparr>csr_mcounteren := x\<rparr>\<rparr>)"

definition r_mcounteren :: "('a machine_scheme, u64) kfun" where
  "r_mcounteren = kget (\<lambda>s. csr_mcounteren (csr s))"

definition r_time :: "('a machine_scheme, u64) kfun" where
  "r_time = kget (\<lambda>s. csr_time (csr s))"

definition r_sp :: "('a machine_scheme, u64) kfun" where
  "r_sp = kget (\<lambda>s. gpr s SP)"

definition r_tp :: "('a machine_scheme, u64) kfun" where
  "r_tp = kget (\<lambda>s. gpr s TP)"

definition w_tp :: "u64 \<Rightarrow> ('a machine_scheme, unit) kfun" where
  "w_tp x = kmod (\<lambda>s. s\<lparr>gpr := (gpr s)(TP := x)\<rparr>)"

definition r_ra :: "('a machine_scheme, u64) kfun" where
  "r_ra = kget (\<lambda>s. gpr s RA)"

text \<open>The model has no TLB, so flushing it changes nothing.\<close>

definition sfence_vma :: "('a machine_scheme, unit) kfun" where
  "sfence_vma = kret ()"

definition MSTATUS_MPP_MASK :: u64 where "MSTATUS_MPP_MASK = push_bit 11 3"
definition MSTATUS_MPP_S :: u64 where "MSTATUS_MPP_S = push_bit 11 1"
definition SSTATUS_SPP :: u64 where "SSTATUS_SPP = push_bit 8 1"
definition SSTATUS_SPIE :: u64 where "SSTATUS_SPIE = push_bit 5 1"
definition SSTATUS_SIE :: u64 where "SSTATUS_SIE = push_bit 1 1"
definition SIE_SEIE :: u64 where "SIE_SEIE = push_bit 9 1"
definition SIE_STIE :: u64 where "SIE_STIE = push_bit 5 1"
definition MIE_STIE :: u64 where "MIE_STIE = push_bit 5 1"

definition intr_on :: "('a machine_scheme, unit) kfun" where
  "intr_on = kbind r_sstatus (\<lambda>x. w_sstatus (x OR SSTATUS_SIE))"

definition intr_off :: "('a machine_scheme, unit) kfun" where
  "intr_off = kbind r_sstatus (\<lambda>x. w_sstatus (x AND NOT SSTATUS_SIE))"

definition intr_get :: "('a machine_scheme, bool) kfun" where
  "intr_get = kbind r_sstatus (\<lambda>x. kret (x AND SSTATUS_SIE \<noteq> 0))"

lemmas csr_access_defs =
  r_mhartid_def r_mstatus_def w_mstatus_def w_mepc_def r_sstatus_def
  w_sstatus_def r_sip_def w_sip_def r_sie_def w_sie_def
  r_mie_def w_mie_def w_sepc_def r_sepc_def r_medeleg_def
  w_medeleg_def r_mideleg_def w_mideleg_def w_stvec_def r_stvec_def
  r_stimecmp_def w_stimecmp_def r_menvcfg_def w_menvcfg_def w_pmpcfg0_def
  w_pmpaddr0_def w_satp_def r_satp_def r_scause_def r_stval_def
  w_mcounteren_def r_mcounteren_def r_time_def r_sp_def r_tp_def
  w_tp_def r_ra_def sfence_vma_def

section \<open>Machine-mode start-up (start.c)\<close>

definition timerinit :: "('a machine_scheme, unit) kfun" where
  "timerinit = kseq
     [ kbind r_mie (\<lambda>x. w_mie (x OR MIE_STIE)),
       kbind r_menvcfg (\<lambda>x. w_menvcfg (x OR push_bit 63 1)),
       kbind r_mcounteren (\<lambda>x. w_mcounteren (x OR 2)),
       kbind r_time (\<lambda>t. w_stimecmp (t + 1000000)) ]"

text \<open>\<open>main_addr\<close> is the address of main; the mret that ends start() goes to it.\<close>

definition start :: "u64 \<Rightarrow> ('a machine_scheme, unit) kfun" where
  "start main_addr = kseq
     [ kbind r_mstatus (\<lambda>x. w_mstatus ((x AND NOT MSTATUS_MPP_MASK) OR MSTATUS_MPP_S)),
       w_mepc main_addr,
       w_satp 0,
       w_medeleg 0xffff,
       w_mideleg 0xffff,
       kbind r_sie (\<lambda>x. w_sie (x OR SIE_SEIE OR SIE_STIE)),
       w_pmpaddr0 0x3fffffffffffff,
       w_pmpcfg0 0xf,
       timerinit,
       kbind r_mhartid (\<lambda>i. w_tp (ucast (ucast i :: u32))) ]"

section \<open>The current hart\<close>

text \<open>\<open>int id = r_tp()\<close> keeps the low 32 bits.\<close>

definition cpuid :: "('a machine_scheme, int) kfun" where
  "cpuid = kbind r_tp (\<lambda>x. kret (sint (ucast x :: u32)))"

definition mycpu :: "('a machine_scheme, nat) kfun" where
  "mycpu = kbind cpuid (\<lambda>i. kret (nat i))"

definition hart :: "'a machine_scheme \<Rightarrow> nat" where
  "hart s = nat (sint (ucast (gpr s TP) :: u32))"

section \<open>Spin locks (spinlock.c)\<close>

definition initlock :: "lockid \<Rightarrow> string \<Rightarrow> ('a machine_scheme, unit) kfun" where
  "initlock lk name =
     kmod (\<lambda>s. s\<lparr>locks := (locks s)(lk := \<lparr>locked = 0, lname = name, lcpu = None\<rparr>)\<rparr>)"

definition set_cpu :: "nat \<Rightarrow> (cpu \<Rightarrow> cpu) \<Rightarrow> 'a machine_scheme \<Rightarrow> 'a machine_scheme" where
  "set_cpu c f s = s\<lparr>cpus := (cpus s)(c := f (cpus s c))\<rparr>"

definition set_lock :: "lockid \<Rightarrow> (spinlock \<Rightarrow> spinlock) \<Rightarrow> 'a machine_scheme \<Rightarrow> 'a machine_scheme" where
  "set_lock lk f s = s\<lparr>locks := (locks s)(lk := f (locks s lk))\<rparr>"

definition push_off :: "('a machine_scheme, unit) kfun" where
  "push_off = kbind intr_get (\<lambda>old. kseq
     [ intr_off,
       kbind mycpu (\<lambda>c. kwhen (\<lambda>s. noff (cpus s c) = 0)
         (kmod (set_cpu c (\<lambda>p. p\<lparr>intena := old\<rparr>)))),
       kbind mycpu (\<lambda>c. kmod (set_cpu c (\<lambda>p. p\<lparr>noff := noff p + 1\<rparr>))) ])"

definition pop_off :: "('a machine_scheme, unit) kfun" where
  "pop_off = kbind mycpu (\<lambda>c. kbind intr_get (\<lambda>on.
     if on then kpanic ''pop_off - interruptible''
     else kif (\<lambda>s. noff (cpus s c) < 1) (kpanic ''pop_off'')
       (kseq
         [ kmod (set_cpu c (\<lambda>p. p\<lparr>noff := noff p - 1\<rparr>)),
           kwhen (\<lambda>s. noff (cpus s c) = 0 \<and> intena (cpus s c)) intr_on ])))"

definition holding :: "lockid \<Rightarrow> ('a machine_scheme, bool) kfun" where
  "holding lk = kbind mycpu (\<lambda>c.
     kget (\<lambda>s. locked (locks s lk) \<noteq> 0 \<and> lcpu (locks s lk) = Some c))"

text \<open>
  \<open>while(__sync_lock_test_and_set(&lk->locked, 1) != 0);\<close> --- one atomic swap per round;
  between two rounds the other harts act.
\<close>

fun acquire_spin :: "lockid \<Rightarrow> ('a machine_scheme, unit) kfun" where
  "acquire_spin lk (s, []) =
     (if locked (locks s lk) = 0 then Ok () (set_lock lk (\<lambda>l. l\<lparr>locked := 1\<rparr>) s, [])
      else Blocked (set_lock lk (\<lambda>l. l\<lparr>locked := 1\<rparr>) s, []))"
| "acquire_spin lk (s, g # gs) =
     (if locked (locks s lk) = 0 then Ok () (set_lock lk (\<lambda>l. l\<lparr>locked := 1\<rparr>) s, g # gs)
      else acquire_spin lk (g (set_lock lk (\<lambda>l. l\<lparr>locked := 1\<rparr>) s), gs))"

definition acquire :: "lockid \<Rightarrow> ('a machine_scheme, unit) kfun" where
  "acquire lk = kseq
     [ push_off,
       kbind (holding lk) (\<lambda>h. if h then kpanic ''acquire'' else kret ()),
       acquire_spin lk,
       kbind mycpu (\<lambda>c. kmod (set_lock lk (\<lambda>l. l\<lparr>lcpu := Some c\<rparr>))) ]"

definition release :: "lockid \<Rightarrow> ('a machine_scheme, unit) kfun" where
  "release lk = kseq
     [ kbind (holding lk) (\<lambda>h. if h then kret () else kpanic ''release''),
       kmod (set_lock lk (\<lambda>l. l\<lparr>lcpu := None\<rparr>)),
       kmod (set_lock lk (\<lambda>l. l\<lparr>locked := 0\<rparr>)),
       pop_off ]"

section \<open>What the lock operations do\<close>

definition intr_enabled :: "'a machine_scheme \<Rightarrow> bool" where
  "intr_enabled s \<longleftrightarrow> csr_sstatus (csr s) AND SSTATUS_SIE \<noteq> 0"

definition set_sie :: "bool \<Rightarrow> 'a machine_scheme \<Rightarrow> 'a machine_scheme" where
  "set_sie b s = s\<lparr>csr := (csr s)\<lparr>csr_sstatus :=
     (if b then csr_sstatus (csr s) OR SSTATUS_SIE else csr_sstatus (csr s) AND NOT SSTATUS_SIE)\<rparr>\<rparr>"

abbreviation this_cpu :: "'a machine_scheme \<Rightarrow> cpu" where
  "this_cpu s \<equiv> cpus s (hart s)"

text \<open>
  Between calls of push_off the interrupts are off and the nesting depth is positive; a
  state in which that holds, or the depth is 0, is fit for another push_off.
\<close>

definition hart_ok :: "'a machine_scheme \<Rightarrow> bool" where
  "hart_ok s \<longleftrightarrow> 0 \<le> noff (this_cpu s) \<and> (0 < noff (this_cpu s) \<longrightarrow> \<not> intr_enabled s)"

definition push_off_st :: "'a machine_scheme \<Rightarrow> 'a machine_scheme" where
  "push_off_st s = set_cpu (hart s)
     (\<lambda>p. p\<lparr>intena := (if noff p = 0 then intr_enabled s else intena p), noff := noff p + 1\<rparr>)
     (set_sie False s)"

definition acquired :: "lockid \<Rightarrow> 'a machine_scheme \<Rightarrow> 'a machine_scheme" where
  "acquired lk s = set_lock lk (\<lambda>l. l\<lparr>locked := 1, lcpu := Some (hart s)\<rparr>) (push_off_st s)"

definition holds :: "'a machine_scheme \<Rightarrow> lockid \<Rightarrow> bool" where
  "holds s lk \<longleftrightarrow> locked (locks s lk) \<noteq> 0 \<and> lcpu (locks s lk) = Some (hart s)"

definition pop_off_st :: "'a machine_scheme \<Rightarrow> 'a machine_scheme" where
  "pop_off_st s =
     (let s1 = set_cpu (hart s) (\<lambda>p. p\<lparr>noff := noff p - 1\<rparr>) s
      in if noff (this_cpu s1) = 0 \<and> intena (this_cpu s1) then set_sie True s1 else s1)"

definition released :: "lockid \<Rightarrow> 'a machine_scheme \<Rightarrow> 'a machine_scheme" where
  "released lk s = pop_off_st (set_lock lk (\<lambda>l. l\<lparr>lcpu := None, locked := 0\<rparr>) s)"

lemma set_lock_simps [simp]:
  "csr (set_lock lk f s) = csr s" "gpr (set_lock lk f s) = gpr s"
  "cpus (set_lock lk f s) = cpus s" "pmem (set_lock lk f s) = pmem s"
  "kmapped (set_lock lk f s) = kmapped s" "machine.more (set_lock lk f s) = machine.more s"
  "locks (set_lock lk f s) = (locks s)(lk := f (locks s lk))"
  by (simp_all add: set_lock_def)

lemma set_cpu_simps [simp]:
  "csr (set_cpu c g s) = csr s" "gpr (set_cpu c g s) = gpr s"
  "locks (set_cpu c g s) = locks s" "pmem (set_cpu c g s) = pmem s"
  "kmapped (set_cpu c g s) = kmapped s" "machine.more (set_cpu c g s) = machine.more s"
  "cpus (set_cpu c g s) = (cpus s)(c := g (cpus s c))"
  by (simp_all add: set_cpu_def)

lemma set_sie_simps [simp]:
  "cpus (set_sie b s) = cpus s" "gpr (set_sie b s) = gpr s"
  "locks (set_sie b s) = locks s" "pmem (set_sie b s) = pmem s"
  "kmapped (set_sie b s) = kmapped s" "machine.more (set_sie b s) = machine.more s"
  by (simp_all add: set_sie_def)

lemma hart_upd [simp]:
  "hart (set_lock lk f s) = hart s" "hart (set_cpu c g s) = hart s" "hart (set_sie b s) = hart s"
  "hart (s\<lparr>cpus := p\<rparr>) = hart s" "hart (s\<lparr>locks := l\<rparr>) = hart s" "hart (s\<lparr>csr := r\<rparr>) = hart s"
  "hart (s\<lparr>pmem := m\<rparr>) = hart s" "hart (s\<lparr>kmapped := k\<rparr>) = hart s"
  by (simp_all add: hart_def)

lemma intr_enabled_upd [simp]:
  "intr_enabled (set_lock lk f s) = intr_enabled s" "intr_enabled (set_cpu c g s) = intr_enabled s"
  by (simp_all add: intr_enabled_def)

lemma sie_bit: "SSTATUS_SIE = 2"
  by (simp add: SSTATUS_SIE_def)

lemma intr_enabled_set_sie [simp]: "intr_enabled (set_sie b s) = b"
proof -
  have "(x AND NOT 2) AND 2 = 0" for x :: u64
    by (simp add: and.assoc)
  moreover have "(x OR 2) AND 2 = 2" for x :: u64
    by (simp add: bit_eq_iff bit_simps) 
  ultimately show ?thesis by (simp add: intr_enabled_def set_sie_def sie_bit)
qed

lemma hart_push_off [simp]: "hart (push_off_st s) = hart s"
  by (simp add: push_off_st_def)

lemma set_sie_same: "intr_enabled s = b \<Longrightarrow> set_sie b s = s"
proof -
  assume b: "intr_enabled s = b"
  have two: "bit (2 :: u64) n \<longleftrightarrow> n = 1" for n
    by (auto simp: bit_2_iff)
  have off: "x AND NOT 2 = x" if "x AND 2 = 0" for x :: u64
  proof -
    have "bit (x AND 2) 1 = bit (0 :: u64) 1" using that by simp
    then have "\<not> bit x 1" by (simp add: bit_and_iff two)
    then have "bit (x AND NOT 2) n = bit x n" if "n < 64" for n
      using that by (cases "n = 1") (simp_all only: bit_and_iff bit_not_iff two possible_bit_word, auto)
    moreover have "LENGTH(64) = 64" by simp
    ultimately show ?thesis by (intro bit_word_eqI) metis
  qed
  have on: "x OR 2 = x" if "x AND 2 \<noteq> 0" for x :: u64
  proof -
    have "bit x 1"
    proof (rule ccontr)
      assume "\<not> bit x 1"
      then have "bit (x AND 2) n = bit (0 :: u64) n" for n
        by (cases "n = 1") (simp_all only: bit_and_iff two bit_0_eq, simp_all)
      then have "x AND 2 = 0" by (intro bit_word_eqI) blast
      with that show False by blast
    qed
    then have "bit (x OR 2) n = bit x n" for n
      by (cases "n = 1") (simp_all only: bit_or_iff two, simp_all)
    then show ?thesis by (intro bit_word_eqI) blast
  qed
  show "set_sie b s = s"
    using b off on by (cases s) (auto simp: set_sie_def intr_enabled_def sie_bit)
qed

lemma cpuid_run [krun, simp]: "cpuid (s, e) = Ok (sint (ucast (gpr s TP) :: u32)) (s, e)"
  by (simp add: cpuid_def r_tp_def kbind_def)

lemma mycpu_run [krun, simp]: "mycpu (s, e) = Ok (hart s) (s, e)"
  by (simp add: mycpu_def kbind_def hart_def)

lemma intr_get_run [krun, simp]: "intr_get (s, e) = Ok (intr_enabled s) (s, e)"
  by (simp add: intr_get_def kbind_def r_sstatus_def intr_enabled_def)

lemma intr_off_run [krun, simp]: "intr_off (s, e) = Ok () (set_sie False s, e)"
  by (simp add: intr_off_def kbind_def r_sstatus_def w_sstatus_def set_sie_def)

lemma intr_on_run [krun, simp]: "intr_on (s, e) = Ok () (set_sie True s, e)"
  by (simp add: intr_on_def kbind_def r_sstatus_def w_sstatus_def set_sie_def)

lemma holding_run [krun, simp]: "holding lk (s, e) = Ok (holds s lk) (s, e)"
  by (simp add: holding_def kbind_def holds_def)

lemma push_off_run [krun]: "push_off (s, e) = Ok () (push_off_st s, e)"
  by (simp add: push_off_def kbind_def kthen_def push_off_st_def set_cpu_def)

lemma pop_off_run [krun]:
  "\<not> intr_enabled s \<Longrightarrow> 1 \<le> noff (this_cpu s) \<Longrightarrow> pop_off (s, e) = Ok () (pop_off_st s, e)"
  by (simp add: pop_off_def kbind_def kthen_def pop_off_st_def Let_def)

lemma acquire_spin_free [krun]:
  "locked (locks s lk) = 0 \<Longrightarrow>
   acquire_spin lk (s, e) = Ok () (set_lock lk (\<lambda>l. l\<lparr>locked := 1\<rparr>) s, e)"
  by (cases e) auto

lemma acquire_free [krun]:
  assumes "locked (locks s lk) = 0"
  shows "acquire lk (s, e) = Ok () (acquired lk s, e)"
proof -
  have l: "locks (push_off_st s) = locks s" by (simp add: push_off_st_def)
  then have "\<not> holds (push_off_st s) lk" using assms by (simp add: holds_def)
  then show ?thesis
    using assms l
    by (simp add: acquire_def kbind_def kthen_def push_off_run acquire_spin_free acquired_def set_lock_def)
qed

text \<open>A hart that asks for a lock it already holds panics, with interrupts off.\<close>

lemma acquire_held [krun]:
  assumes "holds s lk"
  shows "acquire lk (s, e) = Panic ''acquire'' (push_off_st s, e)"
proof -
  have "holds (push_off_st s) lk" using assms by (simp add: holds_def push_off_st_def)
  then show ?thesis by (simp add: acquire_def kbind_def kthen_def push_off_run)
qed

lemma release_held [krun]:
  assumes "holds s lk" and "\<not> intr_enabled s" and "1 \<le> noff (this_cpu s)"
  shows "release lk (s, e) = Ok () (released lk s, e)"
proof -
  let ?s = "set_lock lk (\<lambda>l. l\<lparr>lcpu := None, locked := 0\<rparr>) s"
  have "pop_off (?s, e) = Ok () (pop_off_st ?s, e)"
    using assms by (intro pop_off_run) simp_all
  then show ?thesis
    using assms(1) by (simp add: release_def kbind_def kthen_def released_def set_lock_def)
qed

lemma release_not_held: "\<not> holds s lk \<Longrightarrow> release lk (s, e) = Panic ''release'' (s, e)"
  by (simp add: release_def kbind_def kthen_def)

text \<open>What a balanced push_off/pop_off leaves behind: only the saved interrupt flag.\<close>

definition settled :: "'a machine_scheme \<Rightarrow> 'a machine_scheme" where
  "settled s = (if noff (this_cpu s) = 0
                then set_cpu (hart s) (\<lambda>p. p\<lparr>intena := intr_enabled s\<rparr>) s else s)"

lemma push_off_st_ok:
  "hart_ok s \<Longrightarrow> \<not> intr_enabled (push_off_st s) \<and> 1 \<le> noff (this_cpu (push_off_st s))"
  by (simp add: push_off_st_def hart_ok_def)

lemma pop_push_off_st:
  assumes "hart_ok s"
  shows "pop_off_st (push_off_st s) = settled s"
proof -
  have idle: "set_cpu c (\<lambda>p. p) t = t" for c and t :: "'a machine_scheme"
    by (simp add: set_cpu_def)
  have comm: "set_sie b (set_cpu c f t) = set_cpu c f (set_sie b t)" for b c f and t :: "'a machine_scheme"
    by (simp add: set_sie_def set_cpu_def)
  have comp: "set_cpu c f (set_cpu c g t) = set_cpu c (\<lambda>p. f (g p)) t" for c f g and t :: "'a machine_scheme"
    by (simp add: set_cpu_def)
  have twice: "set_sie True (set_sie False s) = set_sie True s"
  proof -
    have "(x AND NOT SSTATUS_SIE) OR SSTATUS_SIE = x OR SSTATUS_SIE" for x
      by (rule bit_word_eqI) (auto simp: bit_simps)
    then show ?thesis by (simp add: set_sie_def)
  qed
  have same: "p\<lparr>intena := b, noff := n\<rparr> = p\<lparr>intena := b\<rparr>" if "noff p = n" for p :: cpu and b n
    using that by simp
  have cpus: "set_sie b (t\<lparr>cpus := p\<rparr>) = (set_sie b t)\<lparr>cpus := p\<rparr>" for b p and t :: "'a machine_scheme"
    by (simp add: set_sie_def)
  show ?thesis
  proof (cases "noff (this_cpu s) = 0")
    case True
    show ?thesis
      using True set_sie_same [of s "intr_enabled s"]
      by (cases "intr_enabled s")
        (simp_all add: pop_off_st_def push_off_st_def settled_def Let_def comm comp twice set_cpu_def set_sie_same cpus same)
  next
    case False
    then have "\<not> intr_enabled s" using assms by (simp add: hart_ok_def)
    then show ?thesis
      using False
      by (simp add: pop_off_st_def push_off_st_def settled_def Let_def comm comp set_sie_same set_cpu_def)
  qed
qed

lemma settled_idem [simp]: "0 < noff (this_cpu s) \<Longrightarrow> settled s = s"
  by (simp add: settled_def)

lemma settled_simps [simp]:
  "gpr (settled s) = gpr s" "locks (settled s) = locks s" "pmem (settled s) = pmem s"
  "kmapped (settled s) = kmapped s" "csr (settled s) = csr s"
  "machine.more (settled s) = machine.more s" "hart (settled s) = hart s"
  "noff (cpus (settled s) c) = noff (cpus s c)" "cproc (cpus (settled s) c) = cproc (cpus s c)"
  "intr_enabled (settled s) = intr_enabled s" "hart_ok (settled s) = hart_ok s"
  by (simp_all add: settled_def hart_ok_def intr_enabled_def)

lemma settled_settled [simp]: "settled (settled s) = settled s"
  by (simp add: settled_def set_cpu_def intr_enabled_def)

lemma acquired_simps [simp]:
  "gpr (acquired lk s) = gpr s" "pmem (acquired lk s) = pmem s"
  "kmapped (acquired lk s) = kmapped s" "machine.more (acquired lk s) = machine.more s"
  "hart (acquired lk s) = hart s" "intr_enabled (acquired lk s) = False"
  "noff (cpus (acquired lk s) c) = (if c = hart s then noff (cpus s c) + 1 else noff (cpus s c))"
  "cproc (cpus (acquired lk s) c) = cproc (cpus s c)"
  "locks (acquired lk s) = (locks s)(lk := (locks s lk)\<lparr>locked := 1, lcpu := Some (hart s)\<rparr>)"
  by (simp_all add: acquired_def push_off_st_def)

lemma acquired_settled [simp]: "acquired lk (settled s) = acquired lk s"
  by (simp add: acquired_def push_off_st_def settled_def set_cpu_def set_lock_def set_sie_def
      intr_enabled_def hart_def)

lemma hart_ok_acquired [simp]: "hart_ok s \<Longrightarrow> hart_ok (acquired lk s)"
  by (simp add: hart_ok_def)

lemma holds_acquired [simp]: "holds (acquired lk s) l \<longleftrightarrow> l = lk \<or> holds s l"
  by (simp add: holds_def)

lemma holds_settled [simp]: "holds (settled s) l = holds s l"
  by (simp add: holds_def)

text \<open>A lock nobody holds: clear, with no holder recorded.\<close>

definition lock_free :: "'a machine_scheme \<Rightarrow> lockid \<Rightarrow> bool" where
  "lock_free s lk \<longleftrightarrow> locked (locks s lk) = 0 \<and> lcpu (locks s lk) = None"

lemma lock_free_acquired [simp]: "lock_free (acquired lk s) l \<longleftrightarrow> l \<noteq> lk \<and> lock_free s l"
  by (simp add: lock_free_def)

lemma lock_free_settled [simp]: "lock_free (settled s) l = lock_free s l"
  by (simp add: lock_free_def)

lemma lock_free_not_holds: "lock_free s lk \<Longrightarrow> \<not> holds s lk"
  by (simp add: lock_free_def holds_def)

lemma acquire_run [krun]: "lock_free s lk \<Longrightarrow> acquire lk (s, e) = Ok () (acquired lk s, e)"
  by (simp add: lock_free_def acquire_free)

text \<open>Releasing what was acquired gives back the state, with the interrupt flag settled.\<close>

lemma release_run [krun]:
  assumes "hart_ok s" and "lock_free s lk"
  shows "release lk (acquired lk s, e) = Ok () (settled s, e)"
proof -
  have lk: "(locks s lk)\<lparr>locked := 0, lcpu := None\<rparr> = locks s lk"
    using assms(2) by (simp add: lock_free_def)
  have "set_lock lk (\<lambda>l. l\<lparr>lcpu := None, locked := 0\<rparr>) (acquired lk s) = push_off_st s"
    using assms(2) by (simp add: acquired_def set_lock_def push_off_st_def lock_free_def fun_upd_idem)
  then have "released lk (acquired lk s) = settled s"
    using assms(1) by (simp add: released_def pop_push_off_st)
  moreover have "1 \<le> noff (this_cpu (acquired lk s))"
    using assms(1) by (simp add: hart_ok_def)
  ultimately show ?thesis
    using release_held [of "acquired lk s" lk e] by simp
qed

lemma push_off_st_simps [simp]:
  "gpr (push_off_st s) = gpr s" "locks (push_off_st s) = locks s" "pmem (push_off_st s) = pmem s"
  "kmapped (push_off_st s) = kmapped s" "holds (push_off_st s) lk = holds s lk"
  "lock_free (push_off_st s) lk = lock_free s lk" "hart_ok s \<Longrightarrow> hart_ok (push_off_st s)"
  using push_off_st_ok [of s]
  by (simp_all add: push_off_st_def holds_def lock_free_def) (simp add: hart_ok_def)

lemma push_pop_run [krun]:
  assumes "hart_ok s"
  shows "pop_off (push_off_st s, e) = Ok () (settled s, e)"
  using pop_off_run [of "push_off_st s" e] push_off_st_ok [OF assms] pop_push_off_st [OF assms]
  by simp

text \<open>
  Updates of the fields above the lock machinery commute with taking a lock and with
  settling.
\<close>

lemma acquired_pmem: "(acquired lk s)\<lparr>pmem := m\<rparr> = acquired lk (s\<lparr>pmem := m\<rparr>)"
  by (simp add: acquired_def push_off_st_def set_lock_def set_cpu_def set_sie_def intr_enabled_def)

lemma settled_pmem: "(settled s)\<lparr>pmem := m\<rparr> = settled (s\<lparr>pmem := m\<rparr>)"
  by (simp add: settled_def set_cpu_def intr_enabled_def)

section \<open>Critical sections\<close>

text \<open>
  The contract a client of a lock relies on: a body that leaves the hart and the locks as
  it found them, run between acquire and release, acts on the state as it does alone. The
  laws ask that the effect of the body (its \<open>step\<close>) commutes with the taking of the lock.
\<close>

locale spin_section =
  fixes lk :: lockid
    and body :: "('a machine_scheme, unit) kfun"
    and step :: "'a machine_scheme \<Rightarrow> 'a machine_scheme"
    and pre :: "'a machine_scheme \<Rightarrow> bool"
  assumes body_run: "pre s \<Longrightarrow> hart_ok s \<Longrightarrow> lock_free s lk \<Longrightarrow>
      body (acquired lk s, e) = Ok () (acquired lk (step s), e)"
    and step_hart: "pre s \<Longrightarrow> hart_ok s \<Longrightarrow> hart_ok (step s)"
    and step_free: "pre s \<Longrightarrow> lock_free s lk \<Longrightarrow> lock_free (step s) lk"
begin

definition section_body :: "('a machine_scheme, unit) kfun" where
  "section_body = kseq [acquire lk, body, release lk]"

lemma section_run:
  assumes "pre s" and "hart_ok s" and "lock_free s lk"
  shows "section_body (s, e) = Ok () (settled (step s), e)"
  using assms body_run [OF assms]
  by (simp add: section_body_def kthen_def kbind_def acquire_run release_run step_hart step_free)

text \<open>Whoever holds the lock and enters again panics before the body runs.\<close>

lemma section_deadlock:
  assumes "holds s lk"
  shows "section_body (s, e) = Panic ''acquire'' (push_off_st s, e)"
  using assms by (simp add: section_body_def kthen_def kbind_def acquire_held)

end

section \<open>A concrete machine\<close>

text \<open>Hart 0 with all locks free, interrupts off, memory zero: the state the examples start from.\<close>

definition free_lock :: spinlock where
  "free_lock = \<lparr>locked = 0, lname = [], lcpu = None\<rparr>"

definition zero_context :: kcontext where
  "zero_context = \<lparr>ctx_ra = 0, ctx_sp = 0, ctx_s = (\<lambda>_. 0)\<rparr>"

definition idle_cpu :: cpu where
  "idle_cpu = \<lparr>cproc = None, ccontext = zero_context, noff = 0, intena = False\<rparr>"

definition zero_csrs :: csrs where
  "zero_csrs = \<lparr>csr_mhartid = 0, csr_mstatus = 0, csr_mepc = 0, csr_sstatus = 0, csr_sip = 0, csr_sie = 0,
     csr_mie = 0, csr_sepc = 0, csr_medeleg = 0, csr_mideleg = 0, csr_stvec = 0, csr_stimecmp = 0,
     csr_menvcfg = 0, csr_pmpcfg0 = 0, csr_pmpaddr0 = 0, csr_satp = 0, csr_scause = 0, csr_stval = 0,
     csr_mcounteren = 0, csr_time = 0\<rparr>"

definition sample_machine :: machine where
  "sample_machine = \<lparr>csr = zero_csrs, gpr = (\<lambda>_. 0), cpus = (\<lambda>_. idle_cpu), locks = (\<lambda>_. free_lock),
     pmem = (\<lambda>_. 0), kmapped = (\<lambda>_. True)\<rparr>"

text \<open>What the examples need of a state that agrees with it on the machine.\<close>

definition like_sample :: "'a machine_scheme \<Rightarrow> bool" where
  "like_sample s \<longleftrightarrow> machine.truncate s = sample_machine"

lemma like_sample_facts:
  assumes "like_sample s"
  shows "hart s = 0" "hart_ok s" "lock_free s lk" "\<not> intr_enabled s" "noff (cpus s c) = 0"
    "cproc (cpus s c) = None" "gpr s r = 0" "pmem s a = 0" "kmapped s a" "csr s = zero_csrs"
proof -
  have s: "csr s = zero_csrs" "gpr s = (\<lambda>_. 0)" "cpus s = (\<lambda>_. idle_cpu)" "locks s = (\<lambda>_. free_lock)"
    "pmem s = (\<lambda>_. 0)" "kmapped s = (\<lambda>_. True)"
    using assms by (simp_all add: like_sample_def machine.truncate_def sample_machine_def)
  show "hart s = 0" "hart_ok s" "lock_free s lk" "\<not> intr_enabled s" "noff (cpus s c) = 0"
    "cproc (cpus s c) = None" "gpr s r = 0" "pmem s a = 0" "kmapped s a" "csr s = zero_csrs"
    by (simp_all add: hart_def hart_ok_def lock_free_def intr_enabled_def s idle_cpu_def free_lock_def
        zero_csrs_def)
qed

end
