(* ===== verification/Sched.thy ===== *)
theory Sched
  imports Machine
begin

text \<open>
  The process table as the rest of the kernel sees it: kernel/param.h and
  kernel/memlayout.h, struct proc of kernel/proc.h, the parts of kernel/proc.c that sleep,
  wake, yield and kill, and the sleep locks of kernel/sleeplock.c. The operations that
  create and end processes are in \<open>Proc\<close>, above the file system they use.
\<close>

section \<open>Parameters (param.h, memlayout.h)\<close>

definition NPROC :: nat where "NPROC = 64"
definition NOFILE :: nat where "NOFILE = 16"
definition NFILE :: nat where "NFILE = 100"
definition NINODE :: nat where "NINODE = 50"
definition NDEV :: nat where "NDEV = 10"
definition ROOTDEV :: u32 where "ROOTDEV = 1"
definition MAXARG :: nat where "MAXARG = 32"
definition MAXOPBLOCKS :: nat where "MAXOPBLOCKS = 10"
definition LOGBLOCKS :: nat where "LOGBLOCKS = MAXOPBLOCKS * 3"
definition NBUF :: nat where "NBUF = MAXOPBLOCKS * 3"
definition FSSIZE :: nat where "FSSIZE = 2000"
definition MAXPATH :: nat where "MAXPATH = 128"
definition USERSTACK :: u64 where "USERSTACK = 1"

definition PGSIZE :: u64 where "PGSIZE = 4096"
definition MAXVA :: u64 where "MAXVA = push_bit (9 + 9 + 9 + 12 - 1) 1"
definition UART0 :: u64 where "UART0 = 0x10000000"
definition UART0_IRQ :: u32 where "UART0_IRQ = 10"
definition VIRTIO0 :: u64 where "VIRTIO0 = 0x10001000"
definition VIRTIO0_IRQ :: u32 where "VIRTIO0_IRQ = 1"
definition PLIC :: u64 where "PLIC = 0x0c000000"
definition KERNBASE :: u64 where "KERNBASE = 0x80000000"
definition PHYSTOP :: u64 where "PHYSTOP = KERNBASE + 128 * 1024 * 1024"
definition TRAMPOLINE :: u64 where "TRAMPOLINE = MAXVA - PGSIZE"
definition TRAPFRAME :: u64 where "TRAPFRAME = TRAMPOLINE - PGSIZE"

definition KSTACK :: "nat \<Rightarrow> u64" where
  "KSTACK p = TRAMPOLINE - (of_nat p + 1) * 2 * PGSIZE"

section \<open>The process table (proc.h)\<close>

datatype procstate = UNUSED | USED | SLEEPING | RUNNABLE | RUNNING | ZOMBIE

definition procstate_code :: "procstate \<Rightarrow> nat" where
  "procstate_code st = (case st of
     UNUSED \<Rightarrow> 0 | USED \<Rightarrow> 1 | SLEEPING \<Rightarrow> 2 | RUNNABLE \<Rightarrow> 3 | RUNNING \<Rightarrow> 4 | ZOMBIE \<Rightarrow> 5)"

text \<open>The enumeration is ordered by the code its constants have.\<close>

instantiation procstate :: linorder
begin

definition less_eq_procstate :: "procstate \<Rightarrow> procstate \<Rightarrow> bool" where
  "less_eq_procstate a b \<longleftrightarrow> procstate_code a \<le> procstate_code b"

definition less_procstate :: "procstate \<Rightarrow> procstate \<Rightarrow> bool" where
  "less_procstate a b \<longleftrightarrow> procstate_code a < procstate_code b"

instance
  by standard
    (auto simp: less_eq_procstate_def less_procstate_def procstate_code_def split: procstate.splits)

end

text \<open>The addresses processes sleep on, named by the object they point to.\<close>

datatype sleepid = SlBuf nat | SlInode nat

datatype chan =
    ChTx | ChConsR | ChTicks | ChProc nat | ChLog | ChSleep sleepid
  | ChPipeR u64 | ChPipeW u64 | ChDiskFree | ChDiskBuf nat

text \<open>
  struct proc without its lock (\<open>LkProc i\<close>). Pointers into the process, file and inode
  tables are indices, \<open>None\<close> being the null pointer; \<open>ptrapframe\<close> and \<open>ppagetable\<close> are
  addresses of pages, 0 being null; \<open>pname\<close> has 16 characters, \<open>pofile\<close> 16 entries.
\<close>

record proc =
  pstate :: procstate
  pchan :: "chan option"
  pkilled :: bool
  pxstate :: int
  pid :: int
  pparent :: "nat option"
  kstack :: u64
  psz :: u64
  ppagetable :: u64
  ptrapframe :: u64
  pcontext :: kcontext
  pofile :: "nat option list"
  pcwd :: "nat option"
  pname :: "char list"

text \<open>struct sleeplock without its spin lock.\<close>

record sleeplock =
  slocked :: bool
  slname :: string
  slpid :: int

record sched_state = machine +
  procs :: "nat \<Rightarrow> proc"
  initproc :: "nat option"
  nextpid :: int
  ticks :: u32
  sleeplocks :: "sleepid \<Rightarrow> sleeplock"

definition set_proc :: "nat \<Rightarrow> (proc \<Rightarrow> proc) \<Rightarrow> 'a sched_state_scheme \<Rightarrow> 'a sched_state_scheme" where
  "set_proc i f s = s\<lparr>procs := (procs s)(i := f (procs s i))\<rparr>"

definition procinit :: "('a sched_state_scheme, unit) kfun" where
  "procinit = kseq
     [ initlock LkPid ''nextpid'',
       initlock LkWait ''wait_lock'',
       kfor [0..<NPROC] (\<lambda>i. kseq
         [ initlock (LkProc i) ''proc'',
           kmod (set_proc i (\<lambda>p. p\<lparr>pstate := UNUSED\<rparr>)),
           kmod (set_proc i (\<lambda>p. p\<lparr>kstack := KSTACK i\<rparr>)) ]) ]"

definition myproc :: "('a sched_state_scheme, nat option) kfun" where
  "myproc = kthen push_off
     (kbind mycpu (\<lambda>c.
      kbind (kget (\<lambda>s. cproc (cpus s c))) (\<lambda>p.
      kthen pop_off (kret p))))"

text \<open>\<open>struct proc *p = myproc();\<close> followed by uses of \<open>p->...\<close>\<close>

definition with_myproc :: "(nat \<Rightarrow> ('a sched_state_scheme, 'b) kfun) \<Rightarrow> ('a sched_state_scheme, 'b) kfun" where
  "with_myproc f = kbind myproc (\<lambda>p. case p of None \<Rightarrow> kundef | Some i \<Rightarrow> f i)"

definition allocpid :: "('a sched_state_scheme, int) kfun" where
  "allocpid =
     kthen (acquire LkPid)
     (kbind (kget nextpid) (\<lambda>p.
      kthen (kmod (\<lambda>s. s\<lparr>nextpid := nextpid s + 1\<rparr>))
      (kthen (release LkPid) (kret p))))"

section \<open>Switching\<close>

definition save_context :: "(reg \<Rightarrow> u64) \<Rightarrow> kcontext" where
  "save_context g = \<lparr>ctx_ra = g RA, ctx_sp = g SP,
     ctx_s = (\<lambda>i. if i < 12 then g ([S0, S1, S2, S3, S4, S5, S6, S7, S8, S9, S10, S11] ! i) else 0)\<rparr>"

definition load_context :: "kcontext \<Rightarrow> (reg \<Rightarrow> u64) \<Rightarrow> reg \<Rightarrow> u64" where
  "load_context c g r = (case r of
     RA \<Rightarrow> ctx_ra c | SP \<Rightarrow> ctx_sp c
   | S0 \<Rightarrow> ctx_s c 0 | S1 \<Rightarrow> ctx_s c 1 | S2 \<Rightarrow> ctx_s c 2 | S3 \<Rightarrow> ctx_s c 3
   | S4 \<Rightarrow> ctx_s c 4 | S5 \<Rightarrow> ctx_s c 5 | S6 \<Rightarrow> ctx_s c 6 | S7 \<Rightarrow> ctx_s c 7
   | S8 \<Rightarrow> ctx_s c 8 | S9 \<Rightarrow> ctx_s c 9 | S10 \<Rightarrow> ctx_s c 10 | S11 \<Rightarrow> ctx_s c 11
   | _ \<Rightarrow> g r)"

text \<open>
  \<open>swtch(&p->context, &mycpu()->context)\<close>, as the process sees it: its registers are saved,
  the rest of the system runs (one action of the environment), and the scheduler's swtch
  back loads them again.
\<close>

definition swtch_proc :: "nat \<Rightarrow> ('a sched_state_scheme, unit) kfun" where
  "swtch_proc p = kseq
     [ kmod (\<lambda>s. set_proc p (\<lambda>q. q\<lparr>pcontext := save_context (gpr s)\<rparr>) s),
       env_step,
       kmod (\<lambda>s. s\<lparr>gpr := load_context (pcontext (procs s p)) (gpr s)\<rparr>) ]"

text \<open>\<open>swtch(&c->context, &p->context)\<close>, as the scheduler of hart \<open>c\<close> sees it.\<close>

definition swtch_cpu :: "nat \<Rightarrow> ('a sched_state_scheme, unit) kfun" where
  "swtch_cpu c = kseq
     [ kmod (\<lambda>s. set_cpu c (\<lambda>q. q\<lparr>ccontext := save_context (gpr s)\<rparr>) s),
       env_step,
       kmod (\<lambda>s. s\<lparr>gpr := load_context (ccontext (cpus s c)) (gpr s)\<rparr>) ]"

definition sched :: "('a sched_state_scheme, unit) kfun" where
  "sched = with_myproc (\<lambda>p. kseq
     [ kbind (holding (LkProc p)) (\<lambda>h. if h then kret () else kpanic ''sched p->lock''),
       kbind mycpu (\<lambda>c. kwhen (\<lambda>s. noff (cpus s c) \<noteq> 1) (kpanic ''sched locks'')),
       kwhen (\<lambda>s. pstate (procs s p) = RUNNING) (kpanic ''sched RUNNING''),
       kbind intr_get (\<lambda>on. if on then kpanic ''sched interruptible'' else kret ()),
       kbind mycpu (\<lambda>c. kbind (kget (\<lambda>s. intena (cpus s c))) (\<lambda>ie.
         kthen (swtch_proc p)
           (kbind mycpu (\<lambda>c'. kmod (set_cpu c' (\<lambda>q. q\<lparr>intena := ie\<rparr>)))))) ])"

definition yield :: "('a sched_state_scheme, unit) kfun" where
  "yield = with_myproc (\<lambda>p. kseq
     [ acquire (LkProc p),
       kmod (set_proc p (\<lambda>q. q\<lparr>pstate := RUNNABLE\<rparr>)),
       sched,
       release (LkProc p) ])"

definition sleep :: "chan \<Rightarrow> lockid \<Rightarrow> ('a sched_state_scheme, unit) kfun" where
  "sleep ch lk = with_myproc (\<lambda>p. kseq
     [ acquire (LkProc p),
       release lk,
       kmod (set_proc p (\<lambda>q. q\<lparr>pchan := Some ch\<rparr>)),
       kmod (set_proc p (\<lambda>q. q\<lparr>pstate := SLEEPING\<rparr>)),
       sched,
       kmod (set_proc p (\<lambda>q. q\<lparr>pchan := None\<rparr>)),
       release (LkProc p),
       acquire lk ])"

text \<open>A channel \<open>None\<close> is the null pointer, which nobody sleeps on.\<close>

definition wake_one :: "chan option \<Rightarrow> nat \<Rightarrow> ('a sched_state_scheme, unit) kfun" where
  "wake_one ch i = kwhen (\<lambda>s. pstate (procs s i) = SLEEPING \<and> pchan (procs s i) = ch)
     (kmod (set_proc i (\<lambda>q. q\<lparr>pstate := RUNNABLE\<rparr>)))"

definition wakeup_on :: "chan option \<Rightarrow> ('a sched_state_scheme, unit) kfun" where
  "wakeup_on ch = kfor [0..<NPROC] (\<lambda>i. kbind myproc (\<lambda>me.
     if Some i = me then kret ()
     else kseq [acquire (LkProc i), wake_one ch i, release (LkProc i)]))"

definition wakeup :: "chan \<Rightarrow> ('a sched_state_scheme, unit) kfun" where
  "wakeup ch = wakeup_on (Some ch)"

definition kkill :: "int \<Rightarrow> ('a sched_state_scheme, int) kfun" where
  "kkill k = kbind
     (kfind [0..<NPROC] (\<lambda>i.
        kthen (acquire (LkProc i))
        (kif (\<lambda>s. pid (procs s i) = k)
          (kthen (kseq
             [ kmod (set_proc i (\<lambda>q. q\<lparr>pkilled := True\<rparr>)),
               kwhen (\<lambda>s. pstate (procs s i) = SLEEPING)
                 (kmod (set_proc i (\<lambda>q. q\<lparr>pstate := RUNNABLE\<rparr>))),
               release (LkProc i) ])
            (kret (Some 0)))
          (kthen (release (LkProc i)) (kret None)))))
     (\<lambda>r. kret (case r of Some v \<Rightarrow> v | None \<Rightarrow> -1))"

definition setkilled :: "nat \<Rightarrow> ('a sched_state_scheme, unit) kfun" where
  "setkilled p = kseq
     [ acquire (LkProc p),
       kmod (set_proc p (\<lambda>q. q\<lparr>pkilled := True\<rparr>)),
       release (LkProc p) ]"

definition killed :: "nat \<Rightarrow> ('a sched_state_scheme, bool) kfun" where
  "killed p =
     kthen (acquire (LkProc p))
     (kbind (kget (\<lambda>s. pkilled (procs s p))) (\<lambda>k.
      kthen (release (LkProc p)) (kret k)))"

text \<open>
  One hart's scheduler: \<open>rounds\<close> turns of its outer loop, which the code repeats for ever.
  A turn looks at every process once; \<open>wfi\<close> waits for an interrupt.
\<close>

definition sched_try :: "nat \<Rightarrow> nat \<Rightarrow> bool \<Rightarrow> ('a sched_state_scheme, bool) kfun" where
  "sched_try c i found =
     kthen (acquire (LkProc i))
     (kbind (kif (\<lambda>s. pstate (procs s i) = RUNNABLE)
        (kthen (kseq
           [ kmod (set_proc i (\<lambda>q. q\<lparr>pstate := RUNNING\<rparr>)),
             kmod (set_cpu c (\<lambda>q. q\<lparr>cproc := Some i\<rparr>)),
             swtch_cpu c,
             kmod (set_cpu c (\<lambda>q. q\<lparr>cproc := None\<rparr>)) ])
          (kret True))
        (kret found)) (\<lambda>f.
      kthen (release (LkProc i)) (kret f)))"

primrec sched_scan :: "nat \<Rightarrow> nat list \<Rightarrow> bool \<Rightarrow> ('a sched_state_scheme, bool) kfun" where
  "sched_scan c [] found = kret found"
| "sched_scan c (i # is) found = kbind (sched_try c i found) (sched_scan c is)"

definition sched_round :: "nat \<Rightarrow> ('a sched_state_scheme, unit) kfun" where
  "sched_round c =
     kthen intr_on (kthen intr_off
     (kbind (sched_scan c [0..<NPROC] False) (\<lambda>found.
        if found then kret () else env_step)))"

primrec scheduler_loop :: "nat \<Rightarrow> nat \<Rightarrow> ('a sched_state_scheme, unit) kfun" where
  "scheduler_loop c 0 = knofuel"
| "scheduler_loop c (Suc n) = kthen (sched_round c) (scheduler_loop c n)"

definition scheduler :: "nat \<Rightarrow> ('a sched_state_scheme, unit) kfun" where
  "scheduler rounds = kbind mycpu (\<lambda>c.
     kthen (kmod (set_cpu c (\<lambda>q. q\<lparr>cproc := None\<rparr>))) (scheduler_loop c rounds))"

section \<open>Sleep locks (sleeplock.c)\<close>

definition slk :: "sleepid \<Rightarrow> lockid" where
  "slk x = (case x of SlBuf i \<Rightarrow> LkBufSleep i | SlInode i \<Rightarrow> LkInodeSleep i)"

definition set_slock :: "sleepid \<Rightarrow> (sleeplock \<Rightarrow> sleeplock) \<Rightarrow> 'a sched_state_scheme \<Rightarrow> 'a sched_state_scheme" where
  "set_slock x f s = s\<lparr>sleeplocks := (sleeplocks s)(x := f (sleeplocks s x))\<rparr>"

definition initsleeplock :: "sleepid \<Rightarrow> string \<Rightarrow> ('a sched_state_scheme, unit) kfun" where
  "initsleeplock x name = kseq
     [ initlock (slk x) ''sleep lock'',
       kmod (set_slock x (\<lambda>l. l\<lparr>slname := name\<rparr>)),
       kmod (set_slock x (\<lambda>l. l\<lparr>slocked := False\<rparr>)),
       kmod (set_slock x (\<lambda>l. l\<lparr>slpid := 0\<rparr>)) ]"

definition acquiresleep :: "sleepid \<Rightarrow> ('a sched_state_scheme, unit) kfun" where
  "acquiresleep x = kseq
     [ acquire (slk x),
       kloop (\<lambda>s. slocked (sleeplocks s x)) (sleep (ChSleep x) (slk x)),
       kmod (set_slock x (\<lambda>l. l\<lparr>slocked := True\<rparr>)),
       with_myproc (\<lambda>p. kmod (\<lambda>s. set_slock x (\<lambda>l. l\<lparr>slpid := pid (procs s p)\<rparr>) s)),
       release (slk x) ]"

definition releasesleep :: "sleepid \<Rightarrow> ('a sched_state_scheme, unit) kfun" where
  "releasesleep x = kseq
     [ acquire (slk x),
       kmod (set_slock x (\<lambda>l. l\<lparr>slocked := False\<rparr>)),
       kmod (set_slock x (\<lambda>l. l\<lparr>slpid := 0\<rparr>)),
       wakeup (ChSleep x),
       release (slk x) ]"

text \<open>\<open>lk->locked && (lk->pid == myproc()->pid)\<close> calls myproc only when the lock is taken.\<close>

definition holdingsleep :: "sleepid \<Rightarrow> ('a sched_state_scheme, bool) kfun" where
  "holdingsleep x =
     kthen (acquire (slk x))
     (kbind (kif (\<lambda>s. slocked (sleeplocks s x))
              (with_myproc (\<lambda>p. kget (\<lambda>s. slpid (sleeplocks s x) = pid (procs s p))))
              (kret False)) (\<lambda>r.
      kthen (release (slk x)) (kret r)))"

section \<open>The lock operations leave the table alone\<close>

lemma sched_lock_simps [simp]:
  "procs (acquired lk s) = procs s" "initproc (acquired lk s) = initproc s"
  "nextpid (acquired lk s) = nextpid s" "ticks (acquired lk s) = ticks s"
  "sleeplocks (acquired lk s) = sleeplocks s"
  "procs (settled s) = procs s" "initproc (settled s) = initproc s"
  "nextpid (settled s) = nextpid s" "ticks (settled s) = ticks s"
  "sleeplocks (settled s) = sleeplocks s"
  "procs (push_off_st s) = procs s" "initproc (push_off_st s) = initproc s"
  "nextpid (push_off_st s) = nextpid s" "ticks (push_off_st s) = ticks s"
  "sleeplocks (push_off_st s) = sleeplocks s"
  by (simp_all add: acquired_def settled_def push_off_st_def set_lock_def set_cpu_def set_sie_def)

lemma set_proc_simps [simp]:
  "csr (set_proc i f s) = csr s" "gpr (set_proc i f s) = gpr s" "cpus (set_proc i f s) = cpus s"
  "locks (set_proc i f s) = locks s" "pmem (set_proc i f s) = pmem s"
  "kmapped (set_proc i f s) = kmapped s" "procs (set_proc i f s) = (procs s)(i := f (procs s i))"
  "ticks (set_proc i f s) = ticks s" "nextpid (set_proc i f s) = nextpid s"
  "initproc (set_proc i f s) = initproc s" "sleeplocks (set_proc i f s) = sleeplocks s"
  "hart (set_proc i f s) = hart s" "intr_enabled (set_proc i f s) = intr_enabled s"
  "hart_ok (set_proc i f s) = hart_ok s" "lock_free (set_proc i f s) lk = lock_free s lk"
  "holds (set_proc i f s) lk = holds s lk"
  by (simp_all add: set_proc_def hart_def intr_enabled_def hart_ok_def lock_free_def holds_def)

lemma set_proc_lock:
  "set_proc i f (acquired lk s) = acquired lk (set_proc i f s)"
  "set_proc i f (settled s) = settled (set_proc i f s)"
  by (simp_all add: set_proc_def acquired_def settled_def push_off_st_def set_lock_def set_cpu_def
      set_sie_def intr_enabled_def hart_def)

section \<open>The current process\<close>

definition curproc :: "'a sched_state_scheme \<Rightarrow> nat option" where
  "curproc s = cproc (this_cpu s)"

lemma curproc_simps [simp]:
  "curproc (acquired lk s) = curproc s" "curproc (settled s) = curproc s"
  "curproc (set_proc i f s) = curproc s"
  by (simp_all add: curproc_def)

lemma myproc_run [krun]: "hart_ok s \<Longrightarrow> myproc (s, e) = Ok (curproc s) (settled s, e)"
  using push_pop_run [of s e]
  by (simp add: myproc_def kthen_def kbind_def push_off_run curproc_def push_off_st_def)

lemma with_myproc_run [krun]:
  "hart_ok s \<Longrightarrow> curproc s = Some p \<Longrightarrow> with_myproc f (s, e) = f p (settled s, e)"
  by (simp add: with_myproc_def kbind_def myproc_run)

end
