(* ===== verification/Format.thy ===== *)
theory Format
  imports Prelude
begin

text \<open>
  Formatted output as text: the arguments of a variadic call and the digit loops the three
  printers of the repository share --- printf (kernel/printf.c), vsnprintf
  (kernel/paniclog.c) and vprintf (user/printf.c) ---, vsnprintf and vprintf themselves, and
  an abstract reading of format strings with which all three are compared.
\<close>

section \<open>Arguments and digits\<close>

text \<open>
  One argument of a variadic call as it sits in its 64-bit slot: a number (an int is sign
  extended by the calling convention) or a pointer to a string, \<open>None\<close> being null.
\<close>

datatype va = Num u64 | Str "string option"

definition digits :: string where "digits = ''0123456789abcdef''"

definition user_digits :: string where "user_digits = ''0123456789ABCDEF''"

text \<open>
  \<open>do { buf[i++] = digits[x % base]; } while((x /= base) != 0);\<close> --- the digits in the order
  they are stored, least significant first. Only the bases 10 and 16 occur.
\<close>

function udigits :: "string \<Rightarrow> nat \<Rightarrow> nat \<Rightarrow> string" where
  "udigits ds b x = ds ! (x mod b) # (if b < 2 \<or> x div b = 0 then [] else udigits ds b (x div b))"
  by pat_completeness auto
termination
  by (relation "measure (\<lambda>(ds, b, x). x)") (auto intro!: div_less_dividend gr0I)

declare udigits.simps [simp del]

text \<open>Characters are passed to the sinks as int codes; \<open>char\<close> is unsigned on RISC-V.\<close>

definition code_of :: "char \<Rightarrow> int" where
  "code_of c = int (of_char c)"

definition code_char :: "int \<Rightarrow> char" where
  "code_char x = char_of (nat (x mod 256))"

definition codes :: "string \<Rightarrow> int list" where
  "codes = map code_of"

definition va_int :: "u64 \<Rightarrow> u64" where
  "va_int v = scast (ucast v :: u32)"

definition va_uint32 :: "u64 \<Rightarrow> u64" where
  "va_uint32 v = ucast (ucast v :: u32)"

text \<open>
  What one conversion does: codes for the sink, the further advance of \<open>i\<close>, the arguments
  left; or the end of the format; or a \<open>va_arg\<close> that does not fit.
\<close>

datatype dstep = DOut "int list" nat "va list" | DStop | DUndef

definition va_num :: "va list \<Rightarrow> nat \<Rightarrow> (u64 \<Rightarrow> int list) \<Rightarrow> dstep" where
  "va_num ap adv f = (case ap of Num v # ap' \<Rightarrow> DOut (f v) adv ap' | _ \<Rightarrow> DUndef)"

definition va_str :: "va list \<Rightarrow> nat \<Rightarrow> dstep" where
  "va_str ap adv = (case ap of
     Str s # ap' \<Rightarrow> DOut (codes (case s of None \<Rightarrow> ''(null)'' | Some t \<Rightarrow> t)) adv ap'
   | _ \<Rightarrow> DUndef)"

text \<open>\<open>for (j = 0; j < 16; j++, x <<= 4) PUTC(digits[x >> 60]);\<close>\<close>

primrec hex_nibbles :: "string \<Rightarrow> nat \<Rightarrow> u64 \<Rightarrow> string" where
  "hex_nibbles ds 0 x = []"
| "hex_nibbles ds (Suc j) x = ds ! unat (drop_bit 60 x) # hex_nibbles ds j (push_bit 4 x)"

section \<open>vsnprintf (paniclog.c)\<close>

definition vsn_signed :: "u64 \<Rightarrow> int list" where
  "vsn_signed x = codes (if x <s 0 then CHR ''-'' # rev (udigits digits 10 (unat (- x)))
                         else rev (udigits digits 10 (unat x)))"

definition vsn_unsigned :: "nat \<Rightarrow> u64 \<Rightarrow> int list" where
  "vsn_unsigned b x = codes (rev (udigits digits b (unat x)))"

definition vsn_dir :: "char \<Rightarrow> char \<Rightarrow> char \<Rightarrow> va list \<Rightarrow> dstep" where
  "vsn_dir c0 c1 c2 ap =
     (if c0 = CHR ''d'' then va_num ap 0 (\<lambda>v. vsn_signed (va_int v))
      else if c0 = CHR ''l'' \<and> c1 = CHR ''d'' then va_num ap 1 vsn_signed
      else if c0 = CHR ''l'' \<and> c1 = CHR ''l'' \<and> c2 = CHR ''d'' then va_num ap 2 vsn_signed
      else if c0 = CHR ''u'' then va_num ap 0 (\<lambda>v. vsn_unsigned 10 (va_uint32 v))
      else if c0 = CHR ''l'' \<and> c1 = CHR ''u'' then va_num ap 1 (vsn_unsigned 10)
      else if c0 = CHR ''l'' \<and> c1 = CHR ''l'' \<and> c2 = CHR ''u'' then va_num ap 2 (vsn_unsigned 10)
      else if c0 = CHR ''x'' then va_num ap 0 (\<lambda>v. vsn_unsigned 16 (va_uint32 v))
      else if c0 = CHR ''l'' \<and> c1 = CHR ''x'' then va_num ap 1 (vsn_unsigned 16)
      else if c0 = CHR ''l'' \<and> c1 = CHR ''l'' \<and> c2 = CHR ''x'' then va_num ap 2 (vsn_unsigned 16)
      else if c0 = CHR ''p'' then va_num ap 0 (\<lambda>v. codes (''0x'' @ hex_nibbles digits 16 v))
      else if c0 = CHR ''s'' then va_str ap 0
      else if c0 = CHR ''c'' then va_num ap 0 (\<lambda>v. [sint (ucast v :: u32)])
      else if c0 = CHR ''%'' then DOut (codes ''%'') 0 ap
      else if c0 = NUL then DStop
      else DOut (codes [CHR ''%'', c0]) 0 ap)"

text \<open>\<open>if (dst < end) *dst++ = (ch);\<close> with \<open>end = buf + n - 1\<close>\<close>

definition putc_buf :: "int \<Rightarrow> int \<Rightarrow> string \<Rightarrow> string" where
  "putc_buf n c buf = (if int (length buf) < n - 1 then buf @ [code_char c] else buf)"

definition puts_buf :: "int \<Rightarrow> int list \<Rightarrow> string \<Rightarrow> string" where
  "puts_buf n cs buf = fold (putc_buf n) cs buf"

text \<open>The scan of the format at index \<open>i\<close>; \<open>None\<close> where an argument does not fit.\<close>

function vsn_loop :: "int \<Rightarrow> string \<Rightarrow> nat \<Rightarrow> va list \<Rightarrow> string \<Rightarrow> string option" where
  "vsn_loop n fmt i ap buf =
     (if \<not> i < length fmt \<or> char_at fmt i = NUL then Some buf
      else if char_at fmt i \<noteq> CHR ''%'' then
        vsn_loop n fmt (i + 1) ap (putc_buf n (code_of (char_at fmt i)) buf)
      else
        (let c0 = char_at fmt (i + 1);
             c1 = (if c0 \<noteq> NUL then char_at fmt (i + 2) else NUL);
             c2 = (if c1 \<noteq> NUL then char_at fmt (i + 3) else NUL)
         in case vsn_dir c0 c1 c2 ap of
              DOut cs adv ap' \<Rightarrow> vsn_loop n fmt (i + 1 + adv + 1) ap' (puts_buf n cs buf)
            | DStop \<Rightarrow> Some buf
            | DUndef \<Rightarrow> None))"
  by pat_completeness auto
termination
  by (relation "measure (\<lambda>(n, fmt, i, ap, buf). length fmt - i)") auto

declare vsn_loop.simps [simp del]

text \<open>The characters stored, the NUL included, and the value returned.\<close>

definition vsnprintf :: "int \<Rightarrow> string \<Rightarrow> va list \<Rightarrow> (string \<times> nat) option" where
  "vsnprintf n fmt ap =
     (case vsn_loop n fmt 0 ap [] of
        None \<Rightarrow> None
      | Some buf \<Rightarrow> Some (buf @ [NUL], length buf))"

section \<open>vprintf of the user library (user/printf.c)\<close>

definition uprintint :: "u64 \<Rightarrow> nat \<Rightarrow> bool \<Rightarrow> int list" where
  "uprintint xx base sg =
     (let neg = (sg \<and> xx <s 0);
          x = (if neg then - xx else xx);
          buf = udigits user_digits base (unat x)
      in codes (rev (buf @ (if neg then ''-'' else []))))"

definition uprintptr :: "u64 \<Rightarrow> int list" where
  "uprintptr x = codes (''0x'' @ hex_nibbles user_digits 16 x)"

definition uprint_dir :: "char \<Rightarrow> char \<Rightarrow> char \<Rightarrow> va list \<Rightarrow> dstep" where
  "uprint_dir c0 c1 c2 ap =
     (if c0 = CHR ''d'' then va_num ap 0 (\<lambda>v. uprintint (va_int v) 10 True)
      else if c0 = CHR ''l'' \<and> c1 = CHR ''d'' then va_num ap 1 (\<lambda>v. uprintint v 10 True)
      else if c0 = CHR ''l'' \<and> c1 = CHR ''l'' \<and> c2 = CHR ''d'' then va_num ap 2 (\<lambda>v. uprintint v 10 True)
      else if c0 = CHR ''u'' then va_num ap 0 (\<lambda>v. uprintint (va_uint32 v) 10 False)
      else if c0 = CHR ''l'' \<and> c1 = CHR ''u'' then va_num ap 1 (\<lambda>v. uprintint v 10 False)
      else if c0 = CHR ''l'' \<and> c1 = CHR ''l'' \<and> c2 = CHR ''u'' then va_num ap 2 (\<lambda>v. uprintint v 10 False)
      else if c0 = CHR ''x'' then va_num ap 0 (\<lambda>v. uprintint (va_uint32 v) 16 False)
      else if c0 = CHR ''l'' \<and> c1 = CHR ''x'' then va_num ap 1 (\<lambda>v. uprintint v 16 False)
      else if c0 = CHR ''l'' \<and> c1 = CHR ''l'' \<and> c2 = CHR ''x'' then va_num ap 2 (\<lambda>v. uprintint v 16 False)
      else if c0 = CHR ''p'' then va_num ap 0 uprintptr
      else if c0 = CHR ''c'' then va_num ap 0 (\<lambda>v. [sint (ucast v :: u32)])
      else if c0 = CHR ''s'' then va_str ap 0
      else if c0 = CHR ''%'' then DOut (codes ''%'') 0 ap
      else DOut (codes [CHR ''%'', c0]) 0 ap)"

text \<open>
  \<open>percent\<close> is \<open>state == '%'\<close>. The result is the characters written, one write(fd, &c, 1)
  each, or \<open>None\<close> where an argument does not fit.
\<close>

function vprintf_loop :: "string \<Rightarrow> nat \<Rightarrow> bool \<Rightarrow> va list \<Rightarrow> string option" where
  "vprintf_loop fmt i percent ap =
     (if \<not> i < length fmt \<or> char_at fmt i = NUL then Some []
      else
        (let c0 = char_at fmt i in
         if \<not> percent then
           (if c0 = CHR ''%'' then vprintf_loop fmt (i + 1) True ap
            else map_option ((#) c0) (vprintf_loop fmt (i + 1) False ap))
         else
           (let c1 = (if c0 \<noteq> NUL then char_at fmt (i + 1) else NUL);
                c2 = (if c1 \<noteq> NUL then char_at fmt (i + 2) else NUL)
            in case uprint_dir c0 c1 c2 ap of
                 DOut cs adv ap' \<Rightarrow>
                   map_option ((@) (map code_char cs)) (vprintf_loop fmt (i + adv + 1) False ap')
               | DStop \<Rightarrow> Some []
               | DUndef \<Rightarrow> None)))"
  by pat_completeness auto
termination
  by (relation "measure (\<lambda>(fmt, i, p, ap). length fmt - i)") auto

declare vprintf_loop.simps [simp del]

definition uprintf :: "string \<Rightarrow> va list \<Rightarrow> string option" where
  "uprintf fmt ap = vprintf_loop fmt 0 False ap"

section \<open>What a format means\<close>

text \<open>
  The abstract reading: a format is a sequence of characters and conversions; a conversion
  letter may stand after one or two \<open>l\<close>, which make its argument 64 bits wide.
\<close>

datatype conv = Signed bool | Unsigned bool | Hex bool | Pointer | Character | Text | Percent | Stop | Unknown

definition conv_of :: "string \<Rightarrow> conv \<times> nat" where
  "conv_of cs =
     (let ls = length (takeWhile (\<lambda>c. c = CHR ''l'') (take 2 cs)); k = char_at cs ls; wide = (0 < ls)
      in if k = CHR ''d'' then (Signed wide, ls)
         else if k = CHR ''u'' then (Unsigned wide, ls)
         else if k = CHR ''x'' then (Hex wide, ls)
         else if cs = [] then (Stop, 0)
         else if char_at cs 0 = CHR ''p'' then (Pointer, 0)
         else if char_at cs 0 = CHR ''s'' then (Text, 0)
         else if char_at cs 0 = CHR ''c'' then (Character, 0)
         else if char_at cs 0 = CHR ''%'' then (Percent, 0)
         else (Unknown, 0))"

definition numeral_of :: "string \<Rightarrow> nat \<Rightarrow> nat \<Rightarrow> string" where
  "numeral_of ds b x = rev (udigits ds b x)"

definition signed_numeral :: "string \<Rightarrow> int \<Rightarrow> string" where
  "signed_numeral ds x = (if x < 0 then ''-'' else []) @ numeral_of ds 10 (nat \<bar>x\<bar>)"

fun render_conv :: "string \<Rightarrow> conv \<Rightarrow> char \<Rightarrow> va list \<Rightarrow> (int list \<times> va list) option" where
  "render_conv ds (Signed wide) c (Num v # ap) =
     Some (codes (signed_numeral ds (if wide then sint v else sint (ucast v :: u32))), ap)"
| "render_conv ds (Unsigned wide) c (Num v # ap) =
     Some (codes (numeral_of ds 10 (if wide then unat v else unat (ucast v :: u32))), ap)"
| "render_conv ds (Hex wide) c (Num v # ap) =
     Some (codes (numeral_of ds 16 (if wide then unat v else unat (ucast v :: u32))), ap)"
| "render_conv ds Pointer c (Num v # ap) = Some (codes (''0x'' @ hex_nibbles ds 16 v), ap)"
| "render_conv ds Character c (Num v # ap) = Some ([sint (ucast v :: u32)], ap)"
| "render_conv ds Text c (Str None # ap) = Some (codes ''(null)'', ap)"
| "render_conv ds Text c (Str (Some t) # ap) = Some (codes t, ap)"
| "render_conv ds Percent c ap = Some (codes ''%'', ap)"
| "render_conv ds Unknown c ap = Some (codes [CHR ''%'', c], ap)"
| "render_conv ds _ c ap = None"

text \<open>The codes a format and its arguments stand for.\<close>

function render :: "string \<Rightarrow> string \<Rightarrow> va list \<Rightarrow> int list option" where
  "render ds [] ap = Some []"
| "render ds (c # cs) ap =
     (if c \<noteq> CHR ''%'' then map_option ((#) (code_of c)) (render ds cs ap)
      else if fst (conv_of cs) = Stop then Some []
      else (case render_conv ds (fst (conv_of cs)) (char_at cs 0) ap of
              None \<Rightarrow> None
            | Some (out, ap') \<Rightarrow>
                map_option ((@) out) (render ds (drop (snd (conv_of cs) + 1) cs) ap')))"
  by pat_completeness auto
termination
  by (relation "measure (\<lambda>(ds, fmt, ap). length fmt)") auto

declare render.simps [simp del]

section \<open>Digits\<close>

lemma code_char_of [simp]: "code_char (code_of c) = c"
  by (simp add: code_char_def code_of_def)

lemma map_code_char_codes [simp]: "map code_char (codes s) = s"
  by (induction s) (simp_all add: codes_def)

lemma codes_simps [simp]: "codes [] = []" "codes (c # cs) = code_of c # codes cs"
    "codes (xs @ ys) = codes xs @ codes ys" "length (codes xs) = length xs"
  by (simp_all add: codes_def)

text \<open>The value of a numeral written with the digits \<open>ds\<close>.\<close>

definition digit_val :: "string \<Rightarrow> char \<Rightarrow> nat" where
  "digit_val ds c = length (takeWhile (\<lambda>d. d \<noteq> c) ds)"

definition num_val :: "string \<Rightarrow> nat \<Rightarrow> string \<Rightarrow> nat" where
  "num_val ds b s = foldl (\<lambda>n c. n * b + digit_val ds c) 0 s"

lemma digit_val_nth: "distinct ds \<Longrightarrow> i < length ds \<Longrightarrow> digit_val ds (ds ! i) = i"
proof (induction ds arbitrary: i)
  case (Cons d ds)
  then show ?case by (cases i) (auto simp: digit_val_def)
qed simp

text \<open>Reading a numeral back gives the number it was made from.\<close>

lemma numeral_of_rec:
  "2 \<le> b \<Longrightarrow> numeral_of ds b x =
     (if x div b = 0 then [] else numeral_of ds b (x div b)) @ [ds ! (x mod b)]"
  by (subst numeral_of_def, subst udigits.simps) (simp add: numeral_of_def)

lemma num_val_append: "num_val ds b (s @ [c]) = num_val ds b s * b + digit_val ds c"
  by (simp add: num_val_def)

lemma num_val_numeral_of:
  assumes "distinct ds" and "b \<le> length ds" and "2 \<le> b"
  shows "num_val ds b (numeral_of ds b x) = x"
  using assms
proof (induction ds b x rule: udigits.induct)
  case (1 ds b x)
  then have d: "digit_val ds (ds ! (x mod b)) = x mod b"
    by (intro digit_val_nth) (auto intro: less_le_trans [OF mod_less_divisor])
  show ?case
  proof (cases "x div b = 0")
    case True
    then have "numeral_of ds b x = [] @ [ds ! (x mod b)]"
      using 1 by (subst numeral_of_rec) auto
    moreover have "x mod b = x" using True 1(4) by (auto simp: div_eq_0_iff)
    ultimately show ?thesis
      using d by (simp only: num_val_append) (simp add: num_val_def)
  next
    case False
    then have "numeral_of ds b x = numeral_of ds b (x div b) @ [ds ! (x mod b)]"
      using 1 by (subst numeral_of_rec) auto
    then show ?thesis
      using 1 False d by (simp only: num_val_append) simp
  qed
qed

text \<open>A numeral of a number below \<open>b ^ k\<close> has at most \<open>k\<close> digits.\<close>

lemma length_udigits: "2 \<le> b \<Longrightarrow> x < b ^ Suc k \<Longrightarrow> length (udigits ds b x) \<le> Suc k"
proof (induction k arbitrary: x)
  case 0
  then show ?case by (subst udigits.simps) simp
next
  case (Suc k)
  then have "x div b < b ^ Suc k"
    by (simp add: less_mult_imp_div_less mult.commute)
  with Suc have "length (udigits ds b (x div b)) \<le> Suc k" by simp
  then show ?case by (subst udigits.simps) simp
qed

lemma udigits_not_empty: "udigits ds b x \<noteq> []"
  by (subst udigits.simps) simp

lemma udigits_distinct_chars:
  "2 \<le> b \<Longrightarrow> b \<le> length ds \<Longrightarrow> set (udigits ds b x) \<subseteq> set ds"
proof (induction ds b x rule: udigits.induct)
  case (1 ds b x)
  then have "ds ! (x mod b) \<in> set ds"
    by (intro nth_mem less_le_trans [OF mod_less_divisor]) auto
  with 1 show ?case by (subst udigits.simps) auto
qed

section \<open>The printers render\<close>

lemma char_at_drop: "char_at (drop k cs) j = char_at cs (k + j)"
  by (auto simp: char_at_def)

lemma char_at_NUL_iff: "NUL \<notin> set cs \<Longrightarrow> char_at cs i = NUL \<longleftrightarrow> length cs \<le> i"
  by (auto simp: char_at_def in_set_conv_nth)

lemma signed_codes:
  "vsn_signed x = codes (signed_numeral digits (sint x))"
  "uprintint x 10 True = codes (signed_numeral user_digits (sint x))"
proof -
  have neg: "unat (- x) = nat (- sint x)" if "sint x < 0"
  proof -
    have "- sint x \<le> 2 ^ 63" using sint_ge [of x] by simp
    with that have "uint (word_of_int (- sint x) :: u64) = - sint x"
      by (subst uint_word_of_int) simp
    moreover have "word_of_int (- sint x) = - x" by simp
    ultimately have "uint (- x) = - sint x" by metis
    then show ?thesis by (metis nat_uint_eq)
  qed
  have pos: "unat x = nat (sint x)" if "0 \<le> sint x"
  proof -
    have "sint x < 2 ^ 63" using sint_lt [of x] by simp
    with that have "uint (word_of_int (sint x) :: u64) = sint x"
      by (subst uint_word_of_int) simp
    moreover have "word_of_int (sint x) = x" by simp
    ultimately have "uint x = sint x" by metis
    then show ?thesis by (metis nat_uint_eq)
  qed
  have sg: "x <s 0 \<longleftrightarrow> sint x < 0" by (simp add: word_sless_alt)
  show "vsn_signed x = codes (signed_numeral digits (sint x))"
    by (cases "sint x < 0")
      (simp_all add: neg pos sg vsn_signed_def signed_numeral_def numeral_of_def del: sint_0)
  show "uprintint x 10 True = codes (signed_numeral user_digits (sint x))"
    by (cases "sint x < 0")
      (simp_all add: neg pos sg uprintint_def signed_numeral_def numeral_of_def Let_def)
qed

lemma va_int_sint: "sint (va_int v) = sint (ucast v :: u32)"
proof -
  have "signed_take_bit 63 (sint (ucast v :: u32)) = sint (ucast v :: u32)"
    using sint_ge [of "ucast v :: u32"] sint_lt [of "ucast v :: u32"]
    by (intro signed_take_bit_int_eq_self) simp_all
  then show ?thesis by (simp add: va_int_def signed_scast_eq)
qed

lemma va_uint32_unat: "unat (va_uint32 v) = unat (ucast v :: u32)"
proof -
  have "unat w < 2 ^ 32" for w :: u32
    using unsigned_less [of w] by simp
  then have "unat (ucast v :: u32) < 2 ^ 64" by (rule less_trans) simp
  then show ?thesis by (simp add: va_uint32_def unsigned_ucast_eq take_bit_nat_eq_self unsigned_take_bit_eq)
qed

lemmas printer_codes = signed_codes va_int_sint va_uint32_unat
  vsn_unsigned_def uprintptr_def numeral_of_def

lemma uprintint_unsigned: "uprintint x b False = codes (numeral_of user_digits b (unat x))"
  by (simp add: uprintint_def numeral_of_def)

text \<open>
  What a directive must do to be the abstract conversion: the contract between a printer's
  chain of tests and the loop that drives it. The three printers satisfy it.
\<close>

definition conv_step :: "string \<Rightarrow> string \<Rightarrow> va list \<Rightarrow> dstep" where
  "conv_step ds cs ap =
     (if fst (conv_of cs) = Stop then DStop
      else case render_conv ds (fst (conv_of cs)) (char_at cs 0) ap of
             None \<Rightarrow> DUndef
           | Some (out, ap') \<Rightarrow> DOut out (snd (conv_of cs)) ap')"

definition look1 :: "string \<Rightarrow> char" where
  "look1 cs = (if char_at cs 0 \<noteq> NUL then char_at cs 1 else NUL)"

definition look2 :: "string \<Rightarrow> char" where
  "look2 cs = (if look1 cs \<noteq> NUL then char_at cs 2 else NUL)"

lemma conv_of_cases:
  assumes "NUL \<notin> set cs"
  shows "conv_of cs =
     (let c0 = char_at cs 0; c1 = look1 cs; c2 = look2 cs in
      if c0 = CHR ''d'' then (Signed False, 0)
      else if c0 = CHR ''l'' \<and> c1 = CHR ''d'' then (Signed True, 1)
      else if c0 = CHR ''l'' \<and> c1 = CHR ''l'' \<and> c2 = CHR ''d'' then (Signed True, 2)
      else if c0 = CHR ''u'' then (Unsigned False, 0)
      else if c0 = CHR ''l'' \<and> c1 = CHR ''u'' then (Unsigned True, 1)
      else if c0 = CHR ''l'' \<and> c1 = CHR ''l'' \<and> c2 = CHR ''u'' then (Unsigned True, 2)
      else if c0 = CHR ''x'' then (Hex False, 0)
      else if c0 = CHR ''l'' \<and> c1 = CHR ''x'' then (Hex True, 1)
      else if c0 = CHR ''l'' \<and> c1 = CHR ''l'' \<and> c2 = CHR ''x'' then (Hex True, 2)
      else if c0 = NUL then (Stop, 0)
      else if c0 = CHR ''p'' then (Pointer, 0)
      else if c0 = CHR ''s'' then (Text, 0)
      else if c0 = CHR ''c'' then (Character, 0)
      else if c0 = CHR ''%'' then (Percent, 0)
      else (Unknown, 0))"
proof (cases cs)
  case Nil
  then show ?thesis by (simp add: conv_of_def look1_def look2_def)
next
  case (Cons c cs')
  show ?thesis
  proof (cases "c = CHR ''l''")
    case False
    then show ?thesis
      using Cons assms by (auto simp: conv_of_def Let_def)
  next
    case True
    note c = this
    show ?thesis
    proof (cases cs')
      case Nil
      then show ?thesis using Cons c by (simp add: conv_of_def look1_def look2_def Let_def)
    next
      case (Cons d cs2)
      then show ?thesis
        using \<open>cs = c # cs'\<close> c assms
        by (cases "d = CHR ''l''"; cases cs2) (auto simp: conv_of_def look1_def look2_def Let_def)
    qed
  qed
qed

lemma render_conv_cases:
  "render_conv ds (Signed w) c ap = (case ap of Num v # r \<Rightarrow>
     Some (codes (signed_numeral ds (if w then sint v else sint (ucast v :: u32))), r) | _ \<Rightarrow> None)"
  "render_conv ds (Unsigned w) c ap = (case ap of Num v # r \<Rightarrow>
     Some (codes (numeral_of ds 10 (if w then unat v else unat (ucast v :: u32))), r) | _ \<Rightarrow> None)"
  "render_conv ds (Hex w) c ap = (case ap of Num v # r \<Rightarrow>
     Some (codes (numeral_of ds 16 (if w then unat v else unat (ucast v :: u32))), r) | _ \<Rightarrow> None)"
  "render_conv ds Pointer c ap = (case ap of Num v # r \<Rightarrow>
     Some (codes (''0x'' @ hex_nibbles ds 16 v), r) | _ \<Rightarrow> None)"
  "render_conv ds Character c ap = (case ap of Num v # r \<Rightarrow> Some ([sint (ucast v :: u32)], r) | _ \<Rightarrow> None)"
  "render_conv ds Text c ap = (case ap of Str s # r \<Rightarrow>
     Some (codes (case s of None \<Rightarrow> ''(null)'' | Some t \<Rightarrow> t), r) | _ \<Rightarrow> None)"
  by (auto split: list.splits va.splits option.splits)

lemma va_case_step:
  "(case (case ap of Num v # r \<Rightarrow> Some (f v, r) | _ \<Rightarrow> None) of
      None \<Rightarrow> DUndef | Some (out, r) \<Rightarrow> DOut out adv r) = va_num ap adv f"
  "(case (case ap of Str s # r \<Rightarrow> Some (codes (case s of None \<Rightarrow> ''(null)'' | Some t \<Rightarrow> t), r) | _ \<Rightarrow> None) of
      None \<Rightarrow> DUndef | Some (out, r) \<Rightarrow> DOut out adv r) = va_str ap adv"
  by (simp_all add: va_num_def va_str_def split: list.splits va.splits)

lemma vsn_codes_fun:
  "vsn_signed = (\<lambda>v. codes (signed_numeral digits (sint v)))"
  "vsn_unsigned b = (\<lambda>v. codes (numeral_of digits b (unat v)))"
  by (simp_all add: fun_eq_iff signed_codes vsn_unsigned_def numeral_of_def)

lemma vsn_dir_conv:
  assumes "NUL \<notin> set cs"
  shows "vsn_dir (char_at cs 0) (look1 cs) (look2 cs) ap = conv_step digits cs ap"
  unfolding conv_step_def conv_of_cases [OF assms] Let_def vsn_dir_def
  by (auto simp: render_conv_cases va_case_step vsn_codes_fun va_int_sint va_uint32_unat)

lemma vsn_dir_end: "vsn_dir NUL c1 c2 ap = DStop"
  by (simp add: vsn_dir_def)

lemma uprint_codes_fun:
  "(\<lambda>v. uprintint v 10 True) = (\<lambda>v. codes (signed_numeral user_digits (sint v)))"
  "(\<lambda>v. uprintint v b False) = (\<lambda>v. codes (numeral_of user_digits b (unat v)))"
  "uprintptr = (\<lambda>v. codes (''0x'' @ hex_nibbles user_digits 16 v))"
  by (simp_all add: fun_eq_iff signed_codes uprintint_unsigned uprintptr_def)

lemma uprint_dir_conv:
  assumes "cs \<noteq> []" and "NUL \<notin> set cs"
  shows "uprint_dir (char_at cs 0) (look1 cs) (look2 cs) ap = conv_step user_digits cs ap"
proof -
  have "char_at cs 0 \<noteq> NUL" using assms by (simp add: char_at_NUL_iff)
  then show ?thesis
    unfolding conv_step_def conv_of_cases [OF assms(2)] Let_def uprint_dir_def
    by (auto simp: render_conv_cases va_case_step uprint_codes_fun signed_codes uprintint_unsigned
        va_int_sint va_uint32_unat)
qed

text \<open>
  The contract between a loop over a format and the chain of tests it calls at a percent
  sign: on the rest of the format after the sign the chain does the abstract conversion.
\<close>

locale formatter =
  fixes ds :: string
    and dir :: "char \<Rightarrow> char \<Rightarrow> char \<Rightarrow> va list \<Rightarrow> dstep"
  assumes dir_conv: "cs \<noteq> [] \<Longrightarrow> NUL \<notin> set cs \<Longrightarrow>
      dir (char_at cs 0) (look1 cs) (look2 cs) ap = conv_step ds cs ap"
begin

lemma render_end: "\<not> i < length fmt \<Longrightarrow> render ds (drop i fmt) ap = Some []"
  by (simp add: render.simps)

lemma render_plain:
  "i < length fmt \<Longrightarrow> char_at fmt i \<noteq> CHR ''%'' \<Longrightarrow>
   render ds (drop i fmt) ap = map_option ((#) (code_of (char_at fmt i))) (render ds (drop (Suc i) fmt) ap)"
  by (simp add: Cons_nth_drop_Suc [symmetric] render.simps char_at_def)

lemma render_last_percent:
  "i < length fmt \<Longrightarrow> char_at fmt i = CHR ''%'' \<Longrightarrow> length fmt \<le> Suc i \<Longrightarrow>
   render ds (drop i fmt) ap = Some []"
  by (simp add: Cons_nth_drop_Suc [symmetric] render.simps char_at_def conv_of_def)

lemma render_percent:
  assumes "char_at fmt i = CHR ''%''" and "Suc i < length fmt" and "NUL \<notin> set fmt"
  shows "render ds (drop i fmt) ap =
    (case dir (char_at fmt (Suc i)) (look1 (drop (Suc i) fmt)) (look2 (drop (Suc i) fmt)) ap of
       DOut out adv ap' \<Rightarrow> map_option ((@) out) (render ds (drop (Suc (Suc i) + adv) fmt) ap')
     | DStop \<Rightarrow> Some []
     | DUndef \<Rightarrow> None)"
proof -
  let ?cs = "drop (Suc i) fmt"
  have cs: "?cs \<noteq> []" "NUL \<notin> set ?cs" using assms by (auto dest: in_set_dropD)
  have "drop i fmt = CHR ''%'' # ?cs"
    using assms by (simp add: Cons_nth_drop_Suc [symmetric] char_at_def)
  then have "render ds (drop i fmt) ap =
    (case conv_step ds ?cs ap of
       DOut out adv ap' \<Rightarrow> map_option ((@) out) (render ds (drop (adv + 1) ?cs) ap')
     | DStop \<Rightarrow> Some []
     | DUndef \<Rightarrow> None)"
    by (simp add: render.simps conv_step_def split: option.splits)
  moreover have "char_at ?cs 0 = char_at fmt (Suc i)" by (simp add: char_at_drop)
  ultimately show ?thesis
    using dir_conv [OF cs, of ap] by (simp add: ac_simps split: dstep.splits)
qed

end

interpretation vsn: formatter digits vsn_dir
  by unfold_locales (rule vsn_dir_conv)

interpretation up: formatter user_digits uprint_dir
  by unfold_locales (rule uprint_dir_conv)

lemma look_drop:
  "look1 (drop (Suc i) fmt) = (if char_at fmt (i + 1) \<noteq> NUL then char_at fmt (i + 2) else NUL)"
  "look2 (drop (Suc i) fmt) =
     (if look1 (drop (Suc i) fmt) \<noteq> NUL then char_at fmt (i + 3) else NUL)"
  by (simp_all add: look1_def look2_def char_at_drop eval_nat_numeral)

section \<open>What vsnprintf and vprintf produce\<close>

lemma puts_buf_Cons [simp]: "puts_buf n (c # cs) buf = puts_buf n cs (putc_buf n c buf)"
  by (simp add: puts_buf_def)

lemma puts_buf_Nil [simp]: "puts_buf n [] buf = buf"
  by (simp add: puts_buf_def)

lemma puts_buf_append [simp]: "puts_buf n (cs @ ds) buf = puts_buf n ds (puts_buf n cs buf)"
  by (simp add: puts_buf_def)

lemma puts_buf_take:
  "puts_buf n cs buf = buf @ take (nat (n - 1) - length buf) (map code_char cs)"
proof (induction cs arbitrary: buf)
  case Nil
  then show ?case by simp
next
  case (Cons c cs)
  show ?case
  proof (cases "int (length buf) < n - 1")
    case True
    then have "nat (n - 1) - length buf = Suc (nat (n - 1) - length (buf @ [code_char c]))" by simp
    then show ?thesis using Cons True by (simp add: putc_buf_def)
  next
    case False
    then show ?thesis using Cons by (simp add: putc_buf_def)
  qed
qed

lemma vsn_loop_render:
  "NUL \<notin> set fmt \<Longrightarrow>
   vsn_loop n fmt i ap buf = map_option (\<lambda>out. puts_buf n out buf) (render digits (drop i fmt) ap)"
proof (induction n fmt i ap buf rule: vsn_loop.induct)
  case (1 n fmt i ap buf)
  note nul = char_at_NUL_iff [OF 1(3)]
  let ?c1 = "look1 (drop (Suc i) fmt)" and ?c2 = "look2 (drop (Suc i) fmt)"
  consider "\<not> i < length fmt" | "i < length fmt" "char_at fmt i \<noteq> CHR ''%''"
    | "i < length fmt" "char_at fmt i = CHR ''%''" "length fmt \<le> Suc i"
    | "char_at fmt i = CHR ''%''" "Suc i < length fmt"
    by linarith
  then show ?case
  proof cases
    case 1
    then show ?thesis by (subst vsn_loop.simps) (simp add: vsn.render_end render.simps)
  next
    case 2
    then show ?thesis
      using "1.IH"(1) "1.prems" nul
      by (subst vsn_loop.simps) (simp add: vsn.render_plain option.map_comp comp_def)
  next
    case 3
    then have "char_at fmt (i + 1) = NUL" by (simp add: char_at_def)
    then show ?thesis
      using 3 by (subst vsn_loop.simps) (simp add: vsn.render_last_percent vsn_dir_end Let_def)
  next
    case 4
    note r = vsn.render_percent [OF 4 "1.prems", of ap]
    show ?thesis
    proof (cases "vsn_dir (char_at fmt (i + 1)) ?c1 ?c2 ap")
      case (DOut cs adv ap')
      then have "vsn_loop n fmt i ap buf = vsn_loop n fmt (i + 1 + adv + 1) ap' (puts_buf n cs buf)"
        using 4 nul by (subst vsn_loop.simps) (simp add: look_drop Let_def)
      moreover have "vsn_loop n fmt (i + 1 + adv + 1) ap' (puts_buf n cs buf) =
          map_option (\<lambda>out. puts_buf n out (puts_buf n cs buf)) (render digits (drop (i + 1 + adv + 1) fmt) ap')"
        using DOut 4 nul "1.prems" by (intro "1.IH"(2)) (simp_all add: look_drop)
      ultimately show ?thesis using DOut r by (simp add: option.map_comp comp_def)
    next
      case DStop
      then show ?thesis using r 4 nul by (subst vsn_loop.simps) (simp add: look_drop Let_def)
    next
      case DUndef
      then show ?thesis using r 4 nul by (subst vsn_loop.simps) (simp add: look_drop Let_def)
    qed
  qed
qed

lemma vsnprintf_render:
  "NUL \<notin> set fmt \<Longrightarrow>
   vsnprintf n fmt ap = map_option (\<lambda>out. (take (nat (n - 1)) (map code_char out) @ [NUL],
     min (nat (n - 1)) (length out))) (render digits fmt ap)"
  using vsn_loop_render [of fmt n 0 ap "[]"]
  by (cases "render digits fmt ap") (simp_all add: vsnprintf_def puts_buf_take)

lemma vprintf_loop_end: "\<not> i < length fmt \<Longrightarrow> vprintf_loop fmt i p ap = Some []"
  by (subst vprintf_loop.simps) simp

lemma vprintf_loop_plain:
  "i < length fmt \<Longrightarrow> NUL \<notin> set fmt \<Longrightarrow>
   vprintf_loop fmt i False ap =
     (if char_at fmt i = CHR ''%'' then vprintf_loop fmt (i + 1) True ap
      else map_option ((#) (char_at fmt i)) (vprintf_loop fmt (i + 1) False ap))"
  by (subst vprintf_loop.simps) (simp add: char_at_NUL_iff Let_def)

lemma vprintf_loop_percent:
  "Suc i < length fmt \<Longrightarrow> NUL \<notin> set fmt \<Longrightarrow>
   vprintf_loop fmt (Suc i) True ap =
     (case uprint_dir (char_at fmt (Suc i)) (look1 (drop (Suc i) fmt)) (look2 (drop (Suc i) fmt)) ap of
        DOut cs adv ap' \<Rightarrow>
          map_option ((@) (map code_char cs)) (vprintf_loop fmt (Suc (Suc i) + adv) False ap')
      | DStop \<Rightarrow> Some []
      | DUndef \<Rightarrow> None)"
  by (subst vprintf_loop.simps)
    (simp add: char_at_NUL_iff Let_def look_drop eval_nat_numeral ac_simps cong: dstep.case_cong)

lemma vprintf_loop_render:
  assumes "NUL \<notin> set fmt"
  shows "vprintf_loop fmt i False ap = map_option (map code_char) (render user_digits (drop i fmt) ap)"
proof (induction "length fmt - i" arbitrary: i ap rule: less_induct)
  case less
  consider "\<not> i < length fmt" | "i < length fmt" "char_at fmt i \<noteq> CHR ''%''"
    | "i < length fmt" "char_at fmt i = CHR ''%''" "length fmt \<le> Suc i"
    | "char_at fmt i = CHR ''%''" "Suc i < length fmt"
    by linarith
  then show ?case
  proof cases
    case 1
    then show ?thesis by (simp add: vprintf_loop_end up.render_end render.simps)
  next
    case 2
    then show ?thesis
      using less [of "Suc i" ap] assms
      by (simp add: vprintf_loop_plain up.render_plain option.map_comp comp_def)
  next
    case 3
    then show ?thesis
      using assms by (simp add: vprintf_loop_plain vprintf_loop_end up.render_last_percent)
  next
    case 4
    have "vprintf_loop fmt (Suc (Suc i) + adv) False ap' =
        map_option (map code_char) (render user_digits (drop (Suc (Suc i) + adv) fmt) ap')" for adv ap'
      using 4 by (intro less) simp
    then show ?thesis
      using 4 assms
      by (simp add: vprintf_loop_plain vprintf_loop_percent up.render_percent option.map_comp comp_def
          split: dstep.splits)
  qed
qed

lemma uprintf_render:
  "NUL \<notin> set fmt \<Longrightarrow> uprintf fmt ap = map_option (map code_char) (render user_digits fmt ap)"
  using vprintf_loop_render [of fmt 0 ap] by (simp add: uprintf_def)

text \<open>No directive stores more digits than the local arrays hold (tmp[24], buf[20]).\<close>

lemma numeral_length:
  "length (udigits ds 10 (unat (x :: u64))) \<le> 20" "length (udigits ds 16 (unat (x :: u64))) \<le> 16"
proof -
  have x: "unat x < 2 ^ 64" using unsigned_less [of x] by simp
  have "unat x < 10 ^ Suc 19" using x by (rule less_le_trans) simp
  then show "length (udigits ds 10 (unat x)) \<le> 20" using length_udigits [of 10 "unat x" 19] by simp
  have "unat x < 16 ^ Suc 15" using x by (rule less_le_trans) simp
  then show "length (udigits ds 16 (unat x)) \<le> 16" using length_udigits [of 16 "unat x" 15] by simp
qed

text \<open>Rendering a known format, conversion by conversion.\<close>

lemma render_steps:
  "render ds [] ap = Some []"
  "c \<noteq> CHR ''%'' \<Longrightarrow> render ds (c # cs) ap = map_option ((#) (code_of c)) (render ds cs ap)"
  "render ds (CHR ''%'' # CHR ''d'' # cs) (Num v # ap) =
     map_option ((@) (codes (signed_numeral ds (sint (ucast v :: u32))))) (render ds cs ap)"
  "render ds (CHR ''%'' # CHR ''u'' # cs) (Num v # ap) =
     map_option ((@) (codes (numeral_of ds 10 (unat (ucast v :: u32))))) (render ds cs ap)"
  "render ds (CHR ''%'' # CHR ''x'' # cs) (Num v # ap) =
     map_option ((@) (codes (numeral_of ds 16 (unat (ucast v :: u32))))) (render ds cs ap)"
  "render ds (CHR ''%'' # CHR ''l'' # CHR ''d'' # cs) (Num v # ap) =
     map_option ((@) (codes (signed_numeral ds (sint v)))) (render ds cs ap)"
  "render ds (CHR ''%'' # CHR ''l'' # CHR ''u'' # cs) (Num v # ap) =
     map_option ((@) (codes (numeral_of ds 10 (unat v)))) (render ds cs ap)"
  "render ds (CHR ''%'' # CHR ''l'' # CHR ''x'' # cs) (Num v # ap) =
     map_option ((@) (codes (numeral_of ds 16 (unat v)))) (render ds cs ap)"
  "render ds (CHR ''%'' # CHR ''l'' # CHR ''l'' # CHR ''d'' # cs) (Num v # ap) =
     map_option ((@) (codes (signed_numeral ds (sint v)))) (render ds cs ap)"
  "render ds (CHR ''%'' # CHR ''l'' # CHR ''l'' # CHR ''u'' # cs) (Num v # ap) =
     map_option ((@) (codes (numeral_of ds 10 (unat v)))) (render ds cs ap)"
  "render ds (CHR ''%'' # CHR ''l'' # CHR ''l'' # CHR ''x'' # cs) (Num v # ap) =
     map_option ((@) (codes (numeral_of ds 16 (unat v)))) (render ds cs ap)"
  "render ds (CHR ''%'' # CHR ''s'' # cs) (Str (Some t) # ap) =
     map_option ((@) (codes t)) (render ds cs ap)"
  "render ds (CHR ''%'' # CHR ''p'' # cs) (Num v # ap) =
     map_option ((@) (codes (''0x'' @ hex_nibbles ds 16 v))) (render ds cs ap)"
  "render ds (CHR ''%'' # CHR ''c'' # cs) (Num v # ap) =
     map_option ((@) [sint (ucast v :: u32)]) (render ds cs ap)"
  "render ds (CHR ''%'' # CHR ''%'' # cs) ap = map_option ((@) (codes ''%'')) (render ds cs ap)"
  by (subst render.simps, simp add: conv_of_def Let_def)+

end
