(* ===== verification/Uart.thy ===== *)
theory Uart
  imports Sched Format
begin

text \<open>
  The serial port: kernel/uart.c up to its interrupt handler (which is in \<open>Console\<close>, with
  the input side), and consputc of kernel/console.c. The state adds the device --- its
  registers, what it has been given to send and what has arrived --- and the flags
  panicking and panicked of kernel/printf.c.
\<close>

section \<open>The device and the flags\<close>

text \<open>
  \<open>uart_out\<close> is every byte written to THR, in order; \<open>uart_in\<close> the bytes the receive FIFO
  holds. \<open>uart_idle\<close> is the LSR_TX_IDLE bit: actions of the environment set and clear it
  as the device pleases.
\<close>

record uart_state = sched_state +
  uart_out :: string
  uart_in :: string
  uart_idle :: bool
  uart_reg :: "nat \<Rightarrow> u8"
  uart_divisor :: "nat \<Rightarrow> u8"
  tx_busy :: int
  panicking :: bool
  panicked :: bool

definition IER :: nat where "IER = 1"
definition IER_RX_ENABLE :: u8 where "IER_RX_ENABLE = push_bit 0 1"
definition IER_TX_ENABLE :: u8 where "IER_TX_ENABLE = push_bit 1 1"
definition FCR :: nat where "FCR = 2"
definition FCR_FIFO_ENABLE :: u8 where "FCR_FIFO_ENABLE = push_bit 0 1"
definition FCR_FIFO_CLEAR :: u8 where "FCR_FIFO_CLEAR = push_bit 1 3"
definition LCR :: nat where "LCR = 3"
definition LCR_EIGHT_BITS :: u8 where "LCR_EIGHT_BITS = push_bit 0 3"
definition LCR_BAUD_LATCH :: u8 where "LCR_BAUD_LATCH = push_bit 7 1"

text \<open>
  \<open>WriteReg\<close>: with the latch bit of LCR set, registers 0 and 1 are the baud rate divisor;
  otherwise register 0 is THR.
\<close>

definition uart_write :: "nat \<Rightarrow> u8 \<Rightarrow> ('a uart_state_scheme, unit) kfun" where
  "uart_write r v = kmod (\<lambda>s.
     if uart_reg s LCR AND LCR_BAUD_LATCH \<noteq> 0 \<and> r < 2
     then s\<lparr>uart_divisor := (uart_divisor s)(r := v)\<rparr>
     else if r = 0 then s\<lparr>uart_out := uart_out s @ [char_of_byte v]\<rparr>
     else s\<lparr>uart_reg := (uart_reg s)(r := v)\<rparr>)"

definition uartinit :: "('a uart_state_scheme, unit) kfun" where
  "uartinit = kseq
     [ uart_write IER 0x00,
       uart_write LCR LCR_BAUD_LATCH,
       uart_write 0 0x03,
       uart_write 1 0x00,
       uart_write LCR LCR_EIGHT_BITS,
       uart_write FCR (FCR_FIFO_ENABLE OR FCR_FIFO_CLEAR),
       uart_write IER (IER_TX_ENABLE OR IER_RX_ENABLE),
       initlock LkUartTx ''uart'' ]"

text \<open>\<open>WriteReg(THR, c)\<close>\<close>

definition uart_thr :: "char \<Rightarrow> ('a uart_state_scheme, unit) kfun" where
  "uart_thr c = uart_write 0 (byte_of c)"

definition uartwrite :: "string \<Rightarrow> ('a uart_state_scheme, unit) kfun" where
  "uartwrite buf = kseq
     [ acquire LkUartTx,
       kfor buf (\<lambda>c. kseq
         [ kloop (\<lambda>s. tx_busy s \<noteq> 0) (sleep ChTx LkUartTx),
           uart_thr c,
           kmod (\<lambda>s. s\<lparr>tx_busy := 1\<rparr>) ]),
       release LkUartTx ]"

definition uartputc_sync :: "int \<Rightarrow> ('a uart_state_scheme, unit) kfun" where
  "uartputc_sync c = kseq
     [ kwhen (\<lambda>s. \<not> panicking s) push_off,
       kwhen panicked khalt,
       await uart_idle,
       uart_write 0 (word_of_int c),
       kwhen (\<lambda>s. \<not> panicking s) pop_off ]"

text \<open>\<open>-1\<close> when no byte is waiting.\<close>

definition uartgetc :: "('a uart_state_scheme, int) kfun" where
  "uartgetc = kbind (kget uart_in) (\<lambda>q. case q of
       [] \<Rightarrow> kret (-1)
     | c # q' \<Rightarrow> kthen (kmod (\<lambda>s. s\<lparr>uart_in := q'\<rparr>)) (kret (code_of c)))"

definition BACKSPACE :: int where "BACKSPACE = 0x100"

definition consputc :: "int \<Rightarrow> ('a uart_state_scheme, unit) kfun" where
  "consputc c =
     (if c = BACKSPACE then kseq [uartputc_sync 8, uartputc_sync 0x20, uartputc_sync 8]
      else uartputc_sync c)"

section \<open>What they do\<close>

text \<open>
  The console is ready to print when the transmitter is idle with the latch closed, the
  machine is not halted after a panic, and push_off may be called.
\<close>

definition tty_ok :: "'a uart_state_scheme \<Rightarrow> bool" where
  "tty_ok s \<longleftrightarrow> uart_idle s \<and> \<not> panicked s \<and> uart_reg s LCR AND LCR_BAUD_LATCH = 0 \<and> hart_ok s"

definition tty_put :: "string \<Rightarrow> 'a uart_state_scheme \<Rightarrow> 'a uart_state_scheme" where
  "tty_put cs s = s\<lparr>uart_out := uart_out s @ cs\<rparr>"

text \<open>The text a code passed to consputc shows up as.\<close>

definition cons_text :: "int \<Rightarrow> string" where
  "cons_text c = (if c = BACKSPACE then [CHR 0x08, CHR '' '', CHR 0x08] else [code_char c])"

text \<open>Printing outside a panic switches interrupts off and on: the flag it saves is settled.\<close>

definition unpanicked_settled :: "'a uart_state_scheme \<Rightarrow> 'a uart_state_scheme" where
  "unpanicked_settled s = (if panicking s then s else settled s)"

lemma char_of_byte_code: "char_of_byte (word_of_int c) = code_char c"
proof -
  have "unat (word_of_int c :: u8) = nat (uint (word_of_int c :: u8))" by simp
  also have "\<dots> = nat (c mod 256)" by (subst uint_word_of_int) simp
  finally show ?thesis by (simp only: char_of_byte_def code_char_def)
qed

lemma tty_put_simps [simp]:
  "panicking (tty_put cs s) = panicking s" "panicked (tty_put cs s) = panicked s"
  "uart_idle (tty_put cs s) = uart_idle s" "uart_reg (tty_put cs s) = uart_reg s"
  "uart_out (tty_put cs s) = uart_out s @ cs" "csr (tty_put cs s) = csr s"
  "gpr (tty_put cs s) = gpr s" "cpus (tty_put cs s) = cpus s" "locks (tty_put cs s) = locks s"
  "procs (tty_put cs s) = procs s" "pmem (tty_put cs s) = pmem s" "ticks (tty_put cs s) = ticks s"
  "hart (tty_put cs s) = hart s" "kmapped (tty_put cs s) = kmapped s"
  "curproc (tty_put cs s) = curproc s"
  by (simp_all add: tty_put_def hart_def curproc_def)

lemma tty_put_idle [simp]: "tty_put [] s = s"
  by (simp add: tty_put_def)

lemma tty_put_put [simp]: "tty_put ds (tty_put cs s) = tty_put (cs @ ds) s"
  by (simp add: tty_put_def)

lemma uart_lock_simps [simp]:
  "uart_idle (acquired lk s) = uart_idle s" "panicked (acquired lk s) = panicked s"
  "panicking (acquired lk s) = panicking s" "uart_reg (acquired lk s) = uart_reg s"
  "uart_idle (settled s) = uart_idle s" "panicked (settled s) = panicked s"
  "panicking (settled s) = panicking s" "uart_reg (settled s) = uart_reg s"
  "uart_idle (push_off_st s) = uart_idle s" "panicked (push_off_st s) = panicked s"
  "panicking (push_off_st s) = panicking s" "uart_reg (push_off_st s) = uart_reg s"
  "uart_out (acquired lk s) = uart_out s" "uart_out (settled s) = uart_out s"
  "uart_out (push_off_st s) = uart_out s"
  by (simp_all add: acquired_def settled_def push_off_st_def set_lock_def set_cpu_def set_sie_def)

lemma tty_put_lock:
  "tty_put cs (acquired lk s) = acquired lk (tty_put cs s)"
  "tty_put cs (settled s) = settled (tty_put cs s)"
  "tty_put cs (push_off_st s) = push_off_st (tty_put cs s)"
  by (simp_all add: tty_put_def acquired_def settled_def push_off_st_def set_lock_def set_cpu_def
      set_sie_def intr_enabled_def hart_def)

lemma tty_ok_simps [simp]:
  "tty_ok (tty_put cs s) = tty_ok s" "tty_ok (settled s) = tty_ok s"
  by (simp_all add: tty_ok_def hart_ok_def intr_enabled_def)

lemma tty_ok_acquired [simp]: "tty_ok s \<Longrightarrow> tty_ok (acquired lk s)"
  by (simp add: tty_ok_def)

lemma unpanicked_settled_idem [simp]:
  "unpanicked_settled (unpanicked_settled s) = unpanicked_settled s"
  "tty_put cs (unpanicked_settled s) = unpanicked_settled (tty_put cs s)"
  "tty_ok (unpanicked_settled s) = tty_ok s"
  by (simp_all add: unpanicked_settled_def tty_put_lock)

lemma await_idle [simp]: "c s \<Longrightarrow> await c (s, e) = Ok () (s, e)"
  by (cases e) simp_all

lemma thr_run [krun]:
  "uart_reg s LCR AND LCR_BAUD_LATCH = 0 \<Longrightarrow>
   uart_write 0 (word_of_int c) (s, e) = Ok () (tty_put [code_char c] s, e)"
  by (simp add: uart_write_def tty_put_def char_of_byte_code)

lemma uartputc_sync_run [krun]:
  assumes "tty_ok s"
  shows "uartputc_sync c (s, e) = Ok () (unpanicked_settled (tty_put [code_char c] s), e)"
proof (cases "panicking s")
  case True
  then show ?thesis
    using assms thr_run [of s c e]
    by (simp add: uartputc_sync_def kthen_def kbind_def tty_ok_def unpanicked_settled_def)
next
  case False
  have "uart_write 0 (word_of_int c) (push_off_st s, e) = Ok () (push_off_st (tty_put [code_char c] s), e)"
    using assms thr_run [of "push_off_st s" c e] by (simp add: tty_ok_def tty_put_lock)
  moreover have "pop_off (push_off_st (tty_put [code_char c] s), e) = Ok () (settled (tty_put [code_char c] s), e)"
    using assms by (intro push_pop_run) (simp add: tty_ok_def hart_ok_def intr_enabled_def)
  ultimately show ?thesis
    using False assms
    by (simp add: uartputc_sync_def kthen_def kbind_def tty_ok_def unpanicked_settled_def push_off_run)
qed

lemma backspace_codes: "code_char 8 = CHR 0x08" "code_char 0x20 = CHR '' ''"
  by code_simp+

lemma consputc_run [krun]:
  "tty_ok s \<Longrightarrow> consputc c (s, e) = Ok () (unpanicked_settled (tty_put (cons_text c) s), e)"
  by (simp add: consputc_def cons_text_def kthen_def kbind_def uartputc_sync_run backspace_codes)

text \<open>Once panicked is set, nothing more reaches the device: every hart that prints halts.\<close>

lemma uartputc_sync_panicked:
  assumes "panicked s"
  shows "\<exists>t. uartputc_sync c (s, e) = Halted (t, e) \<and> uart_out t = uart_out s"
  using assms
  by (cases "panicking s") (simp_all add: uartputc_sync_def kthen_def kbind_def push_off_run)

end
