(* ===== verification/Printf.thy ===== *)
theory Printf
  imports Uart
begin

text \<open>
  Formatted console output, kernel/printf.c (panic itself is in \<open>Panic\<close>), and procdump of
  kernel/proc.c, which only prints.
\<close>

section \<open>printf\<close>

definition printfinit :: "('a uart_state_scheme, unit) kfun" where
  "printfinit = initlock LkPr ''pr''"

text \<open>The codes printint passes to consputc, last stored digit first.\<close>

definition printint :: "u64 \<Rightarrow> nat \<Rightarrow> bool \<Rightarrow> int list" where
  "printint xx base sg =
     (let neg = (sg \<and> xx <s 0);
          x = (if neg then - xx else xx);
          buf = udigits digits base (unat x) @ (if neg then ''-'' else [])
      in codes (rev buf))"

definition printptr :: "u64 \<Rightarrow> int list" where
  "printptr x = codes ''0x'' @ codes (hex_nibbles digits 16 x)"

definition printf_dir :: "char \<Rightarrow> char \<Rightarrow> char \<Rightarrow> va list \<Rightarrow> dstep" where
  "printf_dir c0 c1 c2 ap =
     (if c0 = CHR ''d'' then va_num ap 0 (\<lambda>v. printint (va_int v) 10 True)
      else if c0 = CHR ''l'' \<and> c1 = CHR ''d'' then va_num ap 1 (\<lambda>v. printint v 10 True)
      else if c0 = CHR ''l'' \<and> c1 = CHR ''l'' \<and> c2 = CHR ''d'' then va_num ap 2 (\<lambda>v. printint v 10 True)
      else if c0 = CHR ''u'' then va_num ap 0 (\<lambda>v. printint (va_uint32 v) 10 False)
      else if c0 = CHR ''l'' \<and> c1 = CHR ''u'' then va_num ap 1 (\<lambda>v. printint v 10 False)
      else if c0 = CHR ''l'' \<and> c1 = CHR ''l'' \<and> c2 = CHR ''u'' then va_num ap 2 (\<lambda>v. printint v 10 False)
      else if c0 = CHR ''x'' then va_num ap 0 (\<lambda>v. printint (va_uint32 v) 16 False)
      else if c0 = CHR ''l'' \<and> c1 = CHR ''x'' then va_num ap 1 (\<lambda>v. printint v 16 False)
      else if c0 = CHR ''l'' \<and> c1 = CHR ''l'' \<and> c2 = CHR ''x'' then va_num ap 2 (\<lambda>v. printint v 16 False)
      else if c0 = CHR ''p'' then va_num ap 0 printptr
      else if c0 = CHR ''c'' then va_num ap 0 (\<lambda>v. [sint (ucast v :: u32)])
      else if c0 = CHR ''s'' then va_str ap 0
      else if c0 = CHR ''%'' then DOut (codes ''%'') 0 ap
      else if c0 = NUL then DStop
      else DOut (codes [CHR ''%'', c0]) 0 ap)"

function printf_loop :: "string \<Rightarrow> nat \<Rightarrow> va list \<Rightarrow> ('a uart_state_scheme, unit) kfun" where
  "printf_loop fmt i ap =
     (if \<not> i < length fmt \<or> char_at fmt i = NUL then kret ()
      else if char_at fmt i \<noteq> CHR ''%'' then
        kthen (consputc (code_of (char_at fmt i))) (printf_loop fmt (i + 1) ap)
      else
        (let c0 = char_at fmt (i + 1);
             c1 = (if c0 \<noteq> NUL then char_at fmt (i + 2) else NUL);
             c2 = (if c1 \<noteq> NUL then char_at fmt (i + 3) else NUL)
         in case printf_dir c0 c1 c2 ap of
              DOut cs adv ap' \<Rightarrow> kthen (kfor cs consputc) (printf_loop fmt (i + 1 + adv + 1) ap')
            | DStop \<Rightarrow> kret ()
            | DUndef \<Rightarrow> kundef))"
  by pat_completeness auto
termination
  by (relation "measure (\<lambda>(fmt, i, ap). length fmt - i)") auto

declare printf_loop.simps [simp del]

definition printf :: "string \<Rightarrow> va list \<Rightarrow> ('a uart_state_scheme, unit) kfun" where
  "printf fmt ap = kseq
     [ kwhen (\<lambda>s. \<not> panicking s) (acquire LkPr),
       printf_loop fmt 0 ap,
       kwhen (\<lambda>s. \<not> panicking s) (release LkPr) ]"

text \<open>Arguments as the callers write them.\<close>

definition va_nat :: "nat \<Rightarrow> va" where "va_nat n = Num (of_nat n)"
definition va_of_int :: "int \<Rightarrow> va" where "va_of_int n = Num (word_of_int n)"
definition va_text :: "string \<Rightarrow> va" where "va_text s = Str (Some s)"

section \<open>procdump (proc.c)\<close>

definition state_name :: "procstate \<Rightarrow> string" where
  "state_name st = (case st of
     UNUSED \<Rightarrow> ''unused'' | USED \<Rightarrow> ''used'' | SLEEPING \<Rightarrow> ''sleep ''
   | RUNNABLE \<Rightarrow> ''runble'' | RUNNING \<Rightarrow> ''run   '' | ZOMBIE \<Rightarrow> ''zombie'')"

definition newline :: string where "newline = [CHR 0x0A]"

definition ln :: "string \<Rightarrow> string" where "ln s = s @ newline"

definition procdump :: "('a uart_state_scheme, unit) kfun" where
  "procdump = kthen (printf newline [])
     (kfor [0..<NPROC] (\<lambda>i.
        kbind (kget (\<lambda>s. procs s i)) (\<lambda>p.
          if pstate p = UNUSED then kret ()
          else kseq
            [ printf ''%d %s %s'' [va_of_int (pid p), va_text (state_name (pstate p)), va_text (cstr (pname p))],
              printf newline [] ])))"

section \<open>What printf prints\<close>

text \<open>
  printf prints the rendering of its format: the third printer that satisfies the contract.
\<close>

lemma printint_signed: "printint x 10 True = codes (signed_numeral digits (sint x))"
proof -
  have "printint x 10 True = vsn_signed x"
    by (simp add: printint_def vsn_signed_def Let_def)
  then show ?thesis by (simp add: signed_codes)
qed

lemma printint_unsigned: "printint x b False = codes (numeral_of digits b (unat x))"
  by (simp add: printint_def numeral_of_def)

lemma print_codes_fun:
  "printptr = (\<lambda>v. codes (''0x'' @ hex_nibbles digits 16 v))"
  by (simp add: fun_eq_iff printptr_def)

lemma printf_dir_conv:
  assumes "NUL \<notin> set cs"
  shows "printf_dir (char_at cs 0) (look1 cs) (look2 cs) ap = conv_step digits cs ap"
  unfolding conv_step_def conv_of_cases [OF assms] Let_def printf_dir_def
  by (auto simp: render_conv_cases va_case_step print_codes_fun printint_signed printint_unsigned
      va_int_sint va_uint32_unat)

lemma printf_dir_end: "printf_dir NUL c1 c2 ap = DStop"
  by (simp add: printf_dir_def)

interpretation pf: formatter digits printf_dir
  by unfold_locales (rule printf_dir_conv)

text \<open>Printing with interrupts off already --- in a panic or under a lock --- only prints.\<close>

definition quiet :: "'a uart_state_scheme \<Rightarrow> bool" where
  "quiet s \<longleftrightarrow> panicking s \<or> 0 < noff (this_cpu s)"

lemma quiet_simps [simp]: "quiet (tty_put cs s) = quiet s" "quiet s \<Longrightarrow> unpanicked_settled s = s"
  by (auto simp: quiet_def unpanicked_settled_def)

lemma quiet_acquired [simp]: "hart_ok s \<Longrightarrow> quiet (acquired lk s)"
  by (auto simp: quiet_def hart_ok_def)

definition cons_out :: "int list \<Rightarrow> string" where
  "cons_out cs = concat (map cons_text cs)"

lemma cons_out_simps [simp]: "cons_out [] = []" "cons_out (c # cs) = cons_text c @ cons_out cs"
    "cons_out (cs @ ds) = cons_out cs @ cons_out ds"
  by (simp_all add: cons_out_def)

lemma cons_text_code_of [simp]: "cons_text (code_of c) = [c]"
proof -
  have "(of_char c :: nat) < 256" by (rule nat_of_char_less_256)
  then have "code_of c < 256" by (simp add: code_of_def)
  then have "code_of c \<noteq> BACKSPACE" by (simp add: BACKSPACE_def)
  then show ?thesis by (simp add: cons_text_def)
qed

lemma cons_out_codes [simp]: "cons_out (codes s) = s"
  by (induction s) (simp_all add: cons_out_def)

lemma consputc_quiet [krun]:
  "tty_ok s \<Longrightarrow> quiet s \<Longrightarrow> consputc c (s, e) = Ok () (tty_put (cons_text c) s, e)"
  by (simp add: consputc_run)

lemma consputs_run [krun]:
  "tty_ok s \<Longrightarrow> quiet s \<Longrightarrow> kfor cs consputc (s, e) = Ok () (tty_put (cons_out cs) s, e)"
  by (induction cs arbitrary: s) (simp_all add: kthen_def kbind_def consputc_quiet)

lemma printf_loop_run:
  assumes "NUL \<notin> set fmt"
  shows "tty_ok s \<Longrightarrow> quiet s \<Longrightarrow> render digits (drop i fmt) ap = Some out \<Longrightarrow>
    printf_loop fmt i ap (s, e) = Ok () (tty_put (cons_out out) s, e)"
proof (induction "length fmt - i" arbitrary: i ap s out rule: less_induct)
  case less
  note nul = char_at_NUL_iff [OF assms]
  let ?c1 = "look1 (drop (Suc i) fmt)" and ?c2 = "look2 (drop (Suc i) fmt)"
  consider "\<not> i < length fmt" | "i < length fmt" "char_at fmt i \<noteq> CHR ''%''"
    | "i < length fmt" "char_at fmt i = CHR ''%''" "length fmt \<le> Suc i"
    | "char_at fmt i = CHR ''%''" "Suc i < length fmt"
    by linarith
  then show ?case
  proof cases
    case 1
    then have "out = []" using less.prems by (simp add: pf.render_end render.simps)
    then show ?thesis using 1 by (subst printf_loop.simps) simp
  next
    case 2
    then obtain rest where "out = code_of (char_at fmt i) # rest"
        and "render digits (drop (Suc i) fmt) ap = Some rest"
      using less.prems by (auto simp: pf.render_plain)
    then show ?thesis
      using less.hyps [of "Suc i" "tty_put [char_at fmt i] s" ap rest] less.prems 2 nul
      by (subst printf_loop.simps) (simp add: kthen_def kbind_def consputc_quiet)
  next
    case 3
    then have "char_at fmt (i + 1) = NUL" by (simp add: char_at_def)
    moreover have "out = []" using 3 less.prems by (simp add: pf.render_last_percent)
    ultimately show ?thesis
      using 3 by (subst printf_loop.simps) (simp add: printf_dir_end Let_def)
  next
    case 4
    note r = pf.render_percent [OF 4 assms, of ap]
    show ?thesis
    proof (cases "printf_dir (char_at fmt (i + 1)) ?c1 ?c2 ap")
      case (DOut cs adv ap')
      then obtain rest where rest: "out = cs @ rest"
          "render digits (drop (i + 1 + adv + 1) fmt) ap' = Some rest"
        using less.prems r by auto
      have "printf_loop fmt (i + 1 + adv + 1) ap' (tty_put (cons_out cs) s, e) =
          Ok () (tty_put (cons_out rest) (tty_put (cons_out cs) s), e)"
        using less.prems 4 rest by (intro less.hyps) simp_all
      then show ?thesis
        using DOut 4 nul rest less.prems
        by (subst printf_loop.simps) (simp add: look_drop Let_def kthen_def kbind_def consputs_run)
    next
      case DStop
      then show ?thesis
        using r less.prems 4 nul by (subst printf_loop.simps) (simp add: look_drop Let_def)
    next
      case DUndef
      then show ?thesis using r less.prems by simp
    qed
  qed
qed

text \<open>
  The text of a call, and the state it leaves: the text on the console, the interrupt flag
  settled by the release of the lock.
\<close>

definition fmt_text :: "string \<Rightarrow> va list \<Rightarrow> string" where
  "fmt_text fmt ap = cons_out (the (render digits fmt ap))"

definition printable :: "string \<Rightarrow> va list \<Rightarrow> bool" where
  "printable fmt ap \<longleftrightarrow> NUL \<notin> set fmt \<and> render digits fmt ap \<noteq> None"

definition pr_ready :: "'a uart_state_scheme \<Rightarrow> bool" where
  "pr_ready s \<longleftrightarrow> tty_ok s \<and> (\<not> panicking s \<longrightarrow> lock_free s LkPr)"

definition printed :: "string \<Rightarrow> 'a uart_state_scheme \<Rightarrow> 'a uart_state_scheme" where
  "printed txt s = unpanicked_settled (tty_put txt s)"

lemma printf_run [krun]:
  assumes "printable fmt ap" and "pr_ready s"
  shows "printf fmt ap (s, e) = Ok () (printed (fmt_text fmt ap) s, e)"
proof -
  obtain out where out: "render digits fmt ap = Some out"
    using assms(1) by (auto simp: printable_def)
  have tty: "tty_ok s" and lk: "\<not> panicking s \<Longrightarrow> lock_free s LkPr"
    using assms(2) by (auto simp: pr_ready_def)
  have ok: "hart_ok s" using tty by (simp add: tty_ok_def)
  have run: "printf_loop fmt 0 ap (t, e) = Ok () (tty_put (cons_out out) t, e)"
    if "tty_ok t" "quiet t" for t :: "'a uart_state_scheme"
    using printf_loop_run [of fmt t 0 ap out e] assms(1) out that by (simp add: printable_def)
  show ?thesis
  proof (cases "panicking s")
    case True
    then show ?thesis
      using run [of s] tty out
      by (simp add: printf_def kthen_def kbind_def printed_def fmt_text_def unpanicked_settled_def quiet_def)
  next
    case False
    have "release LkPr (acquired LkPr (tty_put (cons_out out) s), e) =
        Ok () (settled (tty_put (cons_out out) s), e)"
      using lk [OF False] ok
      by (intro release_run) (simp_all add: hart_ok_def intr_enabled_def lock_free_def)
    then show ?thesis
      using False run [of "acquired LkPr s"] tty ok lk out
      by (simp add: printf_def kthen_def kbind_def printed_def fmt_text_def unpanicked_settled_def
          acquire_run tty_put_lock)
  qed
qed

lemma printed_simps [simp]:
  "panicking (printed t s) = panicking s" "panicked (printed t s) = panicked s"
  "uart_out (printed t s) = uart_out s @ t" "locks (printed t s) = locks s"
  "procs (printed t s) = procs s" "pmem (printed t s) = pmem s" "ticks (printed t s) = ticks s"
  "pr_ready (printed t s) = pr_ready s" "hart (printed t s) = hart s" "gpr (printed t s) = gpr s"
  "csr (printed t s) = csr s"
  by (simp_all add: printed_def unpanicked_settled_def pr_ready_def lock_free_def)

lemma printed_printed [simp]: "printed u (printed t s) = printed (t @ u) s"
  by (simp add: printed_def)

text \<open>A hart that prints while it holds the print lock, outside a panic, panics.\<close>

lemma printf_deadlock:
  "\<not> panicking s \<Longrightarrow> holds s LkPr \<Longrightarrow> printf fmt ap (s, e) = Panic ''acquire'' (push_off_st s, e)"
  by (simp add: printf_def kthen_def kbind_def acquire_held)

end
