(* ===== verification/PanicLog.thy ===== *)
theory PanicLog
  imports Printf
begin

text \<open>
  The panic log: kernel/paniclog.h and kernel/paniclog.c. The log is a ring of 64 entries,
  the crash context one statically allocated record; \<open>flushing\<close> is the static variable of
  log_flush.
\<close>

section \<open>Data (paniclog.h)\<close>

definition LOG_INFO :: int where "LOG_INFO = 0"
definition LOG_WARN :: int where "LOG_WARN = 1"
definition LOG_PANIC :: int where "LOG_PANIC = 2"
definition LOG_DEBUG :: int where "LOG_DEBUG = 3"
definition LOG_SIZE :: int where "LOG_SIZE = 64"
definition LOG_MSG_MAX :: int where "LOG_MSG_MAX = 128"
definition LOG_FILE_MAX :: int where "LOG_FILE_MAX = 32"
definition CRASH_MAGIC :: u32 where "CRASH_MAGIC = 0xDEADBEEF"

record log_entry =
  le_ticks :: u32
  le_level :: int
  le_file :: "char list"
  le_line :: int
  le_msg :: "char list"

text \<open>\<open>cc_reg\<close> is the fields ra to t6, by register.\<close>

record crash_context =
  cc_reg :: "reg \<Rightarrow> u64"
  cc_sepc :: u64
  cc_scause :: u64
  cc_stval :: u64
  cc_sstatus :: u64
  cc_pid :: int
  cc_pname :: "char list"
  cc_pstate :: int
  cc_stacktrace :: "u64 list"
  cc_stack_depth :: int
  cc_cpu :: int
  cc_panic_msg :: "char list"
  cc_panic_ticks :: u64
  cc_magic :: u32

text \<open>\<open>memset(&saved_crash_ctx, 0, sizeof(saved_crash_ctx))\<close>\<close>

definition zero_crash_context :: crash_context where
  "zero_crash_context = \<lparr>cc_reg = (\<lambda>_. 0), cc_sepc = 0, cc_scause = 0, cc_stval = 0, cc_sstatus = 0,
     cc_pid = 0, cc_pname = replicate 16 NUL, cc_pstate = 0, cc_stacktrace = replicate 10 0,
     cc_stack_depth = 0, cc_cpu = 0, cc_panic_msg = replicate 128 NUL, cc_panic_ticks = 0, cc_magic = 0\<rparr>"

record panic_state = uart_state +
  log_entries :: "nat \<Rightarrow> log_entry"
  log_head :: int
  log_count :: int
  flushing :: bool
  saved_crash_ctx :: crash_context

definition set_ctx :: "(crash_context \<Rightarrow> crash_context) \<Rightarrow> 'a panic_state_scheme \<Rightarrow> 'a panic_state_scheme" where
  "set_ctx f s = s\<lparr>saved_crash_ctx := f (saved_crash_ctx s)\<rparr>"

definition set_entry :: "nat \<Rightarrow> (log_entry \<Rightarrow> log_entry) \<Rightarrow> 'a panic_state_scheme \<Rightarrow> 'a panic_state_scheme" where
  "set_entry i f s = s\<lparr>log_entries := (log_entries s)(i := f (log_entries s i))\<rparr>"

text \<open>A 32-bit argument of a variadic call is sign extended into its slot.\<close>

definition va_u32 :: "u32 \<Rightarrow> va" where "va_u32 w = Num (scast w)"

section \<open>The log ring\<close>

definition lvlstr :: "int \<Rightarrow> string" where
  "lvlstr level =
     (if level = LOG_INFO then ''INFO'' else if level = LOG_WARN then ''WARN''
      else if level = LOG_PANIC then ''PANIC'' else if level = LOG_DEBUG then ''DEBUG''
      else ''????'')"

text \<open>The rest of the file name after its last slash or backslash.\<close>

fun basename_loop :: "string \<Rightarrow> string \<Rightarrow> string" where
  "basename_loop base [] = base"
| "basename_loop base (c # p) =
     (if c = CHR ''/'' \<or> c = CHR 0x5C then basename_loop p p else basename_loop base p)"

definition basename :: "string \<Rightarrow> string" where
  "basename file = basename_loop file file"

definition log_add :: "int \<Rightarrow> string \<Rightarrow> int \<Rightarrow> string \<Rightarrow> va list \<Rightarrow> ('a panic_state_scheme, unit) kfun" where
  "log_add level file line fmt ap =
     kthen (acquire LkLogbuf)
     (kbind (kget (\<lambda>s. nat (log_head s))) (\<lambda>i. kseq
       [ kmod (\<lambda>s. set_entry i (\<lambda>e. e\<lparr>le_ticks := ticks s\<rparr>) s),
         kmod (set_entry i (\<lambda>e. e\<lparr>le_level := level\<rparr>)),
         kmod (set_entry i (\<lambda>e. e\<lparr>le_file := safestrcpy (le_file e) (basename file) LOG_FILE_MAX\<rparr>)),
         kmod (set_entry i (\<lambda>e. e\<lparr>le_line := line\<rparr>)),
         (case vsnprintf LOG_MSG_MAX fmt ap of
            None \<Rightarrow> kundef
          | Some (out, len) \<Rightarrow>
              kmod (set_entry i (\<lambda>e. e\<lparr>le_msg := out @ drop (length out) (le_msg e)\<rparr>))),
         kmod (\<lambda>s. s\<lparr>log_head := (log_head s + 1) mod LOG_SIZE\<rparr>),
         kwhen (\<lambda>s. log_count s < LOG_SIZE) (kmod (\<lambda>s. s\<lparr>log_count := log_count s + 1\<rparr>)),
         release LkLogbuf ]))"

definition log_info :: "string \<Rightarrow> int \<Rightarrow> string \<Rightarrow> va list \<Rightarrow> ('a panic_state_scheme, unit) kfun" where
  "log_info file line fmt ap = log_add LOG_INFO file line fmt ap"

definition log_warn :: "string \<Rightarrow> int \<Rightarrow> string \<Rightarrow> va list \<Rightarrow> ('a panic_state_scheme, unit) kfun" where
  "log_warn file line fmt ap = log_add LOG_WARN file line fmt ap"

definition log_debug :: "string \<Rightarrow> int \<Rightarrow> string \<Rightarrow> va list \<Rightarrow> ('a panic_state_scheme, unit) kfun" where
  "log_debug file line fmt ap = log_add LOG_DEBUG file line fmt ap"

definition log_panic_prep :: "string \<Rightarrow> int \<Rightarrow> string \<Rightarrow> va list \<Rightarrow> ('a panic_state_scheme, unit) kfun" where
  "log_panic_prep file line fmt ap = log_add LOG_PANIC file line fmt ap"

section \<open>log_flush\<close>

definition print_entry :: "log_entry \<Rightarrow> ('a panic_state_scheme, unit) kfun" where
  "print_entry e = kseq
     [ printf ''[%d][%s] %s:%d ''
         [va_u32 (le_ticks e), va_text (lvlstr (le_level e)), va_text (cstr (le_file e)), va_of_int (le_line e)],
       printf (ln ''%s'') [va_text (cstr (le_msg e))] ]"

text \<open>
  The loop over the \<open>n\<close> entries still to print, from the slot before \<open>idx\<close>; it returns the
  number printed. logbuf.count is read once: the loop runs under logbuf.lock.
\<close>

primrec flush_loop :: "nat \<Rightarrow> int \<Rightarrow> int \<Rightarrow> ('a panic_state_scheme, int) kfun" where
  "flush_loop 0 idx n = kret n"
| "flush_loop (Suc k) idx n =
     (let idx' = (idx - 1 + LOG_SIZE) mod LOG_SIZE in
      kbind (kget (\<lambda>s. log_entries s (nat idx'))) (\<lambda>e.
        kthen (print_entry e) (flush_loop k idx' (n + 1))))"

definition log_flush :: "('a panic_state_scheme, unit) kfun" where
  "log_flush = kif flushing (kret ()) (kseq
     [ acquire LkLogbuf,
       kmod (\<lambda>s. s\<lparr>flushing := True\<rparr>),
       printf (ln (newline @ ''--- LOG FLUSH (most recent first) ---'')) [],
       kbind (kget (\<lambda>s. (log_head s, nat (log_count s)))) (\<lambda>(idx, n).
         kbind (flush_loop n idx 0) (\<lambda>printed.
           if printed = 0 then printf (ln ''(log buffer empty)'') [] else kret ())),
       printf (ln ''--- END LOG FLUSH ---'') [],
       kmod (\<lambda>s. s\<lparr>flushing := False\<rparr>),
       release LkLogbuf ])"

section \<open>The crash context\<close>

text \<open>
  The walk along the frame pointers. A frame outside the mapped kernel memory is a load
  page fault, which this function does not survive.
\<close>

primrec stack_walk :: "nat \<Rightarrow> nat \<Rightarrow> u64 \<Rightarrow> ('a panic_state_scheme, unit) kfun" where
  "stack_walk 0 i fp = kret ()"
| "stack_walk (Suc k) i fp =
     (if fp = 0 then kret ()
      else kif (\<lambda>s. kmapped s fp \<and> kmapped s (fp + 8))
        (kbind (kget (\<lambda>s. (ld64 (pmem s) (fp + 8), ld64 (pmem s) fp))) (\<lambda>(ret, prev).
           kthen (kmod (set_ctx (\<lambda>c. c\<lparr>cc_stacktrace := (cc_stacktrace c)[i := ret],
                                       cc_stack_depth := cc_stack_depth c + 1\<rparr>)))
             (stack_walk k (i + 1) prev)))
        kundef)"

definition log_save_crash_context :: "string \<Rightarrow> ('a panic_state_scheme, unit) kfun" where
  "log_save_crash_context panic_msg = kseq
     [ kmod (set_ctx (\<lambda>_. zero_crash_context)),
       kmod (\<lambda>s. set_ctx (\<lambda>c. c\<lparr>cc_reg := gpr s\<rparr>) s),
       kbind r_sepc (\<lambda>x. kmod (set_ctx (\<lambda>c. c\<lparr>cc_sepc := x\<rparr>))),
       kbind r_scause (\<lambda>x. kmod (set_ctx (\<lambda>c. c\<lparr>cc_scause := x\<rparr>))),
       kbind r_stval (\<lambda>x. kmod (set_ctx (\<lambda>c. c\<lparr>cc_stval := x\<rparr>))),
       kbind r_sstatus (\<lambda>x. kmod (set_ctx (\<lambda>c. c\<lparr>cc_sstatus := x\<rparr>))),
       acquire LkTicks,
       kmod (\<lambda>s. set_ctx (\<lambda>c. c\<lparr>cc_panic_ticks := ucast (ticks s)\<rparr>) s),
       release LkTicks,
       kbind myproc (\<lambda>p. case p of
           Some i \<Rightarrow> kmod (\<lambda>s. set_ctx (\<lambda>c. c\<lparr>cc_pid := pid (procs s i),
               cc_pname := safestrcpy (cc_pname c) (cstr (pname (procs s i))) 16,
               cc_pstate := int (procstate_code (pstate (procs s i)))\<rparr>) s)
         | None \<Rightarrow> kmod (set_ctx (\<lambda>c. c\<lparr>cc_pid := -1,
               cc_pname := safestrcpy (cc_pname c) ''(none)'' 16, cc_pstate := -1\<rparr>))),
       kbind cpuid (\<lambda>x. kmod (set_ctx (\<lambda>c. c\<lparr>cc_cpu := x\<rparr>))),
       kmod (set_ctx (\<lambda>c. c\<lparr>cc_panic_msg := safestrcpy (cc_panic_msg c) panic_msg 128\<rparr>)),
       kmod (set_ctx (\<lambda>c. c\<lparr>cc_stack_depth := 0\<rparr>)),
       kbind (kget (\<lambda>s. cc_reg (saved_crash_ctx s) S0)) (\<lambda>fp. stack_walk 10 0 fp),
       kmod (set_ctx (\<lambda>c. c\<lparr>cc_magic := CRASH_MAGIC\<rparr>)) ]"

text \<open>The lines of the dump, as format and arguments, after the first two.\<close>

definition dump_regs :: "(reg \<Rightarrow> u64) \<Rightarrow> (string \<times> va list) list" where
  "dump_regs g = map (\<lambda>(fmt, rs). (ln fmt, map (\<lambda>r. Num (g r)) rs))
     [ (''ra=0x%lx  sp=0x%lx  gp=0x%lx  tp=0x%lx'', [RA, SP, GP, TP]),
       (''s0=0x%lx  s1=0x%lx'', [S0, S1]),
       (''a0=0x%lx  a1=0x%lx  a2=0x%lx  a3=0x%lx'', [A0, A1, A2, A3]),
       (''a4=0x%lx  a5=0x%lx  a6=0x%lx  a7=0x%lx'', [A4, A5, A6, A7]),
       (''t0=0x%lx  t1=0x%lx  t2=0x%lx'', [T0, T1, T2]),
       (''s2=0x%lx  s3=0x%lx  s4=0x%lx  s5=0x%lx'', [S2, S3, S4, S5]),
       (''s6=0x%lx  s7=0x%lx  s8=0x%lx  s9=0x%lx'', [S6, S7, S8, S9]),
       (''s10=0x%lx s11=0x%lx'', [S10, S11]),
       (''t3=0x%lx  t4=0x%lx  t5=0x%lx  t6=0x%lx'', [T3, T4, T5, T6]) ]"

definition dump_ctx :: "crash_context \<Rightarrow> (string \<times> va list) list" where
  "dump_ctx c =
     [ (ln (newline @ ''========== KERNEL PANIC CRASH DUMP ==========''), []),
       (ln ''Message: %s'', [va_text (cstr (cc_panic_msg c))]),
       (ln ''Ticks:   %ld'', [Num (cc_panic_ticks c)]),
       (ln ''CPU:     %d'', [va_of_int (cc_cpu c)]),
       (ln (newline @ ''-- RISC-V Register State --''), []) ]
     @ dump_regs (cc_reg c) @
     [ (ln (newline @ ''-- Supervisor CSRs --''), []),
       (ln ''sepc=0x%lx  scause=0x%lx  stval=0x%lx  sstatus=0x%lx'',
          [Num (cc_sepc c), Num (cc_scause c), Num (cc_stval c), Num (cc_sstatus c)]),
       (ln (newline @ ''-- Process Info --''), []),
       (ln ''pid=%d  name=%s  state=%d'',
          [va_of_int (cc_pid c), va_text (cstr (cc_pname c)), va_of_int (cc_pstate c)]),
       (ln (newline @ ''-- Stack Trace (FP walk, %d frames) --''), [va_of_int (cc_stack_depth c)]) ]
     @ map (\<lambda>i. (ln ''  [%d] 0x%lx'', [va_nat i, Num (cc_stacktrace c ! i)]))
         [0..<nat (min (cc_stack_depth c) 10)]
     @ [ (ln ''============================================'', []) ]"

definition log_dump_crash_context :: "('a panic_state_scheme, unit) kfun" where
  "log_dump_crash_context = kif (\<lambda>s. cc_magic (saved_crash_ctx s) \<noteq> CRASH_MAGIC)
     (kbind (kget (\<lambda>s. cc_magic (saved_crash_ctx s))) (\<lambda>m.
        printf (ln ''No crash context saved (magic=0x%x, expected 0x%x)'')
          [va_u32 m, va_u32 CRASH_MAGIC]))
     (kbind (kget saved_crash_ctx) (\<lambda>c.
        kfor (dump_ctx c) (\<lambda>(fmt, ap). printf fmt ap)))"

definition log_init :: "('a panic_state_scheme, unit) kfun" where
  "log_init = kseq
     [ initlock LkLogbuf ''logbuf'',
       kmod (\<lambda>s. s\<lparr>log_head := 0\<rparr>),
       kmod (\<lambda>s. s\<lparr>log_count := 0\<rparr>),
       kmod (set_ctx (\<lambda>_. zero_crash_context)),
       kmod (set_ctx (\<lambda>c. c\<lparr>cc_magic := 0\<rparr>)) ]"

section \<open>log_test\<close>

definition log_test_file :: string where "log_test_file = ''kernel/paniclog.c''"

definition quote :: string where "quote = [CHR 0x22]"

definition squote :: string where "squote = [CHR 0x27]"

definition log_test :: "('a panic_state_scheme, int) kfun" where
  "log_test = kthen (kseq
     [ log_info log_test_file 415 ''log_test: INFO message (pid=42)'' [],
       log_warn log_test_file 416 ''log_test: WARN message (x=%x)'' [va_of_int 0xDEAD],
       log_debug log_test_file 417 ''log_test: DEBUG message (str=%s)'' [va_text ''hello''],
       log_panic_prep log_test_file 418 ''log_test: PANIC prep (num=%d)'' [va_of_int (-1)],
       kfor [0..<nat (LOG_SIZE + 5)] (\<lambda>i. log_debug log_test_file 421 ''wrap test i=%d'' [va_nat i]),
       log_info log_test_file 424 ''fmt d=%d ld=%ld lld=%lld'' [va_of_int (-1), va_of_int (-2), va_of_int (-3)],
       log_info log_test_file 425 ''fmt u=%u lu=%lu llu=%llu'' [va_of_int 1, va_of_int 2, va_of_int 3],
       log_info log_test_file 426 ''fmt x=%x lx=%lx llx=%llx'' [va_of_int 0xFF, va_of_int 0xFFF, va_of_int 0xFFFF],
       log_info log_test_file 427 (''fmt s='' @ quote @ ''%s'' @ quote @ '' c='' @ squote @ ''%c'' @ squote @ '' p=%p'')
         [va_text ''test'', va_of_int 65, va_of_int 0x80000000],
       log_info log_test_file 428 ''fmt %%'' [],
       log_flush,
       log_save_crash_context ''log_test: simulated panic for dumppanic'',
       printf (ln ''log_test: all tests completed.'') [] ])
     (kret 0)"

section \<open>The ring as a list\<close>

lemma panic_lock_simps [simp]:
  "log_entries (acquired lk s) = log_entries s" "log_head (acquired lk s) = log_head s"
  "log_count (acquired lk s) = log_count s" "flushing (acquired lk s) = flushing s"
  "saved_crash_ctx (acquired lk s) = saved_crash_ctx s"
  "log_entries (settled s) = log_entries s" "log_head (settled s) = log_head s"
  "log_count (settled s) = log_count s" "flushing (settled s) = flushing s"
  "saved_crash_ctx (settled s) = saved_crash_ctx s"
  by (simp_all add: acquired_def settled_def push_off_st_def set_lock_def set_cpu_def set_sie_def)

lemma set_entry_simps [simp]:
  "log_entries (set_entry i f s) = (log_entries s)(i := f (log_entries s i))"
  "log_head (set_entry i f s) = log_head s" "log_count (set_entry i f s) = log_count s"
  "ticks (set_entry i f s) = ticks s" "flushing (set_entry i f s) = flushing s"
  "saved_crash_ctx (set_entry i f s) = saved_crash_ctx s"
  "locks (set_entry i f s) = locks s" "cpus (set_entry i f s) = cpus s"
  "hart (set_entry i f s) = hart s" "intr_enabled (set_entry i f s) = intr_enabled s"
  "hart_ok (set_entry i f s) = hart_ok s" "lock_free (set_entry i f s) lk = lock_free s lk"
  by (simp_all add: set_entry_def hart_def intr_enabled_def hart_ok_def lock_free_def)

lemma set_entry_lock:
  "set_entry i f (acquired lk s) = acquired lk (set_entry i f s)"
  "(acquired lk s)\<lparr>log_head := h\<rparr> = acquired lk (s\<lparr>log_head := h\<rparr>)"
  "(acquired lk s)\<lparr>log_count := c\<rparr> = acquired lk (s\<lparr>log_count := c\<rparr>)"
  "(acquired lk s)\<lparr>flushing := b\<rparr> = acquired lk (s\<lparr>flushing := b\<rparr>)"
  by (simp_all add: set_entry_def acquired_def settled_def push_off_st_def set_lock_def set_cpu_def
      set_sie_def intr_enabled_def hart_def)

lemma set_entry_compose: "set_entry i f (set_entry i g s) = set_entry i (\<lambda>e. f (g e)) s"
  by (simp add: set_entry_def)

text \<open>What log_add does to the ring once the text \<open>out\<close> is made.\<close>

definition log_put :: "int \<Rightarrow> string \<Rightarrow> int \<Rightarrow> string \<Rightarrow> 'a panic_state_scheme \<Rightarrow> 'a panic_state_scheme" where
  "log_put level file line out s =
     (let t = (set_entry (nat (log_head s)) (\<lambda>e. e\<lparr>le_ticks := ticks s, le_level := level,
                le_file := safestrcpy (le_file e) (basename file) LOG_FILE_MAX,
                le_line := line, le_msg := out @ drop (length out) (le_msg e)\<rparr>) s)
              \<lparr>log_head := (log_head s + 1) mod LOG_SIZE\<rparr>
      in if log_count s < LOG_SIZE then t\<lparr>log_count := log_count s + 1\<rparr> else t)"

definition log_body :: "int \<Rightarrow> string \<Rightarrow> int \<Rightarrow> string \<Rightarrow> va list \<Rightarrow> ('a panic_state_scheme, unit) kfun" where
  "log_body level file line fmt ap =
     (kbind (kget (\<lambda>s. nat (log_head s))) (\<lambda>i. kseq
       [ kmod (\<lambda>s. set_entry i (\<lambda>e. e\<lparr>le_ticks := ticks s\<rparr>) s),
         kmod (set_entry i (\<lambda>e. e\<lparr>le_level := level\<rparr>)),
         kmod (set_entry i (\<lambda>e. e\<lparr>le_file := safestrcpy (le_file e) (basename file) LOG_FILE_MAX\<rparr>)),
         kmod (set_entry i (\<lambda>e. e\<lparr>le_line := line\<rparr>)),
         (case vsnprintf LOG_MSG_MAX fmt ap of
            None \<Rightarrow> kundef
          | Some (out, len) \<Rightarrow>
              kmod (set_entry i (\<lambda>e. e\<lparr>le_msg := out @ drop (length out) (le_msg e)\<rparr>))),
         kmod (\<lambda>s. s\<lparr>log_head := (log_head s + 1) mod LOG_SIZE\<rparr>),
         kwhen (\<lambda>s. log_count s < LOG_SIZE) (kmod (\<lambda>s. s\<lparr>log_count := log_count s + 1\<rparr>)) ]))"

lemma log_add_section:
  "log_add level file line fmt ap =
   kseq [acquire LkLogbuf, log_body level file line fmt ap, release LkLogbuf]"
  by (rule ext) (simp add: log_add_def log_body_def kthen_def kbind_def split: res.splits)

definition log_text :: "string \<Rightarrow> va list \<Rightarrow> string" where
  "log_text fmt ap = take 127 (map code_char (the (render digits fmt ap))) @ [NUL]"

lemma vsnprintf_log:
  "printable fmt ap \<Longrightarrow> \<exists>len. vsnprintf LOG_MSG_MAX fmt ap = Some (log_text fmt ap, len)"
  by (auto simp: printable_def vsnprintf_render log_text_def LOG_MSG_MAX_def)

text \<open>The log lock guards the ring: its critical section is \<open>log_put\<close>.\<close>

interpretation log_section:
  spin_section LkLogbuf "log_body level fl line fmt ap"
    "log_put level fl line (log_text fmt ap)" "\<lambda>s. printable fmt ap"
  for level fl line fmt ap
proof unfold_locales
  fix s :: "'a panic_state_scheme" and e
  assume p: "printable fmt ap"
  then obtain len where v: "vsnprintf LOG_MSG_MAX fmt ap = Some (log_text fmt ap, len)"
    using vsnprintf_log by blast
  show "log_body level fl line fmt ap (acquired LkLogbuf s, e) =
        Ok () (acquired LkLogbuf (log_put level fl line (log_text fmt ap) s), e)"
    by (simp add: log_body_def v kthen_def kbind_def set_entry_lock set_entry_compose log_put_def Let_def)
next
  fix s :: "'a panic_state_scheme"
  assume "hart_ok s"
  then show "hart_ok (log_put level fl line (log_text fmt ap) s)"
    by (simp add: log_put_def Let_def hart_ok_def intr_enabled_def set_entry_def hart_def)
next
  fix s :: "'a panic_state_scheme"
  assume "lock_free s LkLogbuf"
  then show "lock_free (log_put level fl line (log_text fmt ap) s) LkLogbuf"
    by (simp add: log_put_def Let_def lock_free_def set_entry_def)
qed

text \<open>
  The abstract log: the entries as their readers see them, newest first. An entry is well
  formed when its two strings fill their arrays and are terminated inside them.
\<close>

type_synonym log_line = "u32 \<times> int \<times> string \<times> int \<times> string"

definition shown :: "log_entry \<Rightarrow> log_line" where
  "shown e = (le_ticks e, le_level e, cstr (le_file e), le_line e, cstr (le_msg e))"

definition log_slot :: "'a panic_state_scheme \<Rightarrow> nat \<Rightarrow> nat" where
  "log_slot s k = nat ((log_head s - 1 - int k) mod LOG_SIZE)"

definition log_view :: "'a panic_state_scheme \<Rightarrow> log_line list" where
  "log_view s = map (\<lambda>k. shown (log_entries s (log_slot s k))) [0..<nat (log_count s)]"

definition entry_wf :: "log_entry \<Rightarrow> bool" where
  "entry_wf e \<longleftrightarrow> length (le_file e) = 32 \<and> NUL \<in> set (le_file e)
     \<and> length (le_msg e) = 128 \<and> NUL \<in> set (le_msg e)"

definition log_wf :: "'a panic_state_scheme \<Rightarrow> bool" where
  "log_wf s \<longleftrightarrow> 0 \<le> log_head s \<and> log_head s < LOG_SIZE \<and> 0 \<le> log_count s \<and> log_count s \<le> LOG_SIZE
     \<and> (\<forall>i < 64. entry_wf (log_entries s i))"

definition new_line :: "int \<Rightarrow> string \<Rightarrow> int \<Rightarrow> string \<Rightarrow> va list \<Rightarrow> 'a panic_state_scheme \<Rightarrow> log_line" where
  "new_line level file line fmt ap s =
     (ticks s, level, take 31 (cstr (basename file)), line,
      cstr (take 127 (map code_char (the (render digits fmt ap)))))"

lemma cstr_prefix: "cstr (s @ NUL # t) = cstr s"
  by (simp add: cstr_def takeWhile_tail)

lemma log_put_head:
  "log_head (log_put level fl line out s) = (log_head s + 1) mod LOG_SIZE"
  "log_count (log_put level fl line out s) =
     (if log_count s < LOG_SIZE then log_count s + 1 else log_count s)"
  by (simp_all add: log_put_def Let_def)

lemma log_put_entries:
  "log_entries (log_put level fl line out s) = (log_entries s)(nat (log_head s) :=
     (log_entries s (nat (log_head s)))\<lparr>le_ticks := ticks s, le_level := level,
        le_file := safestrcpy (le_file (log_entries s (nat (log_head s)))) (basename fl) LOG_FILE_MAX,
        le_line := line, le_msg := out @ drop (length out) (le_msg (log_entries s (nat (log_head s))))\<rparr>)"
  by (simp add: log_put_def Let_def)

lemma slot_0:
  "0 \<le> log_head s \<Longrightarrow> log_head s < LOG_SIZE \<Longrightarrow> log_slot (log_put level fl line out s) 0 = nat (log_head s)"
  by (simp add: log_slot_def log_put_head LOG_SIZE_def mod_diff_left_eq)

lemma slot_Suc: "log_slot (log_put level fl line out s) (Suc k) = log_slot s k"
proof -
  have "((log_head s + 1) mod 64 - 1 - int (Suc k)) mod 64 = (log_head s - 1 - int k) mod 64"
    by (simp only: mod_diff_left_eq diff_diff_eq) (simp add: algebra_simps)
  then show ?thesis by (simp add: log_slot_def log_put_head LOG_SIZE_def)
qed

lemma slot_old:
  assumes "0 \<le> log_head s" and "log_head s < LOG_SIZE" and "k < 63"
  shows "log_slot s k \<noteq> nat (log_head s)"
proof
  assume "log_slot s k = nat (log_head s)"
  then have "(log_head s - 1 - int k) mod 64 = log_head s mod 64"
    using assms by (simp add: log_slot_def LOG_SIZE_def eq_nat_nat_iff)
  then have "(64 :: int) dvd (log_head s - 1 - int k) - log_head s" by (rule mod_eq_dvd_iff [THEN iffD1])
  moreover have "(log_head s - 1 - int k) - log_head s = - (1 + int k)" by simp
  ultimately have "(64 :: int) dvd 1 + int k" by (metis dvd_minus_iff)
  then show False using assms(3) by (auto dest: zdvd_imp_le)
qed

lemma take_upt_min: "take k [0..<n] = [0..<min n k]"
  by (cases "k \<le> n") (simp_all add: min_def)

lemma log_view_put:
  assumes "log_wf s"
  shows "log_view (log_put level fl line out s) =
    take 64 ((ticks s, level, take 31 (cstr (basename fl)), line, cstr (out @ drop (length out)
        (le_msg (log_entries s (nat (log_head s)))))) # log_view s)"
proof -
  let ?t = "log_put level fl line out s" and ?n = "nat (log_count s)"
  let ?new = "(ticks s, level, take 31 (cstr (basename fl)), line, cstr (out @ drop (length out)
        (le_msg (log_entries s (nat (log_head s))))))"
  have h: "0 \<le> log_head s" "log_head s < LOG_SIZE" and n: "?n \<le> 64" "0 \<le> log_count s"
    using assms by (auto simp: log_wf_def LOG_SIZE_def)
  let ?m = "min ?n 63"
  have count: "nat (log_count ?t) = Suc ?m"
    using n by (auto simp: log_put_head LOG_SIZE_def min_def)
  have first: "shown (log_entries ?t (log_slot ?t 0)) = ?new"
    by (simp add: slot_0 [OF h] log_put_entries shown_def safestrcpy_cstr LOG_FILE_MAX_def)
  have rest: "shown (log_entries ?t (log_slot ?t (Suc k))) = shown (log_entries s (log_slot s k))"
    if "k < ?m" for k
    using slot_old [OF h, of k] that by (simp add: slot_Suc log_put_entries)
  have "log_view ?t = ?new # map (\<lambda>k. shown (log_entries s (log_slot s k))) [0..<?m]"
    unfolding log_view_def count map_upt_Suc using first rest by simp
  also have "map (\<lambda>k. shown (log_entries s (log_slot s k))) [0..<?m] = take 63 (log_view s)"
    by (simp add: log_view_def take_map take_upt_min)
  finally show ?thesis by simp
qed

lemma NUL_in_array: "length (cstr s) < length s \<Longrightarrow> NUL \<in> set s"
  by (induction s) (auto simp: cstr_def split: if_splits)

lemma log_text_length: "length (log_text fmt ap) \<le> 128"
  by (simp add: log_text_def)

lemma log_wf_put:
  assumes "log_wf s" and "length out \<le> 128" and "NUL \<in> set out"
  shows "log_wf (log_put level fl line out s)"
proof -
  have fl_ok: "length (safestrcpy f t 32) = 32 \<and> NUL \<in> set (safestrcpy f t 32)" if "length f = 32" for f t
    using that by (intro conjI NUL_in_array) (simp_all add: safestrcpy_length safestrcpy_cstr)
  have h: "nat (log_head s) < 64" using assms(1) by (auto simp: log_wf_def LOG_SIZE_def nat_less_iff)
  then have "entry_wf (log_entries s (nat (log_head s)))" using assms(1) by (simp add: log_wf_def)
  then show ?thesis
    using assms fl_ok h by (auto simp: log_wf_def log_put_head log_put_entries entry_wf_def LOG_SIZE_def
        LOG_FILE_MAX_def)
qed

lemma cstr_log_text:
  "cstr (log_text fmt ap @ rest) = cstr (take 127 (map code_char (the (render digits fmt ap))))"
  by (simp add: log_text_def cstr_prefix)

lemma log_view_logged:
  "log_wf s \<Longrightarrow> log_view (log_put level fl line (log_text fmt ap) s) =
     take 64 (new_line level fl line fmt ap s # log_view s)"
  by (simp add: log_view_put cstr_log_text new_line_def)

lemma log_wf_logged: "log_wf s \<Longrightarrow> log_wf (log_put level fl line (log_text fmt ap) s)"
  by (rule log_wf_put) (simp_all add: log_text_length, simp add: log_text_def)

section \<open>log_add\<close>

lemma log_add_run [krun]:
  "printable fmt ap \<Longrightarrow> hart_ok s \<Longrightarrow> lock_free s LkLogbuf \<Longrightarrow>
   log_add level fl line fmt ap (s, e) =
     Ok () (settled (log_put level fl line (log_text fmt ap) s), e)"
  using log_section.section_run [of fmt ap s level fl line e]
  by (simp add: log_add_section log_section.section_body_def)

lemma log_wf_settled [simp]: "log_wf (settled s) = log_wf s"
  by (simp add: log_wf_def)

lemma log_view_settled [simp]: "log_view (settled s) = log_view s"
  by (simp add: log_view_def log_slot_def)

lemma log_put_frame [simp]:
  "uart_out (log_put level fl line out s) = uart_out s" "locks (log_put level fl line out s) = locks s"
  "procs (log_put level fl line out s) = procs s" "ticks (log_put level fl line out s) = ticks s"
  "saved_crash_ctx (log_put level fl line out s) = saved_crash_ctx s"
  "flushing (log_put level fl line out s) = flushing s" "hart (log_put level fl line out s) = hart s"
  "hart_ok (log_put level fl line out s) = hart_ok s" "gpr (log_put level fl line out s) = gpr s"
  by (simp_all add: log_put_def Let_def set_entry_def hart_def hart_ok_def intr_enabled_def)

section \<open>log_flush\<close>

lemma panic_tty_simps [simp]:
  "log_entries (tty_put cs s) = log_entries s" "log_head (tty_put cs s) = log_head s"
  "log_count (tty_put cs s) = log_count s" "flushing (tty_put cs s) = flushing s"
  "saved_crash_ctx (tty_put cs s) = saved_crash_ctx s"
  by (simp_all add: tty_put_def)

lemma printf_quiet [krun]:
  "printable fmt ap \<Longrightarrow> pr_ready s \<Longrightarrow> quiet s \<Longrightarrow>
   printf fmt ap (s, e) = Ok () (tty_put (fmt_text fmt ap) s, e)"
  by (simp add: printf_run printed_def)

lemma pr_ready_tty_put [simp]: "pr_ready (tty_put cs s) = pr_ready s"
  by (simp add: pr_ready_def lock_free_def)

lemmas render_eval = render_steps ln_def newline_def va_text_def va_of_int_def va_u32_def va_nat_def


text \<open>A 32-bit value passed in a 64-bit slot is read back as itself.\<close>

lemma arg32 [simp]:
  "ucast (scast (w :: u32) :: u64) = w" "ucast (word_of_int x :: u64) = (word_of_int x :: u32)"
  by (rule bit_word_eqI, simp add: bit_simps)+

definition dec :: "int \<Rightarrow> string" where
  "dec x = signed_numeral digits x"

text \<open>An entry as log_flush prints it.\<close>

fun line_text :: "log_line \<Rightarrow> string" where
  "line_text (tk, level, fl, line, msg) =
     ''['' @ dec (sint tk) @ '']['' @ lvlstr level @ ''] '' @ fl @ '':'' @
     dec (sint (word_of_int line :: u32)) @ '' '' @ msg @ newline"

lemma entry_formats:
  "printable ''[%d][%s] %s:%d '' [Num a, Str (Some l), Str (Some f), Num b]"
  "fmt_text ''[%d][%s] %s:%d '' [Num a, Str (Some l), Str (Some f), Num b] =
     ''['' @ dec (sint (ucast a :: u32)) @ '']['' @ l @ ''] '' @ f @ '':'' @ dec (sint (ucast b :: u32)) @ '' ''"
  "printable (ln ''%s'') [Str (Some m)]"
  "fmt_text (ln ''%s'') [Str (Some m)] = m @ newline"
  by (simp_all add: printable_def fmt_text_def render_steps ln_def newline_def dec_def)

lemma print_entry_run:
  "pr_ready s \<Longrightarrow> quiet s \<Longrightarrow> print_entry en (s, e) = Ok () (tty_put (line_text (shown en)) s, e)"
  by (simp add: print_entry_def kthen_def kbind_def printf_quiet entry_formats shown_def
      va_u32_def va_text_def va_of_int_def)

lemma mod_step: "((i :: int) - 1 + LOG_SIZE) mod LOG_SIZE = (i - 1) mod LOG_SIZE"
  by simp

lemma flush_loop_run:
  "pr_ready s \<Longrightarrow> quiet s \<Longrightarrow>
   flush_loop n idx p (s, e) = Ok (p + int n) (tty_put (concat (map (\<lambda>k. line_text (shown
     (log_entries s (nat ((idx - 1 - int k) mod LOG_SIZE))))) [0..<n])) s, e)"
proof (induction n arbitrary: idx p s)
  case 0
  then show ?case by simp
next
  case (Suc n)
  let ?l = "\<lambda>idx k. line_text (shown (log_entries s (nat ((idx - 1 - int k) mod LOG_SIZE))))"
  let ?i = "(idx - 1) mod LOG_SIZE"
  have idx: "(?i - 1 - int k) mod LOG_SIZE = (idx - 1 - int (Suc k)) mod LOG_SIZE" for k
    by (simp only: mod_diff_left_eq diff_diff_eq) (simp add: algebra_simps)
  have l: "?l ?i = (\<lambda>k. ?l idx (Suc k))" by (simp only: idx)
  have "flush_loop (Suc n) idx p (s, e) = flush_loop n ?i (p + 1) (tty_put (?l idx 0) s, e)"
    using Suc.prems by (simp add: kbind_def kthen_def print_entry_run mod_step Let_def)
  also have "\<dots> = Ok (p + int (Suc n)) (tty_put (?l idx 0 @ concat (map (?l ?i) [0..<n])) s, e)"
    using Suc.IH [of "tty_put (?l idx 0) s" ?i "p + 1"] Suc.prems by simp
  also have "?l idx 0 @ concat (map (?l ?i) [0..<n]) = concat (map (?l idx) [0..<Suc n])"
    unfolding l map_upt_Suc by simp
  finally show ?case .
qed

definition flush_text :: "log_line list \<Rightarrow> string" where
  "flush_text ls = ln (newline @ ''--- LOG FLUSH (most recent first) ---'')
     @ (if ls = [] then ln ''(log buffer empty)'' else concat (map line_text ls))
     @ ln ''--- END LOG FLUSH ---''"

lemma flush_formats:
  "printable (ln (newline @ ''--- LOG FLUSH (most recent first) ---'')) []"
  "fmt_text (ln (newline @ ''--- LOG FLUSH (most recent first) ---'')) [] =
     ln (newline @ ''--- LOG FLUSH (most recent first) ---'')"
  "printable (ln ''(log buffer empty)'') []"
  "fmt_text (ln ''(log buffer empty)'') [] = ln ''(log buffer empty)''"
  "printable (ln ''--- END LOG FLUSH ---'') []"
  "fmt_text (ln ''--- END LOG FLUSH ---'') [] = ln ''--- END LOG FLUSH ---''"
  by (simp_all add: printable_def fmt_text_def render_steps ln_def newline_def)

text \<open>Printing under the log lock needs the print lock free and the log lock another one.\<close>

definition flush_body :: "('a panic_state_scheme, unit) kfun" where
  "flush_body = kseq
     [ kmod (\<lambda>s. s\<lparr>flushing := True\<rparr>),
       printf (ln (newline @ ''--- LOG FLUSH (most recent first) ---'')) [],
       kbind (kget (\<lambda>s. (log_head s, nat (log_count s)))) (\<lambda>(idx, n).
         kbind (flush_loop n idx 0) (\<lambda>printed.
           if printed = 0 then printf (ln ''(log buffer empty)'') [] else kret ())),
       printf (ln ''--- END LOG FLUSH ---'') [],
       kmod (\<lambda>s. s\<lparr>flushing := False\<rparr>) ]"

lemma flushing_frame [simp]:
  "log_entries (s\<lparr>flushing := b\<rparr>) = log_entries s" "pr_ready (s\<lparr>flushing := b\<rparr>) = pr_ready s"
  "quiet (s\<lparr>flushing := b\<rparr>) = quiet s" "hart_ok (s\<lparr>flushing := b\<rparr>) = hart_ok s"
  "hart (s\<lparr>flushing := b\<rparr>) = hart s"
  "lock_free (s\<lparr>flushing := b\<rparr>) lk = lock_free s lk"
  "tty_put cs (s\<lparr>flushing := b\<rparr>) = (tty_put cs s)\<lparr>flushing := b\<rparr>"
  "tty_ok (s\<lparr>flushing := b\<rparr>) = tty_ok s"
  by (simp_all add: pr_ready_def tty_ok_def lock_free_def quiet_def hart_ok_def intr_enabled_def
      hart_def tty_put_def)

lemma flush_body_run:
  assumes "pr_ready s" and "quiet s"
  shows "flush_body (s, e) = Ok () ((tty_put (flush_text (log_view s)) s)\<lparr>flushing := False\<rparr>, e)"
proof -
  have view: "log_view s = [] \<longleftrightarrow> nat (log_count s) = 0" by (simp add: log_view_def)
  show ?thesis
    using assms
    by (simp add: flush_body_def kthen_def kbind_def printf_quiet flush_formats flush_loop_run view
        flush_text_def log_view_def log_slot_def comp_def)
qed

lemma log_flush_section:
  "\<not> flushing s \<Longrightarrow> log_flush (s, e) = kseq [acquire LkLogbuf, flush_body, release LkLogbuf] (s, e)"
  by (simp add: log_flush_def flush_body_def kthen_def kbind_def split: res.splits)

text \<open>The log lock also guards the flush.\<close>

interpretation flush_section:
  spin_section LkLogbuf flush_body
    "\<lambda>s. (tty_put (flush_text (log_view s)) s)\<lparr>flushing := False\<rparr>" "\<lambda>s. pr_ready s"
proof unfold_locales
  fix s :: "'a panic_state_scheme" and e
  assume s: "pr_ready s" "hart_ok s" "lock_free s LkLogbuf"
  have "pr_ready (acquired LkLogbuf s)" using s by (simp add: pr_ready_def)
  moreover have "log_view (acquired LkLogbuf s) = log_view s" by (simp add: log_view_def log_slot_def)
  ultimately show "flush_body (acquired LkLogbuf s, e) =
      Ok () (acquired LkLogbuf ((tty_put (flush_text (log_view s)) s)\<lparr>flushing := False\<rparr>), e)"
    using s by (simp add: flush_body_run tty_put_lock set_entry_lock)
next
  fix s :: "'a panic_state_scheme"
  assume "hart_ok s"
  then show "hart_ok ((tty_put (flush_text (log_view s)) s)\<lparr>flushing := False\<rparr>)"
    by (simp add: hart_ok_def intr_enabled_def hart_def tty_put_def)
next
  fix s :: "'a panic_state_scheme"
  assume "lock_free s LkLogbuf"
  then show "lock_free ((tty_put (flush_text (log_view s)) s)\<lparr>flushing := False\<rparr>) LkLogbuf"
    by (simp add: lock_free_def tty_put_def)
qed

lemma log_flush_run [krun]:
  assumes "\<not> flushing s" and "pr_ready s" and "lock_free s LkLogbuf"
  shows "log_flush (s, e) = Ok () (settled ((tty_put (flush_text (log_view s)) s)\<lparr>flushing := False\<rparr>), e)"
proof -
  have "hart_ok s" using assms(2) by (simp add: pr_ready_def tty_ok_def)
  then show ?thesis
    using flush_section.section_run [of s e] assms
    by (simp add: log_flush_section flush_section.section_body_def)
qed

section \<open>log_save_crash_context\<close>

text \<open>The return addresses the walk reads: at most \<open>n\<close>, up to a zero frame pointer.\<close>

primrec frames :: "nat \<Rightarrow> mem \<Rightarrow> u64 \<Rightarrow> u64 list" where
  "frames 0 m fp = []"
| "frames (Suc n) m fp = (if fp = 0 then [] else ld64 m (fp + 8) # frames n m (ld64 m fp))"

primrec frames_mapped :: "nat \<Rightarrow> 'a machine_scheme \<Rightarrow> u64 \<Rightarrow> bool" where
  "frames_mapped 0 s fp = True"
| "frames_mapped (Suc n) s fp =
     (fp = 0 \<or> kmapped s fp \<and> kmapped s (fp + 8) \<and> frames_mapped n s (ld64 (pmem s) fp))"

lemma length_frames: "length (frames n m fp) \<le> n"
  by (induction n arbitrary: fp) simp_all

lemma set_ctx_simps [simp]:
  "saved_crash_ctx (set_ctx f s) = f (saved_crash_ctx s)" "csr (set_ctx f s) = csr s"
  "gpr (set_ctx f s) = gpr s" "cpus (set_ctx f s) = cpus s" "locks (set_ctx f s) = locks s"
  "pmem (set_ctx f s) = pmem s" "kmapped (set_ctx f s) = kmapped s" "procs (set_ctx f s) = procs s"
  "ticks (set_ctx f s) = ticks s" "hart (set_ctx f s) = hart s" "uart_out (set_ctx f s) = uart_out s"
  "lock_free (set_ctx f s) lk = lock_free s lk" "hart_ok (set_ctx f s) = hart_ok s"
  "curproc (set_ctx f s) = curproc s" "pr_ready (set_ctx f s) = pr_ready s"
  "panicking (set_ctx f s) = panicking s" "flushing (set_ctx f s) = flushing s"
  "log_view (set_ctx f s) = log_view s" "holds (set_ctx f s) lk = holds s lk"
  by (simp_all add: set_ctx_def hart_def lock_free_def hart_ok_def intr_enabled_def curproc_def
      pr_ready_def tty_ok_def log_view_def log_slot_def holds_def)

lemma set_ctx_lock:
  "set_ctx f (acquired lk s) = acquired lk (set_ctx f s)" "set_ctx f (settled s) = settled (set_ctx f s)"
  "set_ctx f (tty_put cs s) = tty_put cs (set_ctx f s)"
  by (simp_all add: set_ctx_def acquired_def settled_def push_off_st_def set_lock_def set_cpu_def
      set_sie_def intr_enabled_def hart_def tty_put_def)

lemma set_ctx_compose [simp]: "set_ctx f (set_ctx g s) = set_ctx (\<lambda>c. f (g c)) s"
  by (simp add: set_ctx_def)

lemma frames_mapped_cong:
  "pmem t = pmem s \<Longrightarrow> kmapped t = kmapped s \<Longrightarrow> frames_mapped n t fp = frames_mapped n s fp"
  by (induction n arbitrary: fp) simp_all

definition put_frames :: "nat \<Rightarrow> u64 list \<Rightarrow> crash_context \<Rightarrow> crash_context" where
  "put_frames i fs c = c\<lparr>cc_stacktrace := take i (cc_stacktrace c) @ fs @ drop (i + length fs) (cc_stacktrace c),
                        cc_stack_depth := cc_stack_depth c + int (length fs)\<rparr>"

lemma put_frames_Nil: "put_frames i [] c = c"
  by (simp add: put_frames_def)

lemma put_frames_Cons:
  assumes "i < length (cc_stacktrace c)"
  shows "put_frames (Suc i) fs (c\<lparr>cc_stacktrace := (cc_stacktrace c)[i := r],
           cc_stack_depth := cc_stack_depth c + 1\<rparr>) = put_frames i (r # fs) c"
  using assms by (simp add: put_frames_def take_Suc_conv_app_nth drop_update_cancel)

lemma stack_walk_run:
  "frames_mapped k s fp \<Longrightarrow> i + k \<le> length (cc_stacktrace (saved_crash_ctx s)) \<Longrightarrow>
   stack_walk k i fp (s, e) = Ok () (set_ctx (put_frames i (frames k (pmem s) fp)) s, e)"
proof (induction k arbitrary: i fp s)
  case 0
  then show ?case by (simp add: put_frames_Nil set_ctx_def)
next
  case (Suc k)
  show ?case
  proof (cases "fp = 0")
    case True
    then show ?thesis by (simp add: put_frames_Nil set_ctx_def)
  next
    case False
    let ?r = "ld64 (pmem s) (fp + 8)"
    let ?f = "\<lambda>c. c\<lparr>cc_stacktrace := (cc_stacktrace c)[i := ?r], cc_stack_depth := cc_stack_depth c + 1\<rparr>"
    let ?t = "set_ctx ?f s"
    have "frames_mapped k ?t (ld64 (pmem s) fp)"
      using Suc.prems(1) False frames_mapped_cong [of ?t s] by simp
    then have "stack_walk k (Suc i) (ld64 (pmem s) fp) (?t, e) =
        Ok () (set_ctx (put_frames (Suc i) (frames k (pmem ?t) (ld64 (pmem s) fp))) ?t, e)"
      using Suc.prems(2) by (intro Suc.IH) simp_all
    also have "set_ctx (put_frames (Suc i) (frames k (pmem ?t) (ld64 (pmem s) fp))) ?t =
        set_ctx (put_frames i (frames (Suc k) (pmem s) fp)) s"
    proof -
      have "put_frames (Suc i) fs (?f (saved_crash_ctx s)) = put_frames i (?r # fs) (saved_crash_ctx s)" for fs
        using Suc.prems(2) by (intro put_frames_Cons) simp
      then show ?thesis using False by (simp add: set_ctx_def)
    qed
    finally show ?thesis
      using Suc.prems(1) False by (simp add: kbind_def kthen_def)
  qed
qed

text \<open>The record that is captured.\<close>

definition crash_context_of :: "string \<Rightarrow> 'a panic_state_scheme \<Rightarrow> crash_context" where
  "crash_context_of msg s =
     (let fs = frames 10 (pmem s) (gpr s S0) in
      \<lparr>cc_reg = gpr s, cc_sepc = csr_sepc (csr s), cc_scause = csr_scause (csr s),
       cc_stval = csr_stval (csr s), cc_sstatus = csr_sstatus (csr s),
       cc_pid = (case curproc s of Some i \<Rightarrow> pid (procs s i) | None \<Rightarrow> -1),
       cc_pname = safestrcpy (replicate 16 NUL)
          (case curproc s of Some i \<Rightarrow> cstr (pname (procs s i)) | None \<Rightarrow> ''(none)'') 16,
       cc_pstate = (case curproc s of Some i \<Rightarrow> int (procstate_code (pstate (procs s i))) | None \<Rightarrow> -1),
       cc_stacktrace = fs @ replicate (10 - length fs) 0,
       cc_stack_depth = int (length fs),
       cc_cpu = sint (ucast (gpr s TP) :: u32),
       cc_panic_msg = safestrcpy (replicate 128 NUL) msg 128,
       cc_panic_ticks = ucast (ticks s),
       cc_magic = CRASH_MAGIC\<rparr>)"

lemma log_save_run [krun]:
  assumes "hart_ok s" and "lock_free s LkTicks" and "frames_mapped 10 s (gpr s S0)"
  shows "log_save_crash_context msg (s, e) =
    Ok () (settled (set_ctx (\<lambda>_. crash_context_of msg s) s), e)"
proof -
  let ?fs = "frames 10 (pmem s) (gpr s S0)"
  have fs: "length ?fs \<le> 10" by (rule length_frames)
  have walk: "stack_walk 10 0 (gpr s S0) (settled (set_ctx f s), e) =
      Ok () (set_ctx (put_frames 0 ?fs) (settled (set_ctx f s)), e)"
    if "length (cc_stacktrace (f (saved_crash_ctx s))) = 10" for f
    using stack_walk_run [of 10 "settled (set_ctx f s)" "gpr s S0" 0 e] assms(3) that
      frames_mapped_cong [of "settled (set_ctx f s)" s] by simp
  show ?thesis
    using assms(1,2) fs
    by (cases "curproc s")
      (simp_all add: log_save_crash_context_def kthen_def kbind_def csr_access_defs set_ctx_lock
        acquire_run release_run myproc_run walk zero_crash_context_def crash_context_of_def Let_def
        put_frames_def drop_replicate)
qed

text \<open>
  The tick counter is read under its lock: a hart that already holds it --- a panic inside
  clockintr, say --- panics again inside the capture.
\<close>

lemma log_save_deadlock:
  assumes "holds s LkTicks"
  shows "\<exists>f. log_save_crash_context msg (s, e) = Panic ''acquire'' (push_off_st (set_ctx f s), e) \<and>
     cc_magic (f (saved_crash_ctx s)) = 0"
proof -
  let ?f = "\<lambda>_. zero_crash_context\<lparr>cc_reg := gpr s, cc_sepc := csr_sepc (csr s),
    cc_scause := csr_scause (csr s), cc_stval := csr_stval (csr s), cc_sstatus := csr_sstatus (csr s)\<rparr>"
  have "acquire LkTicks (set_ctx ?f s, e) = Panic ''acquire'' (push_off_st (set_ctx ?f s), e)"
    using assms by (intro acquire_held) simp
  then have "log_save_crash_context msg (s, e) = Panic ''acquire'' (push_off_st (set_ctx ?f s), e)"
    by (simp add: log_save_crash_context_def kthen_def kbind_def csr_access_defs)
  moreover have "cc_magic (?f (saved_crash_ctx s)) = 0" by (simp add: zero_crash_context_def)
  ultimately show ?thesis by blast
qed

section \<open>log_dump_crash_context\<close>

definition hex :: "u64 \<Rightarrow> string" where
  "hex x = numeral_of digits 16 (unat x)"

lemma printfs_run:
  assumes "\<forall>(fmt, ap) \<in> set fs. printable fmt ap" and "pr_ready s"
  shows "kfor fs (\<lambda>(fmt, ap). printf fmt ap) (s, e) =
    Ok () (if fs = [] then s else printed (concat (map (\<lambda>(fmt, ap). fmt_text fmt ap) fs)) s, e)"
  using assms
proof (induction fs arbitrary: s)
  case Nil
  then show ?case by simp
next
  case (Cons f fs)
  then show ?case
    by (cases f) (simp add: kthen_def kbind_def printf_run)
qed

definition dump_text :: "crash_context \<Rightarrow> string" where
  "dump_text c = concat (map (\<lambda>(fmt, ap). fmt_text fmt ap) (dump_ctx c))"

lemma dump_printable: "\<forall>(fmt, ap) \<in> set (dump_ctx c). printable fmt ap"
  by (simp add: dump_ctx_def dump_regs_def printable_def render_eval)

lemma log_dump_run [krun]:
  assumes "pr_ready s" and "cc_magic (saved_crash_ctx s) = CRASH_MAGIC"
  shows "log_dump_crash_context (s, e) = Ok () (printed (dump_text (saved_crash_ctx s)) s, e)"
proof -
  have "dump_ctx c \<noteq> []" for c by (simp add: dump_ctx_def)
  then show ?thesis
    using assms printfs_run [OF dump_printable assms(1)]
    by (simp add: log_dump_crash_context_def kbind_def dump_text_def)
qed

lemma unat_ucast32 [simp]: "unat (ucast (w :: u32) :: u64) = unat w"
proof -
  have "unat w < 2 ^ 32" using unsigned_less [of w] by simp
  then have "unat w < 2 ^ 64" by (rule less_trans) simp
  then show ?thesis by (simp add: unsigned_ucast_eq take_bit_nat_eq_self)
qed

lemma log_dump_invalid:
  assumes "pr_ready s" and "cc_magic (saved_crash_ctx s) \<noteq> CRASH_MAGIC"
  shows "log_dump_crash_context (s, e) = Ok () (printed (''No crash context saved (magic=0x'' @
     hex (ucast (cc_magic (saved_crash_ctx s))) @ '', expected 0xdeadbeef)'' @ newline) s, e)"
proof -
  let ?m = "cc_magic (saved_crash_ctx s)"
  let ?f = "ln ''No crash context saved (magic=0x%x, expected 0x%x)''"
  have "numeral_of digits 16 0xDEADBEEF = ''deadbeef''"
    by (simp add: numeral_of_def udigits.simps digits_def)
  then have "fmt_text ?f [va_u32 ?m, va_u32 CRASH_MAGIC] = ''No crash context saved (magic=0x'' @
     hex (ucast ?m) @ '', expected 0xdeadbeef)'' @ newline"
    by (simp add: fmt_text_def render_eval hex_def CRASH_MAGIC_def)
  moreover have "printable ?f [va_u32 ?m, va_u32 CRASH_MAGIC]"
    by (simp add: printable_def render_eval)
  ultimately show ?thesis
    using assms by (simp add: log_dump_crash_context_def kbind_def printf_run)
qed

text \<open>The lines of the dump, in full.\<close>

lemma dump_line_texts:
  "fmt_text (ln ''Message: %s'') [va_text m] = ''Message: '' @ m @ newline"
  "fmt_text (ln ''Ticks:   %ld'') [Num a] = ''Ticks:   '' @ dec (sint a) @ newline"
  "fmt_text (ln ''CPU:     %d'') [va_of_int k] = ''CPU:     '' @ dec (sint (word_of_int k :: u32)) @ newline"
  "fmt_text (ln ''ra=0x%lx  sp=0x%lx  gp=0x%lx  tp=0x%lx'') [Num a, Num b, Num c, Num d] =
     ''ra=0x'' @ hex a @ ''  sp=0x'' @ hex b @ ''  gp=0x'' @ hex c @ ''  tp=0x'' @ hex d @ newline"
  "fmt_text (ln ''sepc=0x%lx  scause=0x%lx  stval=0x%lx  sstatus=0x%lx'') [Num a, Num b, Num c, Num d] =
     ''sepc=0x'' @ hex a @ ''  scause=0x'' @ hex b @ ''  stval=0x'' @ hex c @ ''  sstatus=0x'' @ hex d @ newline"
  "fmt_text (ln ''pid=%d  name=%s  state=%d'') [va_of_int k, va_text m, va_of_int l] =
     ''pid='' @ dec (sint (word_of_int k :: u32)) @ ''  name='' @ m @ ''  state='' @
     dec (sint (word_of_int l :: u32)) @ newline"
  "fmt_text (ln ''  [%d] 0x%lx'') [va_of_int k, Num a] =
     ''  ['' @ dec (sint (word_of_int k :: u32)) @ ''] 0x'' @ hex a @ newline"
  by (simp_all add: fmt_text_def render_eval hex_def dec_def)

section \<open>log_init and log_test\<close>

lemma log_init_run:
  "\<exists>t. log_init (s, e) = Ok () (t, e) \<and> log_view t = [] \<and> lock_free t LkLogbuf \<and>
     saved_crash_ctx t = zero_crash_context \<and> log_head t = 0 \<and> log_count t = 0 \<and>
     uart_out t = uart_out s \<and> log_entries t = log_entries s"
  by (simp add: log_init_def initlock_def kthen_def kbind_def log_view_def lock_free_def set_ctx_def
      zero_crash_context_def)

text \<open>One call of a logger, as a step on the state.\<close>

type_synonym log_call = "int \<times> int \<times> string \<times> va list"

definition log1 :: "string \<Rightarrow> log_call \<Rightarrow> 'a panic_state_scheme \<Rightarrow> 'a panic_state_scheme" where
  "log1 fl c s = (case c of (level, line, fmt, ap) \<Rightarrow>
     settled (log_put level fl line (log_text fmt ap) s))"

definition call_line :: "string \<Rightarrow> u32 \<Rightarrow> log_call \<Rightarrow> log_line" where
  "call_line fl tk c = (case c of (level, line, fmt, ap) \<Rightarrow>
     (tk, level, take 31 (cstr (basename fl)), line,
      cstr (take 127 (map code_char (the (render digits fmt ap))))))"

lemma log1_simps [simp]:
  "uart_out (log1 fl c s) = uart_out s" "locks (log1 fl c s) = locks s" "procs (log1 fl c s) = procs s"
  "ticks (log1 fl c s) = ticks s" "hart (log1 fl c s) = hart s" "hart_ok (log1 fl c s) = hart_ok s"
  "gpr (log1 fl c s) = gpr s" "flushing (log1 fl c s) = flushing s" "log_wf s \<Longrightarrow> log_wf (log1 fl c s)"
  "lock_free (log1 fl c s) lk = lock_free s lk"
  by (simp_all add: log1_def log_wf_logged lock_free_def split: prod.splits)

lemma log1_view [simp]:
  "log_wf s \<Longrightarrow> log_view (log1 fl c s) = take 64 (call_line fl (ticks s) c # log_view s)"
  by (simp add: log1_def log_view_logged new_line_def call_line_def split: prod.splits)

lemma log1_run:
  "printable fmt ap \<Longrightarrow> hart_ok s \<Longrightarrow> lock_free s LkLogbuf \<Longrightarrow>
   log_add level fl line fmt ap (s, e) = Ok () (log1 fl (level, line, fmt, ap) s, e)"
  by (simp add: log_add_run log1_def)

text \<open>A run of calls: the ring ends with the last 64 of them, newest first.\<close>

lemma take_rev_append: "take n (c # take n xs) = take n (c # xs)"
  by (cases n) (simp_all add: take_Suc_Cons)

lemma fold_log1:
  "log_wf s \<Longrightarrow> log_wf (fold (log1 fl) cs s) \<and> log_view (fold (log1 fl) cs s) =
     take 64 (rev (map (call_line fl (ticks s)) cs) @ log_view s) \<and> ticks (fold (log1 fl) cs s) = ticks s \<and>
     uart_out (fold (log1 fl) cs s) = uart_out s \<and> locks (fold (log1 fl) cs s) = locks s \<and>
     hart_ok (fold (log1 fl) cs s) = hart_ok s \<and> gpr (fold (log1 fl) cs s) = gpr s \<and>
     flushing (fold (log1 fl) cs s) = flushing s \<and> hart (fold (log1 fl) cs s) = hart s"
proof (induction cs rule: rev_induct)
  case Nil
  then show ?case by (simp add: log_view_def log_wf_def LOG_SIZE_def nat_le_iff)
next
  case (snoc c cs)
  moreover have "63 - min (length cs) 64 = 63 - length cs" by simp
  ultimately show ?case by (simp add: take_rev_append)
qed

lemma kfor_log1:
  "\<forall>x \<in> set xs. printable (fmt x) (ap x) \<Longrightarrow> hart_ok s \<Longrightarrow> lock_free s LkLogbuf \<Longrightarrow>
   kfor xs (\<lambda>x. log_add (lv x) fl (lno x) (fmt x) (ap x)) (s, e) =
     Ok () (fold (log1 fl) (map (\<lambda>x. (lv x, lno x, fmt x, ap x)) xs) s, e)"
proof (induction xs arbitrary: s)
  case Nil
  then show ?case by simp
next
  case (Cons x xs)
  then show ?case by (simp add: kthen_def kbind_def log1_run)
qed

text \<open>The calls log_test makes, and the texts of those that survive in the ring.\<close>

definition log_test_head :: "log_call list" where
  "log_test_head =
     [ (LOG_INFO, 415, ''log_test: INFO message (pid=42)'', []),
       (LOG_WARN, 416, ''log_test: WARN message (x=%x)'', [va_of_int 0xDEAD]),
       (LOG_DEBUG, 417, ''log_test: DEBUG message (str=%s)'', [va_text ''hello'']),
       (LOG_PANIC, 418, ''log_test: PANIC prep (num=%d)'', [va_of_int (-1)]) ]"

definition log_test_wrap :: "nat \<Rightarrow> log_call" where
  "log_test_wrap i = (LOG_DEBUG, 421, ''wrap test i=%d'', [va_nat i])"

definition log_test_tail :: "log_call list" where
  "log_test_tail =
     [ (LOG_INFO, 424, ''fmt d=%d ld=%ld lld=%lld'', [va_of_int (-1), va_of_int (-2), va_of_int (-3)]),
       (LOG_INFO, 425, ''fmt u=%u lu=%lu llu=%llu'', [va_of_int 1, va_of_int 2, va_of_int 3]),
       (LOG_INFO, 426, ''fmt x=%x lx=%lx llx=%llx'', [va_of_int 0xFF, va_of_int 0xFFF, va_of_int 0xFFFF]),
       (LOG_INFO, 427, ''fmt s='' @ quote @ ''%s'' @ quote @ '' c='' @ squote @ ''%c'' @ squote @ '' p=%p'',
         [va_text ''test'', va_of_int 65, va_of_int 0x80000000]),
       (LOG_INFO, 428, ''fmt %%'', []) ]"

definition log_test_calls :: "log_call list" where
  "log_test_calls = log_test_head @ map log_test_wrap [0..<nat (LOG_SIZE + 5)] @ log_test_tail"

lemma log_test_printable:
  "printable ''log_test: INFO message (pid=42)'' []"
  "printable ''log_test: WARN message (x=%x)'' [va_of_int x]"
  "printable ''log_test: DEBUG message (str=%s)'' [va_text t]"
  "printable ''log_test: PANIC prep (num=%d)'' [va_of_int x]"
  "printable ''wrap test i=%d'' [va_nat i]"
  "printable ''fmt d=%d ld=%ld lld=%lld'' [va_of_int x, va_of_int y, va_of_int z]"
  "printable ''fmt u=%u lu=%lu llu=%llu'' [va_of_int x, va_of_int y, va_of_int z]"
  "printable ''fmt x=%x lx=%lx llx=%llx'' [va_of_int x, va_of_int y, va_of_int z]"
  "printable (''fmt s='' @ quote @ ''%s'' @ quote @ '' c='' @ squote @ ''%c'' @ squote @ '' p=%p'')
     [va_text t, va_of_int x, va_of_int y]"
  "printable ''fmt %%'' []"
  by (simp_all add: printable_def render_eval quote_def squote_def)

lemma wrap_run:
  assumes "hart_ok s" and "lock_free s LkLogbuf"
  shows "kfor [0..<n] (\<lambda>i. log_add LOG_DEBUG fl 421 ''wrap test i=%d'' [va_nat i]) (s, e) =
     Ok () (fold (log1 fl) (map log_test_wrap [0..<n]) s, e)"
  using kfor_log1 [of "[0..<n]" "\<lambda>_. ''wrap test i=%d''" "\<lambda>i. [va_nat i]" s "\<lambda>_. LOG_DEBUG" fl "\<lambda>_. 421" e]
    assms log_test_printable
  by (simp add: log_test_wrap_def [abs_def])

lemma fold_log1_frame [simp]:
  "hart_ok (fold (log1 fl) cs s) = hart_ok s" "lock_free (fold (log1 fl) cs s) lk = lock_free s lk"
  by (induction cs arbitrary: s) simp_all

lemma log_calls_run:
  assumes "hart_ok s" and "lock_free s LkLogbuf"
  shows "kseq
     [ log_info log_test_file 415 ''log_test: INFO message (pid=42)'' [],
       log_warn log_test_file 416 ''log_test: WARN message (x=%x)'' [va_of_int 0xDEAD],
       log_debug log_test_file 417 ''log_test: DEBUG message (str=%s)'' [va_text ''hello''],
       log_panic_prep log_test_file 418 ''log_test: PANIC prep (num=%d)'' [va_of_int (-1)],
       kfor [0..<nat (LOG_SIZE + 5)] (\<lambda>i. log_debug log_test_file 421 ''wrap test i=%d'' [va_nat i]),
       log_info log_test_file 424 ''fmt d=%d ld=%ld lld=%lld'' [va_of_int (-1), va_of_int (-2), va_of_int (-3)],
       log_info log_test_file 425 ''fmt u=%u lu=%lu llu=%llu'' [va_of_int 1, va_of_int 2, va_of_int 3],
       log_info log_test_file 426 ''fmt x=%x lx=%lx llx=%llx'' [va_of_int 0xFF, va_of_int 0xFFF, va_of_int 0xFFFF],
       log_info log_test_file 427 (''fmt s='' @ quote @ ''%s'' @ quote @ '' c='' @ squote @ ''%c'' @ squote @ '' p=%p'')
         [va_text ''test'', va_of_int 65, va_of_int 0x80000000],
       log_info log_test_file 428 ''fmt %%'' [] ] (s, e) =
     Ok () (fold (log1 log_test_file) log_test_calls s, e)"
  using assms
  by (simp add: kthen_def kbind_def wrap_run log_info_def log_warn_def log_debug_def log_panic_prep_def
      log1_run log_test_printable log_test_printable [simplified] log_test_calls_def
      log_test_head_def log_test_tail_def fold_log1_frame)

lemma log_test_numerals:
  "signed_numeral digits (-1) = ''-1''" "signed_numeral digits (-2) = ''-2''"
  "signed_numeral digits (-3) = ''-3''" "numeral_of digits 10 (Suc 0) = ''1''"
  "numeral_of digits 10 2 = ''2''" "numeral_of digits 10 3 = ''3''"
  "numeral_of digits 16 255 = ''ff''" "numeral_of digits 16 4095 = ''fff''"
  "numeral_of digits 16 65535 = ''ffff''"
  by (simp_all add: signed_numeral_def numeral_of_def udigits.simps digits_def)

lemma log_test_pointer: "hex_nibbles digits 16 0x80000000 = ''0000000080000000''"
  by code_simp

lemma log_test_char: "code_char 65 = CHR ''A''"
  by code_simp

lemma minus_one32: "(ucast (- 1 :: u64) :: u32) = - 1"
  using arg32(2) [of "-1"] by simp

lemma log_test_tail_texts:
  "map (call_line log_test_file tk) log_test_tail =
     [ (tk, LOG_INFO, ''paniclog.c'', 424, ''fmt d=-1 ld=-2 lld=-3''),
       (tk, LOG_INFO, ''paniclog.c'', 425, ''fmt u=1 lu=2 llu=3''),
       (tk, LOG_INFO, ''paniclog.c'', 426, ''fmt x=ff lx=fff llx=ffff''),
       (tk, LOG_INFO, ''paniclog.c'', 427, ''fmt s='' @ quote @ ''test'' @ quote @ '' c='' @ squote @ ''A'' @ squote @ '' p=0x0000000080000000''),
       (tk, LOG_INFO, ''paniclog.c'', 428, ''fmt %'') ]"
  by (simp add: log_test_tail_def call_line_def render_eval basename_def log_test_file_def cstr_def
      log_test_numerals log_test_pointer log_test_char minus_one32 quote_def squote_def)

lemma dec_no_NUL: "NUL \<notin> set (dec x)"
proof -
  have "set (udigits digits 10 n) \<subseteq> set digits" for n
    by (rule udigits_distinct_chars) (simp_all add: digits_def)
  then show ?thesis by (force simp: dec_def signed_numeral_def numeral_of_def digits_def)
qed

lemma cstr_plain: "NUL \<notin> set s \<Longrightarrow> cstr s = s"
  by (auto simp: cstr_def takeWhile_eq_all_conv)

lemma log_test_wrap_text:
  assumes "i < 69"
  shows "call_line log_test_file tk (log_test_wrap i) =
     (tk, LOG_DEBUG, ''paniclog.c'', 421, ''wrap test i='' @ dec (int i))"
proof -
  have "ucast (of_nat i :: u64) = (word_of_int (int i) :: u32)"
    using arg32(2) [of "int i"] by simp
  moreover have "sint (word_of_int (int i) :: u32) = int i"
    using assms by (simp add: signed_of_int signed_take_bit_int_eq_self del: of_int_of_nat_eq)
  ultimately have i: "sint (ucast (of_nat i :: u64) :: u32) = int i" by simp
  have "length (udigits digits 10 i) \<le> Suc 1" using assms by (intro length_udigits) simp_all
  then have "length (''wrap test i='' @ dec (int i)) \<le> 127"
    by (simp add: dec_def signed_numeral_def numeral_of_def)
  then have "cstr (take 127 (''wrap test i='' @ dec (int i))) = ''wrap test i='' @ dec (int i)"
    using dec_no_NUL [of "int i"] by (subst take_all) (simp_all add: cstr_plain)
  moreover have "map code_char (the (render digits ''wrap test i=%d'' [va_nat i])) = ''wrap test i='' @ dec (int i)"
    using i by (simp add: render_eval dec_def)
  ultimately show ?thesis
    by (simp add: call_line_def log_test_wrap_def basename_def log_test_file_def cstr_def)
qed

text \<open>The ring after log_test: its five last entries and the last 59 of the wrap test.\<close>

definition log_test_view :: "u32 \<Rightarrow> log_line list" where
  "log_test_view tk =
     [ (tk, LOG_INFO, ''paniclog.c'', 428, ''fmt %''),
       (tk, LOG_INFO, ''paniclog.c'', 427, ''fmt s='' @ quote @ ''test'' @ quote @ '' c='' @ squote @ ''A'' @ squote @ '' p=0x0000000080000000''),
       (tk, LOG_INFO, ''paniclog.c'', 426, ''fmt x=ff lx=fff llx=ffff''),
       (tk, LOG_INFO, ''paniclog.c'', 425, ''fmt u=1 lu=2 llu=3''),
       (tk, LOG_INFO, ''paniclog.c'', 424, ''fmt d=-1 ld=-2 lld=-3'') ]
     @ map (\<lambda>i. (tk, LOG_DEBUG, ''paniclog.c'', 421, ''wrap test i='' @ dec (int i))) (rev [10..<69])"

lemma log_test_view_calls:
  "take 64 (rev (map (call_line log_test_file tk) log_test_calls) @ rest) = log_test_view tk"
proof -
  have split: "[0..<nat (LOG_SIZE + 5)] = [0..<10] @ [10..<69]"
    using upt_add_eq_append [of 0 10 59] by (simp add: LOG_SIZE_def del: upt_rec_numeral)
  have wraps: "map (\<lambda>i. call_line log_test_file tk (log_test_wrap i)) [10..<69] =
      map (\<lambda>i. (tk, LOG_DEBUG, ''paniclog.c'', 421, ''wrap test i='' @ dec (int i))) [10..<69]"
    by (rule map_cong) (simp_all add: log_test_wrap_text del: upt_rec_numeral)
  have "rev (map (call_line log_test_file tk) log_test_calls) @ rest =
      log_test_view tk @ (rev (map (call_line log_test_file tk) (log_test_head @ map log_test_wrap [0..<10])) @ rest)"
    unfolding log_test_calls_def split log_test_view_def
    by (simp only: map_append rev_append map_map comp_def wraps log_test_tail_texts rev_map append_assoc)
      simp
  moreover have "length (log_test_view tk) = 64" by (simp add: log_test_view_def del: upt_rec_numeral)
  ultimately show ?thesis by simp
qed

lemma log_test_formats:
  "printable (ln ''log_test: all tests completed.'') []"
  "fmt_text (ln ''log_test: all tests completed.'') [] = ''log_test: all tests completed.'' @ newline"
  by (simp_all add: printable_def fmt_text_def render_eval)

lemma log_test_split:
  "log_test = kthen (kseq
     [ log_info log_test_file 415 ''log_test: INFO message (pid=42)'' [],
       log_warn log_test_file 416 ''log_test: WARN message (x=%x)'' [va_of_int 0xDEAD],
       log_debug log_test_file 417 ''log_test: DEBUG message (str=%s)'' [va_text ''hello''],
       log_panic_prep log_test_file 418 ''log_test: PANIC prep (num=%d)'' [va_of_int (-1)],
       kfor [0..<nat (LOG_SIZE + 5)] (\<lambda>i. log_debug log_test_file 421 ''wrap test i=%d'' [va_nat i]),
       log_info log_test_file 424 ''fmt d=%d ld=%ld lld=%lld'' [va_of_int (-1), va_of_int (-2), va_of_int (-3)],
       log_info log_test_file 425 ''fmt u=%u lu=%lu llu=%llu'' [va_of_int 1, va_of_int 2, va_of_int 3],
       log_info log_test_file 426 ''fmt x=%x lx=%lx llx=%llx'' [va_of_int 0xFF, va_of_int 0xFFF, va_of_int 0xFFFF],
       log_info log_test_file 427 (''fmt s='' @ quote @ ''%s'' @ quote @ '' c='' @ squote @ ''%c'' @ squote @ '' p=%p'')
         [va_text ''test'', va_of_int 65, va_of_int 0x80000000],
       log_info log_test_file 428 ''fmt %%'' [] ])
     (kthen log_flush (kthen (log_save_crash_context ''log_test: simulated panic for dumppanic'')
       (kthen (printf (ln ''log_test: all tests completed.'') []) (kret 0))))"
  by (simp only: log_test_def kseq.simps kthen_assoc kthen_kret)

lemma log1_more [simp]:
  "pr_ready (log1 fl c s) = pr_ready s" "panicking (log1 fl c s) = panicking s"
  "pmem (log1 fl c s) = pmem s" "kmapped (log1 fl c s) = kmapped s"
  by (simp_all add: log1_def log_put_def Let_def set_entry_def pr_ready_def tty_ok_def lock_free_def
      hart_ok_def intr_enabled_def hart_def split: prod.splits)

lemma fold_log1_more [simp]:
  "pr_ready (fold (log1 fl) cs s) = pr_ready s" "panicking (fold (log1 fl) cs s) = panicking s"
  "pmem (fold (log1 fl) cs s) = pmem s" "kmapped (fold (log1 fl) cs s) = kmapped s"
  "gpr (fold (log1 fl) cs s) = gpr s" "flushing (fold (log1 fl) cs s) = flushing s"
  "uart_out (fold (log1 fl) cs s) = uart_out s" "locks (fold (log1 fl) cs s) = locks s"
  by (induction cs arbitrary: s) simp_all

text \<open>A state in which the log system may be used.\<close>

definition log_ready :: "'a panic_state_scheme \<Rightarrow> bool" where
  "log_ready s \<longleftrightarrow> log_wf s \<and> pr_ready s \<and> \<not> flushing s \<and> lock_free s LkLogbuf \<and> lock_free s LkTicks"

lemma flushed_frame [simp]:
  "csr (s\<lparr>flushing := b\<rparr>) = csr s" "gpr (s\<lparr>flushing := b\<rparr>) = gpr s"
  "lock_free (tty_put cs s) lk = lock_free s lk"
  "hart_ok (tty_put cs s) = hart_ok s" "pr_ready (settled s) = pr_ready s"
  "log_view (tty_put cs s) = log_view s" "log_view (s\<lparr>flushing := b\<rparr>) = log_view s"
  by (simp_all add: lock_free_def hart_ok_def intr_enabled_def pr_ready_def log_view_def log_slot_def)

lemma log_test_run:
  assumes "log_ready s" and "frames_mapped 10 s (gpr s S0)"
  shows "\<exists>t. log_test (s, e) = Ok 0 (t, e) \<and> log_view t = log_test_view (ticks s) \<and>
     cc_magic (saved_crash_ctx t) = CRASH_MAGIC \<and>
     uart_out t = uart_out s @ flush_text (log_test_view (ticks s)) @ ''log_test: all tests completed.'' @ newline"
proof -
  let ?a = "fold (log1 log_test_file) log_test_calls s"
  have wf: "log_wf s" and pr: "pr_ready s" and ok: "hart_ok s" and fl: "\<not> flushing s"
    and lb: "lock_free s LkLogbuf" and tk: "lock_free s LkTicks"
    using assms(1) by (auto simp: log_ready_def pr_ready_def tty_ok_def)
  have view: "log_view ?a = log_test_view (ticks s)"
    using fold_log1 [OF wf, of log_test_file log_test_calls] log_test_view_calls by metis
  let ?b = "settled ((tty_put (flush_text (log_view ?a)) ?a)\<lparr>flushing := False\<rparr>)"
  have flush: "log_flush (?a, e) = Ok () (?b, e)"
    using fl pr lb by (intro log_flush_run) simp_all
  let ?msg = "''log_test: simulated panic for dumppanic''"
  let ?c = "settled (set_ctx (\<lambda>_. crash_context_of ?msg ?b) ?b)"
  have "frames_mapped 10 ?b (gpr ?b S0)"
    using assms(2) frames_mapped_cong [of ?b s] by simp
  then have save: "log_save_crash_context ?msg (?b, e) = Ok () (?c, e)"
    using ok tk by (intro log_save_run) simp_all
  have pr: "printf (ln ''log_test: all tests completed.'') [] (?c, e) =
      Ok () (printed (''log_test: all tests completed.'' @ newline) ?c, e)"
    using pr log_test_formats by (subst printf_run) simp_all
  have "log_test (s, e) = Ok 0 (printed (''log_test: all tests completed.'' @ newline) ?c, e)"
    unfolding log_test_split using log_calls_run [OF ok lb, of e] flush save pr
    by (simp only: kthen_def kbind_def) simp
  moreover have "log_view (printed u ?c) = log_test_view (ticks s)" for u
    by (simp add: printed_def unpanicked_settled_def view)
  ultimately show ?thesis
    by (simp add: view printed_def unpanicked_settled_def crash_context_of_def Let_def)
qed

section \<open>A concrete state\<close>

definition zero_proc :: proc where
  "zero_proc = \<lparr>pstate = UNUSED, pchan = None, pkilled = False, pxstate = 0, pid = 0, pparent = None,
     kstack = 0, psz = 0, ppagetable = 0, ptrapframe = 0, pcontext = zero_context,
     pofile = replicate 16 None, pcwd = None, pname = replicate 16 NUL\<rparr>"

definition zero_entry :: log_entry where
  "zero_entry = \<lparr>le_ticks = 0, le_level = 0, le_file = replicate 32 NUL, le_line = 0,
     le_msg = replicate 128 NUL\<rparr>"

definition sample_panic :: panic_state where
  "sample_panic = \<lparr>csr = zero_csrs, gpr = (\<lambda>_. 0), cpus = (\<lambda>_. idle_cpu), locks = (\<lambda>_. free_lock),
     pmem = (\<lambda>_. 0), kmapped = (\<lambda>_. True),
     procs = (\<lambda>_. zero_proc), initproc = None, nextpid = 1, ticks = 7,
     sleeplocks = (\<lambda>_. \<lparr>slocked = False, slname = [], slpid = 0\<rparr>),
     uart_out = [], uart_in = [], uart_idle = True, uart_reg = (\<lambda>_. 0), uart_divisor = (\<lambda>_. 0),
     tx_busy = 0, panicking = False, panicked = False,
     log_entries = (\<lambda>_. zero_entry), log_head = 0, log_count = 0, flushing = False,
     saved_crash_ctx = zero_crash_context\<rparr>"

lemma sample_panic_like: "like_sample sample_panic"
  by (simp add: like_sample_def machine.truncate_def sample_machine_def sample_panic_def)

lemma sample_panic_facts:
  "log_ready sample_panic" "tty_ok sample_panic" "log_wf sample_panic" "\<not> flushing sample_panic"
  "pr_ready sample_panic" "frames_mapped 10 sample_panic (gpr sample_panic S0)" "log_view sample_panic = []"
proof -
  note f = like_sample_facts [OF sample_panic_like]
  show tty: "tty_ok sample_panic" by (simp add: tty_ok_def f) (simp add: sample_panic_def)
  show fl: "\<not> flushing sample_panic" by (simp add: sample_panic_def)
  show pr: "pr_ready sample_panic" using tty by (simp add: pr_ready_def f)
  show wf: "log_wf sample_panic"
    by (simp add: log_wf_def sample_panic_def LOG_SIZE_def entry_wf_def zero_entry_def)
  show "log_ready sample_panic" using wf pr fl by (simp add: log_ready_def f)
  show "frames_mapped 10 sample_panic (gpr sample_panic S0)"
    using f by (simp add: eval_nat_numeral)
  show "log_view sample_panic = []" by (simp add: log_view_def sample_panic_def)
qed

section \<open>Properties\<close>

text \<open>
  C1. The log is a bounded list: log_add puts the new entry --- the current ticks, the level,
  the last component of the file name cut to 31 characters, the line, the formatted text cut
  to 127 --- in front of the entries readers see and keeps the first 64, leaves every string
  terminated inside its array, and changes nothing else readers of the log see.
\<close>

theorem log_add_refines:
  assumes "log_wf s" and "hart_ok s" and "lock_free s LkLogbuf" and "printable fmt ap"
  shows "\<exists>t. log_add level fl line fmt ap (s, e) = Ok () (t, e) \<and> log_wf t \<and>
     log_view t = take 64 (new_line level fl line fmt ap s # log_view s) \<and>
     lock_free t LkLogbuf \<and> uart_out t = uart_out s \<and> saved_crash_ctx t = saved_crash_ctx s"
  using assms log_add_run [of fmt ap s level fl line e]
  by (auto simp: log_view_logged log_wf_logged lock_free_def)

theorem log_add_refines_witness:
  "\<exists>t. log_add LOG_WARN ''kernel/trap.c'' 9 ''x=%x'' [Num 255] (sample_panic, []) = Ok () (t, []) \<and> log_wf t \<and>
     log_view t = [(7, LOG_WARN, ''trap.c'', 9, ''x=ff'')] \<and> lock_free t LkLogbuf \<and>
     uart_out t = [] \<and> saved_crash_ctx t = zero_crash_context"
proof -
  have p: "printable ''x=%x'' [Num 255]" by (simp add: printable_def render_steps)
  have l: "new_line LOG_WARN ''kernel/trap.c'' 9 ''x=%x'' [Num 255] sample_panic =
      (7, LOG_WARN, ''trap.c'', 9, ''x=ff'')"
    by (simp add: new_line_def sample_panic_def basename_def cstr_def render_steps numeral_of_def
        udigits.simps digits_def)
  have o: "uart_out sample_panic = []" "saved_crash_ctx sample_panic = zero_crash_context"
    by (simp_all add: sample_panic_def)
  note f = like_sample_facts [OF sample_panic_like] sample_panic_facts
  show ?thesis
    using log_add_refines [OF f(13,2,3) p, of LOG_WARN "''kernel/trap.c''" 9 "[]"] l f(17) o by simp
qed

text \<open>
  C2. log_flush prints the log to the console, most recent entry first, between its two
  marker lines, or the remark that it is empty; it leaves the ring as it was, and the lock
  and the guard against nested flushes clear.
\<close>

theorem log_flush_prints:
  assumes "log_ready s"
  shows "\<exists>t. log_flush (s, e) = Ok () (t, e) \<and> uart_out t = uart_out s @ flush_text (log_view s) \<and>
     log_view t = log_view s \<and> log_ready t"
proof -
  have s: "\<not> flushing s" "pr_ready s" "lock_free s LkLogbuf" "log_wf s" "lock_free s LkTicks"
    using assms by (auto simp: log_ready_def)
  let ?t = "settled ((tty_put (flush_text (log_view s)) s)\<lparr>flushing := False\<rparr>)"
  have "log_ready ?t" using s by (simp add: log_ready_def log_wf_def)
  then show ?thesis using log_flush_run [OF s(1-3), of e] by simp
qed

theorem log_flush_prints_witness:
  "\<exists>t. log_flush (sample_panic, []) = Ok () (t, []) \<and>
     uart_out t = newline @ ''--- LOG FLUSH (most recent first) ---'' @ newline @
       ''(log buffer empty)'' @ newline @ ''--- END LOG FLUSH ---'' @ newline \<and>
     log_view t = [] \<and> log_ready t"
  using log_flush_prints [OF sample_panic_facts(1), of "[]"] sample_panic_facts(7)
  by (simp add: flush_text_def ln_def sample_panic_def)



text \<open>
  C4. log_test, the self test behind the logtest system call, returns 0: the ring ends with
  its last 64 entries (five format tests and i = 68 down to 10 of the wrap test), each with
  the text the format and its arguments stand for, they are printed, and a crash context is
  left behind.
\<close>

theorem log_test_passes:
  assumes "log_ready s" and "frames_mapped 10 s (gpr s S0)"
  shows "\<exists>t. log_test (s, e) = Ok 0 (t, e) \<and> log_view t = log_test_view (ticks s) \<and>
     cc_magic (saved_crash_ctx t) = CRASH_MAGIC \<and>
     uart_out t = uart_out s @ flush_text (log_test_view (ticks s)) @ ''log_test: all tests completed.'' @ newline"
  by (rule log_test_run [OF assms])

theorem log_test_passes_witness:
  "\<exists>t. log_test (sample_panic, []) = Ok 0 (t, []) \<and> log_view t = log_test_view (ticks sample_panic) \<and>
     cc_magic (saved_crash_ctx t) = CRASH_MAGIC \<and>
     uart_out t = uart_out sample_panic @ flush_text (log_test_view (ticks sample_panic)) @
       ''log_test: all tests completed.'' @ newline"
  by (rule log_test_passes [OF sample_panic_facts(1,6)])

end
