(* ===== verification/Panic.thy ===== *)
theory Panic
  imports PanicLog
begin

text \<open>
  panic of kernel/printf.c: the capture, the dump of the log and of the crash context, and
  the endless loop. Kernel code that calls panic ends with \<open>Panic\<close>; \<open>run_panic\<close> continues
  such a run with the handler, as often as the handler itself panics.
\<close>

section \<open>The handler\<close>

definition panic :: "string \<Rightarrow> ('a panic_state_scheme, 'b) kfun" where
  "panic msg = kthen (kseq
     [ kmod (\<lambda>s. s\<lparr>panicking := True\<rparr>),
       log_save_crash_context msg,
       log_flush,
       printf ''panic: '' [],
       printf (ln ''%s'') [va_text msg],
       log_dump_crash_context,
       kmod (\<lambda>s. s\<lparr>panicked := True\<rparr>) ])
     khalt"

primrec run_panic :: "nat \<Rightarrow> ('a panic_state_scheme, 'b) kfun \<Rightarrow> ('a panic_state_scheme, 'b) kfun" where
  "run_panic 0 m w = (case m w of Panic msg w' \<Rightarrow> NoFuel w' | r \<Rightarrow> r)"
| "run_panic (Suc n) m w = (case m w of Panic msg w' \<Rightarrow> run_panic n (panic msg) w' | r \<Rightarrow> r)"

section \<open>A panic that gets through\<close>

lemma panicking_simps [simp]:
  "csr (s\<lparr>panicking := b\<rparr>) = csr s" "gpr (s\<lparr>panicking := b\<rparr>) = gpr s"
  "locks (s\<lparr>panicking := b\<rparr>) = locks s" "hart (s\<lparr>panicking := b\<rparr>) = hart s"
  "hart_ok (s\<lparr>panicking := b\<rparr>) = hart_ok s" "lock_free (s\<lparr>panicking := b\<rparr>) lk = lock_free s lk"
  "holds (s\<lparr>panicking := b\<rparr>) lk = holds s lk" "log_view (s\<lparr>panicking := b\<rparr>) = log_view s"
  "curproc (s\<lparr>panicking := b\<rparr>) = curproc s" "crash_context_of msg (s\<lparr>panicking := b\<rparr>) = crash_context_of msg s"
  "tty_ok (s\<lparr>panicking := b\<rparr>) = tty_ok s"
  by (simp_all add: hart_def hart_ok_def intr_enabled_def lock_free_def holds_def log_view_def
      log_slot_def curproc_def crash_context_of_def Let_def tty_ok_def split: option.splits)

lemma pr_ready_panicking: "tty_ok s \<Longrightarrow> pr_ready (s\<lparr>panicking := True\<rparr>)"
  by (simp add: pr_ready_def tty_ok_def hart_ok_def intr_enabled_def hart_def)

lemma panic_formats:
  "printable ''panic: '' []" "fmt_text ''panic: '' [] = ''panic: ''"
  "printable (ln ''%s'') [va_text m]" "fmt_text (ln ''%s'') [va_text m] = m @ newline"
  by (simp_all add: printable_def fmt_text_def render_eval)

text \<open>What panic(msg) prints in a given state.\<close>

definition panic_text :: "string \<Rightarrow> 'a panic_state_scheme \<Rightarrow> string" where
  "panic_text msg s = flush_text (log_view s) @ ''panic: '' @ msg @ newline @ dump_text (crash_context_of msg s)"

lemma panic_halts:
  assumes "tty_ok s" and "\<not> flushing s" and "lock_free s LkTicks" and "lock_free s LkLogbuf"
    and "frames_mapped 10 s (gpr s S0)"
  shows "\<exists>t. panic msg (s, e) = Halted (t, e) \<and> panicked t \<and> panicking t \<and>
     uart_out t = uart_out s @ panic_text msg s \<and> saved_crash_ctx t = crash_context_of msg s"
proof -
  let ?p = "s\<lparr>panicking := True\<rparr>"
  let ?a = "settled (set_ctx (\<lambda>_. crash_context_of msg s) ?p)"
  have ok: "hart_ok s" using assms(1) by (simp add: tty_ok_def)
  have pr: "pr_ready ?p" using assms(1) by (rule pr_ready_panicking)
  have "frames_mapped 10 ?p (gpr ?p S0)" using assms(5) frames_mapped_cong [of ?p s] by simp
  then have save: "log_save_crash_context msg (?p, e) = Ok () (?a, e)"
    using log_save_run [of ?p msg e] ok assms(3) by simp
  let ?b = "settled ((tty_put (flush_text (log_view s)) ?a)\<lparr>flushing := False\<rparr>)"
  have flush: "log_flush (?a, e) = Ok () (?b, e)"
    using log_flush_run [of ?a e] pr assms(2,4) by simp
  let ?c = "printed (''panic: '' @ msg @ newline) ?b"
  have p1: "printf ''panic: '' [] (?b, e) = Ok () (printed ''panic: '' ?b, e)"
    using printf_run [of "''panic: ''" "[]" ?b e] pr by (simp add: panic_formats)
  have p2: "printf (ln ''%s'') [va_text msg] (printed ''panic: '' ?b, e) = Ok () (?c, e)"
    using printf_run [of "ln ''%s''" "[va_text msg]" "printed ''panic: '' ?b" e] pr
    by (simp add: panic_formats)
  have ctx: "saved_crash_ctx ?c = crash_context_of msg s"
    by (simp add: printed_def unpanicked_settled_def)
  have dump: "log_dump_crash_context (?c, e) =
      Ok () (printed (dump_text (crash_context_of msg s)) ?c, e)"
    using log_dump_run [of ?c e] pr ctx by (simp add: crash_context_of_def Let_def)
  let ?t = "(printed (dump_text (crash_context_of msg s)) ?c)\<lparr>panicked := True\<rparr>"
  have "panic msg (s, e) = Halted (?t, e)"
    using save flush p1 p2 dump by (simp add: panic_def kthen_def kbind_def)
  moreover have "panicked ?t \<and> panicking ?t \<and> uart_out ?t = uart_out s @ panic_text msg s \<and>
      saved_crash_ctx ?t = crash_context_of msg s"
    using ctx by (simp add: panic_text_def printed_def unpanicked_settled_def)
  ultimately show ?thesis by blast
qed

section \<open>A panic that does not\<close>

text \<open>
  A hart that panics while it holds the log lock (or the tick lock) cannot finish the
  capture: acquire panics in turn, and so on for ever, with nothing on the console.
\<close>

lemma panic_push_off [simp]:
  "flushing (push_off_st s) = flushing s" "uart_out (push_off_st s) = uart_out s"
  by (simp_all add: push_off_st_def set_cpu_def set_sie_def)

definition log_locked :: "'a panic_state_scheme \<Rightarrow> bool" where
  "log_locked s \<longleftrightarrow> hart_ok s \<and> (holds s LkTicks \<or> holds s LkLogbuf \<and> lock_free s LkTicks \<and>
     \<not> flushing s \<and> frames_mapped 10 s (gpr s S0))"

lemma log_locked_push_off:
  assumes "log_locked s"
  shows "log_locked (push_off_st (set_ctx f s))" "log_locked (push_off_st (settled (set_ctx f s)))"
    "log_locked (s\<lparr>panicking := b\<rparr>)"
proof -
  have "frames_mapped 10 (push_off_st (set_ctx f s)) fp = frames_mapped 10 s fp"
    "frames_mapped 10 (push_off_st (settled (set_ctx f s))) fp = frames_mapped 10 s fp"
    "frames_mapped 10 (s\<lparr>panicking := b\<rparr>) fp = frames_mapped 10 s fp" for fp
    by (rule frames_mapped_cong; simp)+
  then show "log_locked (push_off_st (set_ctx f s))" "log_locked (push_off_st (settled (set_ctx f s)))"
    "log_locked (s\<lparr>panicking := b\<rparr>)"
    using assms by (auto simp: log_locked_def)
qed

lemma log_flush_deadlock:
  "holds s LkLogbuf \<Longrightarrow> \<not> flushing s \<Longrightarrow> log_flush (s, e) = Panic ''acquire'' (push_off_st s, e)"
  using flush_section.section_deadlock [of s e]
  by (simp add: log_flush_section flush_section.section_body_def)

lemma panic_again:
  assumes "log_locked s"
  shows "\<exists>t. panic msg (s, e) = Panic ''acquire'' (t, e) \<and> log_locked t \<and> uart_out t = uart_out s"
proof -
  let ?p = "s\<lparr>panicking := True\<rparr>"
  have p: "log_locked ?p" by (rule log_locked_push_off(3) [OF assms])
  show ?thesis
  proof (cases "holds s LkTicks")
    case True
    then obtain f where "log_save_crash_context msg (?p, e) = Panic ''acquire'' (push_off_st (set_ctx f ?p), e)"
      using log_save_deadlock [of ?p msg e] by auto
    then show ?thesis
      using log_locked_push_off(1) [OF p, of f] by (simp add: panic_def kthen_def kbind_def)
  next
    case False
    let ?a = "settled (set_ctx (\<lambda>_. crash_context_of msg ?p) ?p)"
    have "log_save_crash_context msg (?p, e) = Ok () (?a, e)"
      using p False by (intro log_save_run) (simp_all add: log_locked_def)
    moreover have "log_flush (?a, e) = Panic ''acquire'' (push_off_st ?a, e)"
      using assms False by (intro log_flush_deadlock) (simp_all add: log_locked_def)
    ultimately show ?thesis
      using log_locked_push_off(2) [OF p] by (simp add: panic_def kthen_def kbind_def)
  qed
qed

lemma run_panic_loops:
  fixes s :: "'a panic_state_scheme"
  shows "log_locked s \<Longrightarrow> \<exists>t. run_panic n (panic msg :: ('a panic_state_scheme, 'b) kfun) (s, e) = NoFuel (t, e) \<and>
     uart_out t = uart_out s"
proof (induction n arbitrary: s msg)
  case 0
  then obtain t where "(panic msg :: ('a panic_state_scheme, 'b) kfun) (s, e) = Panic ''acquire'' (t, e)"
      and "uart_out t = uart_out s"
    using panic_again [of s msg e] by blast
  then show ?case by simp
next
  case (Suc n)
  obtain t where t: "(panic msg :: ('a panic_state_scheme, 'b) kfun) (s, e) = Panic ''acquire'' (t, e)"
      "log_locked t" "uart_out t = uart_out s"
    using panic_again [OF Suc.prems] by blast
  then show ?case using Suc.IH [of t "''acquire''"] by simp
qed

section \<open>Properties\<close>

text \<open>
  C5. A panic with the tick, log and print machinery available prints the whole log, the
  message and the dump of the crash context of that very state, in this order and nothing
  else, and then halts with panicked set, so that no hart prints any more.
\<close>

theorem panic_reports:
  fixes s :: "'a panic_state_scheme"
  assumes "tty_ok s" and "\<not> flushing s" and "lock_free s LkTicks" and "lock_free s LkLogbuf"
    and "frames_mapped 10 s (gpr s S0)"
  shows "\<exists>t. run_panic n (panic msg :: ('a panic_state_scheme, unit) kfun) (s, e) = Halted (t, e) \<and> panicked t \<and>
     uart_out t = uart_out s @ flush_text (log_view s) @ ''panic: '' @ msg @ newline @
       dump_text (crash_context_of msg s) \<and> saved_crash_ctx t = crash_context_of msg s"
proof -
  obtain t where t: "(panic msg :: ('a panic_state_scheme, unit) kfun) (s, e) = Halted (t, e)" "panicked t" "uart_out t = uart_out s @ panic_text msg s"
      "saved_crash_ctx t = crash_context_of msg s"
    using panic_halts [OF assms, of msg e] by blast
  then have "run_panic n (panic msg :: ('a panic_state_scheme, unit) kfun) (s, e) = Halted (t, e)" by (cases n) simp_all
  then show ?thesis using t by (simp add: panic_text_def)
qed

theorem panic_reports_witness:
  "\<exists>t. run_panic 0 (panic ''boom'' :: (panic_state, unit) kfun) (sample_panic, []) = Halted (t, []) \<and> panicked t \<and>
     uart_out t = flush_text [] @ ''panic: boom'' @ newline @ dump_text (crash_context_of ''boom'' sample_panic) \<and>
     saved_crash_ctx t = crash_context_of ''boom'' sample_panic"
proof -
  note f = like_sample_facts [OF sample_panic_like] sample_panic_facts
  have "uart_out sample_panic = []" by (simp add: sample_panic_def)
  then show ?thesis using panic_reports [OF f(12,14,3,3,16), of 0 "''boom''" "[]"] f(17) by simp
qed



end
