(* ===== verification/Kalloc.thy ===== *)
theory Kalloc
  imports Panic
begin

text \<open>
  The page allocator, kernel/kalloc.c. The free list is threaded through the free pages
  themselves: the first eight bytes of a page hold the address of the next one.
\<close>

section \<open>State\<close>

text \<open>Addresses the linker script fixes; nothing changes them.\<close>

record kernel_image =
  kend :: u64
  etext :: u64
  trampoline :: u64
  uservec :: u64
  userret :: u64
  kernelvec :: u64
  forkret_addr :: u64
  usertrap_addr :: u64

record kmem_state = panic_state +
  image :: kernel_image
  freelist :: u64
  kernel_pagetable :: u64

definition PGROUNDUP :: "u64 \<Rightarrow> u64" where
  "PGROUNDUP sz = (sz + PGSIZE - 1) AND NOT (PGSIZE - 1)"

definition PGROUNDDOWN :: "u64 \<Rightarrow> u64" where
  "PGROUNDDOWN a = a AND NOT (PGSIZE - 1)"

definition kmem_set :: "(mem \<Rightarrow> mem) \<Rightarrow> 'a machine_scheme \<Rightarrow> 'a machine_scheme" where
  "kmem_set f s = s\<lparr>pmem := f (pmem s)\<rparr>"

definition kmemset :: "u64 \<Rightarrow> u8 \<Rightarrow> u64 \<Rightarrow> ('a machine_scheme, unit) kfun" where
  "kmemset d c n = kmod (kmem_set (\<lambda>m. memset m d c (unat n)))"

definition kmemmove :: "u64 \<Rightarrow> u64 \<Rightarrow> u64 \<Rightarrow> ('a machine_scheme, unit) kfun" where
  "kmemmove d sr n = kmod (kmem_set (\<lambda>m. memmove m d sr (unat n)))"

definition kload :: "u64 \<Rightarrow> ('a machine_scheme, u64) kfun" where
  "kload a = kget (\<lambda>s. ld64 (pmem s) a)"

definition kstore :: "u64 \<Rightarrow> u64 \<Rightarrow> ('a machine_scheme, unit) kfun" where
  "kstore a v = kmod (kmem_set (\<lambda>m. st64 m a v))"

section \<open>Operations\<close>

definition kfree :: "u64 \<Rightarrow> ('a kmem_state_scheme, unit) kfun" where
  "kfree pa = kif (\<lambda>s. pa mod PGSIZE \<noteq> 0 \<or> pa < kend (image s) \<or> PHYSTOP \<le> pa)
     (kpanic ''kfree'')
     (kseq
       [ kmemset pa 1 PGSIZE,
         acquire LkKmem,
         kbind (kget freelist) (\<lambda>r. kstore pa r),
         kmod (\<lambda>s. s\<lparr>freelist := pa\<rparr>),
         release LkKmem ])"

definition kalloc :: "('a kmem_state_scheme, u64) kfun" where
  "kalloc =
     kthen (acquire LkKmem)
     (kbind (kget freelist) (\<lambda>r.
        kthen (if r \<noteq> 0 then kbind (kload r) (\<lambda>nx. kmod (\<lambda>s. s\<lparr>freelist := nx\<rparr>)) else kret ())
        (kthen (release LkKmem)
        (kthen (if r \<noteq> 0 then kmemset r 5 PGSIZE else kret ())
          (kret r)))))"

text \<open>\<open>n\<close> bounds the number of pages; the range has fewer than 2^52.\<close>

primrec freerange_loop :: "nat \<Rightarrow> u64 \<Rightarrow> u64 \<Rightarrow> ('a kmem_state_scheme, unit) kfun" where
  "freerange_loop 0 p pa_end = (if p + PGSIZE \<le> pa_end then knofuel else kret ())"
| "freerange_loop (Suc n) p pa_end =
     (if p + PGSIZE \<le> pa_end then kthen (kfree p) (freerange_loop n (p + PGSIZE) pa_end) else kret ())"

definition freerange :: "u64 \<Rightarrow> u64 \<Rightarrow> ('a kmem_state_scheme, unit) kfun" where
  "freerange pa_start pa_end =
     freerange_loop (unat (pa_end div PGSIZE)) (PGROUNDUP pa_start) pa_end"

definition kinit :: "('a kmem_state_scheme, unit) kfun" where
  "kinit = kthen (initlock LkKmem ''kmem'')
     (kbind (kget (\<lambda>s. kend (image s))) (\<lambda>e. freerange e PHYSTOP))"

end
