(* ===== verification/Vm.thy ===== *)
theory Vm
  imports Kalloc
begin

text \<open>
  Page tables and user memory: kernel/vm.c, the page-table macros of kernel/riscv.h, and
  proc_mapstacks of kernel/proc.c. Page-table pages lie in physical memory; a page table is
  the address of its top page. Data that the C code passes as a pointer to a kernel object
  (a buffer, a struct field) is passed as its bytes.
\<close>

section \<open>Page table entries (riscv.h)\<close>

definition PTE_V :: u64 where "PTE_V = push_bit 0 1"
definition PTE_R :: u64 where "PTE_R = push_bit 1 1"
definition PTE_W :: u64 where "PTE_W = push_bit 2 1"
definition PTE_X :: u64 where "PTE_X = push_bit 3 1"
definition PTE_U :: u64 where "PTE_U = push_bit 4 1"

definition PA2PTE :: "u64 \<Rightarrow> u64" where "PA2PTE pa = push_bit 10 (drop_bit 12 pa)"
definition PTE2PA :: "u64 \<Rightarrow> u64" where "PTE2PA pte = push_bit 12 (drop_bit 10 pte)"
definition PTE_FLAGS :: "u64 \<Rightarrow> u64" where "PTE_FLAGS pte = pte AND 0x3FF"
definition PX :: "nat \<Rightarrow> u64 \<Rightarrow> u64" where "PX level va = drop_bit (12 + 9 * level) va AND 0x1FF"

definition MAKE_SATP :: "u64 \<Rightarrow> u64" where
  "MAKE_SATP pagetable = push_bit 60 8 OR drop_bit 12 pagetable"

section \<open>walk and its users\<close>

text \<open>Levels \<open>l\<close> down to 1 of the walk; the result is the address of a PTE, or 0.\<close>

primrec walk_levels :: "nat \<Rightarrow> u64 \<Rightarrow> u64 \<Rightarrow> bool \<Rightarrow> ('a kmem_state_scheme, u64) kfun" where
  "walk_levels 0 pagetable va alloc = kret (pagetable + 8 * PX 0 va)"
| "walk_levels (Suc l) pagetable va alloc =
     (let pte = pagetable + 8 * PX (Suc l) va in
      kbind (kload pte) (\<lambda>e.
        if e AND PTE_V \<noteq> 0 then walk_levels l (PTE2PA e) va alloc
        else if \<not> alloc then kret 0
        else kbind kalloc (\<lambda>pg.
          if pg = 0 then kret 0
          else kthen (kmemset pg 0 PGSIZE)
            (kthen (kstore pte (PA2PTE pg OR PTE_V)) (walk_levels l pg va alloc)))))"

definition walk :: "u64 \<Rightarrow> u64 \<Rightarrow> bool \<Rightarrow> ('a kmem_state_scheme, u64) kfun" where
  "walk pagetable va alloc =
     (if MAXVA \<le> va then kpanic ''walk'' else walk_levels 2 pagetable va alloc)"

definition walkaddr :: "u64 \<Rightarrow> u64 \<Rightarrow> ('a kmem_state_scheme, u64) kfun" where
  "walkaddr pagetable va =
     (if MAXVA \<le> va then kret 0
      else kbind (walk pagetable va False) (\<lambda>pte.
        if pte = 0 then kret 0
        else kbind (kload pte) (\<lambda>e.
          if e AND PTE_V = 0 then kret 0
          else if e AND PTE_U = 0 then kret 0
          else kret (PTE2PA e))))"

text \<open>The loop of mappages; \<open>size / PGSIZE\<close> rounds reach \<open>last\<close>.\<close>

primrec map_loop :: "nat \<Rightarrow> u64 \<Rightarrow> u64 \<Rightarrow> u64 \<Rightarrow> u64 \<Rightarrow> u64 \<Rightarrow> ('a kmem_state_scheme, int) kfun" where
  "map_loop 0 pagetable a lst pa perm = knofuel"
| "map_loop (Suc n) pagetable a lst pa perm =
     kbind (walk pagetable a True) (\<lambda>pte.
       if pte = 0 then kret (-1)
       else kbind (kload pte) (\<lambda>e.
         if e AND PTE_V \<noteq> 0 then kpanic ''mappages: remap''
         else kthen (kstore pte (PA2PTE pa OR perm OR PTE_V))
           (if a = lst then kret 0
            else map_loop n pagetable (a + PGSIZE) lst (pa + PGSIZE) perm)))"

definition mappages :: "u64 \<Rightarrow> u64 \<Rightarrow> u64 \<Rightarrow> u64 \<Rightarrow> u64 \<Rightarrow> ('a kmem_state_scheme, int) kfun" where
  "mappages pagetable va sz pa perm =
     (if va mod PGSIZE \<noteq> 0 then kpanic ''mappages: va not aligned''
      else if sz mod PGSIZE \<noteq> 0 then kpanic ''mappages: size not aligned''
      else if sz = 0 then kpanic ''mappages: size''
      else map_loop (unat (sz div PGSIZE)) pagetable va (va + sz - PGSIZE) pa perm)"

definition kvmmap :: "u64 \<Rightarrow> u64 \<Rightarrow> u64 \<Rightarrow> u64 \<Rightarrow> u64 \<Rightarrow> ('a kmem_state_scheme, unit) kfun" where
  "kvmmap kpgtbl va pa sz perm =
     kbind (mappages kpgtbl va sz pa perm) (\<lambda>r. if r \<noteq> 0 then kpanic ''kvmmap'' else kret ())"

definition proc_mapstacks :: "u64 \<Rightarrow> ('a kmem_state_scheme, unit) kfun" where
  "proc_mapstacks kpgtbl = kfor [0..<NPROC] (\<lambda>i. kbind kalloc (\<lambda>pa.
     if pa = 0 then kpanic ''kalloc''
     else kvmmap kpgtbl (KSTACK i) pa PGSIZE (PTE_R OR PTE_W)))"

definition kvmmake :: "('a kmem_state_scheme, u64) kfun" where
  "kvmmake = kbind kalloc (\<lambda>kpgtbl. kbind (kget image) (\<lambda>im.
     kthen (kseq
       [ kmemset kpgtbl 0 PGSIZE,
         kvmmap kpgtbl UART0 UART0 PGSIZE (PTE_R OR PTE_W),
         kvmmap kpgtbl VIRTIO0 VIRTIO0 PGSIZE (PTE_R OR PTE_W),
         kvmmap kpgtbl PLIC PLIC 0x4000000 (PTE_R OR PTE_W),
         kvmmap kpgtbl KERNBASE KERNBASE (etext im - KERNBASE) (PTE_R OR PTE_X),
         kvmmap kpgtbl (etext im) (etext im) (PHYSTOP - etext im) (PTE_R OR PTE_W),
         kvmmap kpgtbl TRAMPOLINE (trampoline im) PGSIZE (PTE_R OR PTE_X),
         proc_mapstacks kpgtbl ])
       (kret kpgtbl)))"

definition kvminit :: "('a kmem_state_scheme, unit) kfun" where
  "kvminit = kbind kvmmake (\<lambda>p. kmod (\<lambda>s. s\<lparr>kernel_pagetable := p\<rparr>))"

definition kvminithart :: "('a kmem_state_scheme, unit) kfun" where
  "kvminithart = kseq
     [ sfence_vma,
       kbind (kget kernel_pagetable) (\<lambda>p. w_satp (MAKE_SATP p)),
       sfence_vma ]"

section \<open>User page tables\<close>

definition uvmcreate :: "('a kmem_state_scheme, u64) kfun" where
  "uvmcreate = kbind kalloc (\<lambda>p.
     if p = 0 then kret 0 else kthen (kmemset p 0 PGSIZE) (kret p))"

definition unmap_page :: "u64 \<Rightarrow> u64 \<Rightarrow> bool \<Rightarrow> ('a kmem_state_scheme, unit) kfun" where
  "unmap_page pagetable a do_free =
     kbind (walk pagetable a False) (\<lambda>pte.
       if pte = 0 then kret ()
       else kbind (kload pte) (\<lambda>e.
         if e AND PTE_V = 0 then kret ()
         else kthen (if do_free then kfree (PTE2PA e) else kret ()) (kstore pte 0)))"

primrec unmap_loop :: "nat \<Rightarrow> u64 \<Rightarrow> u64 \<Rightarrow> u64 \<Rightarrow> bool \<Rightarrow> ('a kmem_state_scheme, unit) kfun" where
  "unmap_loop 0 pagetable a lim do_free = (if a < lim then knofuel else kret ())"
| "unmap_loop (Suc n) pagetable a lim do_free =
     (if a < lim then kthen (unmap_page pagetable a do_free) (unmap_loop n pagetable (a + PGSIZE) lim do_free)
      else kret ())"

definition uvmunmap :: "u64 \<Rightarrow> u64 \<Rightarrow> u64 \<Rightarrow> bool \<Rightarrow> ('a kmem_state_scheme, unit) kfun" where
  "uvmunmap pagetable va npages do_free =
     (if va mod PGSIZE \<noteq> 0 then kpanic ''uvmunmap: not aligned''
      else unmap_loop (unat npages) pagetable va (va + npages * PGSIZE) do_free)"

text \<open>\<open>int npages\<close> keeps the low 32 bits, sign extended on the call.\<close>

definition uvmdealloc :: "u64 \<Rightarrow> u64 \<Rightarrow> u64 \<Rightarrow> ('a kmem_state_scheme, u64) kfun" where
  "uvmdealloc pagetable oldsz newsz =
     (if oldsz \<le> newsz then kret oldsz
      else kthen
        (if PGROUNDUP newsz < PGROUNDUP oldsz then
           (let npages = (ucast ((PGROUNDUP oldsz - PGROUNDUP newsz) div PGSIZE) :: u32)
            in uvmunmap pagetable (PGROUNDUP newsz) (scast npages) True)
         else kret ())
        (kret newsz))"

primrec uvmalloc_loop :: "nat \<Rightarrow> u64 \<Rightarrow> u64 \<Rightarrow> u64 \<Rightarrow> u64 \<Rightarrow> u64 \<Rightarrow> ('a kmem_state_scheme, u64) kfun" where
  "uvmalloc_loop 0 pagetable a oldsz newsz xperm = (if a < newsz then knofuel else kret newsz)"
| "uvmalloc_loop (Suc n) pagetable a oldsz newsz xperm =
     (if a < newsz then
        kbind kalloc (\<lambda>mem.
          if mem = 0 then kbind (uvmdealloc pagetable a oldsz) (\<lambda>_. kret 0)
          else kthen (kmemset mem 0 PGSIZE)
            (kbind (mappages pagetable a PGSIZE mem (PTE_R OR PTE_U OR xperm)) (\<lambda>r.
               if r \<noteq> 0 then kthen (kfree mem) (kbind (uvmdealloc pagetable a oldsz) (\<lambda>_. kret 0))
               else uvmalloc_loop n pagetable (a + PGSIZE) oldsz newsz xperm)))
      else kret newsz)"

definition uvmalloc :: "u64 \<Rightarrow> u64 \<Rightarrow> u64 \<Rightarrow> u64 \<Rightarrow> ('a kmem_state_scheme, u64) kfun" where
  "uvmalloc pagetable oldsz newsz xperm =
     (if newsz < oldsz then kret oldsz
      else uvmalloc_loop (Suc (unat (newsz div PGSIZE))) pagetable (PGROUNDUP oldsz) (PGROUNDUP oldsz) newsz xperm)"

text \<open>\<open>depth\<close> bounds the recursion; the trees the kernel builds have three levels.\<close>

primrec freewalk :: "nat \<Rightarrow> u64 \<Rightarrow> ('a kmem_state_scheme, unit) kfun" where
  "freewalk 0 pagetable = knofuel"
| "freewalk (Suc depth) pagetable =
     kthen (kfor [0..<512] (\<lambda>i.
       let pte = pagetable + 8 * of_nat i in
       kbind (kload pte) (\<lambda>e.
         if e AND PTE_V \<noteq> 0 \<and> e AND (PTE_R OR PTE_W OR PTE_X) = 0 then
           kthen (freewalk depth (PTE2PA e)) (kstore pte 0)
         else if e AND PTE_V \<noteq> 0 then kpanic ''freewalk: leaf''
         else kret ())))
     (kfree pagetable)"

definition uvmfree :: "u64 \<Rightarrow> u64 \<Rightarrow> ('a kmem_state_scheme, unit) kfun" where
  "uvmfree pagetable sz =
     kthen (if 0 < sz then uvmunmap pagetable 0 (PGROUNDUP sz div PGSIZE) True else kret ())
       (freewalk 3 pagetable)"

primrec uvmcopy_loop :: "nat \<Rightarrow> u64 \<Rightarrow> u64 \<Rightarrow> u64 \<Rightarrow> u64 \<Rightarrow> ('a kmem_state_scheme, int) kfun" where
  "uvmcopy_loop 0 old new i sz = (if i < sz then knofuel else kret 0)"
| "uvmcopy_loop (Suc n) old new i sz =
     (if i < sz then
        kbind (walk old i False) (\<lambda>pte.
          if pte = 0 then uvmcopy_loop n old new (i + PGSIZE) sz
          else kbind (kload pte) (\<lambda>e.
            if e AND PTE_V = 0 then uvmcopy_loop n old new (i + PGSIZE) sz
            else kbind kalloc (\<lambda>mem.
              if mem = 0 then kthen (uvmunmap new 0 (i div PGSIZE) True) (kret (-1))
              else kthen (kmemmove mem (PTE2PA e) PGSIZE)
                (kbind (mappages new i PGSIZE mem (PTE_FLAGS e)) (\<lambda>r.
                   if r \<noteq> 0 then
                     kthen (kfree mem) (kthen (uvmunmap new 0 (i div PGSIZE) True) (kret (-1)))
                   else uvmcopy_loop n old new (i + PGSIZE) sz)))))
      else kret 0)"

definition uvmcopy :: "u64 \<Rightarrow> u64 \<Rightarrow> u64 \<Rightarrow> ('a kmem_state_scheme, int) kfun" where
  "uvmcopy old new sz = uvmcopy_loop (Suc (unat (sz div PGSIZE))) old new 0 sz"

definition uvmclear :: "u64 \<Rightarrow> u64 \<Rightarrow> ('a kmem_state_scheme, unit) kfun" where
  "uvmclear pagetable va = kbind (walk pagetable va False) (\<lambda>pte.
     if pte = 0 then kpanic ''uvmclear''
     else kbind (kload pte) (\<lambda>e. kstore pte (e AND NOT PTE_U)))"

section \<open>Faults and copying\<close>

definition ismapped :: "u64 \<Rightarrow> u64 \<Rightarrow> ('a kmem_state_scheme, bool) kfun" where
  "ismapped pagetable va = kbind (walk pagetable va False) (\<lambda>pte.
     if pte = 0 then kret False
     else kbind (kload pte) (\<lambda>e. kret (e AND PTE_V \<noteq> 0)))"

definition vmfault :: "u64 \<Rightarrow> u64 \<Rightarrow> bool \<Rightarrow> ('a kmem_state_scheme, u64) kfun" where
  "vmfault pagetable va rd = with_myproc (\<lambda>p. kbind (kget (\<lambda>s. procs s p)) (\<lambda>pr.
     if psz pr \<le> va then kret 0
     else (let va = PGROUNDDOWN va in
       kbind (ismapped pagetable va) (\<lambda>m.
         if m then kret 0
         else kbind kalloc (\<lambda>mem.
           if mem = 0 then kret 0
           else kthen (kmemset mem 0 PGSIZE)
             (kbind (mappages (ppagetable pr) va PGSIZE mem (PTE_W OR PTE_U OR PTE_R)) (\<lambda>r.
                if r \<noteq> 0 then kthen (kfree mem) (kret 0) else kret mem)))))))"

text \<open>Bytes left on the page of \<open>va\<close>, at most \<open>len\<close>.\<close>

definition page_part :: "u64 \<Rightarrow> nat \<Rightarrow> nat" where
  "page_part va len = min (unat (PGSIZE - (va - PGROUNDDOWN va))) len"

lemma page_offset: "va - PGROUNDDOWN va = va AND 0xFFF"
proof -
  have "va = (va AND NOT 0xFFF) OR (va AND 0xFFF)"
    by (rule bit_word_eqI) (auto simp: bit_simps)
  also have "\<dots> = (va AND NOT 0xFFF) + (va AND 0xFFF)"
    by (rule disjunctive_add [symmetric]) (simp add: bit_simps)
  finally have "va - (va AND NOT 0xFFF) = va AND 0xFFF" by (metis add_diff_cancel_left')
  then show ?thesis by (simp add: PGROUNDDOWN_def PGSIZE_def)
qed

lemma page_part_pos: "0 < len \<Longrightarrow> 0 < page_part va len"
proof -
  assume len: "0 < len"
  have "va AND 0xFFF \<le> 0xFFF" by (rule word_and_le1)
  then have "PGSIZE - (va AND 0xFFF) \<noteq> 0"
    by (auto simp: PGSIZE_def word_le_nat_alt)
  then show ?thesis using len by (simp add: page_part_def page_offset unat_gt_0)
qed

function copyout :: "u64 \<Rightarrow> u64 \<Rightarrow> u8 list \<Rightarrow> ('a kmem_state_scheme, int) kfun" where
  "copyout pagetable dstva src =
     (if src = [] then kret 0
      else
        (let va0 = PGROUNDDOWN dstva; n = page_part dstva (length src) in
         if MAXVA \<le> va0 then kret (-1)
         else kbind (walkaddr pagetable va0) (\<lambda>pa.
           kbind (if pa = 0 then vmfault pagetable va0 False else kret pa) (\<lambda>pa0.
             if pa0 = 0 then kret (-1)
             else kbind (walk pagetable va0 False) (\<lambda>pte.
               kbind (kload pte) (\<lambda>e.
                 if e AND PTE_W = 0 then kret (-1)
                 else kthen (kmod (kmem_set (\<lambda>m. mem_write m (pa0 + (dstva - va0)) (take n src))))
                   (copyout pagetable (va0 + PGSIZE) (drop n src))))))))"
  by pat_completeness auto
termination
  by (relation "measure (\<lambda>(pt, va, src). length src)") (auto simp: page_part_pos)

declare copyout.simps [simp del]

text \<open>The result is the return code and the bytes stored at \<open>dst\<close>, all of them or a prefix.\<close>

function copyin :: "u64 \<Rightarrow> u64 \<Rightarrow> nat \<Rightarrow> ('a kmem_state_scheme, int \<times> u8 list) kfun" where
  "copyin pagetable srcva len =
     (if len = 0 then kret (0, [])
      else
        (let va0 = PGROUNDDOWN srcva; n = page_part srcva len in
         kbind (walkaddr pagetable va0) (\<lambda>pa.
           kbind (if pa = 0 then vmfault pagetable va0 False else kret pa) (\<lambda>pa0.
             if pa0 = 0 then kret (-1, [])
             else kbind (kget (\<lambda>s. mem_read (pmem s) (pa0 + (srcva - va0)) n)) (\<lambda>bs.
               kbind (copyin pagetable (va0 + PGSIZE) (len - n)) (\<lambda>(rc, rest).
                 kret (rc, bs @ rest)))))))"
  by pat_completeness auto
termination
  by (relation "measure (\<lambda>(pt, va, len). len)") (auto simp: page_part_pos)

declare copyin.simps [simp del]

text \<open>Characters of one page up to the NUL, which ends the copy.\<close>

fun copy_str :: "u8 list \<Rightarrow> string \<times> bool" where
  "copy_str [] = ([], False)"
| "copy_str (b # bs) =
     (if b = 0 then ([NUL], True) else (let (cs, e) = copy_str bs in (char_of_byte b # cs, e)))"

function copyinstr :: "u64 \<Rightarrow> u64 \<Rightarrow> nat \<Rightarrow> ('a kmem_state_scheme, int \<times> string) kfun" where
  "copyinstr pagetable srcva mx =
     (if mx = 0 then kret (-1, [])
      else
        (let va0 = PGROUNDDOWN srcva; n = page_part srcva mx in
         kbind (walkaddr pagetable va0) (\<lambda>pa0.
           if pa0 = 0 then kret (-1, [])
           else kbind (kget (\<lambda>s. copy_str (mem_read (pmem s) (pa0 + (srcva - va0)) n))) (\<lambda>(cs, got).
             if got then kret (0, cs)
             else kbind (copyinstr pagetable (va0 + PGSIZE) (mx - n)) (\<lambda>(rc, rest).
               kret (rc, cs @ rest))))))"
  by pat_completeness auto
termination
  by (relation "measure (\<lambda>(pt, va, mx). mx)") (auto simp: page_part_pos)

declare copyinstr.simps [simp del]

definition either_copyout :: "bool \<Rightarrow> u64 \<Rightarrow> u8 list \<Rightarrow> ('a kmem_state_scheme, int) kfun" where
  "either_copyout user_dst dst src = kbind myproc (\<lambda>p.
     if user_dst then
       (case p of None \<Rightarrow> kundef | Some i \<Rightarrow> kbind (kget (\<lambda>s. ppagetable (procs s i))) (\<lambda>pt. copyout pt dst src))
     else kthen (kmod (kmem_set (\<lambda>m. mem_write m dst src))) (kret 0))"

definition either_copyin :: "bool \<Rightarrow> u64 \<Rightarrow> nat \<Rightarrow> ('a kmem_state_scheme, int \<times> u8 list) kfun" where
  "either_copyin user_src src len = kbind myproc (\<lambda>p.
     if user_src then
       (case p of None \<Rightarrow> kundef | Some i \<Rightarrow> kbind (kget (\<lambda>s. ppagetable (procs s i))) (\<lambda>pt. copyin pt src len))
     else kbind (kget (\<lambda>s. mem_read (pmem s) src len)) (\<lambda>bs. kret (0, bs)))"

end
