(* ===== verification/Virtio.thy ===== *)
theory Virtio
  imports Vm
begin

text \<open>
  The disk driver: kernel/virtio.h and kernel/virtio_disk.c, with struct buf of
  kernel/buf.h. The queue pages are shared with the device; an address handed to the device
  is the object it points into. The device itself is outside the repository: it acts only
  through the actions of the environment, and reading its registers gives what the state
  says it answers.
\<close>

section \<open>Buffers (buf.h)\<close>

definition BSIZE :: nat where "BSIZE = 1024"

text \<open>Buffers are numbered 0 to NBUF - 1; \<open>NBUF\<close> is the list head of the cache.\<close>

record buf =
  bvalid :: bool
  bdisk :: bool
  bdev :: u32
  bblockno :: u32
  brefcnt :: u32
  bprev :: nat
  bnext :: nat
  bdata :: "u8 list"

section \<open>The device interface (virtio.h)\<close>

definition VQ_NUM :: nat where "VQ_NUM = 8"

definition VIRTIO_MMIO_MAGIC_VALUE :: nat where "VIRTIO_MMIO_MAGIC_VALUE = 0x000"
definition VIRTIO_MMIO_VERSION :: nat where "VIRTIO_MMIO_VERSION = 0x004"
definition VIRTIO_MMIO_DEVICE_ID :: nat where "VIRTIO_MMIO_DEVICE_ID = 0x008"
definition VIRTIO_MMIO_VENDOR_ID :: nat where "VIRTIO_MMIO_VENDOR_ID = 0x00c"
definition VIRTIO_MMIO_DEVICE_FEATURES :: nat where "VIRTIO_MMIO_DEVICE_FEATURES = 0x010"
definition VIRTIO_MMIO_DRIVER_FEATURES :: nat where "VIRTIO_MMIO_DRIVER_FEATURES = 0x020"
definition VIRTIO_MMIO_QUEUE_SEL :: nat where "VIRTIO_MMIO_QUEUE_SEL = 0x030"
definition VIRTIO_MMIO_QUEUE_NUM_MAX :: nat where "VIRTIO_MMIO_QUEUE_NUM_MAX = 0x034"
definition VIRTIO_MMIO_QUEUE_NUM :: nat where "VIRTIO_MMIO_QUEUE_NUM = 0x038"
definition VIRTIO_MMIO_QUEUE_READY :: nat where "VIRTIO_MMIO_QUEUE_READY = 0x044"
definition VIRTIO_MMIO_QUEUE_NOTIFY :: nat where "VIRTIO_MMIO_QUEUE_NOTIFY = 0x050"
definition VIRTIO_MMIO_INTERRUPT_STATUS :: nat where "VIRTIO_MMIO_INTERRUPT_STATUS = 0x060"
definition VIRTIO_MMIO_INTERRUPT_ACK :: nat where "VIRTIO_MMIO_INTERRUPT_ACK = 0x064"
definition VIRTIO_MMIO_STATUS :: nat where "VIRTIO_MMIO_STATUS = 0x070"
definition VIRTIO_MMIO_QUEUE_DESC_LOW :: nat where "VIRTIO_MMIO_QUEUE_DESC_LOW = 0x080"
definition VIRTIO_MMIO_QUEUE_DESC_HIGH :: nat where "VIRTIO_MMIO_QUEUE_DESC_HIGH = 0x084"
definition VIRTIO_MMIO_DRIVER_DESC_LOW :: nat where "VIRTIO_MMIO_DRIVER_DESC_LOW = 0x090"
definition VIRTIO_MMIO_DRIVER_DESC_HIGH :: nat where "VIRTIO_MMIO_DRIVER_DESC_HIGH = 0x094"
definition VIRTIO_MMIO_DEVICE_DESC_LOW :: nat where "VIRTIO_MMIO_DEVICE_DESC_LOW = 0x0a0"
definition VIRTIO_MMIO_DEVICE_DESC_HIGH :: nat where "VIRTIO_MMIO_DEVICE_DESC_HIGH = 0x0a4"

definition VIRTIO_CONFIG_S_ACKNOWLEDGE :: u32 where "VIRTIO_CONFIG_S_ACKNOWLEDGE = 1"
definition VIRTIO_CONFIG_S_DRIVER :: u32 where "VIRTIO_CONFIG_S_DRIVER = 2"
definition VIRTIO_CONFIG_S_DRIVER_OK :: u32 where "VIRTIO_CONFIG_S_DRIVER_OK = 4"
definition VIRTIO_CONFIG_S_FEATURES_OK :: u32 where "VIRTIO_CONFIG_S_FEATURES_OK = 8"

text \<open>VIRTIO_BLK_F_RO, SCSI, CONFIG_WCE, MQ, ANY_LAYOUT, RING_F_EVENT_IDX, RING_F_INDIRECT_DESC.\<close>

definition refused_features :: "nat list" where
  "refused_features = [5, 7, 11, 12, 27, 29, 28]"

datatype dma = DmaNull | DmaOps nat | DmaData nat | DmaStatus nat

record virtq_desc =
  d_addr :: dma
  d_len :: u32
  d_flags :: u16
  d_next :: u16

definition VRING_DESC_F_NEXT :: u16 where "VRING_DESC_F_NEXT = 1"
definition VRING_DESC_F_WRITE :: u16 where "VRING_DESC_F_WRITE = 2"

record virtio_blk_req =
  rq_type :: u32
  rq_reserved :: u32
  rq_sector :: u64

definition VIRTIO_BLK_T_IN :: u32 where "VIRTIO_BLK_T_IN = 0"
definition VIRTIO_BLK_T_OUT :: u32 where "VIRTIO_BLK_T_OUT = 1"

section \<open>State (struct disk)\<close>

text \<open>
  \<open>vio_written\<close> is the last value the driver wrote to a register, \<open>vio_answer\<close> what the
  device answers to a read, which for the status register may depend on the value written.
\<close>

record disk_state = kmem_state +
  bufs :: "nat \<Rightarrow> buf"
  vd_desc :: "nat \<Rightarrow> virtq_desc"
  vd_desc_page :: u64
  vd_avail_page :: u64
  vd_used_page :: u64
  avail_idx :: u16
  avail_ring :: "nat \<Rightarrow> u16"
  dev_used_idx :: u16
  dev_used_ring :: "nat \<Rightarrow> u32"
  vd_free :: "nat \<Rightarrow> bool"
  vd_used_idx :: u16
  info_b :: "nat \<Rightarrow> nat option"
  info_status :: "nat \<Rightarrow> u8"
  vd_ops :: "nat \<Rightarrow> virtio_blk_req"
  vio_written :: "nat \<Rightarrow> u32"
  vio_answer :: "nat \<Rightarrow> u32 \<Rightarrow> u32"

definition set_buf :: "nat \<Rightarrow> (buf \<Rightarrow> buf) \<Rightarrow> 'a disk_state_scheme \<Rightarrow> 'a disk_state_scheme" where
  "set_buf b f s = s\<lparr>bufs := (bufs s)(b := f (bufs s b))\<rparr>"

definition set_desc :: "nat \<Rightarrow> (virtq_desc \<Rightarrow> virtq_desc) \<Rightarrow> 'a disk_state_scheme \<Rightarrow> 'a disk_state_scheme" where
  "set_desc i f s = s\<lparr>vd_desc := (vd_desc s)(i := f (vd_desc s i))\<rparr>"

definition vio_read :: "nat \<Rightarrow> ('a disk_state_scheme, u32) kfun" where
  "vio_read r = kget (\<lambda>s. vio_answer s r (vio_written s r))"

definition vio_write :: "nat \<Rightarrow> u32 \<Rightarrow> ('a disk_state_scheme, unit) kfun" where
  "vio_write r v = kmod (\<lambda>s. s\<lparr>vio_written := (vio_written s)(r := v)\<rparr>)"

section \<open>Initialisation\<close>

definition zero_desc :: virtq_desc where
  "zero_desc = \<lparr>d_addr = DmaNull, d_len = 0, d_flags = 0, d_next = 0\<rparr>"

definition virtio_disk_init :: "('a disk_state_scheme, unit) kfun" where
  "virtio_disk_init = kseq
     [ initlock LkDisk ''virtio_disk'',
       kbind (vio_read VIRTIO_MMIO_MAGIC_VALUE) (\<lambda>m.
       kbind (vio_read VIRTIO_MMIO_VERSION) (\<lambda>v.
       kbind (vio_read VIRTIO_MMIO_DEVICE_ID) (\<lambda>d.
       kbind (vio_read VIRTIO_MMIO_VENDOR_ID) (\<lambda>n.
         if m \<noteq> 0x74726976 \<or> v \<noteq> 2 \<or> d \<noteq> 2 \<or> n \<noteq> 0x554d4551
         then kpanic ''could not find virtio disk'' else kret ())))),
       vio_write VIRTIO_MMIO_STATUS 0,
       vio_write VIRTIO_MMIO_STATUS VIRTIO_CONFIG_S_ACKNOWLEDGE,
       vio_write VIRTIO_MMIO_STATUS (VIRTIO_CONFIG_S_ACKNOWLEDGE OR VIRTIO_CONFIG_S_DRIVER),
       kbind (vio_read VIRTIO_MMIO_DEVICE_FEATURES) (\<lambda>f.
         vio_write VIRTIO_MMIO_DRIVER_FEATURES
           (fold (\<lambda>k x. x AND NOT (push_bit k 1)) refused_features f)),
       vio_write VIRTIO_MMIO_STATUS
         (VIRTIO_CONFIG_S_ACKNOWLEDGE OR VIRTIO_CONFIG_S_DRIVER OR VIRTIO_CONFIG_S_FEATURES_OK),
       kbind (vio_read VIRTIO_MMIO_STATUS) (\<lambda>status.
         if status AND VIRTIO_CONFIG_S_FEATURES_OK = 0
         then kpanic ''virtio disk FEATURES_OK unset''
         else kseq
           [ vio_write VIRTIO_MMIO_QUEUE_SEL 0,
             kbind (vio_read VIRTIO_MMIO_QUEUE_READY) (\<lambda>r.
               if r \<noteq> 0 then kpanic ''virtio disk should not be ready'' else kret ()),
             kbind (vio_read VIRTIO_MMIO_QUEUE_NUM_MAX) (\<lambda>mx.
               if mx = 0 then kpanic ''virtio disk has no queue 0''
               else if mx < of_nat VQ_NUM then kpanic ''virtio disk max queue too short'' else kret ()),
             kbind kalloc (\<lambda>p. kmod (\<lambda>s. s\<lparr>vd_desc_page := p\<rparr>)),
             kbind kalloc (\<lambda>p. kmod (\<lambda>s. s\<lparr>vd_avail_page := p\<rparr>)),
             kbind kalloc (\<lambda>p. kmod (\<lambda>s. s\<lparr>vd_used_page := p\<rparr>)),
             kwhen (\<lambda>s. vd_desc_page s = 0 \<or> vd_avail_page s = 0 \<or> vd_used_page s = 0)
               (kpanic ''virtio disk kalloc''),
             kmod (\<lambda>s. s\<lparr>vd_desc := (\<lambda>_. zero_desc)\<rparr>),
             kmod (\<lambda>s. s\<lparr>avail_idx := 0, avail_ring := (\<lambda>_. 0)\<rparr>),
             kmod (\<lambda>s. s\<lparr>dev_used_idx := 0, dev_used_ring := (\<lambda>_. 0)\<rparr>),
             vio_write VIRTIO_MMIO_QUEUE_NUM (of_nat VQ_NUM),
             kbind (kget vd_desc_page) (\<lambda>p. kthen (vio_write VIRTIO_MMIO_QUEUE_DESC_LOW (ucast p))
               (vio_write VIRTIO_MMIO_QUEUE_DESC_HIGH (ucast (drop_bit 32 p)))),
             kbind (kget vd_avail_page) (\<lambda>p. kthen (vio_write VIRTIO_MMIO_DRIVER_DESC_LOW (ucast p))
               (vio_write VIRTIO_MMIO_DRIVER_DESC_HIGH (ucast (drop_bit 32 p)))),
             kbind (kget vd_used_page) (\<lambda>p. kthen (vio_write VIRTIO_MMIO_DEVICE_DESC_LOW (ucast p))
               (vio_write VIRTIO_MMIO_DEVICE_DESC_HIGH (ucast (drop_bit 32 p)))),
             vio_write VIRTIO_MMIO_QUEUE_READY 1,
             kfor [0..<VQ_NUM] (\<lambda>i. kmod (\<lambda>s. s\<lparr>vd_free := (vd_free s)(i := True)\<rparr>)),
             vio_write VIRTIO_MMIO_STATUS (status OR VIRTIO_CONFIG_S_DRIVER_OK) ]) ]"

section \<open>Descriptors\<close>

definition alloc_desc :: "('a disk_state_scheme, nat option) kfun" where
  "alloc_desc = kfind [0..<VQ_NUM] (\<lambda>i. kif (\<lambda>s. vd_free s i)
     (kthen (kmod (\<lambda>s. s\<lparr>vd_free := (vd_free s)(i := False)\<rparr>)) (kret (Some i)))
     (kret None))"

definition free_desc :: "nat \<Rightarrow> ('a disk_state_scheme, unit) kfun" where
  "free_desc i =
     (if VQ_NUM \<le> i then kpanic ''free_desc 1''
      else kif (\<lambda>s. vd_free s i) (kpanic ''free_desc 2'')
        (kseq
          [ kmod (set_desc i (\<lambda>d. d\<lparr>d_addr := DmaNull\<rparr>)),
            kmod (set_desc i (\<lambda>d. d\<lparr>d_len := 0\<rparr>)),
            kmod (set_desc i (\<lambda>d. d\<lparr>d_flags := 0\<rparr>)),
            kmod (set_desc i (\<lambda>d. d\<lparr>d_next := 0\<rparr>)),
            kmod (\<lambda>s. s\<lparr>vd_free := (vd_free s)(i := True)\<rparr>),
            wakeup ChDiskFree ]))"

text \<open>
  Each round frees a descriptor that was in use, or panics: one round more than there are
  descriptors is fuel enough.
\<close>

primrec free_chain_loop :: "nat \<Rightarrow> nat \<Rightarrow> ('a disk_state_scheme, unit) kfun" where
  "free_chain_loop 0 i = knofuel"
| "free_chain_loop (Suc n) i =
     kbind (kget (\<lambda>s. (d_flags (vd_desc s i), d_next (vd_desc s i)))) (\<lambda>(flag, nxt).
       kthen (free_desc i)
         (if flag AND VRING_DESC_F_NEXT \<noteq> 0 then free_chain_loop n (unat nxt) else kret ()))"

definition free_chain :: "nat \<Rightarrow> ('a disk_state_scheme, unit) kfun" where
  "free_chain i = free_chain_loop (VQ_NUM + 1) i"

text \<open>\<open>got\<close> is the descriptors allocated so far; on failure they are given back.\<close>

primrec alloc_descs :: "nat \<Rightarrow> nat list \<Rightarrow> ('a disk_state_scheme, nat list option) kfun" where
  "alloc_descs 0 got = kret (Some got)"
| "alloc_descs (Suc k) got = kbind alloc_desc (\<lambda>d. case d of
       Some i \<Rightarrow> alloc_descs k (got @ [i])
     | None \<Rightarrow> kthen (kfor got free_desc) (kret None))"

definition alloc3_desc :: "('a disk_state_scheme, nat list option) kfun" where
  "alloc3_desc = alloc_descs 3 []"

section \<open>A transfer\<close>

text \<open>The three descriptors of a request, in the order the code fills them in.\<close>

definition format_request :: "nat \<Rightarrow> bool \<Rightarrow> u64 \<Rightarrow> nat \<Rightarrow> nat \<Rightarrow> nat \<Rightarrow> ('a disk_state_scheme, unit) kfun" where
  "format_request b wr sector i0 i1 i2 = kseq
     [ kmod (\<lambda>s. s\<lparr>vd_ops := (vd_ops s)(i0 := \<lparr>rq_type = (if wr then VIRTIO_BLK_T_OUT else VIRTIO_BLK_T_IN),
         rq_reserved = 0, rq_sector = sector\<rparr>)\<rparr>),
       kmod (set_desc i0 (\<lambda>d. d\<lparr>d_addr := DmaOps i0, d_len := 16, d_flags := VRING_DESC_F_NEXT,
         d_next := of_nat i1\<rparr>)),
       kmod (set_desc i1 (\<lambda>d. d\<lparr>d_addr := DmaData b, d_len := of_nat BSIZE,
         d_flags := (if wr then 0 else VRING_DESC_F_WRITE)\<rparr>)),
       kmod (set_desc i1 (\<lambda>d. d\<lparr>d_flags := d_flags d OR VRING_DESC_F_NEXT, d_next := of_nat i2\<rparr>)),
       kmod (\<lambda>s. s\<lparr>info_status := (info_status s)(i0 := 0xff)\<rparr>),
       kmod (set_desc i2 (\<lambda>d. d\<lparr>d_addr := DmaStatus i0, d_len := 1, d_flags := VRING_DESC_F_WRITE,
         d_next := 0\<rparr>)) ]"

definition virtio_disk_rw :: "nat \<Rightarrow> bool \<Rightarrow> ('a disk_state_scheme, unit) kfun" where
  "virtio_disk_rw b wr =
     kbind (kget (\<lambda>s. ucast (bblockno (bufs s b) * of_nat (BSIZE div 512)))) (\<lambda>sector.
     kthen (acquire LkDisk)
     (kbind (kretry alloc3_desc (sleep ChDiskFree LkDisk)) (\<lambda>idx.
        let i0 = idx ! 0; i1 = idx ! 1; i2 = idx ! 2 in
        kseq
          [ format_request b wr sector i0 i1 i2,
            kmod (set_buf b (\<lambda>x. x\<lparr>bdisk := True\<rparr>)),
            kmod (\<lambda>s. s\<lparr>info_b := (info_b s)(i0 := Some b)\<rparr>),
            kmod (\<lambda>s. s\<lparr>avail_ring := (avail_ring s)(unat (avail_idx s) mod VQ_NUM := of_nat i0)\<rparr>),
            kmod (\<lambda>s. s\<lparr>avail_idx := avail_idx s + 1\<rparr>),
            vio_write VIRTIO_MMIO_QUEUE_NOTIFY 0,
            kloop (\<lambda>s. bdisk (bufs s b)) (sleep (ChDiskBuf b) LkDisk),
            kmod (\<lambda>s. s\<lparr>info_b := (info_b s)(i0 := None)\<rparr>),
            free_chain i0,
            release LkDisk ])))"

text \<open>One completion of the used ring.\<close>

definition disk_complete :: "('a disk_state_scheme, unit) kfun" where
  "disk_complete =
     kbind (kget (\<lambda>s. unat (dev_used_ring s (unat (vd_used_idx s) mod VQ_NUM)))) (\<lambda>id. kseq
       [ kwhen (\<lambda>s. info_status s id \<noteq> 0) (kpanic ''virtio_disk_intr status''),
         kbind (kget (\<lambda>s. info_b s id)) (\<lambda>b. case b of
             None \<Rightarrow> kundef
           | Some i \<Rightarrow> kthen (kmod (set_buf i (\<lambda>x. x\<lparr>bdisk := False\<rparr>))) (wakeup (ChDiskBuf i))),
         kmod (\<lambda>s. s\<lparr>vd_used_idx := vd_used_idx s + 1\<rparr>) ])"

text \<open>The counters are 16 bits wide: their difference is below 2^16.\<close>

definition virtio_disk_intr :: "('a disk_state_scheme, unit) kfun" where
  "virtio_disk_intr = kseq
     [ acquire LkDisk,
       kbind (vio_read VIRTIO_MMIO_INTERRUPT_STATUS) (\<lambda>x. vio_write VIRTIO_MMIO_INTERRUPT_ACK (x AND 3)),
       kwhile 65536 (\<lambda>s. vd_used_idx s \<noteq> dev_used_idx s) disk_complete,
       release LkDisk ]"

end
