(* ===== verification/Bio.thy ===== *)
theory Bio
  imports Virtio
begin

text \<open>
  The buffer cache, kernel/bio.c: a doubly linked list of the 30 buffers through a head,
  most recently used first, under bcache.lock; each buffer has a sleep lock.
\<close>

section \<open>Operations\<close>

definition bhead :: nat where "bhead = NBUF"

definition binit :: "('a disk_state_scheme, unit) kfun" where
  "binit = kseq
     [ initlock LkBcache ''bcache'',
       kmod (set_buf bhead (\<lambda>h. h\<lparr>bprev := bhead\<rparr>)),
       kmod (set_buf bhead (\<lambda>h. h\<lparr>bnext := bhead\<rparr>)),
       kfor [0..<NBUF] (\<lambda>b. kseq
         [ kmod (\<lambda>s. set_buf b (\<lambda>x. x\<lparr>bnext := bnext (bufs s bhead)\<rparr>) s),
           kmod (set_buf b (\<lambda>x. x\<lparr>bprev := bhead\<rparr>)),
           initsleeplock (SlBuf b) ''buffer'',
           kmod (\<lambda>s. set_buf (bnext (bufs s bhead)) (\<lambda>x. x\<lparr>bprev := b\<rparr>) s),
           kmod (set_buf bhead (\<lambda>h. h\<lparr>bnext := b\<rparr>)) ]) ]"

text \<open>
  The two scans of bget, along next for a cached block and along prev for a free buffer.
  The list has NBUF + 1 nodes: so many rounds are enough.
\<close>

primrec scan_cached :: "nat \<Rightarrow> (nat \<Rightarrow> buf) \<Rightarrow> u32 \<Rightarrow> u32 \<Rightarrow> nat \<Rightarrow> nat option" where
  "scan_cached 0 bs dev blockno b = None"
| "scan_cached (Suc n) bs dev blockno b =
     (if b = bhead then None
      else if bdev (bs b) = dev \<and> bblockno (bs b) = blockno then Some b
      else scan_cached n bs dev blockno (bnext (bs b)))"

primrec scan_unused :: "nat \<Rightarrow> (nat \<Rightarrow> buf) \<Rightarrow> nat \<Rightarrow> nat option" where
  "scan_unused 0 bs b = None"
| "scan_unused (Suc n) bs b =
     (if b = bhead then None
      else if brefcnt (bs b) = 0 then Some b
      else scan_unused n bs (bprev (bs b)))"

definition bget :: "u32 \<Rightarrow> u32 \<Rightarrow> ('a disk_state_scheme, nat) kfun" where
  "bget dev blockno =
     kthen (acquire LkBcache)
     (kbind (kget (\<lambda>s. scan_cached (NBUF + 1) (bufs s) dev blockno (bnext (bufs s bhead)))) (\<lambda>c. case c of
        Some b \<Rightarrow>
          kthen (kseq
            [ kmod (set_buf b (\<lambda>x. x\<lparr>brefcnt := brefcnt x + 1\<rparr>)),
              release LkBcache,
              acquiresleep (SlBuf b) ])
          (kret b)
      | None \<Rightarrow>
          kbind (kget (\<lambda>s. scan_unused (NBUF + 1) (bufs s) (bprev (bufs s bhead)))) (\<lambda>u. case u of
            Some b \<Rightarrow>
              kthen (kseq
                [ kmod (set_buf b (\<lambda>x. x\<lparr>bdev := dev\<rparr>)),
                  kmod (set_buf b (\<lambda>x. x\<lparr>bblockno := blockno\<rparr>)),
                  kmod (set_buf b (\<lambda>x. x\<lparr>bvalid := False\<rparr>)),
                  kmod (set_buf b (\<lambda>x. x\<lparr>brefcnt := 1\<rparr>)),
                  release LkBcache,
                  acquiresleep (SlBuf b) ])
              (kret b)
          | None \<Rightarrow> kpanic ''bget: no buffers'')))"

definition bread :: "u32 \<Rightarrow> u32 \<Rightarrow> ('a disk_state_scheme, nat) kfun" where
  "bread dev blockno = kbind (bget dev blockno) (\<lambda>b.
     kthen (kwhen (\<lambda>s. \<not> bvalid (bufs s b))
       (kthen (virtio_disk_rw b False) (kmod (set_buf b (\<lambda>x. x\<lparr>bvalid := True\<rparr>)))))
     (kret b))"

definition bwrite :: "nat \<Rightarrow> ('a disk_state_scheme, unit) kfun" where
  "bwrite b = kbind (holdingsleep (SlBuf b)) (\<lambda>h.
     if h then virtio_disk_rw b True else kpanic ''bwrite'')"

definition brelse :: "nat \<Rightarrow> ('a disk_state_scheme, unit) kfun" where
  "brelse b = kbind (holdingsleep (SlBuf b)) (\<lambda>h.
     if \<not> h then kpanic ''brelse''
     else kseq
       [ releasesleep (SlBuf b),
         acquire LkBcache,
         kmod (set_buf b (\<lambda>x. x\<lparr>brefcnt := brefcnt x - 1\<rparr>)),
         kwhen (\<lambda>s. brefcnt (bufs s b) = 0) (kseq
           [ kmod (\<lambda>s. set_buf (bnext (bufs s b)) (\<lambda>x. x\<lparr>bprev := bprev (bufs s b)\<rparr>) s),
             kmod (\<lambda>s. set_buf (bprev (bufs s b)) (\<lambda>x. x\<lparr>bnext := bnext (bufs s b)\<rparr>) s),
             kmod (\<lambda>s. set_buf b (\<lambda>x. x\<lparr>bnext := bnext (bufs s bhead)\<rparr>) s),
             kmod (set_buf b (\<lambda>x. x\<lparr>bprev := bhead\<rparr>)),
             kmod (\<lambda>s. set_buf (bnext (bufs s bhead)) (\<lambda>x. x\<lparr>bprev := b\<rparr>) s),
             kmod (set_buf bhead (\<lambda>x. x\<lparr>bnext := b\<rparr>)) ]),
         release LkBcache ])"

definition bpin :: "nat \<Rightarrow> ('a disk_state_scheme, unit) kfun" where
  "bpin b = kseq
     [ acquire LkBcache,
       kmod (set_buf b (\<lambda>x. x\<lparr>brefcnt := brefcnt x + 1\<rparr>)),
       release LkBcache ]"

definition bunpin :: "nat \<Rightarrow> ('a disk_state_scheme, unit) kfun" where
  "bunpin b = kseq
     [ acquire LkBcache,
       kmod (set_buf b (\<lambda>x. x\<lparr>brefcnt := brefcnt x - 1\<rparr>)),
       release LkBcache ]"

section \<open>The bytes of a buffer\<close>

definition get_le :: "nat \<Rightarrow> nat \<Rightarrow> u8 list \<Rightarrow> nat" where
  "get_le k off bs = le_dec (take k (drop off bs))"

definition put_le :: "nat \<Rightarrow> nat \<Rightarrow> nat \<Rightarrow> u8 list \<Rightarrow> u8 list" where
  "put_le k off v bs = take off bs @ le_enc k v @ drop (off + k) bs"

definition get16 :: "nat \<Rightarrow> u8 list \<Rightarrow> u16" where "get16 off bs = of_nat (get_le 2 off bs)"
definition get32 :: "nat \<Rightarrow> u8 list \<Rightarrow> u32" where "get32 off bs = of_nat (get_le 4 off bs)"

definition put16 :: "nat \<Rightarrow> u16 \<Rightarrow> u8 list \<Rightarrow> u8 list" where "put16 off v bs = put_le 2 off (unat v) bs"
definition put32 :: "nat \<Rightarrow> u32 \<Rightarrow> u8 list \<Rightarrow> u8 list" where "put32 off v bs = put_le 4 off (unat v) bs"

definition put_bytes :: "nat \<Rightarrow> u8 list \<Rightarrow> u8 list \<Rightarrow> u8 list" where
  "put_bytes off src bs = take off bs @ src @ drop (off + length src) bs"

definition buf_data :: "nat \<Rightarrow> ('a disk_state_scheme, u8 list) kfun" where
  "buf_data b = kget (\<lambda>s. bdata (bufs s b))"

definition buf_update :: "nat \<Rightarrow> (u8 list \<Rightarrow> u8 list) \<Rightarrow> ('a disk_state_scheme, unit) kfun" where
  "buf_update b f = kmod (set_buf b (\<lambda>x. x\<lparr>bdata := f (bdata x)\<rparr>))"

end
