(* ===== verification/FsLog.thy ===== *)
theory FsLog
  imports Bio
begin

text \<open>
  The redo log of the file system, kernel/log.c. The on-disk header is a block that starts
  with the number of logged blocks and their numbers, 32 bits each.
\<close>

section \<open>State\<close>

record log_state = disk_state +
  fl_start :: u32
  fl_outstanding :: int
  fl_committing :: bool
  fl_dev :: u32
  lh_n :: int
  lh_block :: "nat \<Rightarrow> u32"

definition set_lh_block :: "nat \<Rightarrow> u32 \<Rightarrow> 'a log_state_scheme \<Rightarrow> 'a log_state_scheme" where
  "set_lh_block i v s = s\<lparr>lh_block := (lh_block s)(i := v)\<rparr>"

text \<open>A loop \<open>for(tail = 0; tail < log.lh.n; tail++)\<close>; lh.n does not change in its body.\<close>

definition for_log :: "(nat \<Rightarrow> ('a log_state_scheme, unit) kfun) \<Rightarrow> ('a log_state_scheme, unit) kfun" where
  "for_log f = kbind (kget (\<lambda>s. nat (lh_n s))) (\<lambda>n. kfor [0..<n] f)"

definition bread_log :: "(u32 \<Rightarrow> u32) \<Rightarrow> ('a log_state_scheme, nat) kfun" where
  "bread_log off = kbind (kget (\<lambda>s. (fl_dev s, off (fl_start s)))) (\<lambda>(d, b). bread d b)"

section \<open>Recovery\<close>

definition install_trans :: "bool \<Rightarrow> ('a log_state_scheme, unit) kfun" where
  "install_trans recovering = for_log (\<lambda>tail. kseq
     [ if recovering then kbind (kget (\<lambda>s. lh_block s tail)) (\<lambda>d.
         printf (ln ''recovering tail %d dst %d'') [va_nat tail, va_u32 d]) else kret (),
       kbind (bread_log (\<lambda>st. st + of_nat tail + 1)) (\<lambda>lbuf.
       kbind (kget (\<lambda>s. (fl_dev s, lh_block s tail))) (\<lambda>(d, bn).
       kbind (bread d bn) (\<lambda>dbuf. kseq
         [ kbind (buf_data lbuf) (\<lambda>bs. buf_update dbuf (\<lambda>_. bs)),
           bwrite dbuf,
           if \<not> recovering then bunpin dbuf else kret (),
           brelse lbuf,
           brelse dbuf ]))) ])"

text \<open>A header with more entries than the array holds runs off its end.\<close>

definition read_head :: "('a log_state_scheme, unit) kfun" where
  "read_head = kbind (bread_log (\<lambda>st. st)) (\<lambda>b. kseq
     [ kbind (buf_data b) (\<lambda>bs. kthen
         (kmod (\<lambda>s. s\<lparr>lh_n := sint (get32 0 bs)\<rparr>))
         (kif (\<lambda>s. int LOGBLOCKS < lh_n s) kundef
           (for_log (\<lambda>i. kmod (set_lh_block i (get32 (4 + 4 * i) bs)))))),
       brelse b ])"

definition write_head :: "('a log_state_scheme, unit) kfun" where
  "write_head = kbind (bread_log (\<lambda>st. st)) (\<lambda>b. kseq
     [ kbind (kget lh_n) (\<lambda>n. buf_update b (put32 0 (word_of_int n))),
       for_log (\<lambda>i. kbind (kget (\<lambda>s. lh_block s i)) (\<lambda>v. buf_update b (put32 (4 + 4 * i) v))),
       bwrite b,
       brelse b ])"

definition recover_from_log :: "('a log_state_scheme, unit) kfun" where
  "recover_from_log = kseq
     [ read_head,
       install_trans True,
       kmod (\<lambda>s. s\<lparr>lh_n := 0\<rparr>),
       write_head ]"

text \<open>\<open>logstart\<close> is the field of the super block passed in.\<close>

definition initlog :: "u32 \<Rightarrow> u32 \<Rightarrow> ('a log_state_scheme, unit) kfun" where
  "initlog dev logstart = kseq
     [ if BSIZE \<le> 4 + 4 * LOGBLOCKS then kpanic ''initlog: too big logheader'' else kret (),
       initlock LkLog ''log'',
       kmod (\<lambda>s. s\<lparr>fl_start := logstart\<rparr>),
       kmod (\<lambda>s. s\<lparr>fl_dev := dev\<rparr>),
       recover_from_log ]"

section \<open>Transactions\<close>

definition begin_op :: "('a log_state_scheme, unit) kfun" where
  "begin_op = kseq
     [ acquire LkLog,
       kretry
         (kif (\<lambda>s. fl_committing s) (kret None)
           (kif (\<lambda>s. int LOGBLOCKS < lh_n s + (fl_outstanding s + 1) * int MAXOPBLOCKS) (kret None)
             (kthen (kmod (\<lambda>s. s\<lparr>fl_outstanding := fl_outstanding s + 1\<rparr>))
               (kthen (release LkLog) (kret (Some ()))))))
         (sleep ChLog LkLog) ]"

definition write_log :: "('a log_state_scheme, unit) kfun" where
  "write_log = for_log (\<lambda>tail.
     kbind (bread_log (\<lambda>st. st + of_nat tail + 1)) (\<lambda>to.
     kbind (kget (\<lambda>s. (fl_dev s, lh_block s tail))) (\<lambda>(d, bn).
     kbind (bread d bn) (\<lambda>from. kseq
       [ kbind (buf_data from) (\<lambda>bs. buf_update to (\<lambda>_. bs)),
         bwrite to,
         brelse from,
         brelse to ]))))"

definition commit :: "('a log_state_scheme, unit) kfun" where
  "commit = kwhen (\<lambda>s. 0 < lh_n s) (kseq
     [ write_log,
       write_head,
       install_trans False,
       kmod (\<lambda>s. s\<lparr>lh_n := 0\<rparr>),
       write_head ])"

definition end_op :: "('a log_state_scheme, unit) kfun" where
  "end_op =
     kthen (kseq
       [ acquire LkLog,
         kmod (\<lambda>s. s\<lparr>fl_outstanding := fl_outstanding s - 1\<rparr>),
         kwhen (\<lambda>s. fl_committing s) (kpanic ''log.committing'') ])
     (kbind (kget (\<lambda>s. fl_outstanding s = 0)) (\<lambda>do_commit.
       kseq
         [ if do_commit then kmod (\<lambda>s. s\<lparr>fl_committing := True\<rparr>) else wakeup ChLog,
           release LkLog,
           if do_commit then kseq
             [ commit,
               acquire LkLog,
               kmod (\<lambda>s. s\<lparr>fl_committing := False\<rparr>),
               wakeup ChLog,
               release LkLog ] else kret () ]))"

text \<open>The first slot that holds the block, or the first unused one.\<close>

definition log_slot_of :: "u32 \<Rightarrow> 'a log_state_scheme \<Rightarrow> nat" where
  "log_slot_of bn s = (case find (\<lambda>i. lh_block s i = bn) [0..<nat (lh_n s)] of
     Some i \<Rightarrow> i | None \<Rightarrow> nat (lh_n s))"

definition log_write :: "nat \<Rightarrow> ('a log_state_scheme, unit) kfun" where
  "log_write b = kseq
     [ acquire LkLog,
       kwhen (\<lambda>s. int LOGBLOCKS \<le> lh_n s) (kpanic ''too big a transaction''),
       kwhen (\<lambda>s. fl_outstanding s < 1) (kpanic ''log_write outside of trans''),
       kbind (kget (\<lambda>s. log_slot_of (bblockno (bufs s b)) s)) (\<lambda>i. kseq
         [ kmod (\<lambda>s. set_lh_block i (bblockno (bufs s b)) s),
           kwhen (\<lambda>s. int i = lh_n s) (kseq
             [ bpin b,
               kmod (\<lambda>s. s\<lparr>lh_n := lh_n s + 1\<rparr>) ]) ]),
       release LkLog ]"

end
