(* ===== verification/Fs.thy ===== *)
theory Fs
  imports FsLog
begin

text \<open>
  The file system, kernel/fs.h, the inode part of kernel/file.h, kernel/stat.h and
  kernel/fs.c: blocks, inodes, directories and path names. Block and inode contents are the
  bytes of the buffers of \<open>Bio\<close>; the structures of the disk format are read and written at
  their offsets.
\<close>

section \<open>Format (fs.h, stat.h) and state\<close>

definition ROOTINO :: u32 where "ROOTINO = 1"
definition FSMAGIC :: u32 where "FSMAGIC = 0x10203040"
definition NDIRECT :: nat where "NDIRECT = 12"
definition NINDIRECT :: nat where "NINDIRECT = BSIZE div 4"
definition MAXFILE :: nat where "MAXFILE = NDIRECT + NINDIRECT"
definition DINODE_SIZE :: nat where "DINODE_SIZE = 2 + 2 + 2 + 2 + 4 + 4 * (NDIRECT + 1)"
definition IPB :: nat where "IPB = BSIZE div DINODE_SIZE"
definition BPB :: nat where "BPB = BSIZE * 8"
definition DIRSIZ :: nat where "DIRSIZ = 14"
definition DIRENT_SIZE :: nat where "DIRENT_SIZE = 2 + DIRSIZ"
definition T_DIR :: u16 where "T_DIR = 1"
definition T_FILE :: u16 where "T_FILE = 2"
definition T_DEVICE :: u16 where "T_DEVICE = 3"

record superblock =
  sb_magic :: u32
  sb_size :: u32
  sb_nblocks :: u32
  sb_ninodes :: u32
  sb_nlog :: u32
  sb_logstart :: u32
  sb_inodestart :: u32
  sb_bmapstart :: u32

text \<open>struct inode without its sleep lock (\<open>SlInode i\<close>); \<open>iaddrs\<close> has NDIRECT + 1 entries.\<close>

record inode =
  idev :: u32
  inum :: u32
  iref :: int
  ivalid :: bool
  itype :: u16
  imajor :: u16
  iminor :: u16
  inlink :: u16
  isize :: u32
  iaddrs :: "u32 list"

record stat =
  st_dev :: u32
  st_ino :: u32
  st_type :: u16
  st_nlink :: u16
  st_size :: u64

record fs_state = log_state +
  sb :: superblock
  inodes :: "nat \<Rightarrow> inode"

definition set_inode :: "nat \<Rightarrow> (inode \<Rightarrow> inode) \<Rightarrow> 'a fs_state_scheme \<Rightarrow> 'a fs_state_scheme" where
  "set_inode i f s = s\<lparr>inodes := (inodes s)(i := f (inodes s i))\<rparr>"

definition IBLOCK :: "u32 \<Rightarrow> superblock \<Rightarrow> u32" where
  "IBLOCK i b = i div of_nat IPB + sb_inodestart b"

definition BBLOCK :: "u32 \<Rightarrow> superblock \<Rightarrow> u32" where
  "BBLOCK b x = b div of_nat BPB + sb_bmapstart x"

section \<open>Disk structures\<close>

text \<open>The dinode of inode \<open>i\<close> starts at this byte of its block.\<close>

definition dinode_off :: "u32 \<Rightarrow> nat" where
  "dinode_off i = (unat i mod IPB) * DINODE_SIZE"

definition dinode_type :: "nat \<Rightarrow> u8 list \<Rightarrow> u16" where "dinode_type o' bs = get16 o' bs"
definition dinode_nlink :: "nat \<Rightarrow> u8 list \<Rightarrow> u16" where "dinode_nlink o' bs = get16 (o' + 6) bs"

definition load_dinode :: "nat \<Rightarrow> u8 list \<Rightarrow> inode \<Rightarrow> inode" where
  "load_dinode o' bs ip = ip\<lparr>itype := get16 o' bs, imajor := get16 (o' + 2) bs, iminor := get16 (o' + 4) bs,
     inlink := get16 (o' + 6) bs, isize := get32 (o' + 8) bs,
     iaddrs := map (\<lambda>k. get32 (o' + 12 + 4 * k) bs) [0..<NDIRECT + 1]\<rparr>"

text \<open>The bytes of a dinode, from the in-memory copy.\<close>

definition dinode_bytes :: "inode \<Rightarrow> u8 list" where
  "dinode_bytes ip = le_enc 2 (unat (itype ip)) @ le_enc 2 (unat (imajor ip)) @ le_enc 2 (unat (iminor ip)) @
     le_enc 2 (unat (inlink ip)) @ le_enc 4 (unat (isize ip)) @
     concat (map (\<lambda>a. le_enc 4 (unat a)) (iaddrs ip))"

definition store_dinode :: "nat \<Rightarrow> inode \<Rightarrow> u8 list \<Rightarrow> u8 list" where
  "store_dinode o' ip bs = put_bytes o' (dinode_bytes ip) bs"

definition superblock_of :: "u8 list \<Rightarrow> superblock" where
  "superblock_of bs = \<lparr>sb_magic = get32 0 bs, sb_size = get32 4 bs, sb_nblocks = get32 8 bs,
     sb_ninodes = get32 12 bs, sb_nlog = get32 16 bs, sb_logstart = get32 20 bs,
     sb_inodestart = get32 24 bs, sb_bmapstart = get32 28 bs\<rparr>"

section \<open>Blocks\<close>

definition readsb :: "u32 \<Rightarrow> ('a fs_state_scheme, unit) kfun" where
  "readsb dev = kbind (bread dev 1) (\<lambda>bp. kseq
     [ kbind (buf_data bp) (\<lambda>bs. kmod (\<lambda>s. s\<lparr>sb := superblock_of bs\<rparr>)),
       brelse bp ])"

definition bzero :: "u32 \<Rightarrow> u32 \<Rightarrow> ('a fs_state_scheme, unit) kfun" where
  "bzero dev bno = kbind (bread dev bno) (\<lambda>bp. kseq
     [ buf_update bp (\<lambda>_. replicate BSIZE 0),
       log_write bp,
       brelse bp ])"

text \<open>Bit \<open>bi\<close> of a bitmap block: \<open>data[bi/8] & (1 << (bi % 8))\<close>.\<close>

definition bmap_bit :: "u8 list \<Rightarrow> nat \<Rightarrow> bool" where
  "bmap_bit bs bi = bit (bs ! (bi div 8)) (bi mod 8)"

definition bmap_set :: "nat \<Rightarrow> u8 list \<Rightarrow> u8 list" where
  "bmap_set bi bs = bs[bi div 8 := bs ! (bi div 8) OR push_bit (bi mod 8) 1]"

definition bmap_clear :: "nat \<Rightarrow> u8 list \<Rightarrow> u8 list" where
  "bmap_clear bi bs = bs[bi div 8 := bs ! (bi div 8) AND NOT (push_bit (bi mod 8) 1)]"

text \<open>The first clear bit among those that stand for blocks of the device.\<close>

definition find_clear :: "u8 list \<Rightarrow> nat \<Rightarrow> nat option" where
  "find_clear bs lim = find (\<lambda>bi. \<not> bmap_bit bs bi) [0..<min BPB lim]"

definition balloc :: "u32 \<Rightarrow> ('a fs_state_scheme, u32) kfun" where
  "balloc dev = kbind (kget (\<lambda>s. unat (sb_size (sb s)))) (\<lambda>sz.
     kbind (kfind (map (\<lambda>k. k * BPB) [0..<(sz + BPB - 1) div BPB]) (\<lambda>b.
       kbind (kget (\<lambda>s. BBLOCK (of_nat b) (sb s))) (\<lambda>bb.
       kbind (bread dev bb) (\<lambda>bp.
       kbind (buf_data bp) (\<lambda>bs. case find_clear bs (sz - b) of
           Some bi \<Rightarrow> kthen (kseq
             [ buf_update bp (bmap_set bi),
               log_write bp,
               brelse bp,
               bzero dev (of_nat (b + bi)) ])
             (kret (Some (of_nat (b + bi))))
         | None \<Rightarrow> kthen (brelse bp) (kret None))))))
     (\<lambda>r. case r of
         Some b \<Rightarrow> kret b
       | None \<Rightarrow> kthen (printf (ln ''balloc: out of blocks'') []) (kret 0)))"

definition bfree :: "u32 \<Rightarrow> u32 \<Rightarrow> ('a fs_state_scheme, unit) kfun" where
  "bfree dev b = kbind (kget (\<lambda>s. BBLOCK b (sb s))) (\<lambda>bb.
     kbind (bread dev bb) (\<lambda>bp. let bi = unat b mod BPB in kseq
       [ kbind (buf_data bp) (\<lambda>bs. if \<not> bmap_bit bs bi then kpanic ''freeing free block'' else kret ()),
         buf_update bp (bmap_clear bi),
         log_write bp,
         brelse bp ]))"

section \<open>Inodes\<close>

definition iinit :: "('a fs_state_scheme, unit) kfun" where
  "iinit = kthen (initlock LkItable ''itable'')
     (kfor [0..<NINODE] (\<lambda>i. initsleeplock (SlInode i) ''inode''))"

text \<open>The scan of iget: a matching entry in use, and the first unused one.\<close>

definition itable_match :: "(nat \<Rightarrow> inode) \<Rightarrow> u32 \<Rightarrow> u32 \<Rightarrow> nat option" where
  "itable_match it dev i = find (\<lambda>k. 0 < iref (it k) \<and> idev (it k) = dev \<and> inum (it k) = i) [0..<NINODE]"

definition itable_empty :: "(nat \<Rightarrow> inode) \<Rightarrow> nat option" where
  "itable_empty it = find (\<lambda>k. iref (it k) = 0) [0..<NINODE]"

definition iget :: "u32 \<Rightarrow> u32 \<Rightarrow> ('a fs_state_scheme, nat) kfun" where
  "iget dev i =
     kthen (acquire LkItable)
     (kbind (kget (\<lambda>s. itable_match (inodes s) dev i)) (\<lambda>m. case m of
        Some k \<Rightarrow>
          kthen (kseq
            [ kmod (set_inode k (\<lambda>p. p\<lparr>iref := iref p + 1\<rparr>)),
              release LkItable ]) (kret k)
      | None \<Rightarrow> kbind (kget (\<lambda>s. itable_empty (inodes s))) (\<lambda>e. case e of
          None \<Rightarrow> kpanic ''iget: no inodes''
        | Some k \<Rightarrow>
          kthen (kseq
            [ kmod (set_inode k (\<lambda>p. p\<lparr>idev := dev\<rparr>)),
              kmod (set_inode k (\<lambda>p. p\<lparr>inum := i\<rparr>)),
              kmod (set_inode k (\<lambda>p. p\<lparr>iref := 1\<rparr>)),
              kmod (set_inode k (\<lambda>p. p\<lparr>ivalid := False\<rparr>)),
              release LkItable ]) (kret k))))"

text \<open>\<open>None\<close> is the null pointer returned without a free inode.\<close>

definition ialloc :: "u32 \<Rightarrow> u16 \<Rightarrow> ('a fs_state_scheme, nat option) kfun" where
  "ialloc dev ty = kbind (kget (\<lambda>s. unat (sb_ninodes (sb s)))) (\<lambda>n.
     kbind (kfind [1..<n] (\<lambda>i.
       kbind (kget (\<lambda>s. IBLOCK (of_nat i) (sb s))) (\<lambda>ib.
       kbind (bread dev ib) (\<lambda>bp.
       kbind (buf_data bp) (\<lambda>bs. let o' = dinode_off (of_nat i) in
         if dinode_type o' bs = 0 then
           kthen (kseq
             [ buf_update bp (put_bytes o' (replicate DINODE_SIZE 0)),
               buf_update bp (put16 o' ty),
               log_write bp,
               brelse bp ])
           (kbind (iget dev (of_nat i)) (\<lambda>k. kret (Some k)))
         else kthen (brelse bp) (kret None))))))
     (\<lambda>r. case r of
         Some k \<Rightarrow> kret (Some k)
       | None \<Rightarrow> kthen (printf (ln ''ialloc: no inodes'') []) (kret None)))"

definition with_inode :: "nat \<Rightarrow> (inode \<Rightarrow> ('a fs_state_scheme, 'b) kfun) \<Rightarrow> ('a fs_state_scheme, 'b) kfun" where
  "with_inode i f = kbind (kget (\<lambda>s. inodes s i)) f"

definition iupdate :: "nat \<Rightarrow> ('a fs_state_scheme, unit) kfun" where
  "iupdate i = with_inode i (\<lambda>p.
     kbind (kget (\<lambda>s. IBLOCK (inum p) (sb s))) (\<lambda>ib.
     kbind (bread (idev p) ib) (\<lambda>bp. kseq
       [ kbind (kget (\<lambda>s. inodes s i)) (\<lambda>q. buf_update bp (store_dinode (dinode_off (inum q)) q)),
         log_write bp,
         brelse bp ])))"

definition idup :: "nat \<Rightarrow> ('a fs_state_scheme, nat) kfun" where
  "idup i = kthen (kseq
     [ acquire LkItable,
       kmod (set_inode i (\<lambda>p. p\<lparr>iref := iref p + 1\<rparr>)),
       release LkItable ]) (kret i)"

definition ilock :: "nat \<Rightarrow> ('a fs_state_scheme, unit) kfun" where
  "ilock i = kseq
     [ kwhen (\<lambda>s. iref (inodes s i) < 1) (kpanic ''ilock''),
       acquiresleep (SlInode i),
       kwhen (\<lambda>s. \<not> ivalid (inodes s i))
         (with_inode i (\<lambda>p.
           kbind (kget (\<lambda>s. IBLOCK (inum p) (sb s))) (\<lambda>ib.
           kbind (bread (idev p) ib) (\<lambda>bp. kseq
             [ kbind (buf_data bp) (\<lambda>bs. kmod (set_inode i (load_dinode (dinode_off (inum p)) bs))),
               brelse bp,
               kmod (set_inode i (\<lambda>q. q\<lparr>ivalid := True\<rparr>)),
               kwhen (\<lambda>s. itype (inodes s i) = 0) (kpanic ''ilock: no type'') ])))) ]"

definition iunlock :: "nat \<Rightarrow> ('a fs_state_scheme, unit) kfun" where
  "iunlock i = kbind (holdingsleep (SlInode i)) (\<lambda>h.
     if \<not> h then kpanic ''iunlock''
     else kif (\<lambda>s. iref (inodes s i) < 1) (kpanic ''iunlock'') (releasesleep (SlInode i)))"

section \<open>Inode content\<close>

definition addr_of :: "nat \<Rightarrow> nat \<Rightarrow> ('a fs_state_scheme, u32) kfun" where
  "addr_of i k = kget (\<lambda>s. iaddrs (inodes s i) ! k)"

definition set_addr :: "nat \<Rightarrow> nat \<Rightarrow> u32 \<Rightarrow> ('a fs_state_scheme, unit) kfun" where
  "set_addr i k a = kmod (set_inode i (\<lambda>p. p\<lparr>iaddrs := (iaddrs p)[k := a]\<rparr>))"

definition balloc_dev :: "nat \<Rightarrow> ('a fs_state_scheme, u32) kfun" where
  "balloc_dev i = with_inode i (\<lambda>p. balloc (idev p))"

definition bmap :: "nat \<Rightarrow> nat \<Rightarrow> ('a fs_state_scheme, u32) kfun" where
  "bmap i bn =
     (if bn < NDIRECT then
        kbind (addr_of i bn) (\<lambda>a.
          if a \<noteq> 0 then kret a
          else kbind (balloc_dev i) (\<lambda>a.
            if a = 0 then kret 0 else kthen (set_addr i bn a) (kret a)))
      else if bn - NDIRECT < NINDIRECT then
        (let k = bn - NDIRECT in
         kbind (addr_of i NDIRECT) (\<lambda>a0.
         kbind (if a0 \<noteq> 0 then kret a0
                else kbind (balloc_dev i) (\<lambda>a.
                  if a = 0 then kret 0 else kthen (set_addr i NDIRECT a) (kret a))) (\<lambda>ind.
           if ind = 0 then kret 0
           else with_inode i (\<lambda>p. kbind (bread (idev p) ind) (\<lambda>bp.
             kbind (buf_data bp) (\<lambda>bs. let a = get32 (4 * k) bs in
             kbind (if a \<noteq> 0 then kret a
                    else kbind (balloc_dev i) (\<lambda>n.
                      if n \<noteq> 0 then kthen (kseq [buf_update bp (put32 (4 * k) n), log_write bp]) (kret n)
                      else kret 0)) (\<lambda>r.
               kthen (brelse bp) (kret r))))))))
      else kpanic ''bmap: out of range'')"

definition bfree_dev :: "nat \<Rightarrow> u32 \<Rightarrow> ('a fs_state_scheme, unit) kfun" where
  "bfree_dev i a = with_inode i (\<lambda>p. bfree (idev p) a)"

definition itrunc :: "nat \<Rightarrow> ('a fs_state_scheme, unit) kfun" where
  "itrunc i = kseq
     [ kfor [0..<NDIRECT] (\<lambda>k. kbind (addr_of i k) (\<lambda>a.
         if a \<noteq> 0 then kthen (bfree_dev i a) (set_addr i k 0) else kret ())),
       kbind (addr_of i NDIRECT) (\<lambda>ind.
         if ind = 0 then kret ()
         else with_inode i (\<lambda>p. kbind (bread (idev p) ind) (\<lambda>bp. kseq
           [ kfor [0..<NINDIRECT] (\<lambda>j. kbind (buf_data bp) (\<lambda>bs.
               let a = get32 (4 * j) bs in if a \<noteq> 0 then bfree_dev i a else kret ())),
             brelse bp,
             bfree_dev i ind,
             set_addr i NDIRECT 0 ]))),
       kmod (set_inode i (\<lambda>p. p\<lparr>isize := 0\<rparr>)),
       iupdate i ]"

definition iput :: "nat \<Rightarrow> ('a fs_state_scheme, unit) kfun" where
  "iput i = kseq
     [ acquire LkItable,
       kwhen (\<lambda>s. iref (inodes s i) = 1 \<and> ivalid (inodes s i) \<and> inlink (inodes s i) = 0) (kseq
         [ acquiresleep (SlInode i),
           release LkItable,
           itrunc i,
           kmod (set_inode i (\<lambda>p. p\<lparr>itype := 0\<rparr>)),
           iupdate i,
           kmod (set_inode i (\<lambda>p. p\<lparr>ivalid := False\<rparr>)),
           releasesleep (SlInode i),
           acquire LkItable ]),
       kmod (set_inode i (\<lambda>p. p\<lparr>iref := iref p - 1\<rparr>)),
       release LkItable ]"

definition iunlockput :: "nat \<Rightarrow> ('a fs_state_scheme, unit) kfun" where
  "iunlockput i = kseq [iunlock i, iput i]"

definition ireclaim :: "u32 \<Rightarrow> ('a fs_state_scheme, unit) kfun" where
  "ireclaim dev = kbind (kget (\<lambda>s. unat (sb_ninodes (sb s)))) (\<lambda>n.
     kfor [1..<n] (\<lambda>i.
       kbind (kget (\<lambda>s. IBLOCK (of_nat i) (sb s))) (\<lambda>ib.
       kbind (bread dev ib) (\<lambda>bp.
       kbind (buf_data bp) (\<lambda>bs. let o' = dinode_off (of_nat i) in
       kbind (if dinode_type o' bs \<noteq> 0 \<and> dinode_nlink o' bs = 0
              then kthen (printf (ln ''ireclaim: orphaned inode %d'') [va_nat i])
                (kbind (iget dev (of_nat i)) (\<lambda>k. kret (Some k)))
              else kret None) (\<lambda>ip.
         kthen (brelse bp) (case ip of
             None \<Rightarrow> kret ()
           | Some k \<Rightarrow> kseq [begin_op, ilock k, iunlock k, iput k, end_op])))))))"

definition fsinit :: "u32 \<Rightarrow> ('a fs_state_scheme, unit) kfun" where
  "fsinit dev = kseq
     [ readsb dev,
       kwhen (\<lambda>s. sb_magic (sb s) \<noteq> FSMAGIC) (kpanic ''invalid file system''),
       kbind (kget (\<lambda>s. sb_logstart (sb s))) (\<lambda>st. initlog dev st),
       ireclaim dev ]"

definition stati :: "nat \<Rightarrow> ('a fs_state_scheme, stat) kfun" where
  "stati i = kget (\<lambda>s. let p = inodes s i in
     \<lparr>st_dev = idev p, st_ino = inum p, st_type = itype p, st_nlink = inlink p, st_size = ucast (isize p)\<rparr>)"

end
