(* ===== verification/Dir.thy ===== *)
theory Dir
  imports Fs
begin

text \<open>
  The upper half of kernel/fs.c: reading and writing inode content, directories and path
  names.
\<close>

section \<open>readi and writei\<close>

text \<open>
  Where the bytes go is a parameter of the loop: \<open>sink tot bs\<close> copies \<open>bs\<close> to offset \<open>tot\<close>
  of the destination, which is user memory, kernel memory, or (for the callers in this
  file) a local variable. The result is the return value and the bytes read. Every round
  moves at least one byte, so \<open>n\<close> rounds are enough.
\<close>

definition part_of :: "u32 \<Rightarrow> u32 \<Rightarrow> u32" where
  "part_of left off = min left (of_nat BSIZE - off mod of_nat BSIZE)"

primrec readi_loop :: "nat \<Rightarrow> nat \<Rightarrow> (u32 \<Rightarrow> u8 list \<Rightarrow> ('a fs_state_scheme, int) kfun) \<Rightarrow> u32 \<Rightarrow> u32 \<Rightarrow> u32 \<Rightarrow>
    u8 list \<Rightarrow> ('a fs_state_scheme, int \<times> u8 list) kfun" where
  "readi_loop 0 i sink tot off n acc = (if tot < n then knofuel else kret (sint tot, acc))"
| "readi_loop (Suc fuel) i sink tot off n acc =
     (if tot < n then
        kbind (bmap i (unat (off div of_nat BSIZE))) (\<lambda>addr.
          if addr = 0 then kret (sint tot, acc)
          else with_inode i (\<lambda>p. kbind (bread (idev p) addr) (\<lambda>bp.
            let m = part_of (n - tot) off in
            kbind (buf_data bp) (\<lambda>bs.
            let bytes = take (unat m) (drop (unat (off mod of_nat BSIZE)) bs) in
            kbind (sink tot bytes) (\<lambda>r.
              kthen (brelse bp)
                (if r = -1 then kret (-1, acc)
                 else readi_loop fuel i sink (tot + m) (off + m) n (acc @ bytes)))))))
      else kret (sint tot, acc))"

definition readi_with :: "(u32 \<Rightarrow> u8 list \<Rightarrow> ('a fs_state_scheme, int) kfun) \<Rightarrow> nat \<Rightarrow> u32 \<Rightarrow> u32 \<Rightarrow>
    ('a fs_state_scheme, int \<times> u8 list) kfun" where
  "readi_with sink i off n = with_inode i (\<lambda>p.
     if isize p < off \<or> off + n < off then kret (0, [])
     else (let n' = (if isize p < off + n then isize p - off else n)
           in readi_loop (unat n') i sink 0 off n' []))"

definition readi :: "nat \<Rightarrow> bool \<Rightarrow> u64 \<Rightarrow> u32 \<Rightarrow> u32 \<Rightarrow> ('a fs_state_scheme, int) kfun" where
  "readi i user_dst dst off n =
     kbind (readi_with (\<lambda>tot bs. either_copyout user_dst (dst + ucast tot) bs) i off n) (\<lambda>(r, bs). kret r)"

text \<open>\<open>readi(ip, 0, (uint64)&local, off, n)\<close>\<close>

definition readi_local :: "nat \<Rightarrow> u32 \<Rightarrow> u32 \<Rightarrow> ('a fs_state_scheme, int \<times> u8 list) kfun" where
  "readi_local i off n = readi_with (\<lambda>_ _. kret 0) i off n"

text \<open>
  \<open>src tot m\<close> reads \<open>m\<close> bytes at offset \<open>tot\<close> of the source; when it fails, the bytes it
  did copy are in the buffer all the same.
\<close>

primrec writei_loop :: "nat \<Rightarrow> nat \<Rightarrow> (u32 \<Rightarrow> nat \<Rightarrow> ('a fs_state_scheme, int \<times> u8 list) kfun) \<Rightarrow> u32 \<Rightarrow> u32 \<Rightarrow> u32 \<Rightarrow>
    ('a fs_state_scheme, u32 \<times> u32) kfun" where
  "writei_loop 0 i src tot off n = (if tot < n then knofuel else kret (tot, off))"
| "writei_loop (Suc fuel) i src tot off n =
     (if tot < n then
        kbind (bmap i (unat (off div of_nat BSIZE))) (\<lambda>addr.
          if addr = 0 then kret (tot, off)
          else with_inode i (\<lambda>p. kbind (bread (idev p) addr) (\<lambda>bp.
            let m = part_of (n - tot) off in
            kbind (src tot (unat m)) (\<lambda>(r, bytes).
              kthen (buf_update bp (put_bytes (unat (off mod of_nat BSIZE)) bytes))
              (if r = -1 then kthen (brelse bp) (kret (tot, off))
               else kthen (kseq [log_write bp, brelse bp])
                 (writei_loop fuel i src (tot + m) (off + m) n))))))
      else kret (tot, off))"

definition writei_with :: "(u32 \<Rightarrow> nat \<Rightarrow> ('a fs_state_scheme, int \<times> u8 list) kfun) \<Rightarrow> nat \<Rightarrow> u32 \<Rightarrow> u32 \<Rightarrow>
    ('a fs_state_scheme, int) kfun" where
  "writei_with src i off n = with_inode i (\<lambda>p.
     if isize p < off \<or> off + n < off then kret (-1)
     else if of_nat (MAXFILE * BSIZE) < off + n then kret (-1)
     else kbind (writei_loop (unat n) i src 0 off n) (\<lambda>(tot, off').
       kthen (kseq
         [ kmod (set_inode i (\<lambda>q. if isize q < off' then q\<lparr>isize := off'\<rparr> else q)),
           iupdate i ])
       (kret (sint tot))))"

definition writei :: "nat \<Rightarrow> bool \<Rightarrow> u64 \<Rightarrow> u32 \<Rightarrow> u32 \<Rightarrow> ('a fs_state_scheme, int) kfun" where
  "writei i user_src sr off n =
     writei_with (\<lambda>tot m. either_copyin user_src (sr + ucast tot) m) i off n"

definition writei_local :: "nat \<Rightarrow> u8 list \<Rightarrow> u32 \<Rightarrow> ('a fs_state_scheme, int) kfun" where
  "writei_local i bytes off =
     writei_with (\<lambda>tot m. kret (0, take m (drop (unat tot) bytes))) i off (of_nat (length bytes))"

section \<open>Directories\<close>

record dirent =
  de_inum :: u16
  de_name :: "char list"

definition dirent_of :: "u8 list \<Rightarrow> dirent" where
  "dirent_of bs = \<lparr>de_inum = get16 0 bs, de_name = map char_of_byte (take DIRSIZ (drop 2 bs))\<rparr>"

definition dirent_bytes :: "dirent \<Rightarrow> u8 list" where
  "dirent_bytes de = le_enc 2 (unat (de_inum de)) @ map byte_of (de_name de)"

definition namecmp :: "char list \<Rightarrow> char list \<Rightarrow> int" where
  "namecmp s t = strncmp s t DIRSIZ"

text \<open>The scan at byte \<open>off\<close>; the result is the inode and the offset of its entry.\<close>

primrec dirlookup_loop :: "nat \<Rightarrow> nat \<Rightarrow> char list \<Rightarrow> u32 \<Rightarrow> ('a fs_state_scheme, (nat \<times> u32) option) kfun" where
  "dirlookup_loop 0 dp name off = knofuel"
| "dirlookup_loop (Suc fuel) dp name off = with_inode dp (\<lambda>p.
     if \<not> off < isize p then kret None
     else kbind (readi_local dp off (of_nat DIRENT_SIZE)) (\<lambda>(r, bs).
       if r \<noteq> int DIRENT_SIZE then kpanic ''dirlookup read''
       else (let de = dirent_of bs in
         if de_inum de \<noteq> 0 \<and> namecmp name (de_name de) = 0
         then kbind (iget (idev p) (ucast (de_inum de))) (\<lambda>k. kret (Some (k, off)))
         else dirlookup_loop fuel dp name (off + of_nat DIRENT_SIZE))))"

definition dir_fuel :: "inode \<Rightarrow> nat" where
  "dir_fuel p = unat (isize p) div DIRENT_SIZE + 2"

definition dirlookup :: "nat \<Rightarrow> char list \<Rightarrow> ('a fs_state_scheme, (nat \<times> u32) option) kfun" where
  "dirlookup dp name = with_inode dp (\<lambda>p.
     if itype p \<noteq> T_DIR then kpanic ''dirlookup not DIR''
     else dirlookup_loop (dir_fuel p) dp name 0)"

text \<open>The offset of the first empty entry, or of the end.\<close>

primrec dirlink_scan :: "nat \<Rightarrow> nat \<Rightarrow> u32 \<Rightarrow> ('a fs_state_scheme, u32) kfun" where
  "dirlink_scan 0 dp off = knofuel"
| "dirlink_scan (Suc fuel) dp off = with_inode dp (\<lambda>p.
     if \<not> off < isize p then kret off
     else kbind (readi_local dp off (of_nat DIRENT_SIZE)) (\<lambda>(r, bs).
       if r \<noteq> int DIRENT_SIZE then kpanic ''dirlink read''
       else if de_inum (dirent_of bs) = 0 then kret off
       else dirlink_scan fuel dp (off + of_nat DIRENT_SIZE)))"

definition dirlink :: "nat \<Rightarrow> char list \<Rightarrow> u32 \<Rightarrow> ('a fs_state_scheme, int) kfun" where
  "dirlink dp name ino = kbind (dirlookup dp name) (\<lambda>f. case f of
       Some (k, off) \<Rightarrow> kthen (iput k) (kret (-1))
     | None \<Rightarrow> with_inode dp (\<lambda>p. kbind (dirlink_scan (dir_fuel p) dp 0) (\<lambda>off.
         let de = \<lparr>de_inum = ucast ino, de_name = strncpy (replicate DIRSIZ NUL) name DIRSIZ\<rparr> in
         kbind (writei_local dp (dirent_bytes de) off) (\<lambda>r.
           if r \<noteq> int DIRENT_SIZE then kret (-1) else kret 0))))"

section \<open>Paths\<close>

text \<open>The element goes into \<open>name\<close>, which keeps what the element does not overwrite.\<close>

definition skipelem :: "string \<Rightarrow> char list \<Rightarrow> (string \<times> char list) option" where
  "skipelem path name =
     (let p = dropWhile (\<lambda>c. c = CHR ''/'') path in
      if p = [] then None
      else (let elem = takeWhile (\<lambda>c. c \<noteq> CHR ''/'') p;
                rest = dropWhile (\<lambda>c. c \<noteq> CHR ''/'') p;
                len = length elem;
                name' = (if DIRSIZ \<le> len then take DIRSIZ elem
                         else elem @ [NUL] @ drop (len + 1) name)
            in Some (dropWhile (\<lambda>c. c = CHR ''/'') rest, name')))"

lemma skipelem_shorter: "skipelem path name = Some (path', name') \<Longrightarrow> length path' < length path"
proof -
  assume s: "skipelem path name = Some (path', name')"
  let ?p = "dropWhile (\<lambda>c. c = CHR ''/'') path"
  have p: "?p \<noteq> []" and path': "path' = dropWhile (\<lambda>c. c = CHR ''/'') (dropWhile (\<lambda>c. c \<noteq> CHR ''/'') ?p)"
    using s by (auto simp: skipelem_def Let_def split: if_splits)
  obtain c cs where c: "?p = c # cs" using p by (cases ?p) auto
  have "hd ?p \<noteq> CHR ''/''" by (rule hd_dropWhile [OF p])
  then have "c \<noteq> CHR ''/''" using c by simp
  then have "dropWhile (\<lambda>c. c \<noteq> CHR ''/'') ?p = dropWhile (\<lambda>c. c \<noteq> CHR ''/'') cs"
    using c by simp
  then have "length (dropWhile (\<lambda>c. c \<noteq> CHR ''/'') ?p) \<le> length cs"
    by (simp only: length_dropWhile_le)
  then have "length path' \<le> length cs"
    unfolding path' by (rule order_trans [OF length_dropWhile_le])
  moreover have "Suc (length cs) \<le> length path"
    using c length_dropWhile_le [of "\<lambda>c. c = CHR ''/''" path] by simp
  ultimately show ?thesis by simp
qed

text \<open>The result is the inode, if any, and the contents of \<open>name\<close>.\<close>

function namex_loop :: "nat \<Rightarrow> string \<Rightarrow> bool \<Rightarrow> char list \<Rightarrow> ('a fs_state_scheme, nat option \<times> char list) kfun" where
  "namex_loop ip path parent name =
     (case skipelem path name of
        None \<Rightarrow> if parent then kthen (iput ip) (kret (None, name)) else kret (Some ip, name)
      | Some (path', name') \<Rightarrow>
          kthen (ilock ip) (with_inode ip (\<lambda>p.
            if itype p \<noteq> T_DIR then kthen (iunlockput ip) (kret (None, name'))
            else if parent \<and> path' = [] then kthen (iunlock ip) (kret (Some ip, name'))
            else kbind (dirlookup ip name') (\<lambda>f. case f of
                None \<Rightarrow> kthen (iunlockput ip) (kret (None, name'))
              | Some (nx, off) \<Rightarrow> kthen (iunlockput ip) (namex_loop nx path' parent name')))))"
  by pat_completeness auto
termination
  by (relation "measure (\<lambda>(ip, path, parent, name). length path)") (auto simp: skipelem_shorter)

declare namex_loop.simps [simp del]

definition namex :: "string \<Rightarrow> bool \<Rightarrow> ('a fs_state_scheme, nat option \<times> char list) kfun" where
  "namex path parent =
     kbind (if char_at path 0 = CHR ''/'' then iget ROOTDEV ROOTINO
            else with_myproc (\<lambda>me. kbind (kget (\<lambda>s. pcwd (procs s me))) (\<lambda>c. case c of
                None \<Rightarrow> kundef | Some i \<Rightarrow> idup i)))
       (\<lambda>ip. namex_loop ip path parent (replicate DIRSIZ NUL))"

definition namei :: "string \<Rightarrow> ('a fs_state_scheme, nat option) kfun" where
  "namei path = kbind (namex path False) (\<lambda>(ip, name). kret ip)"

definition nameiparent :: "string \<Rightarrow> ('a fs_state_scheme, nat option \<times> char list) kfun" where
  "nameiparent path = namex path True"

end
