(* ===== verification/Console.thy ===== *)
theory Console
  imports Dir
begin

text \<open>
  The console: kernel/console.c with its input ring, and the interrupt handler of
  kernel/uart.c that feeds it. devsw of kernel/file.c is part of the state, since
  consoleinit fills it.
\<close>

definition INPUT_BUF_SIZE :: nat where "INPUT_BUF_SIZE = 128"
definition CONSOLE :: nat where "CONSOLE = 1"

text \<open>The functions devsw may point to, by their driver.\<close>

datatype driver = DrvConsole

text \<open>\<open>cons_buf\<close> has INPUT_BUF_SIZE characters; the indices count bytes and wrap around.\<close>

record cons_state = fs_state +
  cons_buf :: "char list"
  cons_r :: u32
  cons_w :: u32
  cons_e :: u32
  dev_read :: "nat \<Rightarrow> driver option"
  dev_write :: "nat \<Rightarrow> driver option"

text \<open>\<open>C(x)\<close>: the code of a control key.\<close>

definition ctrl :: "char \<Rightarrow> int" where "ctrl x = of_char x - of_char CHR ''@''"

section \<open>Output\<close>

text \<open>Batches of 32 bytes; the result is the number written before a copy failed.\<close>

primrec consolewrite_loop :: "nat \<Rightarrow> bool \<Rightarrow> u64 \<Rightarrow> int \<Rightarrow> int \<Rightarrow> ('a cons_state_scheme, int) kfun" where
  "consolewrite_loop 0 user_src src n i = (if i < n then knofuel else kret i)"
| "consolewrite_loop (Suc fuel) user_src src n i =
     (if i < n then
        (let nn = (if 32 > n - i then n - i else 32) in
         kbind (either_copyin user_src (src + word_of_int i) (nat nn)) (\<lambda>(r, bs).
           if r = -1 then kret i
           else kthen (uartwrite (map char_of_byte bs)) (consolewrite_loop fuel user_src src n (i + nn))))
      else kret i)"

definition consolewrite :: "bool \<Rightarrow> u64 \<Rightarrow> int \<Rightarrow> ('a cons_state_scheme, int) kfun" where
  "consolewrite user_src src n = consolewrite_loop (nat n) user_src src n 0"

section \<open>Input\<close>

text \<open>
  The waiting loop of consoleread: True when there is input, False when the process was
  killed (the lock is released then).
\<close>

definition cons_wait :: "('a cons_state_scheme, bool) kfun" where
  "cons_wait = kretry
     (kif (\<lambda>s. cons_r s = cons_w s)
        (with_myproc (\<lambda>p. kbind (killed p) (\<lambda>k.
           if k then kthen (release LkCons) (kret (Some False)) else kret None)))
        (kret (Some True)))
     (sleep ChConsR LkCons)"

text \<open>The value is what is left of \<open>n\<close>, or \<open>None\<close> after the return of -1.\<close>

primrec consoleread_loop :: "nat \<Rightarrow> bool \<Rightarrow> u64 \<Rightarrow> nat \<Rightarrow> ('a cons_state_scheme, nat option) kfun" where
  "consoleread_loop 0 user_dst dst target = kret (Some 0)"
| "consoleread_loop (Suc n) user_dst dst target =
     kbind cons_wait (\<lambda>ready.
       if \<not> ready then kret None
       else kbind (kget (\<lambda>s. cons_buf s ! (unat (cons_r s) mod INPUT_BUF_SIZE))) (\<lambda>c.
         kthen (kmod (\<lambda>s. s\<lparr>cons_r := cons_r s + 1\<rparr>))
         (if of_char c = ctrl CHR ''D'' then
            kthen (if Suc n < target then kmod (\<lambda>s. s\<lparr>cons_r := cons_r s - 1\<rparr>) else kret ())
              (kret (Some (Suc n)))
          else kbind (either_copyout user_dst dst [byte_of c]) (\<lambda>r.
            if r = -1 then kret (Some (Suc n))
            else if c = CHR 0x0A then kret (Some n)
            else consoleread_loop n user_dst (dst + 1) target))))"

definition consoleread :: "bool \<Rightarrow> u64 \<Rightarrow> int \<Rightarrow> ('a cons_state_scheme, int) kfun" where
  "consoleread user_dst dst n =
     kthen (acquire LkCons)
     (kbind (consoleread_loop (nat n) user_dst dst (nat n)) (\<lambda>r. case r of
        None \<Rightarrow> kret (-1)
      | Some left \<Rightarrow> kthen (release LkCons) (kret (int (nat n) - int left))))"

text \<open>The editing keys of the interrupt handler.\<close>

definition cons_erase :: "('a cons_state_scheme, unit) kfun" where
  "cons_erase = kthen (kmod (\<lambda>s. s\<lparr>cons_e := cons_e s - 1\<rparr>)) (consputc BACKSPACE)"

definition cons_kill_line :: "('a cons_state_scheme, unit) kfun" where
  "cons_kill_line = kbind (kget (\<lambda>s. unat (cons_e s - cons_w s))) (\<lambda>n.
     kwhile n (\<lambda>s. cons_e s \<noteq> cons_w s \<and> cons_buf s ! (unat (cons_e s - 1) mod INPUT_BUF_SIZE) \<noteq> CHR 0x0A)
       cons_erase)"

definition cons_put :: "char \<Rightarrow> 'a cons_state_scheme \<Rightarrow> 'a cons_state_scheme" where
  "cons_put c s = s\<lparr>cons_buf := (cons_buf s)[unat (cons_e s) mod INPUT_BUF_SIZE := c], cons_e := cons_e s + 1\<rparr>"

definition cons_input :: "int \<Rightarrow> ('a cons_state_scheme, unit) kfun" where
  "cons_input c0 = kwhen (\<lambda>s. c0 \<noteq> 0 \<and> unat (cons_e s - cons_r s) < INPUT_BUF_SIZE)
     (let c = (if c0 = 0x0D then 0x0A else c0) in kseq
       [ consputc c,
         kmod (cons_put (code_char c)),
         kwhen (\<lambda>s. c = 0x0A \<or> c = ctrl CHR ''D'' \<or> unat (cons_e s - cons_r s) = INPUT_BUF_SIZE)
           (kthen (kmod (\<lambda>s. s\<lparr>cons_w := cons_e s\<rparr>)) (wakeup ChConsR)) ])"

definition consoleintr :: "int \<Rightarrow> ('a cons_state_scheme, unit) kfun" where
  "consoleintr c = kseq
     [ acquire LkCons,
       (if c = ctrl CHR ''P'' then procdump
        else if c = ctrl CHR ''U'' then cons_kill_line
        else if c = ctrl CHR ''H'' \<or> c = 0x7F then kwhen (\<lambda>s. cons_e s \<noteq> cons_w s) cons_erase
        else cons_input c),
       release LkCons ]"

definition consoleinit :: "('a cons_state_scheme, unit) kfun" where
  "consoleinit = kseq
     [ initlock LkCons ''cons'',
       uartinit,
       kmod (\<lambda>s. s\<lparr>dev_read := (dev_read s)(CONSOLE := Some DrvConsole)\<rparr>),
       kmod (\<lambda>s. s\<lparr>dev_write := (dev_write s)(CONSOLE := Some DrvConsole)\<rparr>) ]"

section \<open>uartintr (uart.c)\<close>

text \<open>
  The loop ends when the receive FIFO is empty; the device may fill it while a round waits
  for the console lock, so \<open>fuel\<close> bounds the number of characters handled.
\<close>

primrec uartintr_loop :: "nat \<Rightarrow> ('a cons_state_scheme, unit) kfun" where
  "uartintr_loop 0 = knofuel"
| "uartintr_loop (Suc fuel) = kbind uartgetc (\<lambda>c.
     if c = -1 then kret () else kthen (consoleintr c) (uartintr_loop fuel))"

definition uartintr :: "nat \<Rightarrow> ('a cons_state_scheme, unit) kfun" where
  "uartintr fuel = kseq
     [ acquire LkUartTx,
       kwhen uart_idle (kthen (kmod (\<lambda>s. s\<lparr>tx_busy := 0\<rparr>)) (wakeup ChTx)),
       release LkUartTx,
       uartintr_loop fuel ]"

end
