(* ===== verification/Pipe.thy ===== *)
theory Pipe
  imports Console
begin

text \<open>
  Pipes: kernel/pipe.c, apart from pipealloc, which is in \<open>File\<close> with the file table it
  uses. A pipe sits in a page of its own; it is named by the address of that page, and its
  fields are kept beside physical memory.
\<close>

definition PIPESIZE :: nat where "PIPESIZE = 512"

text \<open>struct pipe without its lock (\<open>LkPipe pi\<close>); \<open>pi_data\<close> has PIPESIZE bytes.\<close>

record pipe =
  pi_data :: "u8 list"
  pi_nread :: u32
  pi_nwrite :: u32
  pi_readopen :: bool
  pi_writeopen :: bool

record pipe_state = cons_state +
  pipes :: "u64 \<Rightarrow> pipe"

definition set_pipe :: "u64 \<Rightarrow> (pipe \<Rightarrow> pipe) \<Rightarrow> 'a pipe_state_scheme \<Rightarrow> 'a pipe_state_scheme" where
  "set_pipe pi f s = s\<lparr>pipes := (pipes s)(pi := f (pipes s pi))\<rparr>"

definition pipeclose :: "u64 \<Rightarrow> bool \<Rightarrow> ('a pipe_state_scheme, unit) kfun" where
  "pipeclose pi writable = kseq
     [ acquire (LkPipe pi),
       (if writable then
          kthen (kmod (set_pipe pi (\<lambda>p. p\<lparr>pi_writeopen := False\<rparr>))) (wakeup (ChPipeR pi))
        else
          kthen (kmod (set_pipe pi (\<lambda>p. p\<lparr>pi_readopen := False\<rparr>))) (wakeup (ChPipeW pi))),
       kif (\<lambda>s. \<not> pi_readopen (pipes s pi) \<and> \<not> pi_writeopen (pipes s pi))
         (kthen (release (LkPipe pi)) (kfree pi))
         (release (LkPipe pi)) ]"

text \<open>The ring: write and read one byte.\<close>

definition pipe_put :: "u8 \<Rightarrow> pipe \<Rightarrow> pipe" where
  "pipe_put ch p = p\<lparr>pi_data := (pi_data p)[unat (pi_nwrite p) mod PIPESIZE := ch], pi_nwrite := pi_nwrite p + 1\<rparr>"

definition pipe_next :: "pipe \<Rightarrow> u8" where
  "pipe_next p = pi_data p ! (unat (pi_nread p) mod PIPESIZE)"

definition pipe_full :: "pipe \<Rightarrow> bool" where
  "pipe_full p \<longleftrightarrow> pi_nwrite p = pi_nread p + of_nat PIPESIZE"

text \<open>
  The value is the count written, \<open>None\<close> after the return of -1 (lock released). A round
  writes a byte, ends the loop, or sleeps, which takes an action of the environment.
\<close>

primrec pipewrite_loop :: "nat \<Rightarrow> nat \<Rightarrow> u64 \<Rightarrow> u64 \<Rightarrow> int \<Rightarrow> int \<Rightarrow> ('a pipe_state_scheme, int option) kfun" where
  "pipewrite_loop 0 pr pi addr n i = (if i < n then knofuel else kret (Some i))"
| "pipewrite_loop (Suc fuel) pr pi addr n i =
     (if i < n then
        kbind (kif (\<lambda>s. \<not> pi_readopen (pipes s pi)) (kret True) (killed pr)) (\<lambda>dead.
          if dead then kthen (release (LkPipe pi)) (kret None)
          else kif (\<lambda>s. pipe_full (pipes s pi))
            (kthen (wakeup (ChPipeR pi))
              (kthen (sleep (ChPipeW pi) (LkPipe pi)) (pipewrite_loop fuel pr pi addr n i)))
            (kbind (kget (\<lambda>s. ppagetable (procs s pr))) (\<lambda>pt.
              kbind (copyin pt (addr + word_of_int i) 1) (\<lambda>(r, bs).
                if r = -1 then kret (Some i)
                else kthen (kmod (set_pipe pi (pipe_put (bs ! 0))))
                  (pipewrite_loop fuel pr pi addr n (i + 1))))))
      else kret (Some i))"

definition pipewrite :: "u64 \<Rightarrow> u64 \<Rightarrow> int \<Rightarrow> ('a pipe_state_scheme, int) kfun" where
  "pipewrite pi addr n = with_myproc (\<lambda>pr.
     kthen (acquire (LkPipe pi))
     (kbind (\<lambda>w. pipewrite_loop (Suc (nat n + length (snd w))) pr pi addr n 0 w) (\<lambda>r. case r of
        None \<Rightarrow> kret (-1)
      | Some i \<Rightarrow> kthen (kseq [wakeup (ChPipeR pi), release (LkPipe pi)]) (kret i))))"

text \<open>True when the reader may go on, False when it was killed (lock released).\<close>

definition pipe_wait :: "nat \<Rightarrow> u64 \<Rightarrow> ('a pipe_state_scheme, bool) kfun" where
  "pipe_wait pr pi = kretry
     (kif (\<lambda>s. pi_nread (pipes s pi) = pi_nwrite (pipes s pi) \<and> pi_writeopen (pipes s pi))
        (kbind (killed pr) (\<lambda>k.
           if k then kthen (release (LkPipe pi)) (kret (Some False)) else kret None))
        (kret (Some True)))
     (sleep (ChPipeR pi) (LkPipe pi))"

primrec piperead_loop :: "nat \<Rightarrow> nat \<Rightarrow> u64 \<Rightarrow> u64 \<Rightarrow> int \<Rightarrow> ('a pipe_state_scheme, int) kfun" where
  "piperead_loop 0 pr pi addr i = kret i"
| "piperead_loop (Suc n) pr pi addr i =
     kif (\<lambda>s. pi_nread (pipes s pi) = pi_nwrite (pipes s pi)) (kret i)
       (kbind (kget (\<lambda>s. pipe_next (pipes s pi))) (\<lambda>ch.
        kbind (kget (\<lambda>s. ppagetable (procs s pr))) (\<lambda>pt.
        kbind (copyout pt (addr + word_of_int i) [ch]) (\<lambda>r.
          if r = -1 then kret (if i = 0 then -1 else i)
          else kthen (kmod (set_pipe pi (\<lambda>p. p\<lparr>pi_nread := pi_nread p + 1\<rparr>)))
            (piperead_loop n pr pi addr (i + 1))))))"

definition piperead :: "u64 \<Rightarrow> u64 \<Rightarrow> int \<Rightarrow> ('a pipe_state_scheme, int) kfun" where
  "piperead pi addr n = with_myproc (\<lambda>pr.
     kthen (acquire (LkPipe pi))
     (kbind (pipe_wait pr pi) (\<lambda>ok.
        if \<not> ok then kret (-1)
        else kbind (piperead_loop (nat n) pr pi addr 0) (\<lambda>i.
          kthen (kseq [wakeup (ChPipeW pi), release (LkPipe pi)]) (kret i)))))"

end
