(* ===== verification/File.thy ===== *)
theory File
  imports Pipe
begin

text \<open>
  Open files: kernel/file.h, kernel/file.c, and pipealloc of kernel/pipe.c.
\<close>

section \<open>The file table\<close>

datatype fdtype = FD_NONE | FD_PIPE | FD_INODE | FD_DEVICE

text \<open>struct file; the pipe is the address of its page, the inode an index of the inode table.\<close>

record kfile =
  f_type :: fdtype
  f_ref :: int
  f_readable :: bool
  f_writable :: bool
  f_pipe :: u64
  f_ip :: "nat option"
  f_off :: u32
  f_major :: u16

record file_state = pipe_state +
  files :: "nat \<Rightarrow> kfile"

definition set_file :: "nat \<Rightarrow> (kfile \<Rightarrow> kfile) \<Rightarrow> 'a file_state_scheme \<Rightarrow> 'a file_state_scheme" where
  "set_file f g s = s\<lparr>files := (files s)(f := g (files s f))\<rparr>"

definition fileinit :: "('a file_state_scheme, unit) kfun" where
  "fileinit = initlock LkFtable ''ftable''"

definition file_free :: "(nat \<Rightarrow> kfile) \<Rightarrow> nat option" where
  "file_free fs = find (\<lambda>f. f_ref (fs f) = 0) [0..<NFILE]"

definition filealloc :: "('a file_state_scheme, nat option) kfun" where
  "filealloc =
     kthen (acquire LkFtable)
     (kbind (kget (\<lambda>s. file_free (files s))) (\<lambda>r. case r of
        Some f \<Rightarrow> kthen (kseq
          [ kmod (set_file f (\<lambda>q. q\<lparr>f_ref := 1\<rparr>)),
            release LkFtable ]) (kret (Some f))
      | None \<Rightarrow> kthen (release LkFtable) (kret None)))"

definition filedup :: "nat \<Rightarrow> ('a file_state_scheme, nat) kfun" where
  "filedup f = kthen (kseq
     [ acquire LkFtable,
       kwhen (\<lambda>s. f_ref (files s f) < 1) (kpanic ''filedup''),
       kmod (set_file f (\<lambda>q. q\<lparr>f_ref := f_ref q + 1\<rparr>)),
       release LkFtable ]) (kret f)"

text \<open>\<open>f->ip\<close> where the code dereferences it.\<close>

definition with_ip :: "kfile \<Rightarrow> (nat \<Rightarrow> ('s, 'b) kfun) \<Rightarrow> ('s, 'b) kfun" where
  "with_ip q k = (case f_ip q of None \<Rightarrow> kundef | Some i \<Rightarrow> k i)"

definition fileclose :: "nat \<Rightarrow> ('a file_state_scheme, unit) kfun" where
  "fileclose f = kseq
     [ acquire LkFtable,
       kwhen (\<lambda>s. f_ref (files s f) < 1) (kpanic ''fileclose''),
       kmod (set_file f (\<lambda>q. q\<lparr>f_ref := f_ref q - 1\<rparr>)),
       kif (\<lambda>s. 0 < f_ref (files s f)) (release LkFtable)
         (kbind (kget (\<lambda>s. files s f)) (\<lambda>ff. kseq
           [ kmod (set_file f (\<lambda>q. q\<lparr>f_ref := 0\<rparr>)),
             kmod (set_file f (\<lambda>q. q\<lparr>f_type := FD_NONE\<rparr>)),
             release LkFtable,
             (if f_type ff = FD_PIPE then pipeclose (f_pipe ff) (f_writable ff)
              else if f_type ff = FD_INODE \<or> f_type ff = FD_DEVICE
              then kseq [begin_op, with_ip ff iput, end_op]
              else kret ()) ])) ]"

section \<open>Reading and writing\<close>

text \<open>struct stat in memory; \<open>pad\<close> is what the four bytes of padding before size hold.\<close>

definition stat_bytes :: "u8 list \<Rightarrow> stat \<Rightarrow> u8 list" where
  "stat_bytes pad st = le_enc 4 (unat (st_dev st)) @ le_enc 4 (unat (st_ino st)) @
     le_enc 2 (unat (st_type st)) @ le_enc 2 (unat (st_nlink st)) @ take 4 pad @ le_enc 8 (unat (st_size st))"

definition filestat :: "u8 list \<Rightarrow> nat \<Rightarrow> u64 \<Rightarrow> ('a file_state_scheme, int) kfun" where
  "filestat pad f addr = with_myproc (\<lambda>p. kbind (kget (\<lambda>s. files s f)) (\<lambda>q.
     if f_type q = FD_INODE \<or> f_type q = FD_DEVICE then
       with_ip q (\<lambda>ip.
         kthen (ilock ip)
         (kbind (stati ip) (\<lambda>st.
          kthen (iunlock ip)
          (kbind (kget (\<lambda>s. ppagetable (procs s p))) (\<lambda>pt.
           kbind (copyout pt addr (stat_bytes pad st)) (\<lambda>r.
             kret (if r < 0 then -1 else 0)))))))
     else kret (-1)))"

definition dev_bad :: "u16 \<Rightarrow> bool" where
  "dev_bad mj \<longleftrightarrow> sint mj < 0 \<or> int NDEV \<le> sint mj"

definition fileread :: "nat \<Rightarrow> u64 \<Rightarrow> int \<Rightarrow> ('a file_state_scheme, int) kfun" where
  "fileread f addr n = kbind (kget (\<lambda>s. files s f)) (\<lambda>q.
     if \<not> f_readable q then kret (-1)
     else if f_type q = FD_PIPE then piperead (f_pipe q) addr n
     else if f_type q = FD_DEVICE then
       (if dev_bad (f_major q) then kret (-1)
        else kbind (kget (\<lambda>s. dev_read s (unat (f_major q)))) (\<lambda>d. case d of
            None \<Rightarrow> kret (-1)
          | Some DrvConsole \<Rightarrow> consoleread True addr n))
     else if f_type q = FD_INODE then
       with_ip q (\<lambda>ip.
         kthen (ilock ip)
         (kbind (kget (\<lambda>s. f_off (files s f))) (\<lambda>off.
          kbind (readi ip True addr off (word_of_int n)) (\<lambda>r.
            kthen (if 0 < r then kmod (set_file f (\<lambda>q. q\<lparr>f_off := f_off q + word_of_int r\<rparr>)) else kret ())
            (kthen (iunlock ip) (kret r))))))
     else kpanic ''fileread'')"

text \<open>At most \<open>fw_max\<close> bytes per transaction of the log.\<close>

definition fw_max :: int where
  "fw_max = int (((MAXOPBLOCKS - 1 - 1 - 2) div 2) * BSIZE)"

primrec filewrite_loop :: "nat \<Rightarrow> nat \<Rightarrow> nat \<Rightarrow> u64 \<Rightarrow> int \<Rightarrow> int \<Rightarrow> ('a file_state_scheme, int) kfun" where
  "filewrite_loop 0 f ip addr n i = (if i < n then knofuel else kret i)"
| "filewrite_loop (Suc fuel) f ip addr n i =
     (if i < n then
        (let n1 = (if fw_max < n - i then fw_max else n - i) in
         kthen (kseq [begin_op, ilock ip])
         (kbind (kget (\<lambda>s. f_off (files s f))) (\<lambda>off.
          kbind (writei ip True (addr + word_of_int i) off (word_of_int n1)) (\<lambda>r.
            kthen (if 0 < r then kmod (set_file f (\<lambda>q. q\<lparr>f_off := f_off q + word_of_int r\<rparr>)) else kret ())
            (kthen (kseq [iunlock ip, end_op])
              (if r \<noteq> n1 then kret i else filewrite_loop fuel f ip addr n (i + r)))))))
      else kret i)"

definition filewrite :: "nat \<Rightarrow> u64 \<Rightarrow> int \<Rightarrow> ('a file_state_scheme, int) kfun" where
  "filewrite f addr n = kbind (kget (\<lambda>s. files s f)) (\<lambda>q.
     if \<not> f_writable q then kret (-1)
     else if f_type q = FD_PIPE then pipewrite (f_pipe q) addr n
     else if f_type q = FD_DEVICE then
       (if dev_bad (f_major q) then kret (-1)
        else kbind (kget (\<lambda>s. dev_write s (unat (f_major q)))) (\<lambda>d. case d of
            None \<Rightarrow> kret (-1)
          | Some DrvConsole \<Rightarrow> consolewrite True addr n))
     else if f_type q = FD_INODE then
       with_ip q (\<lambda>ip. kbind (filewrite_loop (nat n) f ip addr n 0) (\<lambda>i.
         kret (if i = n then n else -1)))
     else kpanic ''filewrite'')"

section \<open>pipealloc (pipe.c)\<close>

text \<open>The failure path: whatever was obtained is given back.\<close>

definition pipealloc_bad :: "nat option \<Rightarrow> nat option \<Rightarrow> ('a file_state_scheme, (nat \<times> nat) option) kfun" where
  "pipealloc_bad f0 f1 = kthen (kseq
     [ (case f0 of None \<Rightarrow> kret () | Some f \<Rightarrow> fileclose f),
       (case f1 of None \<Rightarrow> kret () | Some f \<Rightarrow> fileclose f) ]) (kret None)"

text \<open>The result is the pair \<open>(f0, f1)\<close>, or \<open>None\<close> for -1.\<close>

definition pipealloc :: "('a file_state_scheme, (nat \<times> nat) option) kfun" where
  "pipealloc = kbind filealloc (\<lambda>r0. case r0 of
       None \<Rightarrow> pipealloc_bad None None
     | Some f0 \<Rightarrow> kbind filealloc (\<lambda>r1. case r1 of
         None \<Rightarrow> pipealloc_bad (Some f0) None
       | Some f1 \<Rightarrow> kbind kalloc (\<lambda>pi.
           if pi = 0 then pipealloc_bad (Some f0) (Some f1)
           else kthen (kseq
             [ kmod (set_pipe pi (\<lambda>p. p\<lparr>pi_readopen := True\<rparr>)),
               kmod (set_pipe pi (\<lambda>p. p\<lparr>pi_writeopen := True\<rparr>)),
               kmod (set_pipe pi (\<lambda>p. p\<lparr>pi_nwrite := 0\<rparr>)),
               kmod (set_pipe pi (\<lambda>p. p\<lparr>pi_nread := 0\<rparr>)),
               initlock (LkPipe pi) ''pipe'',
               kmod (set_file f0 (\<lambda>q. q\<lparr>f_type := FD_PIPE, f_readable := True, f_writable := False, f_pipe := pi\<rparr>)),
               kmod (set_file f1 (\<lambda>q. q\<lparr>f_type := FD_PIPE, f_readable := False, f_writable := True, f_pipe := pi\<rparr>)) ])
             (kret (Some (f0, f1))))))"

end
