(* ===== verification/Proc.thy ===== *)
theory Proc
  imports File
begin

text \<open>
  The life of a process: the rest of kernel/proc.c (allocproc, freeproc, page tables,
  growproc, kfork, kexit, kwait), above the file system it uses. forkret is in \<open>Trap\<close>.
\<close>

section \<open>The trapframe (proc.h)\<close>

text \<open>struct trapframe lies in a page of physical memory; these are the offsets of its fields.\<close>

definition TF_kernel_satp :: u64 where "TF_kernel_satp = 0"
definition TF_kernel_sp :: u64 where "TF_kernel_sp = 8"
definition TF_kernel_trap :: u64 where "TF_kernel_trap = 16"
definition TF_epc :: u64 where "TF_epc = 24"
definition TF_kernel_hartid :: u64 where "TF_kernel_hartid = 32"
definition TF_sp :: u64 where "TF_sp = 48"
definition TF_a0 :: u64 where "TF_a0 = 112"
definition TF_a1 :: u64 where "TF_a1 = 120"
definition TF_a7 :: u64 where "TF_a7 = 168"
definition TF_SIZE :: u64 where "TF_SIZE = 288"

definition tf_get :: "nat \<Rightarrow> u64 \<Rightarrow> ('a sched_state_scheme, u64) kfun" where
  "tf_get p o' = kbind (kget (\<lambda>s. ptrapframe (procs s p))) (\<lambda>tf. kload (tf + o'))"

definition tf_set :: "nat \<Rightarrow> u64 \<Rightarrow> u64 \<Rightarrow> ('a sched_state_scheme, unit) kfun" where
  "tf_set p o' v = kbind (kget (\<lambda>s. ptrapframe (procs s p))) (\<lambda>tf. kstore (tf + o') v)"

text \<open>An int as the 64-bit register it is returned in.\<close>

definition reg_of_int :: "int \<Rightarrow> u64" where
  "reg_of_int v = scast (word_of_int v :: u32)"

section \<open>Allocation\<close>

definition proc_freepagetable :: "u64 \<Rightarrow> u64 \<Rightarrow> ('a kmem_state_scheme, unit) kfun" where
  "proc_freepagetable pagetable sz = kseq
     [ uvmunmap pagetable TRAMPOLINE 1 False,
       uvmunmap pagetable TRAPFRAME 1 False,
       uvmfree pagetable sz ]"

definition proc_pagetable :: "nat \<Rightarrow> ('a kmem_state_scheme, u64) kfun" where
  "proc_pagetable p = kbind uvmcreate (\<lambda>pagetable.
     if pagetable = 0 then kret 0
     else kbind (kget (\<lambda>s. trampoline (image s))) (\<lambda>tr.
       kbind (mappages pagetable TRAMPOLINE PGSIZE tr (PTE_R OR PTE_X)) (\<lambda>r.
         if r < 0 then kthen (uvmfree pagetable 0) (kret 0)
         else kbind (kget (\<lambda>s. ptrapframe (procs s p))) (\<lambda>tf.
           kbind (mappages pagetable TRAPFRAME PGSIZE tf (PTE_R OR PTE_W)) (\<lambda>r.
             if r < 0 then kthen (kseq
                 [ uvmunmap pagetable TRAMPOLINE 1 False,
                   uvmfree pagetable 0 ]) (kret 0)
             else kret pagetable)))))"

definition freeproc :: "nat \<Rightarrow> ('a kmem_state_scheme, unit) kfun" where
  "freeproc p = kseq
     [ kbind (kget (\<lambda>s. ptrapframe (procs s p))) (\<lambda>tf. if tf \<noteq> 0 then kfree tf else kret ()),
       kmod (set_proc p (\<lambda>q. q\<lparr>ptrapframe := 0\<rparr>)),
       kbind (kget (\<lambda>s. procs s p)) (\<lambda>q.
         if ppagetable q \<noteq> 0 then proc_freepagetable (ppagetable q) (psz q) else kret ()),
       kmod (set_proc p (\<lambda>q. q\<lparr>ppagetable := 0\<rparr>)),
       kmod (set_proc p (\<lambda>q. q\<lparr>psz := 0, pid := 0, pparent := None, pname := (pname q)[0 := NUL],
         pchan := None, pkilled := False, pxstate := 0\<rparr>)),
       kmod (set_proc p (\<lambda>q. q\<lparr>pstate := UNUSED\<rparr>)) ]"

text \<open>The first unused process, with its lock held.\<close>

definition find_unused :: "('a sched_state_scheme, nat option) kfun" where
  "find_unused = kfind [0..<NPROC] (\<lambda>i.
     kthen (acquire (LkProc i))
     (kif (\<lambda>s. pstate (procs s i) = UNUSED) (kret (Some i))
       (kthen (release (LkProc i)) (kret None))))"

definition allocproc_fail :: "nat \<Rightarrow> ('a kmem_state_scheme, nat option) kfun" where
  "allocproc_fail p = kthen (kseq [freeproc p, release (LkProc p)]) (kret None)"

definition allocproc :: "('a kmem_state_scheme, nat option) kfun" where
  "allocproc = kbind find_unused (\<lambda>r. case r of
       None \<Rightarrow> kret None
     | Some p \<Rightarrow>
         kbind allocpid (\<lambda>np.
         kthen (kseq
           [ kmod (set_proc p (\<lambda>q. q\<lparr>pid := np\<rparr>)),
             kmod (set_proc p (\<lambda>q. q\<lparr>pstate := USED\<rparr>)) ])
         (kbind kalloc (\<lambda>tf.
          kthen (kmod (set_proc p (\<lambda>q. q\<lparr>ptrapframe := tf\<rparr>)))
          (if tf = 0 then allocproc_fail p
           else kbind (proc_pagetable p) (\<lambda>pt.
             kthen (kmod (set_proc p (\<lambda>q. q\<lparr>ppagetable := pt\<rparr>)))
             (if pt = 0 then allocproc_fail p
              else kbind (kget (\<lambda>s. forkret_addr (image s))) (\<lambda>fa.
                kthen (kmod (set_proc p (\<lambda>q. q\<lparr>pcontext :=
                  \<lparr>ctx_ra = fa, ctx_sp = kstack q + PGSIZE, ctx_s = (\<lambda>_. 0)\<rparr>\<rparr>)))
                (kret (Some p))))))))))"

definition userinit :: "('a file_state_scheme, unit) kfun" where
  "userinit = kbind allocproc (\<lambda>r.
     kthen (kmod (\<lambda>s. s\<lparr>initproc := r\<rparr>))
     (case r of None \<Rightarrow> kundef
      | Some p \<Rightarrow> kseq
          [ kbind (namei ''/'') (\<lambda>ip. kmod (set_proc p (\<lambda>q. q\<lparr>pcwd := ip\<rparr>))),
            kmod (set_proc p (\<lambda>q. q\<lparr>pstate := RUNNABLE\<rparr>)),
            release (LkProc p) ]))"

definition growproc :: "int \<Rightarrow> ('a kmem_state_scheme, int) kfun" where
  "growproc n = with_myproc (\<lambda>p. kbind (kget (\<lambda>s. procs s p)) (\<lambda>q.
     let sz = psz q; nsz = sz + word_of_int n in
     if 0 < n then
       (if TRAPFRAME < nsz then kret (-1)
        else kbind (uvmalloc (ppagetable q) sz nsz PTE_W) (\<lambda>sz1.
          if sz1 = 0 then kret (-1)
          else kthen (kmod (set_proc p (\<lambda>q. q\<lparr>psz := sz1\<rparr>))) (kret 0)))
     else if n < 0 then
       kbind (uvmdealloc (ppagetable q) sz nsz) (\<lambda>sz1.
         kthen (kmod (set_proc p (\<lambda>q. q\<lparr>psz := sz1\<rparr>))) (kret 0))
     else kthen (kmod (set_proc p (\<lambda>q. q\<lparr>psz := sz\<rparr>))) (kret 0)))"

section \<open>fork, exit, wait\<close>

definition fork_files :: "nat \<Rightarrow> nat \<Rightarrow> ('a file_state_scheme, unit) kfun" where
  "fork_files p np = kfor [0..<NOFILE] (\<lambda>i.
     kbind (kget (\<lambda>s. pofile (procs s p) ! i)) (\<lambda>f. case f of
         None \<Rightarrow> kret ()
       | Some f \<Rightarrow> kbind (filedup f) (\<lambda>g. kmod (set_proc np (\<lambda>q. q\<lparr>pofile := (pofile q)[i := Some g]\<rparr>)))))"

definition kfork :: "('a file_state_scheme, int) kfun" where
  "kfork = with_myproc (\<lambda>p. kbind allocproc (\<lambda>r. case r of
       None \<Rightarrow> kret (-1)
     | Some np \<Rightarrow>
         kbind (kget (\<lambda>s. procs s p)) (\<lambda>q.
         kbind (kget (\<lambda>s. ppagetable (procs s np))) (\<lambda>npt.
         kbind (uvmcopy (ppagetable q) npt (psz q)) (\<lambda>r.
           if r < 0 then kthen (kseq [freeproc np, release (LkProc np)]) (kret (-1))
           else kthen (kseq
             [ kmod (\<lambda>s. set_proc np (\<lambda>x. x\<lparr>psz := psz (procs s p)\<rparr>) s),
               kbind (kget (\<lambda>s. ptrapframe (procs s np))) (\<lambda>ntf.
                 kbind (kget (\<lambda>s. ptrapframe (procs s p))) (\<lambda>tf. kmemmove ntf tf TF_SIZE)),
               tf_set np TF_a0 0,
               fork_files p np,
               kbind (kget (\<lambda>s. pcwd (procs s p))) (\<lambda>c. case c of
                   None \<Rightarrow> kundef
                 | Some i \<Rightarrow> kbind (idup i) (\<lambda>j. kmod (set_proc np (\<lambda>x. x\<lparr>pcwd := Some j\<rparr>)))),
               kmod (\<lambda>s. set_proc np (\<lambda>x. x\<lparr>pname := safestrcpy (pname x) (cstr (pname (procs s p))) 16\<rparr>) s) ])
             (kbind (kget (\<lambda>s. pid (procs s np))) (\<lambda>npid.
               kthen (kseq
                 [ release (LkProc np),
                   acquire LkWait,
                   kmod (set_proc np (\<lambda>x. x\<lparr>pparent := Some p\<rparr>)),
                   release LkWait,
                   acquire (LkProc np),
                   kmod (set_proc np (\<lambda>x. x\<lparr>pstate := RUNNABLE\<rparr>)),
                   release (LkProc np) ])
               (kret npid))))))))"

definition chan_of :: "nat option \<Rightarrow> chan option" where
  "chan_of p = map_option ChProc p"

definition reparent :: "nat \<Rightarrow> ('a sched_state_scheme, unit) kfun" where
  "reparent p = kfor [0..<NPROC] (\<lambda>i.
     kwhen (\<lambda>s. pparent (procs s i) = Some p) (kseq
       [ kmod (\<lambda>s. set_proc i (\<lambda>q. q\<lparr>pparent := initproc s\<rparr>) s),
         kbind (kget initproc) (\<lambda>ip. wakeup_on (chan_of ip)) ]))"

definition exit_files :: "nat \<Rightarrow> ('a file_state_scheme, unit) kfun" where
  "exit_files p = kfor [0..<NOFILE] (\<lambda>fd.
     kbind (kget (\<lambda>s. pofile (procs s p) ! fd)) (\<lambda>f. case f of
         None \<Rightarrow> kret ()
       | Some f \<Rightarrow> kthen (fileclose f) (kmod (set_proc p (\<lambda>q. q\<lparr>pofile := (pofile q)[fd := None]\<rparr>)))))"

text \<open>kexit does not return: it panics if the scheduler ever resumes the zombie.\<close>

definition kexit :: "int \<Rightarrow> ('a file_state_scheme, 'b) kfun" where
  "kexit status = with_myproc (\<lambda>p.
     kthen (kseq
       [ kwhen (\<lambda>s. Some p = initproc s) (kpanic ''init exiting''),
         exit_files p,
         begin_op,
         kbind (kget (\<lambda>s. pcwd (procs s p))) (\<lambda>c. case c of None \<Rightarrow> kundef | Some i \<Rightarrow> iput i),
         end_op,
         kmod (set_proc p (\<lambda>q. q\<lparr>pcwd := None\<rparr>)),
         acquire LkWait,
         reparent p,
         kbind (kget (\<lambda>s. pparent (procs s p))) (\<lambda>pp. wakeup_on (chan_of pp)),
         acquire (LkProc p),
         kmod (set_proc p (\<lambda>q. q\<lparr>pxstate := status\<rparr>)),
         kmod (set_proc p (\<lambda>q. q\<lparr>pstate := ZOMBIE\<rparr>)),
         release LkWait,
         sched ])
     (kpanic ''zombie exit''))"

text \<open>One scan for exited children: the result of kwait, if it is known, and havekids.\<close>

primrec kwait_scan :: "nat \<Rightarrow> u64 \<Rightarrow> nat list \<Rightarrow> bool \<Rightarrow> ('a kmem_state_scheme, int option \<times> bool) kfun" where
  "kwait_scan p addr [] hk = kret (None, hk)"
| "kwait_scan p addr (i # is) hk =
     kif (\<lambda>s. pparent (procs s i) = Some p)
       (kthen (acquire (LkProc i))
        (kif (\<lambda>s. pstate (procs s i) = ZOMBIE)
          (kbind (kget (\<lambda>s. procs s i)) (\<lambda>q.
           kbind (kget (\<lambda>s. ppagetable (procs s p))) (\<lambda>pt.
           kbind (if addr \<noteq> 0 then copyout pt addr (le_enc 4 (unat (word_of_int (pxstate q) :: u32))) else kret 0) (\<lambda>r.
             if r < 0 then kthen (kseq [release (LkProc i), release LkWait]) (kret (Some (-1), True))
             else kthen (kseq [freeproc i, release (LkProc i), release LkWait]) (kret (Some (pid q), True))))))
          (kthen (release (LkProc i)) (kwait_scan p addr is True))))
       (kwait_scan p addr is hk)"

definition kwait :: "u64 \<Rightarrow> ('a kmem_state_scheme, int) kfun" where
  "kwait addr = with_myproc (\<lambda>p.
     kthen (acquire LkWait)
     (kretry
       (kbind (kwait_scan p addr [0..<NPROC] False) (\<lambda>(r, hk). case r of
           Some v \<Rightarrow> kret (Some v)
         | None \<Rightarrow> kbind (if \<not> hk then kret True else killed p) (\<lambda>stop.
             if stop then kthen (release LkWait) (kret (Some (-1))) else kret None)))
       (sleep (ChProc p) LkWait)))"

end
