(* ===== verification/Exec.thy ===== *)
theory Exec
  imports Proc
begin

text \<open>
  exec: kernel/elf.h and kernel/exec.c. The arguments are the strings the kernel pointers
  of \<open>argv\<close> point to.
\<close>

section \<open>ELF headers (elf.h)\<close>

definition ELF_MAGIC :: u32 where "ELF_MAGIC = 0x464C457F"
definition ELF_PROG_LOAD :: u32 where "ELF_PROG_LOAD = 1"
definition ELFHDR_SIZE :: nat where "ELFHDR_SIZE = 64"
definition PROGHDR_SIZE :: nat where "PROGHDR_SIZE = 56"

definition get64 :: "nat \<Rightarrow> u8 list \<Rightarrow> u64" where "get64 off bs = of_nat (get_le 8 off bs)"

text \<open>The fields of the headers the code uses.\<close>

record elfhdr =
  eh_magic :: u32
  eh_entry :: u64
  eh_phoff :: u64
  eh_phnum :: u16

record proghdr =
  ph_type :: u32
  ph_flags :: u32
  ph_off :: u64
  ph_vaddr :: u64
  ph_filesz :: u64
  ph_memsz :: u64

definition elfhdr_of :: "u8 list \<Rightarrow> elfhdr" where
  "elfhdr_of bs = \<lparr>eh_magic = get32 0 bs, eh_entry = get64 24 bs, eh_phoff = get64 32 bs, eh_phnum = get16 56 bs\<rparr>"

definition proghdr_of :: "u8 list \<Rightarrow> proghdr" where
  "proghdr_of bs = \<lparr>ph_type = get32 0 bs, ph_flags = get32 4 bs, ph_off = get64 8 bs, ph_vaddr = get64 16 bs,
     ph_filesz = get64 32 bs, ph_memsz = get64 40 bs\<rparr>"

definition flags2perm :: "u32 \<Rightarrow> u64" where
  "flags2perm flags =
     (let perm = (if flags AND 0x1 \<noteq> 0 then PTE_X else 0)
      in if flags AND 0x2 \<noteq> 0 then perm OR PTE_W else perm)"

section \<open>Loading\<close>

primrec loadseg_loop :: "nat \<Rightarrow> u64 \<Rightarrow> u64 \<Rightarrow> nat \<Rightarrow> u32 \<Rightarrow> u32 \<Rightarrow> u32 \<Rightarrow> ('a file_state_scheme, int) kfun" where
  "loadseg_loop 0 pagetable va ip offset sz i = (if i < sz then knofuel else kret 0)"
| "loadseg_loop (Suc fuel) pagetable va ip offset sz i =
     (if i < sz then
        kbind (walkaddr pagetable (va + ucast i)) (\<lambda>pa.
          if pa = 0 then kpanic ''loadseg: address should exist''
          else
            (let n = (if sz - i < ucast PGSIZE then sz - i else ucast PGSIZE) in
             kbind (readi ip False pa (offset + i) n) (\<lambda>r.
               if (word_of_int r :: u32) \<noteq> n then kret (-1)
               else loadseg_loop fuel pagetable va ip offset sz (i + ucast PGSIZE))))
      else kret 0)"

definition loadseg :: "u64 \<Rightarrow> u64 \<Rightarrow> nat \<Rightarrow> u32 \<Rightarrow> u32 \<Rightarrow> ('a file_state_scheme, int) kfun" where
  "loadseg pagetable va ip offset sz = loadseg_loop (Suc (unat sz div unat PGSIZE)) pagetable va ip offset sz 0"

text \<open>
  The program headers, \<open>n\<close> of them from offset \<open>off\<close>: the size of the image so far, and
  whether all went well.
\<close>

primrec load_phdrs :: "nat \<Rightarrow> u64 \<Rightarrow> nat \<Rightarrow> u32 \<Rightarrow> u64 \<Rightarrow> ('a file_state_scheme, u64 \<times> bool) kfun" where
  "load_phdrs 0 pagetable ip off sz = kret (sz, True)"
| "load_phdrs (Suc n) pagetable ip off sz =
     kbind (readi_local ip off (of_nat PROGHDR_SIZE)) (\<lambda>(r, bs).
       if r \<noteq> int PROGHDR_SIZE then kret (sz, False)
       else (let ph = proghdr_of bs; off' = off + of_nat PROGHDR_SIZE in
         if ph_type ph \<noteq> ELF_PROG_LOAD then load_phdrs n pagetable ip off' sz
         else if ph_memsz ph < ph_filesz ph then kret (sz, False)
         else if ph_vaddr ph + ph_memsz ph < ph_vaddr ph then kret (sz, False)
         else if ph_vaddr ph mod PGSIZE \<noteq> 0 then kret (sz, False)
         else kbind (uvmalloc pagetable sz (ph_vaddr ph + ph_memsz ph) (flags2perm (ph_flags ph))) (\<lambda>sz1.
           if sz1 = 0 then kret (sz, False)
           else kbind (loadseg pagetable (ph_vaddr ph) ip (ucast (ph_off ph)) (ucast (ph_filesz ph))) (\<lambda>r.
             if r < 0 then kret (sz1, False) else load_phdrs n pagetable ip off' sz1))))"

section \<open>The arguments\<close>

text \<open>\<open>sp -= sp % 16\<close>\<close>

definition align16 :: "u64 \<Rightarrow> u64" where "align16 sp = sp - sp mod 16"

definition arg_bytes :: "string \<Rightarrow> u8 list" where "arg_bytes s = map byte_of s @ [0]"

text \<open>
  Pushes the strings from argument \<open>argc\<close> on: the stack pointer and the addresses in
  ustack, \<open>None\<close> for \<open>goto bad\<close>. ustack has MAXARG entries, so the terminating 0 after
  exactly MAXARG arguments would be written outside of it.
\<close>

primrec push_args :: "string list \<Rightarrow> u64 \<Rightarrow> nat \<Rightarrow> u64 \<Rightarrow> u64 \<Rightarrow> u64 list \<Rightarrow>
    ('a kmem_state_scheme, (u64 \<times> u64 list) option) kfun" where
  "push_args [] pagetable argc sp stackbase us =
     (if argc < MAXARG then kret (Some (sp, us @ [0])) else kundef)"
| "push_args (s # ss) pagetable argc sp stackbase us =
     (if MAXARG \<le> argc then kret None
      else
        (let sp' = align16 (sp - of_nat (length s + 1)) in
         if sp' < stackbase then kret None
         else kbind (copyout pagetable sp' (arg_bytes s)) (\<lambda>r.
           if r < 0 then kret None
           else push_args ss pagetable (argc + 1) sp' stackbase (us @ [sp']))))"

definition ustack_bytes :: "u64 list \<Rightarrow> u8 list" where
  "ustack_bytes us = concat (map (\<lambda>a. le_enc 8 (unat a)) us)"

text \<open>The whole stack image: the stack pointer on success.\<close>

definition build_stack :: "string list \<Rightarrow> u64 \<Rightarrow> u64 \<Rightarrow> ('a kmem_state_scheme, u64 option) kfun" where
  "build_stack argv pagetable sz = (let stackbase = sz - USERSTACK * PGSIZE in
     kbind (push_args argv pagetable 0 sz stackbase []) (\<lambda>r. case r of
         None \<Rightarrow> kret None
       | Some (sp, us) \<Rightarrow>
           (let sp' = align16 (sp - of_nat (length us) * 8) in
            if sp' < stackbase then kret None
            else kbind (copyout pagetable sp' (ustack_bytes us)) (\<lambda>r.
              if r < 0 then kret None else kret (Some sp')))))"

section \<open>kexec\<close>

text \<open>\<open>goto bad\<close>\<close>

definition exec_bad :: "u64 \<Rightarrow> u64 \<Rightarrow> nat option \<Rightarrow> ('a file_state_scheme, int) kfun" where
  "exec_bad pagetable sz ip =
     kthen (if pagetable \<noteq> 0 then proc_freepagetable pagetable sz else kret ())
     (kthen (case ip of None \<Rightarrow> kret () | Some i \<Rightarrow> kthen (iunlockput i) end_op)
       (kret (-1)))"

text \<open>The last path component, as in the loop over \<open>path\<close>.\<close>

fun last_elem :: "string \<Rightarrow> string \<Rightarrow> string" where
  "last_elem lst [] = lst"
| "last_elem lst (c # cs) = last_elem (if c = CHR ''/'' then cs else lst) cs"

definition exec_commit :: "string \<Rightarrow> u64 \<Rightarrow> u64 \<Rightarrow> u64 \<Rightarrow> u64 \<Rightarrow> u64 \<Rightarrow> nat \<Rightarrow> ('a kmem_state_scheme, unit) kfun" where
  "exec_commit path pagetable sz oldsz sp entry p = kseq
     [ tf_set p TF_a1 sp,
       kmod (set_proc p (\<lambda>q. q\<lparr>pname := safestrcpy (pname q) (last_elem path path) 16\<rparr>)),
       kbind (kget (\<lambda>s. ppagetable (procs s p))) (\<lambda>oldpt. kseq
         [ kmod (set_proc p (\<lambda>q. q\<lparr>ppagetable := pagetable\<rparr>)),
           kmod (set_proc p (\<lambda>q. q\<lparr>psz := sz\<rparr>)),
           tf_set p TF_epc entry,
           tf_set p TF_sp sp,
           proc_freepagetable oldpt oldsz ]) ]"

text \<open>From the loaded image on; \<open>sz\<close> is its size.\<close>

definition exec_stack :: "string \<Rightarrow> string list \<Rightarrow> u64 \<Rightarrow> u64 \<Rightarrow> u64 \<Rightarrow> ('a file_state_scheme, int) kfun" where
  "exec_stack path argv pagetable sz0 entry = with_myproc (\<lambda>p.
     kbind (kget (\<lambda>s. psz (procs s p))) (\<lambda>oldsz.
       let sz = PGROUNDUP sz0 in
       kbind (uvmalloc pagetable sz (sz + (USERSTACK + 1) * PGSIZE) PTE_W) (\<lambda>sz1.
         if sz1 = 0 then exec_bad pagetable sz None
         else kthen (uvmclear pagetable (sz1 - (USERSTACK + 1) * PGSIZE))
           (kbind (build_stack argv pagetable sz1) (\<lambda>r. case r of
               None \<Rightarrow> exec_bad pagetable sz1 None
             | Some sp \<Rightarrow> kthen (exec_commit path pagetable sz1 oldsz sp entry p) (kret (int (length argv))))))))"

definition kexec :: "string \<Rightarrow> string list \<Rightarrow> ('a file_state_scheme, int) kfun" where
  "kexec path argv = with_myproc (\<lambda>p.
     kthen begin_op
     (kbind (namei path) (\<lambda>r. case r of
         None \<Rightarrow> kthen end_op (kret (-1))
       | Some ip \<Rightarrow>
           kthen (ilock ip)
           (kbind (readi_local ip 0 (of_nat ELFHDR_SIZE)) (\<lambda>(r, bs).
              let elf = elfhdr_of bs in
              if r \<noteq> int ELFHDR_SIZE then exec_bad 0 0 (Some ip)
              else if eh_magic elf \<noteq> ELF_MAGIC then exec_bad 0 0 (Some ip)
              else kbind (proc_pagetable p) (\<lambda>pagetable.
                if pagetable = 0 then exec_bad 0 0 (Some ip)
                else kbind (load_phdrs (unat (eh_phnum elf)) pagetable ip (ucast (eh_phoff elf)) 0) (\<lambda>(sz, ok).
                  if \<not> ok then exec_bad pagetable sz (Some ip)
                  else kthen (kseq [iunlockput ip, end_op])
                    (exec_stack path argv pagetable sz (eh_entry elf)))))))))"

end
