(* ===== verification/Sysproc.thy ===== *)
theory Sysproc
  imports Exec
begin

text \<open>
  System call arguments (the first half of kernel/syscall.c) and the calls of
  kernel/sysproc.c, among them the three of the panic logger: dumppanic, logtest, crashme.
\<close>

section \<open>Fetching arguments (syscall.c)\<close>

definition fetchaddr :: "u64 \<Rightarrow> ('a kmem_state_scheme, u64 option) kfun" where
  "fetchaddr addr = with_myproc (\<lambda>p. kbind (kget (\<lambda>s. procs s p)) (\<lambda>q.
     if psz q \<le> addr \<or> psz q < addr + 8 then kret None
     else kbind (copyin (ppagetable q) addr 8) (\<lambda>(r, bs).
       kret (if r \<noteq> 0 then None else Some (get64 0 bs)))))"

text \<open>The characters stored in the buffer, and the result: the length without the NUL, or -1.\<close>

definition fetchstr :: "u64 \<Rightarrow> nat \<Rightarrow> ('a kmem_state_scheme, int \<times> string) kfun" where
  "fetchstr addr mx = with_myproc (\<lambda>p. kbind (kget (\<lambda>s. ppagetable (procs s p))) (\<lambda>pt.
     kbind (copyinstr pt addr mx) (\<lambda>(r, cs).
       kret (if r < 0 then -1 else int (strlen cs), cs))))"

definition argraw :: "nat \<Rightarrow> ('a sched_state_scheme, u64) kfun" where
  "argraw n = with_myproc (\<lambda>p. if n < 6 then tf_get p (TF_a0 + 8 * of_nat n) else kpanic ''argraw'')"

definition argint :: "nat \<Rightarrow> ('a sched_state_scheme, int) kfun" where
  "argint n = kbind (argraw n) (\<lambda>v. kret (sint (ucast v :: u32)))"

definition argaddr :: "nat \<Rightarrow> ('a sched_state_scheme, u64) kfun" where
  "argaddr n = argraw n"

definition argstr :: "nat \<Rightarrow> nat \<Rightarrow> ('a kmem_state_scheme, int \<times> string) kfun" where
  "argstr n mx = kbind (argaddr n) (\<lambda>addr. fetchstr addr mx)"

section \<open>The crash context in memory\<close>

definition all_regs :: "reg list" where
  "all_regs = [RA, SP, GP, TP, T0, T1, T2, S0, S1, A0, A1, A2, A3, A4, A5, A6, A7,
     S2, S3, S4, S5, S6, S7, S8, S9, S10, S11, T3, T4, T5, T6]"

definition int_bytes :: "int \<Rightarrow> u8 list" where
  "int_bytes v = le_enc 4 (unat (word_of_int v :: u32))"

text \<open>struct crash_context as it is laid out, with the padding at its end; 536 bytes.\<close>

definition crash_bytes :: "crash_context \<Rightarrow> u8 list" where
  "crash_bytes c =
     concat (map (\<lambda>r. le_enc 8 (unat (cc_reg c r))) all_regs) @
     concat (map (\<lambda>v. le_enc 8 (unat v)) [cc_sepc c, cc_scause c, cc_stval c, cc_sstatus c]) @
     int_bytes (cc_pid c) @ map byte_of (cc_pname c) @ int_bytes (cc_pstate c) @
     concat (map (\<lambda>v. le_enc 8 (unat v)) (cc_stacktrace c)) @
     int_bytes (cc_stack_depth c) @ int_bytes (cc_cpu c) @ map byte_of (cc_panic_msg c) @
     le_enc 8 (unat (cc_panic_ticks c)) @ le_enc 4 (unat (cc_magic c)) @ replicate 4 0"

definition CRASH_CTX_SIZE :: nat where "CRASH_CTX_SIZE = 536"

section \<open>The calls (sysproc.c)\<close>

text \<open>A C function of result type uint64 that returns an int extends its sign.\<close>

definition sys_fork :: "('a file_state_scheme, u64) kfun" where
  "sys_fork = kbind kfork (\<lambda>r. kret (reg_of_int r))"

definition sys_exit :: "('a file_state_scheme, u64) kfun" where
  "sys_exit = kbind (argint 0) (\<lambda>n. kthen (kexit n) (kret 0))"

definition sys_wait :: "('a file_state_scheme, u64) kfun" where
  "sys_wait = kbind (argaddr 0) (\<lambda>p. kbind (kwait p) (\<lambda>r. kret (reg_of_int r)))"

definition sys_kill :: "('a file_state_scheme, u64) kfun" where
  "sys_kill = kbind (argint 0) (\<lambda>k. kbind (kkill k) (\<lambda>r. kret (reg_of_int r)))"

definition sys_getpid :: "('a file_state_scheme, u64) kfun" where
  "sys_getpid = with_myproc (\<lambda>p. kget (\<lambda>s. reg_of_int (pid (procs s p))))"

text \<open>The old size goes through an int.\<close>

definition sys_sbrk :: "('a file_state_scheme, u64) kfun" where
  "sys_sbrk = kbind (argint 0) (\<lambda>n. with_myproc (\<lambda>p.
     kbind (kget (\<lambda>s. sint (ucast (psz (procs s p)) :: u32))) (\<lambda>a.
     kbind (growproc n) (\<lambda>r. kret (if r < 0 then -1 else reg_of_int a)))))"

definition sys_pause :: "('a file_state_scheme, u64) kfun" where
  "sys_pause = kbind (argint 0) (\<lambda>n. kret 0)"

definition sys_uptime :: "('a file_state_scheme, u64) kfun" where
  "sys_uptime = kthen (acquire LkTicks)
     (kbind (kget ticks) (\<lambda>x. kthen (release LkTicks) (kret (ucast x))))"

definition sys_dumppanic :: "('a file_state_scheme, u64) kfun" where
  "sys_dumppanic = kbind (argaddr 0) (\<lambda>dst. kbind (argaddr 1) (\<lambda>len_addr. with_myproc (\<lambda>p.
     kbind (kget (\<lambda>s. ppagetable (procs s p))) (\<lambda>pt.
     kbind (copyout pt len_addr (le_enc 8 CRASH_CTX_SIZE)) (\<lambda>r.
       if r < 0 then kret (-1)
       else kbind (kget (\<lambda>s. (ppagetable (procs s p), crash_bytes (saved_crash_ctx s)))) (\<lambda>(pt, bs).
         kbind (copyout pt dst bs) (\<lambda>r. kret (if r < 0 then -1 else 0))))))))"

definition sys_logtest :: "('a file_state_scheme, u64) kfun" where
  "sys_logtest = kbind log_test (\<lambda>r. kret (reg_of_int r))"

definition sys_crashme :: "('a file_state_scheme, u64) kfun" where
  "sys_crashme = kthen (kseq
     [ printf (ln ''crashme: simulating kernel panic...'') [],
       log_save_crash_context ''crashme: user-initiated crash'',
       log_flush,
       log_dump_crash_context ]) (kret 0)"

end
