(* ===== verification/Sysfile.thy ===== *)
theory Sysfile
  imports Sysproc
begin

text \<open>The file system calls, kernel/sysfile.c, with the open modes of kernel/fcntl.h.\<close>

definition O_RDONLY :: u32 where "O_RDONLY = 0x000"
definition O_WRONLY :: u32 where "O_WRONLY = 0x001"
definition O_RDWR :: u32 where "O_RDWR = 0x002"
definition O_CREATE :: u32 where "O_CREATE = 0x200"
definition O_TRUNC :: u32 where "O_TRUNC = 0x400"

section \<open>Descriptors\<close>

text \<open>The descriptor and the file, or \<open>None\<close> for -1.\<close>

definition argfd :: "nat \<Rightarrow> ('a file_state_scheme, (nat \<times> nat) option) kfun" where
  "argfd n = kbind (argint n) (\<lambda>fd.
     if fd < 0 \<or> int NOFILE \<le> fd then kret None
     else with_myproc (\<lambda>p. kget (\<lambda>s. map_option (\<lambda>f. (nat fd, f)) (pofile (procs s p) ! nat fd))))"

definition fd_free :: "nat option list \<Rightarrow> nat option" where
  "fd_free fs = find (\<lambda>fd. fs ! fd = None) [0..<NOFILE]"

definition fdalloc :: "nat \<Rightarrow> ('a file_state_scheme, int) kfun" where
  "fdalloc f = with_myproc (\<lambda>p. kbind (kget (\<lambda>s. fd_free (pofile (procs s p)))) (\<lambda>r. case r of
       None \<Rightarrow> kret (-1)
     | Some fd \<Rightarrow> kthen (kmod (set_proc p (\<lambda>q. q\<lparr>pofile := (pofile q)[fd := Some f]\<rparr>))) (kret (int fd))))"

text \<open>\<open>myproc()->ofile[fd] = 0\<close>\<close>

definition fd_clear :: "nat \<Rightarrow> int \<Rightarrow> ('a file_state_scheme, unit) kfun" where
  "fd_clear p fd = kmod (set_proc p (\<lambda>q. q\<lparr>pofile := (pofile q)[nat fd := None]\<rparr>))"

definition sys_dup :: "('a file_state_scheme, u64) kfun" where
  "sys_dup = kbind (argfd 0) (\<lambda>r. case r of
       None \<Rightarrow> kret (-1)
     | Some (_, f) \<Rightarrow> kbind (fdalloc f) (\<lambda>fd.
         if fd < 0 then kret (-1) else kbind (filedup f) (\<lambda>_. kret (reg_of_int fd))))"

definition sys_read :: "('a file_state_scheme, u64) kfun" where
  "sys_read = kbind (argaddr 1) (\<lambda>p. kbind (argint 2) (\<lambda>n. kbind (argfd 0) (\<lambda>r. case r of
       None \<Rightarrow> kret (-1)
     | Some (_, f) \<Rightarrow> kbind (fileread f p n) (\<lambda>v. kret (reg_of_int v)))))"

definition sys_write :: "('a file_state_scheme, u64) kfun" where
  "sys_write = kbind (argaddr 1) (\<lambda>p. kbind (argint 2) (\<lambda>n. kbind (argfd 0) (\<lambda>r. case r of
       None \<Rightarrow> kret (-1)
     | Some (_, f) \<Rightarrow> kbind (filewrite f p n) (\<lambda>v. kret (reg_of_int v)))))"

definition sys_close :: "('a file_state_scheme, u64) kfun" where
  "sys_close = kbind (argfd 0) (\<lambda>r. case r of
       None \<Rightarrow> kret (-1)
     | Some (fd, f) \<Rightarrow> kthen (kseq
         [ with_myproc (\<lambda>p. fd_clear p (int fd)),
           fileclose f ]) (kret 0))"

text \<open>\<open>pad\<close>: what the padding of the local struct stat holds.\<close>

definition sys_fstat :: "u8 list \<Rightarrow> ('a file_state_scheme, u64) kfun" where
  "sys_fstat pad = kbind (argaddr 1) (\<lambda>st. kbind (argfd 0) (\<lambda>r. case r of
       None \<Rightarrow> kret (-1)
     | Some (_, f) \<Rightarrow> kbind (filestat pad f st) (\<lambda>v. kret (reg_of_int v))))"

section \<open>link and unlink\<close>

text \<open>Each path is fetched into a buffer of MAXPATH characters.\<close>

definition argpath :: "nat \<Rightarrow> ('a kmem_state_scheme, string option) kfun" where
  "argpath n = kbind (argstr n MAXPATH) (\<lambda>(r, cs). kret (if r < 0 then None else Some (cstr cs)))"

definition end_op_ret :: "u64 \<Rightarrow> ('a file_state_scheme, u64) kfun" where
  "end_op_ret v = kthen end_op (kret v)"

definition nlink_add :: "nat \<Rightarrow> u16 \<Rightarrow> ('a file_state_scheme, unit) kfun" where
  "nlink_add i d = kmod (set_inode i (\<lambda>q. q\<lparr>inlink := inlink q + d\<rparr>))"

definition link_bad :: "nat \<Rightarrow> ('a file_state_scheme, u64) kfun" where
  "link_bad ip = kthen (kseq [ilock ip, nlink_add ip (-1), iupdate ip, iunlockput ip]) (end_op_ret (-1))"

definition link_into :: "nat \<Rightarrow> string \<Rightarrow> ('a file_state_scheme, u64) kfun" where
  "link_into ip new = kbind (nameiparent new) (\<lambda>(r, name). case r of
       None \<Rightarrow> link_bad ip
     | Some dp \<Rightarrow> kthen (ilock dp)
         (with_inode dp (\<lambda>d. with_inode ip (\<lambda>q.
           kbind (if idev d \<noteq> idev q then kret (-1) else dirlink dp name (inum q)) (\<lambda>r.
             if r < 0 then kthen (iunlockput dp) (link_bad ip)
             else kthen (kseq [iunlockput dp, iput ip]) (end_op_ret 0))))))"

definition sys_link :: "('a file_state_scheme, u64) kfun" where
  "sys_link = kbind (argpath 0) (\<lambda>old. case old of
       None \<Rightarrow> kret (-1)
     | Some old \<Rightarrow> kbind (argpath 1) (\<lambda>new. case new of
         None \<Rightarrow> kret (-1)
       | Some new \<Rightarrow> kthen begin_op (kbind (namei old) (\<lambda>r. case r of
           None \<Rightarrow> end_op_ret (-1)
         | Some ip \<Rightarrow> kthen (ilock ip) (with_inode ip (\<lambda>q.
             if itype q = T_DIR then kthen (iunlockput ip) (end_op_ret (-1))
             else kthen (kseq [nlink_add ip 1, iupdate ip, iunlock ip]) (link_into ip new)))))))"

text \<open>\<open>n\<close> bounds the entries of the directory.\<close>

primrec isdirempty_loop :: "nat \<Rightarrow> nat \<Rightarrow> u32 \<Rightarrow> ('a file_state_scheme, bool) kfun" where
  "isdirempty_loop 0 dp off = knofuel"
| "isdirempty_loop (Suc n) dp off = with_inode dp (\<lambda>d.
     if \<not> off < isize d then kret True
     else kbind (readi_local dp off (of_nat DIRENT_SIZE)) (\<lambda>(r, bs).
       if r \<noteq> int DIRENT_SIZE then kpanic ''isdirempty: readi''
       else if de_inum (dirent_of bs) \<noteq> 0 then kret False
       else isdirempty_loop n dp (off + of_nat DIRENT_SIZE)))"

definition isdirempty :: "nat \<Rightarrow> ('a file_state_scheme, bool) kfun" where
  "isdirempty dp = with_inode dp (\<lambda>d. isdirempty_loop (dir_fuel d) dp (of_nat (2 * DIRENT_SIZE)))"

definition unlink_bad :: "nat \<Rightarrow> ('a file_state_scheme, u64) kfun" where
  "unlink_bad dp = kthen (iunlockput dp) (end_op_ret (-1))"

definition unlink_entry :: "nat \<Rightarrow> nat \<Rightarrow> u32 \<Rightarrow> ('a file_state_scheme, u64) kfun" where
  "unlink_entry dp ip off =
     kthen (kwhen (\<lambda>s. sint (inlink (inodes s ip)) < 1) (kpanic ''unlink: nlink < 1''))
     (with_inode ip (\<lambda>q.
       kbind (if itype q = T_DIR then isdirempty ip else kret True) (\<lambda>ok.
         if \<not> ok then kthen (iunlockput ip) (unlink_bad dp)
         else kbind (writei_local dp (replicate DIRENT_SIZE 0) off) (\<lambda>r.
           if r \<noteq> int DIRENT_SIZE then kpanic ''unlink: writei''
           else kthen (kseq
             [ kwhen (\<lambda>s. itype (inodes s ip) = T_DIR) (kseq [nlink_add dp (-1), iupdate dp]),
               iunlockput dp,
               nlink_add ip (-1),
               iupdate ip,
               iunlockput ip ])
             (end_op_ret 0)))))"

definition sys_unlink :: "('a file_state_scheme, u64) kfun" where
  "sys_unlink = kbind (argpath 0) (\<lambda>path. case path of
       None \<Rightarrow> kret (-1)
     | Some path \<Rightarrow> kthen begin_op (kbind (nameiparent path) (\<lambda>(r, name). case r of
         None \<Rightarrow> end_op_ret (-1)
       | Some dp \<Rightarrow> kthen (ilock dp)
           (if namecmp name ''.'' = 0 \<or> namecmp name ''..'' = 0 then unlink_bad dp
            else kbind (dirlookup dp name) (\<lambda>f. case f of
                None \<Rightarrow> unlink_bad dp
              | Some (ip, off) \<Rightarrow> kthen (ilock ip) (unlink_entry dp ip off))))))"

section \<open>create, open, mkdir, mknod, chdir\<close>

definition create_fail :: "nat \<Rightarrow> nat \<Rightarrow> ('a file_state_scheme, nat option) kfun" where
  "create_fail dp ip = kthen (kseq
     [ kmod (set_inode ip (\<lambda>q. q\<lparr>inlink := 0\<rparr>)),
       iupdate ip,
       iunlockput ip,
       iunlockput dp ]) (kret None)"

definition create_new :: "nat \<Rightarrow> nat \<Rightarrow> char list \<Rightarrow> u16 \<Rightarrow> u16 \<Rightarrow> u16 \<Rightarrow> ('a file_state_scheme, nat option) kfun" where
  "create_new dp ip name ty mj mn =
     kthen (kseq
       [ ilock ip,
         kmod (set_inode ip (\<lambda>q. q\<lparr>imajor := mj\<rparr>)),
         kmod (set_inode ip (\<lambda>q. q\<lparr>iminor := mn\<rparr>)),
         kmod (set_inode ip (\<lambda>q. q\<lparr>inlink := 1\<rparr>)),
         iupdate ip ])
     (with_inode ip (\<lambda>q. with_inode dp (\<lambda>d.
       kbind (if ty = T_DIR
              then kbind (dirlink ip ''.'' (inum q)) (\<lambda>r. if r < 0 then kret r else dirlink ip ''..'' (inum d))
              else kret 0) (\<lambda>r.
         if r < 0 then create_fail dp ip
         else kbind (dirlink dp name (inum q)) (\<lambda>r.
           if r < 0 then create_fail dp ip
           else kthen (kseq
             [ (if ty = T_DIR then kseq [nlink_add dp 1, iupdate dp] else kret ()),
               iunlockput dp ])
             (kret (Some ip)))))))"

text \<open>The inode, locked, or \<open>None\<close> for the null pointer.\<close>

definition create :: "string \<Rightarrow> u16 \<Rightarrow> u16 \<Rightarrow> u16 \<Rightarrow> ('a file_state_scheme, nat option) kfun" where
  "create path ty mj mn = kbind (nameiparent path) (\<lambda>(r, name). case r of
       None \<Rightarrow> kret None
     | Some dp \<Rightarrow> kthen (ilock dp) (kbind (dirlookup dp name) (\<lambda>f. case f of
         Some (ip, off) \<Rightarrow> kthen (kseq [iunlockput dp, ilock ip]) (with_inode ip (\<lambda>q.
           if ty = T_FILE \<and> (itype q = T_FILE \<or> itype q = T_DEVICE) then kret (Some ip)
           else kthen (iunlockput ip) (kret None)))
       | None \<Rightarrow> with_inode dp (\<lambda>d. kbind (ialloc (idev d) ty) (\<lambda>n. case n of
           None \<Rightarrow> kthen (iunlockput dp) (kret None)
         | Some ip \<Rightarrow> create_new dp ip name ty mj mn)))))"

definition open_inode :: "string \<Rightarrow> u32 \<Rightarrow> ('a file_state_scheme, nat option) kfun" where
  "open_inode path omode =
     (if omode AND O_CREATE \<noteq> 0 then create path T_FILE 0 0
      else kbind (namei path) (\<lambda>r. case r of
          None \<Rightarrow> kret None
        | Some ip \<Rightarrow> kthen (ilock ip) (with_inode ip (\<lambda>q.
            if itype q = T_DIR \<and> omode \<noteq> O_RDONLY then kthen (iunlockput ip) (kret None)
            else kret (Some ip)))))"

definition open_setup :: "nat \<Rightarrow> nat \<Rightarrow> u32 \<Rightarrow> ('a file_state_scheme, unit) kfun" where
  "open_setup f ip omode = with_inode ip (\<lambda>q. kseq
     [ (if itype q = T_DEVICE then kmod (set_file f (\<lambda>x. x\<lparr>f_type := FD_DEVICE, f_major := imajor q\<rparr>))
        else kmod (set_file f (\<lambda>x. x\<lparr>f_type := FD_INODE, f_off := 0\<rparr>))),
       kmod (set_file f (\<lambda>x. x\<lparr>f_ip := Some ip, f_readable := (omode AND O_WRONLY = 0),
         f_writable := (omode AND O_WRONLY \<noteq> 0 \<or> omode AND O_RDWR \<noteq> 0)\<rparr>)),
       (if omode AND O_TRUNC \<noteq> 0 \<and> itype q = T_FILE then itrunc ip else kret ()),
       iunlock ip,
       end_op ])"

definition sys_open :: "('a file_state_scheme, u64) kfun" where
  "sys_open = kbind (argint 1) (\<lambda>om. let omode = word_of_int om in
     kbind (argpath 0) (\<lambda>path. case path of
       None \<Rightarrow> kret (-1)
     | Some path \<Rightarrow> kthen begin_op (kbind (open_inode path omode) (\<lambda>r. case r of
         None \<Rightarrow> end_op_ret (-1)
       | Some ip \<Rightarrow> with_inode ip (\<lambda>q.
           if itype q = T_DEVICE \<and> dev_bad (imajor q) then kthen (iunlockput ip) (end_op_ret (-1))
           else kbind filealloc (\<lambda>fr. case fr of
               None \<Rightarrow> kthen (iunlockput ip) (end_op_ret (-1))
             | Some f \<Rightarrow> kbind (fdalloc f) (\<lambda>fd.
                 if fd < 0 then kthen (kseq [fileclose f, iunlockput ip]) (end_op_ret (-1))
                 else kthen (open_setup f ip omode) (kret (reg_of_int fd)))))))))"

definition sys_mkdir :: "('a file_state_scheme, u64) kfun" where
  "sys_mkdir = kthen begin_op (kbind (argpath 0) (\<lambda>path.
     kbind (case path of None \<Rightarrow> kret None | Some path \<Rightarrow> create path T_DIR 0 0) (\<lambda>r. case r of
         None \<Rightarrow> end_op_ret (-1)
       | Some ip \<Rightarrow> kthen (iunlockput ip) (end_op_ret 0))))"

definition sys_mknod :: "('a file_state_scheme, u64) kfun" where
  "sys_mknod = kthen begin_op
     (kbind (argint 1) (\<lambda>mj. kbind (argint 2) (\<lambda>mn. kbind (argpath 0) (\<lambda>path.
      kbind (case path of None \<Rightarrow> kret None
             | Some path \<Rightarrow> create path T_DEVICE (word_of_int mj) (word_of_int mn)) (\<lambda>r. case r of
         None \<Rightarrow> end_op_ret (-1)
       | Some ip \<Rightarrow> kthen (iunlockput ip) (end_op_ret 0))))))"

definition sys_chdir :: "('a file_state_scheme, u64) kfun" where
  "sys_chdir = with_myproc (\<lambda>p. kthen begin_op (kbind (argpath 0) (\<lambda>path.
     kbind (case path of None \<Rightarrow> kret None | Some path \<Rightarrow> namei path) (\<lambda>r. case r of
         None \<Rightarrow> end_op_ret (-1)
       | Some ip \<Rightarrow> kthen (ilock ip) (with_inode ip (\<lambda>q.
           if itype q \<noteq> T_DIR then kthen (iunlockput ip) (end_op_ret (-1))
           else kthen (kseq
             [ iunlock ip,
               kbind (kget (\<lambda>s. pcwd (procs s p))) (\<lambda>c. case c of None \<Rightarrow> kundef | Some i \<Rightarrow> iput i),
               end_op,
               kmod (set_proc p (\<lambda>x. x\<lparr>pcwd := Some ip\<rparr>)) ])
             (kret 0)))))))"

section \<open>exec and pipe\<close>

text \<open>
  The argument vector: the kernel pages allocated so far with the strings in them, and
  whether the terminating null pointer was reached. \<open>n\<close> counts the entries left of MAXARG.
\<close>

primrec fetch_args :: "nat \<Rightarrow> u64 \<Rightarrow> nat \<Rightarrow> ('a kmem_state_scheme, (u64 \<times> string) list \<times> bool) kfun" where
  "fetch_args 0 uargv i = kret ([], False)"
| "fetch_args (Suc n) uargv i =
     kbind (fetchaddr (uargv + 8 * of_nat i)) (\<lambda>a. case a of
         None \<Rightarrow> kret ([], False)
       | Some uarg \<Rightarrow>
           if uarg = 0 then kret ([], True)
           else kbind kalloc (\<lambda>pg.
             if pg = 0 then kret ([], False)
             else kbind (fetchstr uarg (unat PGSIZE)) (\<lambda>(r, cs).
               kthen (kmod (kmem_set (\<lambda>m. mem_write m pg (map byte_of cs))))
                 (if r < 0 then kret ([(pg, cs)], False)
                  else kbind (fetch_args n uargv (i + 1)) (\<lambda>(rest, ok). kret ((pg, cstr cs) # rest, ok))))))"

definition free_args :: "(u64 \<times> string) list \<Rightarrow> ('a kmem_state_scheme, unit) kfun" where
  "free_args as = kfor as (\<lambda>(pg, s). kfree pg)"

definition sys_exec :: "('a file_state_scheme, u64) kfun" where
  "sys_exec = kbind (argaddr 1) (\<lambda>uargv. kbind (argpath 0) (\<lambda>path. case path of
       None \<Rightarrow> kret (-1)
     | Some path \<Rightarrow> kbind (fetch_args MAXARG uargv 0) (\<lambda>(as, ok).
         if ok then kbind (kexec path (map snd as)) (\<lambda>r. kthen (free_args as) (kret (reg_of_int r)))
         else kthen (free_args as) (kret (-1)))))"

definition pipe_undo :: "nat \<Rightarrow> nat \<Rightarrow> ('a file_state_scheme, u64) kfun" where
  "pipe_undo rf wr = kthen (kseq [fileclose rf, fileclose wr]) (kret (-1))"

definition sys_pipe :: "('a file_state_scheme, u64) kfun" where
  "sys_pipe = with_myproc (\<lambda>p. kbind (argaddr 0) (\<lambda>fdarray. kbind pipealloc (\<lambda>r. case r of
       None \<Rightarrow> kret (-1)
     | Some (rf, wr) \<Rightarrow> kbind (fdalloc rf) (\<lambda>fd0.
         if fd0 < 0 then pipe_undo rf wr
         else kbind (fdalloc wr) (\<lambda>fd1.
           if fd1 < 0 then kthen (fd_clear p fd0) (pipe_undo rf wr)
           else kbind (kget (\<lambda>s. ppagetable (procs s p))) (\<lambda>pt.
             kbind (copyout pt fdarray (int_bytes fd0)) (\<lambda>r0.
             kbind (if r0 < 0 then kret r0 else copyout pt (fdarray + 4) (int_bytes fd1)) (\<lambda>r1.
               if r1 < 0 then kthen (kseq [fd_clear p fd0, fd_clear p fd1]) (pipe_undo rf wr)
               else kret 0))))))))"

end
