(* ===== verification/Trap.thy ===== *)
theory Trap
  imports Sysfile
begin

text \<open>
  Entering and leaving the kernel: the system call table (kernel/syscall.c, kernel/syscall.h),
  the interrupt controller (kernel/plic.c), kernel/trap.c, forkret of kernel/proc.c, and
  kernel/main.c.
\<close>

section \<open>System call numbers and the table\<close>

definition SYS_fork :: int where "SYS_fork = 1"
definition SYS_exit :: int where "SYS_exit = 2"
definition SYS_wait :: int where "SYS_wait = 3"
definition SYS_pipe :: int where "SYS_pipe = 4"
definition SYS_read :: int where "SYS_read = 5"
definition SYS_kill :: int where "SYS_kill = 6"
definition SYS_exec :: int where "SYS_exec = 7"
definition SYS_fstat :: int where "SYS_fstat = 8"
definition SYS_chdir :: int where "SYS_chdir = 9"
definition SYS_dup :: int where "SYS_dup = 10"
definition SYS_getpid :: int where "SYS_getpid = 11"
definition SYS_sbrk :: int where "SYS_sbrk = 12"
definition SYS_pause :: int where "SYS_pause = 13"
definition SYS_uptime :: int where "SYS_uptime = 14"
definition SYS_open :: int where "SYS_open = 15"
definition SYS_write :: int where "SYS_write = 16"
definition SYS_mknod :: int where "SYS_mknod = 17"
definition SYS_unlink :: int where "SYS_unlink = 18"
definition SYS_link :: int where "SYS_link = 19"
definition SYS_mkdir :: int where "SYS_mkdir = 20"
definition SYS_close :: int where "SYS_close = 21"
definition SYS_dumppanic :: int where "SYS_dumppanic = 22"
definition SYS_logtest :: int where "SYS_logtest = 23"
definition SYS_crashme :: int where "SYS_crashme = 24"

text \<open>syscalls[]; \<open>pad\<close> is the stack garbage sys_fstat copies out.\<close>

definition syscalls :: "u8 list \<Rightarrow> (int \<times> ('a file_state_scheme, u64) kfun) list" where
  "syscalls pad =
     [(SYS_fork, sys_fork), (SYS_exit, sys_exit), (SYS_wait, sys_wait), (SYS_pipe, sys_pipe),
      (SYS_read, sys_read), (SYS_kill, sys_kill), (SYS_exec, sys_exec), (SYS_fstat, sys_fstat pad),
      (SYS_chdir, sys_chdir), (SYS_dup, sys_dup), (SYS_getpid, sys_getpid), (SYS_sbrk, sys_sbrk),
      (SYS_pause, sys_pause), (SYS_uptime, sys_uptime), (SYS_open, sys_open), (SYS_write, sys_write),
      (SYS_mknod, sys_mknod), (SYS_unlink, sys_unlink), (SYS_link, sys_link), (SYS_mkdir, sys_mkdir),
      (SYS_close, sys_close), (SYS_dumppanic, sys_dumppanic), (SYS_logtest, sys_logtest),
      (SYS_crashme, sys_crashme)]"

text \<open>NELEM(syscalls): one more than the largest number.\<close>

definition n_syscalls :: int where "n_syscalls = SYS_crashme + 1"

definition syscall :: "u8 list \<Rightarrow> ('a file_state_scheme, unit) kfun" where
  "syscall pad = with_myproc (\<lambda>p. kbind (tf_get p TF_a7) (\<lambda>a7.
     let num = sint (ucast a7 :: u32) in
     case (if 0 < num \<and> num < n_syscalls then map_of (syscalls pad) num else None) of
       Some f \<Rightarrow> kbind f (\<lambda>r. tf_set p TF_a0 r)
     | None \<Rightarrow> kbind (kget (\<lambda>s. procs s p)) (\<lambda>q. kseq
         [ printf (ln ''%d %s: unknown sys call %d'') [va_of_int (pid q), va_text (cstr (pname q)), va_of_int num],
           tf_set p TF_a0 (-1) ])))"

section \<open>The interrupt controller (plic.c)\<close>

definition PLIC_SENABLE :: "u64 \<Rightarrow> u64" where "PLIC_SENABLE h = PLIC + 0x2080 + h * 0x100"
definition PLIC_SPRIORITY :: "u64 \<Rightarrow> u64" where "PLIC_SPRIORITY h = PLIC + 0x201000 + h * 0x2000"

text \<open>
  \<open>plic_reg\<close> holds the words written to the registers, by address. Reading a hart's claim
  register takes the next of its pending interrupts, 0 without one; writing it completes one.
\<close>

record trap_state = file_state +
  plic_reg :: "u64 \<Rightarrow> u32"
  plic_pending :: "nat \<Rightarrow> u32 list"
  plic_done :: "(nat \<times> u32) list"
  forkret_first :: bool
  started :: bool

definition plic_write :: "u64 \<Rightarrow> u32 \<Rightarrow> ('a trap_state_scheme, unit) kfun" where
  "plic_write a v = kmod (\<lambda>s. s\<lparr>plic_reg := (plic_reg s)(a := v)\<rparr>)"

definition plicinit :: "('a trap_state_scheme, unit) kfun" where
  "plicinit = kseq
     [ plic_write (PLIC + ucast UART0_IRQ * 4) 1,
       plic_write (PLIC + ucast VIRTIO0_IRQ * 4) 1 ]"

definition plicinithart :: "('a trap_state_scheme, unit) kfun" where
  "plicinithart = kbind cpuid (\<lambda>h. kseq
     [ plic_write (PLIC_SENABLE (word_of_int h)) (push_bit (unat UART0_IRQ) 1 OR push_bit (unat VIRTIO0_IRQ) 1),
       plic_write (PLIC_SPRIORITY (word_of_int h)) 0 ])"

definition plic_claim :: "('a trap_state_scheme, u32) kfun" where
  "plic_claim = kbind cpuid (\<lambda>h. kbind (kget (\<lambda>s. plic_pending s (nat h))) (\<lambda>q. case q of
       [] \<Rightarrow> kret 0
     | irq # q' \<Rightarrow> kthen (kmod (\<lambda>s. s\<lparr>plic_pending := (plic_pending s)(nat h := q')\<rparr>)) (kret irq)))"

definition plic_complete :: "u32 \<Rightarrow> ('a trap_state_scheme, unit) kfun" where
  "plic_complete irq = kbind cpuid (\<lambda>h. kmod (\<lambda>s. s\<lparr>plic_done := plic_done s @ [(nat h, irq)]\<rparr>))"

section \<open>trap.c\<close>

definition trapinit :: "('a machine_scheme, unit) kfun" where
  "trapinit = initlock LkTicks ''time''"

definition trapinithart :: "('a kmem_state_scheme, unit) kfun" where
  "trapinithart = kbind (kget (\<lambda>s. kernelvec (image s))) w_stvec"

definition clockintr :: "('a sched_state_scheme, unit) kfun" where
  "clockintr = kseq
     [ kbind cpuid (\<lambda>c. if c = 0 then kseq
         [ acquire LkTicks,
           kmod (\<lambda>s. s\<lparr>ticks := ticks s + 1\<rparr>),
           wakeup ChTicks,
           release LkTicks ] else kret ()),
       kbind r_time (\<lambda>t. w_stimecmp (t + 1000000)) ]"

text \<open>\<open>fuel\<close> bounds the characters uartintr handles.\<close>

definition external_intr :: "nat \<Rightarrow> ('a trap_state_scheme, unit) kfun" where
  "external_intr fuel = kbind plic_claim (\<lambda>irq. kseq
     [ (if irq = UART0_IRQ then uartintr fuel
        else if irq = VIRTIO0_IRQ then virtio_disk_intr
        else if irq \<noteq> 0 then printf (ln ''unexpected interrupt irq=%d'') [va_of_int (sint irq)]
        else kret ()),
       (if irq \<noteq> 0 then plic_complete irq else kret ()) ])"

definition devintr :: "nat \<Rightarrow> ('a trap_state_scheme, int) kfun" where
  "devintr fuel = kbind r_scause (\<lambda>scause.
     if scause = 0x8000000000000009 then kthen (external_intr fuel) (kret 1)
     else if scause = 0x8000000000000005 then kthen clockintr (kret 2)
     else kret 0)"

definition prepare_return :: "('a kmem_state_scheme, unit) kfun" where
  "prepare_return = with_myproc (\<lambda>p. kseq
     [ intr_off,
       kbind (kget image) (\<lambda>im. w_stvec (TRAMPOLINE + (uservec im - trampoline im))),
       kbind r_satp (tf_set p TF_kernel_satp),
       kbind (kget (\<lambda>s. kstack (procs s p))) (\<lambda>k. tf_set p TF_kernel_sp (k + PGSIZE)),
       kbind (kget (\<lambda>s. usertrap_addr (image s))) (tf_set p TF_kernel_trap),
       kbind r_tp (tf_set p TF_kernel_hartid),
       kbind r_sstatus (\<lambda>x. w_sstatus ((x AND NOT SSTATUS_SPP) OR SSTATUS_SPIE)),
       kbind (tf_get p TF_epc) w_sepc ])"

definition exit_if_killed :: "nat \<Rightarrow> ('a file_state_scheme, unit) kfun" where
  "exit_if_killed p = kbind (killed p) (\<lambda>k. if k then kexit (-1) else kret ())"

definition usertrap_fault :: "nat \<Rightarrow> ('a trap_state_scheme, unit) kfun" where
  "usertrap_fault p = kbind r_scause (\<lambda>scause. kbind r_stval (\<lambda>stval.
     kbind (kget (\<lambda>s. ppagetable (procs s p))) (\<lambda>pt.
     kbind (if scause = 15 \<or> scause = 13 then vmfault pt stval (scause = 13) else kret 0) (\<lambda>r.
       if r \<noteq> 0 then kret ()
       else kseq
         [ kbind (kget (\<lambda>s. pid (procs s p))) (\<lambda>k.
             printf (ln ''usertrap(): unexpected scause 0x%lx pid=%d'') [Num scause, va_of_int k]),
           kbind r_sepc (\<lambda>sepc.
             printf (ln ''            sepc=0x%lx stval=0x%lx'') [Num sepc, Num stval]),
           setkilled p ]))))"

definition usertrap :: "nat \<Rightarrow> u8 list \<Rightarrow> ('a trap_state_scheme, u64) kfun" where
  "usertrap fuel pad =
     kthen (kbind r_sstatus (\<lambda>x.
       if x AND SSTATUS_SPP \<noteq> 0 then kpanic ''usertrap: not from user mode'' else kret ()))
     (kthen (kbind (kget (\<lambda>s. kernelvec (image s))) w_stvec)
     (with_myproc (\<lambda>p.
        kthen (kbind r_sepc (tf_set p TF_epc))
        (kbind (kbind r_scause (\<lambda>scause.
           if scause = 8 then
             kthen (kseq
               [ exit_if_killed p,
                 kbind (tf_get p TF_epc) (\<lambda>epc. tf_set p TF_epc (epc + 4)),
                 intr_on,
                 syscall pad ])
             (kret 0)
           else kbind (devintr fuel) (\<lambda>d.
             if d \<noteq> 0 then kret d else kthen (usertrap_fault p) (kret 0)))) (\<lambda>which_dev.
         kthen (kseq
           [ exit_if_killed p,
             (if which_dev = 2 then yield else kret ()),
             prepare_return ])
         (kbind (kget (\<lambda>s. ppagetable (procs s p))) (\<lambda>pt. kret (MAKE_SATP pt))))))))"

definition kerneltrap :: "nat \<Rightarrow> ('a trap_state_scheme, unit) kfun" where
  "kerneltrap fuel = kbind r_sepc (\<lambda>sepc. kbind r_sstatus (\<lambda>sstatus. kbind r_scause (\<lambda>scause.
     if sstatus AND SSTATUS_SPP = 0 then kpanic ''kerneltrap: not from supervisor mode''
     else kbind intr_get (\<lambda>on.
       if on then kpanic ''kerneltrap: interrupts enabled''
       else kbind (devintr fuel) (\<lambda>which_dev.
         kthen (if which_dev = 0 then
             kbind r_sepc (\<lambda>epc. kbind r_stval (\<lambda>tval.
               kthen (printf (ln ''scause=0x%lx sepc=0x%lx stval=0x%lx'')
                  [Num scause, Num epc, Num tval])
                (kpanic ''kerneltrap'')))
           else kret ())
         (kthen (if which_dev = 2 then kbind myproc (\<lambda>p. if p \<noteq> None then yield else kret ()) else kret ())
           (kseq [w_sepc sepc, w_sstatus sstatus])))))))"

section \<open>forkret (proc.c)\<close>

text \<open>
  forkret ends in a jump to userret in the trampoline page, with the user satp; the result
  is the pair of both.
\<close>

definition forkret_init :: "nat \<Rightarrow> ('a trap_state_scheme, unit) kfun" where
  "forkret_init p = kseq
     [ fsinit ROOTDEV,
       kmod (\<lambda>s. s\<lparr>forkret_first := False\<rparr>),
       kbind (kexec ''/init'' [''/init'']) (\<lambda>r. tf_set p TF_a0 (reg_of_int r)),
       kbind (tf_get p TF_a0) (\<lambda>a0. if a0 = -1 then kpanic ''exec'' else kret ()) ]"

definition forkret :: "('a trap_state_scheme, u64 \<times> u64) kfun" where
  "forkret = with_myproc (\<lambda>p.
     kthen (kseq
       [ release (LkProc p),
         kwhen forkret_first (forkret_init p),
         prepare_return ])
     (kget (\<lambda>s. (TRAMPOLINE + (userret (image s) - trampoline (image s)), MAKE_SATP (ppagetable (procs s p))))))"

section \<open>main.c\<close>

text \<open>\<open>rounds\<close>: how many rounds of the endless scheduler to run.\<close>

definition main_first :: "('a trap_state_scheme, unit) kfun" where
  "main_first = kseq
     [ consoleinit,
       printfinit,
       log_init,
       printf (ln '''') [],
       printf (ln ''xv6 kernel is booting'') [],
       printf (ln '''') [],
       kinit,
       kvminit,
       kvminithart,
       procinit,
       trapinit,
       trapinithart,
       plicinit,
       plicinithart,
       binit,
       iinit,
       fileinit,
       virtio_disk_init,
       userinit,
       kmod (\<lambda>s. s\<lparr>started := True\<rparr>) ]"

definition kmain :: "nat \<Rightarrow> ('a trap_state_scheme, unit) kfun" where
  "kmain rounds = kthen
     (kbind cpuid (\<lambda>c.
        if c = 0 then main_first
        else kseq
          [ await started,
            kbind cpuid (\<lambda>c. printf (ln ''hart %d starting'') [va_of_int c]),
            kvminithart,
            trapinithart,
            plicinithart ]))
     (scheduler rounds)"

end
