(* ===== verification/Pages.thy ===== *)
theory Pages
  imports Kalloc
begin

text \<open>
  The page allocator refines a pool of pages: kinit fills it with every page between the
  end of the kernel and PHYSTOP, kfree adds a page, kalloc takes one out. The free list in
  the pages themselves is related to the pool by a predicate over memory, which writes to
  other pages leave alone.
\<close>

section \<open>Pages\<close>

definition page_aligned :: "u64 \<Rightarrow> bool" where
  "page_aligned pa \<longleftrightarrow> unat pa mod 4096 = 0"

definition page_no :: "u64 \<Rightarrow> nat" where
  "page_no a = unat a div 4096"

lemma page_aligned_iff: "pa mod PGSIZE = 0 \<longleftrightarrow> page_aligned pa"
proof -
  have "unat (pa mod 4096) = unat pa mod 4096" by (simp add: unat_mod)
  then show ?thesis by (simp add: page_aligned_def PGSIZE_def word_unat_eq_iff)
qed

lemma in_page_iff:
  assumes "page_aligned pa"
  shows "in_range x pa 4096 \<longleftrightarrow> page_no x = page_no pa"
proof -
  obtain k where k: "unat pa = 4096 * k" using assms by (auto simp: page_aligned_def)
  have b: "unat pa < 2 ^ 64" "unat x < 2 ^ 64"
    using unsigned_less [of pa] unsigned_less [of x] by simp_all
  have kb: "k \<le> 2 ^ 52 - 1" using b(1) k by simp
  show ?thesis
  proof (cases "unat pa \<le> unat x")
    case True
    then have "unat (x - pa) = unat x - 4096 * k" by (simp add: unat_sub_if' k)
    moreover have "unat x - 4096 * k < 4096 \<longleftrightarrow> unat x div 4096 = k" using True k by linarith
    ultimately show ?thesis by (simp add: in_range_def page_no_def k)
  next
    case False
    then have "unat (x - pa) = unat x + 2 ^ 64 - 4096 * k" by (simp add: unat_sub_if' k)
    then have "\<not> in_range x pa 4096" using kb by (simp add: in_range_def)
    moreover have "page_no x \<noteq> page_no pa" using False k by (simp add: page_no_def)
    ultimately show ?thesis by simp
  qed
qed

lemma page_no_inj: "page_aligned a \<Longrightarrow> page_aligned b \<Longrightarrow> page_no a = page_no b \<Longrightarrow> a = b"
  by (auto simp: page_aligned_def page_no_def word_unat_eq_iff)

text \<open>An offset inside a page does not leave it.\<close>

lemma unat_page_offset:
  assumes "page_aligned pa" and "i < 4096"
  shows "unat (pa + of_nat i) = unat pa + i"
proof -
  obtain k where k: "unat pa = 4096 * k" using assms by (auto simp: page_aligned_def)
  have "unat pa < 2 ^ 64" using unsigned_less [of pa] by simp
  then have "unat pa + i < 2 ^ 64" using k assms(2) by simp
  then show ?thesis using assms(2) by (simp add: unat_add64 unat_of_nat64)
qed

lemma page_no_offset: "page_aligned pa \<Longrightarrow> i < 4096 \<Longrightarrow> page_no (pa + of_nat i) = page_no pa"
  by (auto simp: page_no_def unat_page_offset page_aligned_def)

lemma page_memset_same:
  "page_aligned pa \<Longrightarrow> i < 4096 \<Longrightarrow> memset m pa c 4096 (pa + of_nat i) = c"
  by (simp add: memset_at in_page_iff page_no_offset)

lemma page_memset_other:
  "page_aligned pa \<Longrightarrow> page_no x \<noteq> page_no pa \<Longrightarrow> memset m pa c 4096 x = m x"
  by (simp add: memset_at in_page_iff)

lemma aligned_8: "page_aligned pa \<Longrightarrow> aligned8 pa"
  by (auto simp: page_aligned_def aligned8_def mod_mod_cancel)

text \<open>A store of eight bytes at the start of a page stays inside it.\<close>

lemma page_st64_other:
  assumes "page_aligned pa" and "page_no x \<noteq> page_no pa"
  shows "st64 m pa v x = m x"
proof -
  have "\<not> in_range x pa 4096" using assms by (simp add: in_page_iff)
  then have "\<not> in_range x pa 8" by (simp add: in_range_def)
  then show ?thesis by (simp add: st64_def mem_write_at)
qed

section \<open>The free list\<close>

primrec free_list :: "mem \<Rightarrow> u64 \<Rightarrow> u64 list \<Rightarrow> bool" where
  "free_list m p [] \<longleftrightarrow> p = 0"
| "free_list m p (a # as) \<longleftrightarrow> p = a \<and> free_list m (ld64 m a) as"

lemma free_list_cong:
  assumes "\<And>a i. a \<in> set as \<Longrightarrow> i < 8 \<Longrightarrow> m (a + of_nat i) = m' (a + of_nat i)"
  shows "free_list m p as = free_list m' p as"
  using assms
proof (induction as arbitrary: p)
  case (Cons a as)
  then have "ld64 m a = ld64 m' a" by (intro ld64_cong) simp
  then show ?case using Cons by simp
qed simp

definition page_ok :: "kernel_image \<Rightarrow> u64 \<Rightarrow> bool" where
  "page_ok im pa \<longleftrightarrow> page_aligned pa \<and> pa \<noteq> 0 \<and> kend im \<le> pa \<and> pa < PHYSTOP"

definition pool :: "'a kmem_state_scheme \<Rightarrow> u64 list \<Rightarrow> bool" where
  "pool s ps \<longleftrightarrow> free_list (pmem s) (freelist s) ps \<and> distinct ps \<and> (\<forall>pa \<in> set ps. page_ok (image s) pa)"

text \<open>Memory outside the pages of a list.\<close>

definition mem_same_outside :: "u64 list \<Rightarrow> mem \<Rightarrow> mem \<Rightarrow> bool" where
  "mem_same_outside ps m m' \<longleftrightarrow> (\<forall>x. page_no x \<notin> page_no ` set ps \<longrightarrow> m' x = m x)"

lemma free_list_other_pages:
  assumes "free_list m p as" and "mem_same_outside ps m m'" and "\<forall>a \<in> set as. page_aligned a"
    and "\<forall>a \<in> set ps. page_aligned a" and "set as \<inter> set ps = {}"
  shows "free_list m' p as"
proof -
  have "m (a + of_nat i) = m' (a + of_nat i)" if "a \<in> set as" and "i < 8" for a i
  proof -
    have "page_no (a + of_nat i) = page_no a" using assms(3) that by (intro page_no_offset) auto
    moreover have "page_no a \<notin> page_no ` set ps"
      using assms(3-5) that(1) by (auto dest!: page_no_inj)
    ultimately show ?thesis using assms(2) by (simp add: mem_same_outside_def)
  qed
  then show ?thesis using assms(1) free_list_cong [of as m m' p] by simp
qed

section \<open>What kalloc and kfree do\<close>

lemma kmem_commute:
  "(acquired lk s)\<lparr>freelist := x\<rparr> = acquired lk (s\<lparr>freelist := x\<rparr>)"
  "(settled s)\<lparr>freelist := x\<rparr> = settled (s\<lparr>freelist := x\<rparr>)"
  "kmem_set f (acquired lk t) = acquired lk (kmem_set f t)"
  "kmem_set f (settled t) = settled (kmem_set f t)"
  by (simp_all add: acquired_def settled_def push_off_st_def set_lock_def set_cpu_def set_sie_def
      intr_enabled_def hart_def kmem_set_def)

lemma kmem_frame [simp]:
  "freelist (acquired lk s) = freelist s" "image (acquired lk s) = image s"
  "freelist (settled s) = freelist s" "image (settled s) = image s"
  "freelist (kmem_set f s) = freelist s" "image (kmem_set f s) = image s"
  by (simp_all add: acquired_def settled_def push_off_st_def set_lock_def set_cpu_def set_sie_def kmem_set_def)

lemma kmem_set_simps [simp]:
  "pmem (kmem_set f s) = f (pmem s)" "csr (kmem_set f s) = csr s" "gpr (kmem_set f s) = gpr s"
  "cpus (kmem_set f s) = cpus s" "locks (kmem_set f s) = locks s" "kmapped (kmem_set f s) = kmapped s"
  "hart (kmem_set f s) = hart s" "hart_ok (kmem_set f s) = hart_ok s" "lock_free (kmem_set f s) lk = lock_free s lk"
  "intr_enabled (kmem_set f s) = intr_enabled s"
  by (simp_all add: kmem_set_def hart_def hart_ok_def lock_free_def intr_enabled_def)

definition kfree_st :: "u64 \<Rightarrow> 'a kmem_state_scheme \<Rightarrow> 'a kmem_state_scheme" where
  "kfree_st pa s = settled ((kmem_set (\<lambda>m. st64 (memset m pa 1 4096) pa (freelist s)) s)\<lparr>freelist := pa\<rparr>)"

definition kalloc_st :: "'a kmem_state_scheme \<Rightarrow> 'a kmem_state_scheme" where
  "kalloc_st s = (if freelist s = 0 then settled s
     else settled ((kmem_set (\<lambda>m. memset m (freelist s) 5 4096) s)\<lparr>freelist := ld64 (pmem s) (freelist s)\<rparr>))"

lemma unat_PGSIZE: "unat PGSIZE = 4096"
  by (simp add: PGSIZE_def)

lemma kmem_freelist_upd [simp]:
  "hart_ok (s\<lparr>freelist := x\<rparr>) = hart_ok s" "lock_free (s\<lparr>freelist := x\<rparr>) lk = lock_free s lk"
  by (simp_all add: hart_ok_def lock_free_def intr_enabled_def hart_def)

lemma kmem_set_freelist: "kmem_set f (s\<lparr>freelist := x\<rparr>) = (kmem_set f s)\<lparr>freelist := x\<rparr>"
  by (simp add: kmem_set_def)

lemma kfree_run [krun]:
  assumes "hart_ok s" and "lock_free s LkKmem" and "page_ok (image s) pa"
  shows "kfree pa (s, e) = Ok () (kfree_st pa s, e)"
proof -
  have ok: "\<not> (pa mod PGSIZE \<noteq> 0 \<or> pa < kend (image s) \<or> PHYSTOP \<le> pa)"
    using assms(3) page_aligned_iff [of pa] by (auto simp: page_ok_def)
  show ?thesis
    using assms(1,2) ok
    apply (simp add: kfree_def kthen_def kbind_def acquire_run kmemset_def kstore_def unat_PGSIZE)
    apply (simp add: kmem_commute release_run)
    apply (simp add: kfree_st_def kmem_set_def)
    done
qed

lemma kfree_bad:
  "\<not> page_ok (image s) pa \<Longrightarrow> pa \<noteq> 0 \<or> 0 < kend (image s) \<Longrightarrow> kfree pa (s, e) = Panic ''kfree'' (s, e)"
  using page_aligned_iff [of pa] word_gt_0 [of "kend (image s)"]
  by (auto simp: kfree_def page_ok_def not_le)

lemma kalloc_run [krun]:
  assumes "hart_ok s" and "lock_free s LkKmem"
  shows "kalloc (s, e) = Ok (freelist s) (kalloc_st s, e)"
proof (cases "freelist s = 0")
  case True
  then show ?thesis
    using assms by (simp add: kalloc_def kthen_def kbind_def acquire_run release_run kalloc_st_def)
next
  case False
  let ?t = "s\<lparr>freelist := ld64 (pmem s) (freelist s)\<rparr>"
  have "release LkKmem (acquired LkKmem ?t, e) = Ok () (settled ?t, e)"
    using assms by (simp add: release_run)
  then show ?thesis
    using assms False
    by (simp add: kalloc_def kload_def kmemset_def kthen_def kbind_def acquire_run kmem_commute kalloc_st_def
        kmem_set_freelist unat_PGSIZE)
qed

section \<open>The pool\<close>

lemma settled_kmem [simp]: "pool (settled s) ps = pool s ps"
  by (simp add: pool_def)

lemma kfree_pool:
  assumes "pool s ps" and "page_ok (image s) pa" and "pa \<notin> set ps"
  shows "pool (kfree_st pa s) (pa # ps)"
    and "mem_same_outside [pa] (pmem s) (pmem (kfree_st pa s))"
proof -
  let ?m = "st64 (memset (pmem s) pa 1 4096) pa (freelist s)"
  have al: "page_aligned pa" using assms(2) by (simp add: page_ok_def)
  have out: "mem_same_outside [pa] (pmem s) ?m"
    using al by (simp add: mem_same_outside_def page_st64_other page_memset_other)
  moreover have "\<forall>a \<in> set ps. page_aligned a" using assms(1) by (simp add: pool_def page_ok_def)
  ultimately have "free_list ?m (freelist s) ps"
    using assms al free_list_other_pages [of "pmem s" "freelist s" ps "[pa]" ?m] by (simp add: pool_def)
  then show "pool (kfree_st pa s) (pa # ps)"
    using assms by (simp add: kfree_st_def pool_def ld64_st64_same)
  show "mem_same_outside [pa] (pmem s) (pmem (kfree_st pa s))"
    using out by (simp add: kfree_st_def)
qed

lemma kalloc_pool:
  assumes "pool s (pa # ps)"
  shows "freelist s = pa" and "pool (kalloc_st s) ps"
    and "mem_same_outside [pa] (pmem s) (pmem (kalloc_st s))"
    and "i < 4096 \<Longrightarrow> pmem (kalloc_st s) (pa + of_nat i) = 5"
proof -
  have pa: "page_ok (image s) pa" "pa \<notin> set ps" and fl: "freelist s = pa"
    and l: "free_list (pmem s) (ld64 (pmem s) pa) ps"
    using assms by (auto simp: pool_def)
  then have al: "page_aligned pa" and nz: "pa \<noteq> 0" by (simp_all add: page_ok_def)
  let ?m = "memset (pmem s) pa 5 4096"
  have out: "mem_same_outside [pa] (pmem s) ?m"
    using al by (simp add: mem_same_outside_def page_memset_other)
  moreover have "\<forall>a \<in> set ps. page_aligned a" using assms by (simp add: pool_def page_ok_def)
  ultimately have "free_list ?m (ld64 (pmem s) pa) ps"
    using l al pa free_list_other_pages [of "pmem s" "ld64 (pmem s) pa" ps "[pa]" ?m] by simp
  then show "pool (kalloc_st s) ps"
    using assms nz fl by (simp add: kalloc_st_def pool_def)
  show "freelist s = pa" by (rule fl)
  show "mem_same_outside [pa] (pmem s) (pmem (kalloc_st s))"
    using out nz fl by (simp add: kalloc_st_def)
  show "i < 4096 \<Longrightarrow> pmem (kalloc_st s) (pa + of_nat i) = 5"
    using nz fl al by (simp add: kalloc_st_def page_memset_same)
qed

lemma kalloc_empty: "pool s [] \<Longrightarrow> freelist s = 0 \<and> kalloc_st s = settled s"
  by (simp add: pool_def kalloc_st_def)

section \<open>kinit\<close>

lemma low_bits: "x AND - 4096 = (x :: u64) - (x AND 0xFFF)"
proof -
  have "x = (x AND NOT 0xFFF) OR (x AND 0xFFF)"
    by (rule bit_word_eqI) (auto simp: bit_simps)
  also have "\<dots> = (x AND NOT 0xFFF) + (x AND 0xFFF)"
    by (rule disjunctive_add [symmetric]) (simp add: bit_simps)
  finally have "x AND NOT 0xFFF = x - (x AND 0xFFF)" by (metis add_diff_cancel_right')
  then show ?thesis by simp
qed

lemma unat_low_bits: "unat ((x :: u64) AND 0xFFF) = unat x mod 4096"
proof -
  have "x AND 0xFFF = take_bit 12 x" by (simp add: take_bit_eq_mask mask_eq_exp_minus_1)
  then show ?thesis by (simp add: take_bit_eq_mod unat_mod)
qed

lemma unat_clear_low: "unat ((x :: u64) AND - 4096) = unat x div 4096 * 4096"
proof -
  have le: "unat (x AND 0xFFF) \<le> unat x" by (simp only: unat_low_bits mod_less_eq_dividend)
  then have "unat (x - (x AND 0xFFF)) = unat x - unat x mod 4096"
    by (subst unat_sub) (simp_all only: word_le_nat_alt unat_low_bits)
  then show ?thesis by (simp add: low_bits minus_mod_eq_div_mult)
qed

lemma unat_PGROUNDDOWN: "unat (PGROUNDDOWN a) = unat a div 4096 * 4096"
  by (simp only: PGROUNDDOWN_def PGSIZE_def) (use unat_clear_low [of a] in simp)

lemma unat_PGROUNDUP:
  assumes "unat a + 4095 < 2 ^ 64"
  shows "unat (PGROUNDUP a) = (unat a + 4095) div 4096 * 4096"
proof -
  have "unat (a + 4095) = unat a + 4095" using assms by (subst unat_add64) simp_all
  moreover have "PGROUNDUP a = (a + 4095) AND - 4096" by (simp add: PGROUNDUP_def PGSIZE_def add.commute)
  ultimately show ?thesis by (simp only: unat_clear_low)
qed

lemma PGROUND_aligned: "page_aligned (PGROUNDUP a)" "page_aligned (PGROUNDDOWN a)"
proof -
  have "page_aligned (x AND - 4096)" for x by (simp only: page_aligned_def unat_clear_low) simp
  from this [of "a + 4095"] this [of a] show "page_aligned (PGROUNDUP a)" "page_aligned (PGROUNDDOWN a)"
    by (simp_all add: PGROUNDUP_def PGROUNDDOWN_def PGSIZE_def add.commute)
qed

text \<open>The first \<open>k\<close> pages from \<open>p\<close> on.\<close>

definition pages_from :: "u64 \<Rightarrow> nat \<Rightarrow> u64 list" where
  "pages_from p k = map (\<lambda>i. p + of_nat i * PGSIZE) [0..<k]"

lemma pages_from_0 [simp]: "pages_from p 0 = []"
  by (simp add: pages_from_def)

lemma pages_from_Suc: "pages_from p (Suc k) = p # pages_from (p + PGSIZE) k"
  by (simp add: pages_from_def map_upt_Suc ring_distribs del: upt_Suc)

lemma kfree_st_frame [simp]:
  "image (kfree_st pa s) = image s" "hart_ok (kfree_st pa s) = hart_ok s"
  "lock_free (kfree_st pa s) lk = lock_free s lk"
  by (simp_all add: kfree_st_def)

lemma kalloc_st_frame [simp]:
  "image (kalloc_st s) = image s" "hart_ok (kalloc_st s) = hart_ok s"
  "lock_free (kalloc_st s) lk = lock_free s lk"
  by (simp_all add: kalloc_st_def)

lemma freerange_loop_run:
  assumes "hart_ok s" and "lock_free s LkKmem" and "pool s ps"
    and "page_aligned p" and "p \<noteq> 0" and "kend (image s) \<le> p" and "unat lim \<le> unat PHYSTOP"
    and "unat p + 4096 * k \<le> unat lim" and "unat lim < unat p + 4096 * k + 4096" and "k \<le> n"
    and "\<forall>a \<in> set ps. unat a < unat p"
  shows "\<exists>t. freerange_loop n p lim (s, e) = Ok () (t, e) \<and> pool t (rev (pages_from p k) @ ps) \<and>
    hart_ok t \<and> lock_free t LkKmem"
  using assms
proof (induction n arbitrary: s p k ps)
  case 0
  have "unat (p + PGSIZE) = unat p + 4096"
    using 0 by (subst unat_add64) (simp_all add: PGSIZE_def PHYSTOP_def KERNBASE_def)
  then have "\<not> p + PGSIZE \<le> lim" using 0 by (simp add: word_le_nat_alt)
  then show ?case using 0 by simp
next
  case (Suc n)
  have up: "unat (p + PGSIZE) = unat p + 4096"
    using Suc.prems by (subst unat_add64) (simp_all add: PGSIZE_def PHYSTOP_def KERNBASE_def)
  show ?case
  proof (cases k)
    case 0
    then have "\<not> p + PGSIZE \<le> lim" using Suc.prems up by (simp add: word_le_nat_alt)
    then show ?thesis using 0 Suc.prems by simp
  next
    case (Suc k')
    have le: "p + PGSIZE \<le> lim" using Suc.prems up Suc by (simp add: word_le_nat_alt)
    have ok: "page_ok (image s) p"
      using Suc.prems up Suc by (simp add: page_ok_def word_less_nat_alt)
    have fresh: "p \<notin> set ps" using Suc.prems(11) by blast
    have run: "kfree p (s, e) = Ok () (kfree_st p s, e)"
      using Suc.prems(1,2) ok by (rule kfree_run)
    have "\<exists>t. freerange_loop n (p + PGSIZE) lim (kfree_st p s, e) = Ok () (t, e) \<and>
        pool t (rev (pages_from (p + PGSIZE) k') @ p # ps) \<and> hart_ok t \<and> lock_free t LkKmem"
    proof (rule Suc.IH)
      show "page_aligned (p + PGSIZE)" using Suc.prems(4) by (simp add: page_aligned_def up)
      show "p + PGSIZE \<noteq> 0" using up by (auto simp: word_unat_eq_iff)
      show "kend (image (kfree_st p s)) \<le> p + PGSIZE"
        using Suc.prems(6) up by (simp add: word_le_nat_alt)
      show "pool (kfree_st p s) (p # ps)" using Suc.prems(3) ok fresh by (rule kfree_pool)
      show "\<forall>a \<in> set (p # ps). unat a < unat (p + PGSIZE)" using Suc.prems(11) up by auto
    qed (use Suc.prems up Suc in simp_all)
    then show ?thesis
      using le run Suc by (simp add: kthen_def kbind_def pages_from_Suc)
  qed
qed

text \<open>The number of whole pages between the end of the kernel and PHYSTOP.\<close>

definition free_pages :: "u64 \<Rightarrow> nat" where
  "free_pages e = (unat PHYSTOP - unat (PGROUNDUP e)) div 4096"

lemma unat_PHYSTOP: "unat PHYSTOP = 0x88000000"
  by (simp add: PHYSTOP_def KERNBASE_def)

lemma initlock_kmem:
  "initlock lk nm (s, e) = Ok () (s\<lparr>locks := (locks s)(lk := \<lparr>locked = 0, lname = nm, lcpu = None\<rparr>)\<rparr>, e)"
  by (simp add: initlock_def)

lemma kinit_run:
  assumes "hart_ok s" and "freelist s = 0" and "kend (image s) \<noteq> 0" and "kend (image s) \<le> PHYSTOP"
  shows "\<exists>t. kinit (s, e) = Ok () (t, e) \<and>
     pool t (rev (pages_from (PGROUNDUP (kend (image s))) (free_pages (kend (image s)))))"
proof -
  let ?k = "kend (image s)" and ?p = "PGROUNDUP (kend (image s))"
  let ?s = "s\<lparr>locks := (locks s)(LkKmem := \<lparr>locked = 0, lname = ''kmem'', lcpu = None\<rparr>)\<rparr>"
  have kb: "unat ?k \<le> 0x88000000" using assms(4) unat_PHYSTOP by (simp add: word_le_nat_alt)
  have kpos: "0 < unat ?k" using assms(3) by (simp add: unat_gt_0)
  have up: "unat ?p = (unat ?k + 4095) div 4096 * 4096" using kb by (intro unat_PGROUNDUP) simp
  then have lo: "unat ?k \<le> unat ?p" and pb: "unat ?p \<le> 0x88000000" using kb by simp_all
  have n: "unat (PHYSTOP div PGSIZE) = 0x88000"
    by (simp add: unat_div unat_PHYSTOP unat_PGSIZE)
  have "\<exists>t. freerange_loop 0x88000 ?p PHYSTOP (?s, e) = Ok () (t, e) \<and>
      pool t (rev (pages_from ?p (free_pages ?k)) @ []) \<and> hart_ok t \<and> lock_free t LkKmem"
  proof (rule freerange_loop_run)
    show "hart_ok ?s" using assms(1) by (simp add: hart_ok_def intr_enabled_def)
    show "lock_free ?s LkKmem" by (simp add: lock_free_def)
    show "pool ?s []" using assms(2) by (simp add: pool_def)
    show "page_aligned ?p" by (rule PGROUND_aligned)
    show "?p \<noteq> 0" using lo kpos by auto
    show "kend (image ?s) \<le> ?p" using lo by (simp add: word_le_nat_alt)
    show "unat ?p + 4096 * free_pages ?k \<le> unat PHYSTOP"
      using pb by (simp add: free_pages_def unat_PHYSTOP)
    show "unat PHYSTOP < unat ?p + 4096 * free_pages ?k + 4096"
      using pb by (simp add: free_pages_def unat_PHYSTOP)
    show "free_pages ?k \<le> 0x88000" by (simp add: free_pages_def unat_PHYSTOP)
  qed simp_all
  then obtain t where "freerange_loop 0x88000 ?p PHYSTOP (?s, e) = Ok () (t, e)"
    and "pool t (rev (pages_from ?p (free_pages ?k)))" by auto
  then show ?thesis
    by (simp add: kinit_def kthen_def kbind_def initlock_kmem freerange_def n)
qed

section \<open>Properties\<close>

text \<open>A machine whose kernel ends two pages below PHYSTOP.\<close>

definition sample_image :: kernel_image where
  "sample_image = \<lparr>kend = PHYSTOP - 2 * PGSIZE - 100, etext = KERNBASE + PGSIZE, trampoline = KERNBASE,
     uservec = KERNBASE, userret = KERNBASE + 0x9c, kernelvec = KERNBASE + 0x200, forkret_addr = KERNBASE + 0x400,
     usertrap_addr = KERNBASE + 0x600\<rparr>"

definition sample_kmem :: kmem_state where
  "sample_kmem = panic_state.extend sample_panic \<lparr>image = sample_image, freelist = 0, kernel_pagetable = 0\<rparr>"

lemma sample_kmem_like: "like_sample sample_kmem"
  using sample_panic_like
  by (simp add: like_sample_def sample_kmem_def panic_state.extend_def machine.truncate_def)

lemma sample_kmem_simps [simp]:
  "image sample_kmem = sample_image" "freelist sample_kmem = 0"
  by (simp_all add: sample_kmem_def panic_state.extend_def)

lemma sample_kend: "kend sample_image = 0x87ffdf9c"
  by (simp add: sample_image_def PHYSTOP_def KERNBASE_def PGSIZE_def)

text \<open>
  C15. kinit fills the page pool: from an empty free list it leaves exactly the whole pages
  between the end of the kernel and PHYSTOP on it, each once, the highest first.
\<close>

theorem kinit_fills_pool:
  assumes "hart_ok s" and "freelist s = 0" and "kend (image s) \<noteq> 0" and "kend (image s) \<le> PHYSTOP"
  shows "\<exists>t. kinit (s, e) = Ok () (t, e) \<and>
     pool t (rev (pages_from (PGROUNDUP (kend (image s))) (free_pages (kend (image s)))))"
  by (rule kinit_run [OF assms])

theorem kinit_fills_pool_witness:
  "\<exists>t. kinit (sample_kmem, []) = Ok () (t, []) \<and> pool t [0x87fff000, 0x87ffe000]"
proof -
  have r: "PGROUNDUP 0x87ffdf9c = 0x87ffe000"
    by (simp add: PGROUNDUP_def PGSIZE_def)
  have n: "free_pages 0x87ffdf9c = 2"
    by (simp add: free_pages_def r unat_PHYSTOP)
  have p: "pages_from 0x87ffe000 2 = [0x87ffe000, 0x87fff000]"
    by (simp add: pages_from_def PGSIZE_def upt_conv_Cons numeral_2_eq_2)
  have b: "(0x87ffdf9c :: u64) \<noteq> 0" "(0x87ffdf9c :: u64) \<le> PHYSTOP"
    by (simp_all add: PHYSTOP_def KERNBASE_def)
  show ?thesis
    using kinit_fills_pool [of sample_kmem "[]"] like_sample_facts [OF sample_kmem_like] b
    by (simp add: sample_kend r n p)
qed

text \<open>
  C16. kalloc takes a page out of the pool: with pages left it returns the first one, which
  leaves the pool and comes filled with 5s while memory outside of it is unchanged; with
  none left it returns 0 and changes nothing.
\<close>

theorem kalloc_takes_page:
  assumes "hart_ok s" and "lock_free s LkKmem" and "pool s ps"
  shows "\<exists>t. kalloc (s, e) = Ok (if ps = [] then 0 else hd ps) (t, e) \<and> pool t (tl ps) \<and>
     (ps \<noteq> [] \<longrightarrow> page_ok (image s) (hd ps) \<and> hd ps \<notin> set (tl ps) \<and>
        mem_read (pmem t) (hd ps) 4096 = replicate 4096 5) \<and>
     mem_same_outside (take 1 ps) (pmem s) (pmem t) \<and> hart_ok t \<and> lock_free t LkKmem"
proof (cases ps)
  case Nil
  then show ?thesis
    using kalloc_run [OF assms(1,2), of e] kalloc_empty [of s] assms
    by (simp add: mem_same_outside_def)
next
  case (Cons pa as)
  note p = kalloc_pool [OF assms(3) [unfolded Cons]]
  have "mem_read (pmem (kalloc_st s)) pa 4096 = replicate 4096 5"
    by (rule nth_equalityI) (simp_all add: nth_mem_read p(4))
  moreover have "page_ok (image s) pa" "pa \<notin> set as"
    using assms(3) Cons by (simp_all add: pool_def)
  ultimately show ?thesis
    using kalloc_run [OF assms(1,2), of e] p(1-3) assms Cons by simp
qed

text \<open>
  C17. kfree gives a page back: it becomes the first of the pool, and only its own bytes
  change; a page that is not one of the allocator's --- unaligned, inside the kernel,
  beyond PHYSTOP --- makes it panic.
\<close>

theorem kfree_adds_page:
  assumes "hart_ok s" and "lock_free s LkKmem" and "pool s ps" and "pa \<notin> set ps" and "kend (image s) \<noteq> 0"
  shows "(page_ok (image s) pa \<longrightarrow> (\<exists>t. kfree pa (s, e) = Ok () (t, e) \<and> pool t (pa # ps) \<and>
      mem_same_outside [pa] (pmem s) (pmem t) \<and> hart_ok t \<and> lock_free t LkKmem)) \<and>
    (\<not> page_ok (image s) pa \<longrightarrow> kfree pa (s, e) = Panic ''kfree'' (s, e))"
  using kfree_run [OF assms(1,2), of pa e] kfree_pool [OF assms(3) _ assms(4)] assms
    kfree_bad [of s pa e] word_gt_0 [of "kend (image s)"]
  by auto

text \<open>The pool the examples use: one page, whose first eight bytes are 0.\<close>

definition sample_pool :: kmem_state where
  "sample_pool = sample_kmem\<lparr>freelist := 0x87fff000\<rparr>"

lemma sample_pool_facts:
  "hart_ok sample_pool" "lock_free sample_pool lk" "pool sample_pool [0x87fff000]"
  "image sample_pool = sample_image" "page_ok sample_image 0x87ffe000"
proof -
  have z: "pmem sample_kmem a = 0" for a by (rule like_sample_facts [OF sample_kmem_like])
  have "mem_read (pmem sample_kmem) a 8 = replicate 8 0" for a
    by (rule nth_equalityI) (simp_all add: nth_mem_read z)
  then have "ld64 (pmem sample_kmem) a = 0" for a
    by (simp add: ld64_def numeral_eq_Suc)
  then show "pool sample_pool [0x87fff000]" "page_ok sample_image 0x87ffe000"
    by (simp_all add: sample_pool_def pool_def page_ok_def page_aligned_def sample_kend PHYSTOP_def KERNBASE_def)
  show "hart_ok sample_pool" "lock_free sample_pool lk" "image sample_pool = sample_image"
    using like_sample_facts [OF sample_kmem_like] by (simp_all add: sample_pool_def)
qed

theorem kalloc_takes_page_witness:
  "\<exists>t. kalloc (sample_pool, []) = Ok 0x87fff000 (t, []) \<and> pool t [] \<and>
     mem_read (pmem t) 0x87fff000 4096 = replicate 4096 5"
  using kalloc_takes_page [OF sample_pool_facts(1,2,3), of "[]"] by auto

theorem kfree_adds_page_witness:
  "(\<exists>t. kfree 0x87ffe000 (sample_pool, []) = Ok () (t, []) \<and> pool t [0x87ffe000, 0x87fff000]) \<and>
   kfree 0x87ffe001 (sample_pool, []) = Panic ''kfree'' (sample_pool, [])"
proof -
  have k: "kend (image sample_pool) \<noteq> 0" by (simp add: sample_pool_facts sample_kend)
  have "\<not> page_ok sample_image 0x87ffe001" by (simp add: page_ok_def page_aligned_def)
  then show ?thesis
    using kfree_adds_page [where s = sample_pool and pa = "0x87ffe000" and ps = "[0x87fff000]" and e = "[]"]
      kfree_adds_page [where s = sample_pool and pa = "0x87ffe001" and ps = "[0x87fff000]" and e = "[]"]
      sample_pool_facts k
    by auto
qed

end
