(* ===== verification/Ring.thy ===== *)
theory Ring
  imports Prelude
begin

text \<open>
  Rings indexed by free-running 32-bit counters, as the console and the pipes use them: a
  reader counter, a writer counter, both taken modulo the size on access. The content is
  the list between the counters; it survives the wrap-around of the counters because the
  size divides 2^32.
\<close>

definition ring_content :: "nat \<Rightarrow> 'b list \<Rightarrow> u32 \<Rightarrow> u32 \<Rightarrow> 'b list" where
  "ring_content N buf r w = map (\<lambda>k. buf ! (unat (r + of_nat k) mod N)) [0..<unat (w - r)]"

lemma length_ring_content [simp]: "length (ring_content N buf r w) = unat (w - r)"
  by (simp add: ring_content_def)

lemma ring_empty_iff: "ring_content N buf r w = [] \<longleftrightarrow> r = w"
  by (auto simp: ring_content_def unat_eq_0)

locale ring =
  fixes N :: nat
  assumes N_pos: "0 < N" and N_dvd: "N dvd 2 ^ 32" and N_less: "N < 2 ^ 32"
begin

lemma index: "unat (r + of_nat k :: u32) mod N = (unat r + k) mod N"
proof -
  have "unat (r + of_nat k :: u32) = (unat r + k) mod 2 ^ 32"
    by (simp add: unat_word_ariths(1) unat_of_nat take_bit_eq_mod mod_add_right_eq)
  then show ?thesis using N_dvd by (simp add: mod_mod_cancel)
qed

lemma index_w: "unat (w :: u32) mod N = (unat r + unat (w - r)) mod N"
  using index [of r "unat (w - r)"] by simp

text \<open>No slot of the content is the one the writer is at, unless the ring is full.\<close>

lemma slot_differs:
  assumes "k < unat (w - r :: u32)" and "unat (w - r) < N"
  shows "unat (r + of_nat k) mod N \<noteq> unat w mod N"
proof
  assume "unat (r + of_nat k) mod N = unat w mod N"
  then have "(unat r + k) mod N = (unat r + unat (w - r)) mod N" by (simp only: index index_w [of w r])
  then have "N dvd (unat r + unat (w - r)) - (unat r + k)"
    using assms(1) by (intro mod_eq_dvd_iff_nat [THEN iffD1]) simp_all
  then have "N dvd unat (w - r) - k" by simp
  then have "N \<le> unat (w - r) - k" using assms(1) by (intro dvd_imp_le) simp_all
  then show False using assms by simp
qed

lemma count_Suc: "unat (w - r :: u32) < N \<Longrightarrow> unat (w + 1 - r) = Suc (unat (w - r))"
proof -
  assume "unat (w - r) < N"
  then have "unat (w - r) + 1 < 2 ^ 32" using N_less by simp
  then have "unat ((w - r) + 1) = unat (w - r) + 1" by (simp add: unat_word_ariths(1))
  moreover have "w + 1 - r = (w - r) + 1" by simp
  ultimately show ?thesis by (simp only: Suc_eq_plus1)
qed

lemma count_pred: "r \<noteq> (w :: u32) \<Longrightarrow> unat (w - (r + 1)) = unat (w - r) - 1"
proof -
  assume "r \<noteq> w"
  then have "w - r \<noteq> 0" by simp
  then have "unat (w - r - 1) = unat (w - r) - 1" by (rule unat_minus_one)
  moreover have "w - r - 1 = w - (r + 1)" by simp
  ultimately show ?thesis by (simp only:)
qed

text \<open>Writing appends, reading takes the first element, erasing drops the last.\<close>

lemma push:
  assumes "length buf = N" and "unat (w - r) < N"
  shows "ring_content N (buf[unat w mod N := x]) r (w + 1) = ring_content N buf r w @ [x]"
proof -
  have "unat w mod N < length buf" using assms(1) N_pos by simp
  moreover have "r + of_nat (unat (w - r)) = w" by simp
  moreover have "map (\<lambda>k. buf[unat w mod N := x] ! (unat (r + of_nat k) mod N)) [0..<unat (w - r)] =
      map (\<lambda>k. buf ! (unat (r + of_nat k) mod N)) [0..<unat (w - r)]"
    by (intro map_cong refl nth_list_update_neq) (use slot_differs [OF _ assms(2)] in \<open>force dest: sym\<close>)
  ultimately show ?thesis
    by (simp add: ring_content_def count_Suc [OF assms(2)])
qed

lemma pop:
  assumes "r \<noteq> w"
  shows "ring_content N buf r w = buf ! (unat r mod N) # ring_content N buf (r + 1) w"
proof -
  have "w - r \<noteq> 0" using assms by simp
  then have "0 < unat (w - r)" by (simp add: unat_gt_0)
  then obtain d where d: "unat (w - r) = Suc d" by (cases "unat (w - r)") auto
  then have "unat (w - (r + 1)) = d" using count_pred [OF assms] by simp
  then show ?thesis
    by (simp add: ring_content_def d map_upt_Suc del: upt_Suc) (simp add: add.assoc)
qed

lemma erase:
  assumes "r \<noteq> w"
  shows "ring_content N buf r (w - 1) = butlast (ring_content N buf r w)"
proof -
  have nz: "w - r \<noteq> 0" using assms by simp
  then obtain d where d: "unat (w - r) = Suc d" by (cases "unat (w - r)") (auto simp: unat_eq_0)
  have "unat (w - r - 1) = unat (w - r) - 1" by (rule unat_minus_one [OF nz])
  moreover have "w - 1 - r = w - r - 1" by simp
  ultimately have "unat (w - 1 - r) = unat (w - r) - 1" by (simp only:)
  then have "unat (w - 1 - r) = d" using d by simp
  then show ?thesis by (simp add: ring_content_def d)
qed

lemma full_iff: "(w :: u32) = r + of_nat N \<longleftrightarrow> unat (w - r) = N"
proof -
  have "w = r + of_nat N \<longleftrightarrow> w - r = (of_nat N :: u32)" by (auto simp: algebra_simps)
  also have "\<dots> \<longleftrightarrow> unat (w - r) = N"
    using N_less by (simp add: word_unat_eq_iff unat_of_nat take_bit_eq_mod)
  finally show ?thesis .
qed

end

end
