(* ===== verification/Paging.thy ===== *)
theory Paging
  imports Vm Pages
begin

text \<open>
  What user memory looks like to the kernel: the walk of a page table as a function of
  memory, the physical address of a user address, and copyin, copyinstr and copyout, which
  go page by page, as reads and writes byte by byte.
\<close>

section \<open>Translation\<close>

primrec walk_to :: "mem \<Rightarrow> nat \<Rightarrow> u64 \<Rightarrow> u64 \<Rightarrow> u64" where
  "walk_to m 0 pt va = pt + 8 * PX 0 va"
| "walk_to m (Suc l) pt va =
     (let e = ld64 m (pt + 8 * PX (Suc l) va)
      in if e AND PTE_V \<noteq> 0 then walk_to m l (PTE2PA e) va else 0)"

definition pte_of :: "mem \<Rightarrow> u64 \<Rightarrow> u64 \<Rightarrow> u64" where
  "pte_of m pt va = (if walk_to m 2 pt va = 0 then 0 else ld64 m (walk_to m 2 pt va))"

definition translate :: "mem \<Rightarrow> u64 \<Rightarrow> u64 \<Rightarrow> u64" where
  "translate m pt va =
     (let e = pte_of m pt va
      in if MAXVA \<le> va \<or> e AND PTE_V = 0 \<or> e AND PTE_U = 0 then 0 else PTE2PA e)"

lemma walk_levels_run: "walk_levels l pt va False (s, e) = Ok (walk_to (pmem s) l pt va) (s, e)"
  by (induction l arbitrary: pt) (simp_all add: kload_def kbind_def Let_def)

lemma walk_run [krun]: "va < MAXVA \<Longrightarrow> walk pt va False (s, e) = Ok (walk_to (pmem s) 2 pt va) (s, e)"
  by (simp add: walk_def walk_levels_run not_le [symmetric])

lemma walkaddr_run [krun]: "walkaddr pt va (s, e) = Ok (translate (pmem s) pt va) (s, e)"
proof (cases "MAXVA \<le> va")
  case False
  then have "va < MAXVA" by simp
  then show ?thesis
    using False by (simp add: walkaddr_def translate_def pte_of_def kbind_def kload_def Let_def walk_run)
qed (simp add: walkaddr_def translate_def)

section \<open>User addresses\<close>

definition mapped :: "mem \<Rightarrow> u64 \<Rightarrow> u64 \<Rightarrow> bool" where
  "mapped m pt va \<longleftrightarrow> translate m pt (PGROUNDDOWN va) \<noteq> 0"

definition phys :: "mem \<Rightarrow> u64 \<Rightarrow> u64 \<Rightarrow> u64" where
  "phys m pt va = translate m pt (PGROUNDDOWN va) + (va - PGROUNDDOWN va)"

definition user_bytes :: "mem \<Rightarrow> u64 \<Rightarrow> u64 \<Rightarrow> nat \<Rightarrow> u8 list" where
  "user_bytes m pt va n = map (\<lambda>i. m (phys m pt (va + of_nat i))) [0..<n]"

lemma length_user_bytes [simp]: "length (user_bytes m pt va n) = n"
  by (simp add: user_bytes_def)

lemma user_bytes_split: "k \<le> n \<Longrightarrow>
    user_bytes m pt va n = user_bytes m pt va k @ user_bytes m pt (va + of_nat k) (n - k)"
proof -
  assume "k \<le> n"
  then have "[0..<n] = [0..<k] @ [k..<n]" and "[k..<n] = map (\<lambda>i. i + k) [0..<n - k]"
    using upt_add_eq_append [of 0 k "n - k"] map_add_upt [of k "n - k"] by simp_all
  then show ?thesis by (simp add: user_bytes_def comp_def ac_simps)
qed

text \<open>The part of a copy that lies on the first page.\<close>

definition page_off :: "u64 \<Rightarrow> nat" where
  "page_off va = unat va mod 4096"

lemma page_off_less: "page_off va < 4096"
  by (simp add: page_off_def)

lemma va_split: "va = PGROUNDDOWN va + of_nat (page_off va)"
proof -
  have "va - PGROUNDDOWN va = va AND 0xFFF" by (rule page_offset)
  moreover have "of_nat (unat (va AND 0xFFF)) = va AND 0xFFF" by simp
  then have "va AND 0xFFF = of_nat (page_off va)" by (simp only: page_off_def unat_low_bits)
  ultimately show ?thesis by (metis add.commute diff_add_cancel)
qed

lemma va_offset: "va - PGROUNDDOWN va = of_nat (page_off va)"
  using va_split [of va] by (metis add_diff_cancel_left')

lemma page_part_off: "page_part va n = min (4096 - page_off va) n"
proof -
  have "page_off va \<le> 4096" using page_off_less [of va] by simp
  then have "unat (PGSIZE - of_nat (page_off va)) = 4096 - page_off va"
    by (subst unat_sub) (simp_all add: PGSIZE_def word_le_nat_alt unat_of_nat64)
  then show ?thesis by (simp add: page_part_def va_offset)
qed

lemma on_page:
  assumes "page_off va + i < 4096"
  shows "PGROUNDDOWN (va + of_nat i) = PGROUNDDOWN va" and "page_off (va + of_nat i) = page_off va + i"
proof -
  define d k where "d = PGROUNDDOWN va" and "k = page_off va"
  then have "va = d + of_nat k" using va_split by simp
  then have "va + of_nat i = PGROUNDDOWN va + of_nat (page_off va + i)"
    by (simp add: add.assoc d_def k_def del: of_nat_add) (simp add: add.assoc)
  moreover have "unat (PGROUNDDOWN va + of_nat (page_off va + i)) = unat (PGROUNDDOWN va) + (page_off va + i)"
    by (rule unat_page_offset [OF PGROUND_aligned(2) assms])
  ultimately have u: "unat (va + of_nat i) = unat va div 4096 * 4096 + (page_off va + i)"
    by (simp add: unat_PGROUNDDOWN del: of_nat_add)
  show off: "page_off (va + of_nat i) = page_off va + i"
    unfolding page_off_def [of "va + of_nat i"] u using assms by simp
  have "unat (PGROUNDDOWN (va + of_nat i)) = unat (PGROUNDDOWN va)"
    unfolding unat_PGROUNDDOWN u using assms by simp
  then show "PGROUNDDOWN (va + of_nat i) = PGROUNDDOWN va" by (simp add: word_unat_eq_iff)
qed

text \<open>The bytes on the first page are contiguous in physical memory.\<close>

lemma phys_on_page:
  assumes "page_off va + i < 4096"
  shows "phys m pt (va + of_nat i) = translate m pt (PGROUNDDOWN va) + of_nat (page_off va) + of_nat i"
proof -
  have "va + of_nat i - PGROUNDDOWN va = of_nat (page_off (va + of_nat i))"
    using va_offset [of "va + of_nat i"] by (simp only: on_page(1) [OF assms])
  then show ?thesis by (simp add: phys_def on_page [OF assms] add.assoc)
qed

lemma first_page_bytes:
  assumes "n \<le> page_part va len"
  shows "mem_read m (translate m pt (PGROUNDDOWN va) + (va - PGROUNDDOWN va)) n = user_bytes m pt va n"
proof (rule nth_equalityI)
  fix i assume "i < length (mem_read m (translate m pt (PGROUNDDOWN va) + (va - PGROUNDDOWN va)) n)"
  then have i: "i < n" by simp
  moreover have "n \<le> 4096 - page_off va" using assms by (simp add: page_part_off)
  then have "page_off va + i < 4096" using i by arith
  ultimately show "mem_read m (translate m pt (PGROUNDDOWN va) + (va - PGROUNDDOWN va)) n ! i = user_bytes m pt va n ! i"
    by (simp add: nth_mem_read user_bytes_def phys_on_page va_offset)
qed simp

lemma next_page: "page_part va len < len \<Longrightarrow> PGROUNDDOWN va + PGSIZE = va + of_nat (page_part va len)"
proof -
  assume "page_part va len < len"
  then have n: "page_part va len = 4096 - page_off va" by (simp add: page_part_off)
  have "of_nat (page_off va) + of_nat (4096 - page_off va) = (4096 :: u64)"
    using page_off_less [of va] by (simp add: of_nat_add [symmetric] del: of_nat_add)
  then have "PGROUNDDOWN va + PGSIZE = PGROUNDDOWN va + of_nat (page_off va) + of_nat (4096 - page_off va)"
    by (simp add: PGSIZE_def add.assoc)
  then show ?thesis using va_split [of va] n by simp
qed

section \<open>copyin\<close>

definition all_mapped :: "mem \<Rightarrow> u64 \<Rightarrow> u64 \<Rightarrow> nat \<Rightarrow> bool" where
  "all_mapped m pt va n \<longleftrightarrow> (\<forall>i < n. mapped m pt (va + of_nat i))"

lemma all_mapped_first: "all_mapped m pt va n \<Longrightarrow> 0 < n \<Longrightarrow> translate m pt (PGROUNDDOWN va) \<noteq> 0"
  by (auto simp: all_mapped_def mapped_def)

lemma all_mapped_rest: "all_mapped m pt va n \<Longrightarrow> k \<le> n \<Longrightarrow> all_mapped m pt (va + of_nat k) (n - k)"
  by (auto simp: all_mapped_def add.assoc simp flip: of_nat_add)

lemma copyin_run [krun]:
  "all_mapped (pmem s) pt va n \<Longrightarrow> copyin pt va n (s, e) = Ok (0, user_bytes (pmem s) pt va n) (s, e)"
proof (induction n arbitrary: va rule: less_induct)
  case (less n)
  show ?case
  proof (cases "n = 0")
    case True
    then show ?thesis by (simp add: copyin.simps [of pt va 0] user_bytes_def)
  next
    case False
    let ?k = "page_part va n"
    have k: "0 < ?k" "?k \<le> n" using False page_part_pos [of n va] by (simp_all add: page_part_off)
    have pa: "translate (pmem s) pt (PGROUNDDOWN va) \<noteq> 0"
      using less.prems False by (intro all_mapped_first) simp_all
    have rest: "copyin pt (PGROUNDDOWN va + PGSIZE) (n - ?k) (s, e) =
        Ok (0, user_bytes (pmem s) pt (va + of_nat ?k) (n - ?k)) (s, e)"
    proof (cases "?k < n")
      case True
      then show ?thesis
        using less.IH [of "n - ?k" "va + of_nat ?k"] all_mapped_rest [OF less.prems k(2)] k
        by (simp add: next_page)
    next
      case False
      then have "n - ?k = 0" by simp
      then show ?thesis by (simp add: copyin.simps [of pt _ 0] user_bytes_def)
    qed
    show ?thesis
      using False pa k(2)
      by (simp add: copyin.simps [of pt va n] Let_def kbind_def walkaddr_run first_page_bytes [of ?k va n] rest
          user_bytes_split [of ?k n])
  qed
qed

section \<open>copyinstr\<close>

lemma copy_str_NUL:
  "k < length bs \<Longrightarrow> bs ! k = 0 \<Longrightarrow> \<forall>i < k. bs ! i \<noteq> 0 \<Longrightarrow> copy_str bs = (map char_of_byte (take k bs) @ [NUL], True)"
proof (induction bs arbitrary: k)
  case (Cons b bs)
  show ?case
  proof (cases k)
    case 0
    then show ?thesis using Cons by simp
  next
    case (Suc j)
    moreover have "b \<noteq> 0" using Cons.prems(3) Suc by fastforce
    moreover have "copy_str bs = (map char_of_byte (take j bs) @ [NUL], True)"
      using Cons.prems Suc by (intro Cons.IH) auto
    ultimately show ?thesis by simp
  qed
qed simp

lemma copy_str_none: "0 \<notin> set bs \<Longrightarrow> copy_str bs = (map char_of_byte bs, False)"
  by (induction bs) auto

lemma copyinstr_run:
  "all_mapped (pmem s) pt va n \<Longrightarrow> k < n \<Longrightarrow> user_bytes (pmem s) pt va n ! k = 0 \<Longrightarrow>
   \<forall>i < k. user_bytes (pmem s) pt va n ! i \<noteq> 0 \<Longrightarrow>
   copyinstr pt va n (s, e) = Ok (0, map char_of_byte (user_bytes (pmem s) pt va k) @ [NUL]) (s, e)"
proof (induction n arbitrary: va k rule: less_induct)
  case (less n)
  let ?p = "page_part va n" and ?b = "user_bytes (pmem s) pt va n"
  have n: "n \<noteq> 0" using less.prems(2) by simp
  have p: "0 < ?p" "?p \<le> n" using n page_part_pos [of n va] by (simp_all add: page_part_off)
  have pa: "translate (pmem s) pt (PGROUNDDOWN va) \<noteq> 0"
    using less.prems(1) n by (simp add: all_mapped_first)
  have b: "?b = user_bytes (pmem s) pt va ?p @ user_bytes (pmem s) pt (va + of_nat ?p) (n - ?p)"
    by (rule user_bytes_split [OF p(2)])
  have tk: "take j ?b = user_bytes (pmem s) pt va j" if "j \<le> n" for j
    using user_bytes_split [OF that, of "pmem s" pt va] by simp
  show ?case
  proof (cases "k < ?p")
    case True
    have "copy_str (user_bytes (pmem s) pt va ?p) = (map char_of_byte (take k (user_bytes (pmem s) pt va ?p)) @ [NUL], True)"
      using less.prems(3,4) True unfolding b by (intro copy_str_NUL) (auto simp: nth_append)
    moreover have "take k (user_bytes (pmem s) pt va ?p) = user_bytes (pmem s) pt va k"
      using tk [of ?p] tk [of k] True p less.prems(2) by (metis less_imp_le min.absorb1 take_take)
    ultimately show ?thesis
      using n pa by (simp add: copyinstr.simps [of pt va n] Let_def kbind_def walkaddr_run first_page_bytes [of ?p va n])
  next
    case False
    then have lt: "?p < n" using less.prems(2) by simp
    have nz: "0 \<notin> set (user_bytes (pmem s) pt va ?p)"
    proof
      assume "0 \<in> set (user_bytes (pmem s) pt va ?p)"
      then obtain i where i: "i < ?p" "user_bytes (pmem s) pt va ?p ! i = 0" by (auto simp: in_set_conv_nth)
      then have "?b ! i = 0" unfolding b by (simp add: nth_append)
      then show False using less.prems(4) i(1) False by auto
    qed
    have IH: "copyinstr pt (va + of_nat ?p) (n - ?p) (s, e) =
        Ok (0, map char_of_byte (user_bytes (pmem s) pt (va + of_nat ?p) (k - ?p)) @ [NUL]) (s, e)"
    proof (rule less.IH)
      show "all_mapped (pmem s) pt (va + of_nat ?p) (n - ?p)" by (rule all_mapped_rest [OF less.prems(1) p(2)])
      show "user_bytes (pmem s) pt (va + of_nat ?p) (n - ?p) ! (k - ?p) = 0"
        using less.prems(3) False unfolding b by (simp add: nth_append)
      show "\<forall>i < k - ?p. user_bytes (pmem s) pt (va + of_nat ?p) (n - ?p) ! i \<noteq> 0"
      proof (intro allI impI)
        fix i assume "i < k - ?p"
        then have "?b ! (?p + i) \<noteq> 0" using less.prems(4) by simp
        then show "user_bytes (pmem s) pt (va + of_nat ?p) (n - ?p) ! i \<noteq> 0" unfolding b by (simp add: nth_append)
      qed
    qed (use p less.prems(2) False in simp_all)
    have "?p \<le> k" using False by simp
    then have "user_bytes (pmem s) pt va k =
        user_bytes (pmem s) pt va ?p @ user_bytes (pmem s) pt (va + of_nat ?p) (k - ?p)"
      by (rule user_bytes_split)
    then show ?thesis
      using n pa IH
      by (simp add: copyinstr.simps [of pt va n] Let_def kbind_def walkaddr_run first_page_bytes [of ?p va n]
          copy_str_none [OF nz] next_page [OF lt])
  qed
qed

section \<open>copyout\<close>

text \<open>Byte writes to a list of addresses, in order.\<close>

definition writes :: "u64 list \<Rightarrow> u8 list \<Rightarrow> mem \<Rightarrow> mem" where
  "writes as bs m = fold (\<lambda>(a, b) m. m(a := b)) (zip as bs) m"

lemma writes_simps [simp]:
  "writes [] bs m = m" "writes as [] m = m" "writes (a # as) (b # bs) m = writes as bs (m(a := b))"
  by (simp_all add: writes_def)

lemma writes_append: "length as = length bs \<Longrightarrow> writes (as @ cs) (bs @ ds) m = writes cs ds (writes as bs m)"
  by (simp add: writes_def)

lemma writes_other: "x \<notin> set as \<Longrightarrow> writes as bs m x = m x"
proof (induction as arbitrary: bs m)
  case (Cons a as)
  then show ?case by (cases bs) simp_all
qed simp

lemma writes_nth: "distinct as \<Longrightarrow> length as = length bs \<Longrightarrow> i < length as \<Longrightarrow> writes as bs m (as ! i) = bs ! i"
proof (induction as arbitrary: bs m i)
  case (Cons a as)
  then obtain b bs' where b: "bs = b # bs'" by (cases bs) auto
  show ?case
  proof (cases i)
    case 0
    then show ?thesis using Cons.prems b by (simp add: writes_other)
  next
    case (Suc j)
    then show ?thesis using Cons b by simp
  qed
qed simp

lemma mem_write_writes: "mem_write m a bs = writes (map (\<lambda>i. a + of_nat i) [0..<length bs]) bs m"
proof (induction bs arbitrary: m a)
  case (Cons b bs)
  have "map (\<lambda>i. a + of_nat i) [0..<length (b # bs)] = a # map (\<lambda>i. (a + 1) + of_nat i) [0..<length bs]"
    by (simp add: map_upt_Suc add.assoc del: upt_Suc)
  then show ?case using Cons.IH [of "m(a := b)" "a + 1"] by (simp only: mem_write.simps writes_simps)
qed simp

text \<open>The page table entries a walk reads, and their bytes.\<close>

primrec walk_cells :: "mem \<Rightarrow> nat \<Rightarrow> u64 \<Rightarrow> u64 \<Rightarrow> u64 list" where
  "walk_cells m 0 pt va = [pt + 8 * PX 0 va]"
| "walk_cells m (Suc l) pt va =
     (let a = pt + 8 * PX (Suc l) va; e = ld64 m a
      in a # (if e AND PTE_V \<noteq> 0 then walk_cells m l (PTE2PA e) va else []))"

definition walk_bytes :: "mem \<Rightarrow> u64 \<Rightarrow> u64 \<Rightarrow> u64 set" where
  "walk_bytes m pt va = {a + of_nat i | a i. a \<in> set (walk_cells m 2 pt va) \<and> i < 8}"

lemma walk_to_cong:
  "\<forall>a \<in> set (walk_cells m l pt va). ld64 m' a = ld64 m a \<Longrightarrow>
   walk_to m' l pt va = walk_to m l pt va \<and> walk_cells m' l pt va = walk_cells m l pt va \<and>
   (walk_to m l pt va = 0 \<or> walk_to m l pt va \<in> set (walk_cells m l pt va))"
  by (induction l arbitrary: pt) (auto simp: Let_def)

lemma walk_cong:
  assumes "\<forall>x \<in> walk_bytes m pt va. m' x = m x"
  shows "walk_to m' 2 pt va = walk_to m 2 pt va" and "pte_of m' pt va = pte_of m pt va"
    and "translate m' pt va = translate m pt va" and "walk_bytes m' pt va = walk_bytes m pt va"
proof -
  have cells: "\<forall>a \<in> set (walk_cells m 2 pt va). ld64 m' a = ld64 m a"
  proof
    fix a assume "a \<in> set (walk_cells m 2 pt va)"
    then have "a + of_nat i \<in> walk_bytes m pt va" if "i < 8" for i using that by (auto simp: walk_bytes_def)
    then show "ld64 m' a = ld64 m a" using assms by (intro ld64_cong) simp
  qed
  note w = walk_to_cong [OF cells]
  from w show "walk_bytes m' pt va = walk_bytes m pt va" by (simp add: walk_bytes_def)
  from w show "walk_to m' 2 pt va = walk_to m 2 pt va" by (rule conjunct1)
  with w cells show "pte_of m' pt va = pte_of m pt va" by (auto simp: pte_of_def)
  then show "translate m' pt va = translate m pt va" by (simp add: translate_def)
qed

definition user_addrs :: "mem \<Rightarrow> u64 \<Rightarrow> u64 \<Rightarrow> nat \<Rightarrow> u64 list" where
  "user_addrs m pt va n = map (\<lambda>i. phys m pt (va + of_nat i)) [0..<n]"

lemma length_user_addrs [simp]: "length (user_addrs m pt va n) = n"
  by (simp add: user_addrs_def)

lemma user_addrs_split: "k \<le> n \<Longrightarrow>
    user_addrs m pt va n = user_addrs m pt va k @ user_addrs m pt (va + of_nat k) (n - k)"
proof -
  assume "k \<le> n"
  then have "[0..<n] = [0..<k] @ [k..<n]" and "[k..<n] = map (\<lambda>i. i + k) [0..<n - k]"
    using upt_add_eq_append [of 0 k "n - k"] map_add_upt [of k "n - k"] by simp_all
  then show ?thesis by (simp add: user_addrs_def comp_def ac_simps)
qed

text \<open>
  The user pages of a copy are mapped writable, and none of their bytes is part of the
  page table that maps them.
\<close>

definition writable :: "mem \<Rightarrow> u64 \<Rightarrow> u64 \<Rightarrow> nat \<Rightarrow> bool" where
  "writable m pt va n \<longleftrightarrow> all_mapped m pt va n \<and>
     (\<forall>i < n. pte_of m pt (PGROUNDDOWN (va + of_nat i)) AND PTE_W \<noteq> 0)"

definition apart :: "mem \<Rightarrow> u64 \<Rightarrow> u64 \<Rightarrow> nat \<Rightarrow> bool" where
  "apart m pt va n \<longleftrightarrow> (\<forall>i < n. \<forall>j < n. phys m pt (va + of_nat i) \<notin> walk_bytes m pt (PGROUNDDOWN (va + of_nat j)))"

lemma user_addrs_page:
  assumes "n \<le> page_part va len"
  shows "map (\<lambda>i. translate m pt (PGROUNDDOWN va) + (va - PGROUNDDOWN va) + of_nat i) [0..<n] = user_addrs m pt va n"
proof -
  have "n \<le> 4096 - page_off va" using assms by (simp add: page_part_off)
  then have "page_off va + i < 4096" if "i < n" for i using that by arith
  then show ?thesis by (simp add: user_addrs_def phys_on_page va_offset)
qed

lemma phys_cong: "\<forall>x \<in> walk_bytes m pt (PGROUNDDOWN va). m' x = m x \<Longrightarrow> phys m' pt va = phys m pt va"
  using walk_cong(3) [of m pt "PGROUNDDOWN va" m'] by (simp add: phys_def)

text \<open>Writing bytes of the range changes no page table entry a later part of it needs.\<close>

lemma range_rest:
  assumes "writable m pt va n" and "apart m pt va n" and "k \<le> n"
    and m': "\<And>x. x \<notin> set (user_addrs m pt va n) \<Longrightarrow> m' x = m x"
  shows "writable m' pt (va + of_nat k) (n - k)" and "apart m' pt (va + of_nat k) (n - k)"
    and "user_addrs m' pt (va + of_nat k) (n - k) = user_addrs m pt (va + of_nat k) (n - k)"
proof -
  have cong: "\<forall>x \<in> walk_bytes m pt (PGROUNDDOWN (va + (of_nat k + of_nat j))). m' x = m x" if "j < n - k" for j
  proof
    fix x assume x: "x \<in> walk_bytes m pt (PGROUNDDOWN (va + (of_nat k + of_nat j)))"
    have kj: "k + j < n" using that by simp
    have "x \<in> walk_bytes m pt (PGROUNDDOWN (va + of_nat (k + j)))" using x by simp
    then have "x \<noteq> phys m pt (va + of_nat i)" if "i < n" for i
      using assms(2) kj that unfolding apart_def by blast
    then have "x \<notin> set (user_addrs m pt va n)" by (fastforce simp: user_addrs_def)
    then show "m' x = m x" by (rule m')
  qed
  have lt: "k + j < n" if "j < n - k" for j using that by simp
  have wr: "translate m pt (PGROUNDDOWN (va + (of_nat k + of_nat j))) \<noteq> 0"
    "pte_of m pt (PGROUNDDOWN (va + (of_nat k + of_nat j))) AND PTE_W \<noteq> 0" if "j < n - k" for j
  proof -
    have "translate m pt (PGROUNDDOWN (va + of_nat (k + j))) \<noteq> 0"
      "pte_of m pt (PGROUNDDOWN (va + of_nat (k + j))) AND PTE_W \<noteq> 0"
      using assms(1) lt [OF that] unfolding writable_def all_mapped_def mapped_def by blast+
    then show "translate m pt (PGROUNDDOWN (va + (of_nat k + of_nat j))) \<noteq> 0"
      "pte_of m pt (PGROUNDDOWN (va + (of_nat k + of_nat j))) AND PTE_W \<noteq> 0" by simp_all
  qed
  have ap: "phys m pt (va + (of_nat k + of_nat i)) \<notin> walk_bytes m pt (PGROUNDDOWN (va + (of_nat k + of_nat j)))"
    if "i < n - k" "j < n - k" for i j
  proof -
    have "phys m pt (va + of_nat (k + i)) \<notin> walk_bytes m pt (PGROUNDDOWN (va + of_nat (k + j)))"
      using assms(2) lt [OF that(1)] lt [OF that(2)] unfolding apart_def by blast
    then show ?thesis by simp
  qed
  show "writable m' pt (va + of_nat k) (n - k)"
    by (simp add: writable_def all_mapped_def mapped_def add.assoc walk_cong [OF cong] wr)
  show "apart m' pt (va + of_nat k) (n - k)"
    by (simp add: apart_def add.assoc phys_cong [OF cong] walk_cong [OF cong] ap)
  show "user_addrs m' pt (va + of_nat k) (n - k) = user_addrs m pt (va + of_nat k) (n - k)"
    by (simp add: user_addrs_def add.assoc phys_cong [OF cong])
qed

lemma copyout_run [krun]:
  "writable (pmem s) pt va (length bs) \<Longrightarrow> apart (pmem s) pt va (length bs) \<Longrightarrow>
   copyout pt va bs (s, e) = Ok 0 (kmem_set (writes (user_addrs (pmem s) pt va (length bs)) bs) s, e)"
proof (induction "length bs" arbitrary: bs va s rule: less_induct)
  case less
  let ?n = "length bs" and ?m = "pmem s"
  show ?case
  proof (cases "bs = []")
    case True
    then show ?thesis by (simp add: copyout.simps [of pt va "[]"] kmem_set_def)
  next
    case False
    let ?k = "page_part va ?n"
    let ?m1 = "writes (user_addrs ?m pt va ?k) (take ?k bs) ?m"
    let ?s1 = "kmem_set (writes (user_addrs ?m pt va ?k) (take ?k bs)) s"
    have k: "0 < ?k" "?k \<le> ?n" using False page_part_pos [of ?n va] by (simp_all add: page_part_off)
    have pa: "translate ?m pt (PGROUNDDOWN va) \<noteq> 0" and w: "pte_of ?m pt (PGROUNDDOWN va) AND PTE_W \<noteq> 0"
      using less.prems(1) False by (auto simp: writable_def all_mapped_def mapped_def)
    have va0: "PGROUNDDOWN va < MAXVA" using pa by (auto simp: translate_def Let_def not_le split: if_splits)
    have pte: "walk_to ?m 2 pt (PGROUNDDOWN va) \<noteq> 0" using w by (auto simp: pte_of_def)
    have m1: "mem_write ?m (translate ?m pt (PGROUNDDOWN va) + (va - PGROUNDDOWN va)) (take ?k bs) = ?m1"
    proof -
      have "length (take ?k bs) = ?k" using k by simp
      then show ?thesis
        using user_addrs_page [OF order_refl, where m = ?m and pt = pt and va = va and len = ?n]
        by (simp only: mem_write_writes)
    qed
    have same: "?m1 x = ?m x" if "x \<notin> set (user_addrs ?m pt va ?n)" for x
      using that user_addrs_split [OF k(2), of ?m pt va] by (intro writes_other) simp
    note rr = range_rest [OF less.prems k(2), of ?m1, OF same]
    have rest: "copyout pt (PGROUNDDOWN va + PGSIZE) (drop ?k bs) (?s1, e) =
        Ok 0 (kmem_set (writes (user_addrs ?m pt (va + of_nat ?k) (?n - ?k)) (drop ?k bs)) ?s1, e)"
    proof (cases "?k < ?n")
      case True
      have "copyout pt (va + of_nat ?k) (drop ?k bs) (?s1, e) =
          Ok 0 (kmem_set (writes (user_addrs (pmem ?s1) pt (va + of_nat ?k) (length (drop ?k bs))) (drop ?k bs)) ?s1, e)"
      proof (rule less.hyps)
        show "length (drop ?k bs) < length bs" using k by simp
        show "writable (pmem ?s1) pt (va + of_nat ?k) (length (drop ?k bs))"
          using rr(1) by simp
        show "apart (pmem ?s1) pt (va + of_nat ?k) (length (drop ?k bs))"
          using rr(2) by simp
      qed
      then show ?thesis by (simp add: next_page [OF True] rr(3))
    next
      case False
      then show ?thesis by (simp add: copyout.simps [of pt _ "[]"] kmem_set_def)
    qed
    have fin: "writes (user_addrs ?m pt (va + of_nat ?k) (?n - ?k)) (drop ?k bs) ?m1 = writes (user_addrs ?m pt va ?n) bs ?m"
      using user_addrs_split [OF k(2), of ?m pt va] k writes_append [of "user_addrs ?m pt va ?k" "take ?k bs" "user_addrs ?m pt (va + of_nat ?k) (?n - ?k)" "drop ?k bs" ?m]
      by simp
    show ?thesis
      using False pa w va0 pte rest
      apply (simp add: copyout.simps [of pt va bs] Let_def kthen_def kbind_def walkaddr_run walk_run kload_def pte_of_def)
      apply (simp add: kmem_set_def m1)
      apply (simp add: fin)
      done
  qed
qed

section \<open>The copies as reads and writes byte by byte\<close>

lemma user_bytes_addrs: "user_bytes m pt va n = map m (user_addrs m pt va n)"
  by (simp add: user_bytes_def user_addrs_def)

text \<open>
  C19. copyin, which goes page by page through the page table, reads the user bytes one by
  one: when every page is mapped it returns 0 and the byte at the physical address of each
  user address, and changes nothing.
\<close>

theorem copyin_reads_bytes:
  assumes "all_mapped (pmem s) pt va n"
  shows "copyin pt va n (s, e) = Ok (0, map (pmem s) (user_addrs (pmem s) pt va n)) (s, e)"
  using copyin_run [OF assms] by (simp add: user_bytes_addrs)

lemma copyout_cong:
  assumes "writable m pt va n" and "apart m pt va n" and "length bs = n"
    and m': "m' = writes (user_addrs m pt va n) bs m"
  shows "all_mapped m' pt va n" and "user_addrs m' pt va n = user_addrs m pt va n"
  using range_rest [OF assms(1,2), of 0 m'] by (simp_all add: m' writes_other writable_def)

lemma map_writes: "distinct as \<Longrightarrow> length as = length bs \<Longrightarrow> map (writes as bs m) as = bs"
  by (rule nth_equalityI) (simp_all add: writes_nth)

subsection \<open>Sets of user addresses\<close>

text \<open>
  The addresses of \<open>A\<close> are mapped writable and no byte behind them is part of the page
  table that maps them: kernel writes to them keep their translation.
\<close>

definition uspace :: "mem \<Rightarrow> u64 \<Rightarrow> u64 set \<Rightarrow> bool" where
  "uspace m pt A \<longleftrightarrow> (\<forall>a \<in> A. mapped m pt a \<and> pte_of m pt (PGROUNDDOWN a) AND PTE_W \<noteq> 0) \<and>
     (\<forall>a \<in> A. \<forall>b \<in> A. phys m pt a \<notin> walk_bytes m pt (PGROUNDDOWN b))"

definition urange :: "u64 \<Rightarrow> nat \<Rightarrow> u64 set" where
  "urange va n = (\<lambda>i. va + of_nat i) ` {..<n}"

lemma uspace_range:
  assumes "uspace m pt A" and "urange va n \<subseteq> A"
  shows "writable m pt va n \<and> apart m pt va n"
proof -
  have "va + of_nat i \<in> A" if "i < n" for i using assms(2) that by (auto simp: urange_def)
  then show ?thesis using assms(1) unfolding uspace_def writable_def apart_def all_mapped_def by blast
qed

lemma set_user_addrs: "set (user_addrs m pt va n) = phys m pt ` urange va n"
  by (simp add: user_addrs_def urange_def image_image lessThan_atLeast0)

lemma distinct_user_addrs:
  assumes "inj_on (phys m pt) A" and "urange va n \<subseteq> A" and "n \<le> 2 ^ 64"
  shows "distinct (user_addrs m pt va n)"
proof -
  have "inj_on (\<lambda>i. phys m pt (va + of_nat i)) {0..<n}"
  proof (rule inj_onI)
    fix i j assume ij: "i \<in> {0..<n}" "j \<in> {0..<n}" "phys m pt (va + of_nat i) = phys m pt (va + of_nat j)"
    then have "va + of_nat i \<in> A" "va + of_nat j \<in> A" using assms(2) by (auto simp: urange_def)
    then have "va + of_nat i = va + of_nat j" using assms(1) ij(3) by (auto dest: inj_onD)
    then have "(of_nat i :: u64) = of_nat j" by simp
    moreover have "i < 2 ^ 64" "j < 2 ^ 64" using ij(1,2) assms(3) by simp_all
    ultimately show "i = j" by (metis unat_of_nat64)
  qed
  then show ?thesis by (simp add: user_addrs_def distinct_map)
qed

lemma uspace_keep:
  assumes "uspace m pt A" and m': "\<And>x. x \<notin> phys m pt ` A \<Longrightarrow> m' x = m x"
  shows "uspace m' pt A" and "\<And>a. a \<in> A \<Longrightarrow> phys m' pt a = phys m pt a"
proof -
  have cong: "\<forall>x \<in> walk_bytes m pt (PGROUNDDOWN b). m' x = m x" if "b \<in> A" for b
  proof
    fix x assume "x \<in> walk_bytes m pt (PGROUNDDOWN b)"
    then have "x \<notin> phys m pt ` A" using assms(1) that unfolding uspace_def by blast
    then show "m' x = m x" by (rule m')
  qed
  show ph: "phys m' pt a = phys m pt a" if "a \<in> A" for a
    by (rule phys_cong [OF cong [OF that]])
  show "uspace m' pt A"
    using assms(1) by (simp add: uspace_def mapped_def walk_cong [OF cong] ph)
qed

text \<open>copyout to addresses of \<open>A\<close>: the bytes are there, other addresses keep theirs.\<close>

lemma copyout_uspace:
  assumes "uspace (pmem s) pt A" and "inj_on (phys (pmem s) pt) A" and "urange va (length bs) \<subseteq> A" and "length bs \<le> 2 ^ 64"
  shows "\<exists>m. copyout pt va bs (s, e) = Ok 0 (kmem_set (\<lambda>_. m) s, e) \<and>
    uspace m pt A \<and> inj_on (phys m pt) A \<and> (\<forall>a \<in> A. phys m pt a = phys (pmem s) pt a) \<and>
    user_bytes m pt va (length bs) = bs \<and>
    (\<forall>a \<in> A - urange va (length bs). m (phys m pt a) = pmem s (phys (pmem s) pt a)) \<and>
    (\<forall>x. x \<notin> phys (pmem s) pt ` A \<longrightarrow> m x = pmem s x)"
proof (rule exI, intro conjI ballI allI impI)
  let ?as = "user_addrs (pmem s) pt va (length bs)"
  let ?m = "writes ?as bs (pmem s)"
  have w: "writable (pmem s) pt va (length bs)" "apart (pmem s) pt va (length bs)"
    using uspace_range [OF assms(1,3)] by simp_all
  show "copyout pt va bs (s, e) = Ok 0 (kmem_set (\<lambda>_. ?m) s, e)"
    using copyout_run [OF w, of e] by (simp add: kmem_set_def)
  have keep: "?m x = pmem s x" if "x \<notin> phys (pmem s) pt ` A" for x
    using that assms(3) by (intro writes_other) (auto simp: set_user_addrs)
  then show "?m x = pmem s x" if "x \<notin> phys (pmem s) pt ` A" for x using that .
  show "uspace ?m pt A" by (rule uspace_keep(1) [OF assms(1) keep])
  show ph: "phys ?m pt a = phys (pmem s) pt a" if "a \<in> A" for a
    by (rule uspace_keep(2) [OF assms(1) keep that])
  show "inj_on (phys ?m pt) A" using assms(2) ph by (simp add: inj_on_def)
  have "user_addrs ?m pt va (length bs) = ?as"
    using assms(3) ph by (auto simp: user_addrs_def urange_def subset_iff)
  then show "user_bytes ?m pt va (length bs) = bs"
    using distinct_user_addrs [OF assms(2-4)] by (simp add: user_bytes_addrs map_writes)
  show "?m (phys ?m pt a) = pmem s (phys (pmem s) pt a)" if "a \<in> A - urange va (length bs)" for a
  proof -
    have "phys (pmem s) pt a \<notin> set ?as"
      using that assms(2,3) by (auto simp: set_user_addrs dest: inj_onD)
    then show ?thesis using that by (simp add: ph writes_other)
  qed
qed

text \<open>
  C18. What copyout writes to user memory copyin reads back: on pages mapped writable whose
  frames are distinct and hold no part of the page table, copyout returns 0 and a copyin
  of the same range then returns the bytes; memory outside the range keeps its content.
\<close>

theorem copyout_copyin:
  assumes "writable (pmem s) pt va (length bs)" and "apart (pmem s) pt va (length bs)"
    and "distinct (user_addrs (pmem s) pt va (length bs))"
  shows "\<exists>t. copyout pt va bs (s, e) = Ok 0 (t, e) \<and> copyin pt va (length bs) (t, e) = Ok (0, bs) (t, e) \<and>
     (\<forall>a. a \<notin> set (user_addrs (pmem s) pt va (length bs)) \<longrightarrow> pmem t a = pmem s a)"
proof -
  let ?as = "user_addrs (pmem s) pt va (length bs)"
  let ?t = "kmem_set (writes ?as bs) s"
  note c = copyout_cong [OF assms(1,2) refl refl]
  have "pmem ?t = writes ?as bs (pmem s)" by simp
  moreover have "user_bytes (writes ?as bs (pmem s)) pt va (length bs) = bs"
    using c(2) assms(3) by (simp add: user_bytes_addrs map_writes)
  ultimately show ?thesis
    using copyout_run [OF assms(1,2), of e] copyin_run [of ?t pt va "length bs" e] c(1)
    by (intro exI [of _ ?t]) (simp add: writes_other)
qed

text \<open>
  C20. copyinstr finds the string a user address points to: when the bytes are mapped and
  the first NUL among the first \<open>n\<close> is at offset \<open>k\<close>, it returns 0 and the characters up
  to and including that NUL.
\<close>

theorem copyinstr_reads_string:
  assumes "all_mapped (pmem s) pt va n" and "k < n" and "user_bytes (pmem s) pt va n ! k = 0"
    and "\<forall>i < k. user_bytes (pmem s) pt va n ! i \<noteq> 0"
  shows "copyinstr pt va n (s, e) = Ok (0, map char_of_byte (user_bytes (pmem s) pt va k) @ [NUL]) (s, e)"
  by (rule copyinstr_run [OF assms])

text \<open>A page table for the examples: user page 0 is at 0x80305000, user page 1 at 0x80303000.\<close>

definition sample_pt_mem :: "mem \<Rightarrow> mem" where
  "sample_pt_mem m =
     st64 (st64 (st64 (st64 m 0x80300000 (PA2PTE 0x80301000 OR PTE_V))
       0x80301000 (PA2PTE 0x80302000 OR PTE_V))
       0x80302000 (PA2PTE 0x80305000 OR PTE_V OR PTE_R OR PTE_W OR PTE_U))
       0x80302008 (PA2PTE 0x80303000 OR PTE_V OR PTE_R OR PTE_W OR PTE_U)"

lemma sample_cells:
  "ld64 (sample_pt_mem m) 0x80300000 = 0x200c0401"
  "ld64 (sample_pt_mem m) 0x80301000 = 0x200c0801"
  "ld64 (sample_pt_mem m) 0x80302000 = 0x200c1417"
  "ld64 (sample_pt_mem m) 0x80302008 = 0x200c0c17"
  by (simp_all add: sample_pt_mem_def ld64_st64_same ld64_st64_other aligned8_def PA2PTE_def
     PTE_V_def PTE_R_def PTE_W_def PTE_U_def)

lemma walk_to_2: "walk_to m 2 pt va =
    (let e = ld64 m (pt + 8 * PX 2 va); e' = ld64 m (PTE2PA e + 8 * PX 1 va)
     in if e AND PTE_V = 0 then 0 else if e' AND PTE_V = 0 then 0 else PTE2PA e' + 8 * PX 0 va)"
  by (simp add: numeral_2_eq_2 Let_def)

lemma walk_cells_2: "walk_cells m 2 pt va =
    (let a = pt + 8 * PX 2 va; e = ld64 m a; a' = PTE2PA e + 8 * PX 1 va; e' = ld64 m a'
     in a # (if e AND PTE_V = 0 then [] else a' # (if e' AND PTE_V = 0 then [] else [PTE2PA e' + 8 * PX 0 va])))"
  by (simp add: numeral_2_eq_2 Let_def)

lemma sample_walk:
  "walk_to (sample_pt_mem m) 2 0x80300000 0 = 0x80302000"
  "walk_to (sample_pt_mem m) 2 0x80300000 0x1000 = 0x80302008"
  "walk_cells (sample_pt_mem m) 2 0x80300000 0 = [0x80300000, 0x80301000, 0x80302000]"
  "walk_cells (sample_pt_mem m) 2 0x80300000 0x1000 = [0x80300000, 0x80301000, 0x80302008]"
  by (simp_all add: walk_to_2 walk_cells_2 Let_def PX_def sample_cells PTE2PA_def PTE_V_def)

lemma sample_translate:
  "translate (sample_pt_mem m) 0x80300000 0 = 0x80305000"
  "translate (sample_pt_mem m) 0x80300000 0x1000 = 0x80303000"
  "pte_of (sample_pt_mem m) 0x80300000 0 AND PTE_W \<noteq> 0"
  "pte_of (sample_pt_mem m) 0x80300000 0x1000 AND PTE_W \<noteq> 0"
  by (simp_all add: translate_def pte_of_def Let_def sample_walk sample_cells PTE2PA_def
     PTE_V_def PTE_W_def PTE_U_def MAXVA_def)

text \<open>The two pages of the example.\<close>

lemma sample_page:
  assumes "unat va < 0x2000"
  shows "PGROUNDDOWN va = (if unat va < 0x1000 then 0 else 0x1000)" and
    "phys (sample_pt_mem m) 0x80300000 va = (if unat va < 0x1000 then 0x80305000 + va else 0x80302000 + va)"
proof -
  have "unat (PGROUNDDOWN va) = unat va div 4096 * 4096" by (rule unat_PGROUNDDOWN)
  also have "unat va div 4096 = (if unat va < 0x1000 then 0 else 1)" using assms by auto
  also have "\<dots> * 4096 = unat ((if unat va < 0x1000 then 0 else 0x1000) :: u64)" by simp
  finally show p: "PGROUNDDOWN va = (if unat va < 0x1000 then 0 else 0x1000)"
    by (simp only: word_unat_eq_iff)
  show "phys (sample_pt_mem m) 0x80300000 va = (if unat va < 0x1000 then 0x80305000 + va else 0x80302000 + va)"
    by (simp add: phys_def p sample_translate)
qed

definition sample_space :: "u64 set" where
  "sample_space = {va. unat va < 0x2000}"

lemma sample_phys_unat:
  "va \<in> sample_space \<Longrightarrow> unat (phys (sample_pt_mem m) 0x80300000 va) =
     (if unat va < 0x1000 then 0x80305000 + unat va else 0x80302000 + unat va)"
  by (simp add: sample_space_def sample_page unat_add64)

lemma sample_uspace:
  "uspace (sample_pt_mem m) 0x80300000 sample_space"
  "inj_on (phys (sample_pt_mem m) 0x80300000) sample_space"
proof -
  let ?m = "sample_pt_mem m" and ?pt = "0x80300000 :: u64"
  have pg: "PGROUNDDOWN a = 0 \<or> PGROUNDDOWN a = 0x1000" if "a \<in> sample_space" for a
    using that by (simp add: sample_space_def sample_page)
  have low: "x \<notin> walk_bytes ?m ?pt v" if v: "v = 0 \<or> v = 0x1000" and x: "0x80303000 \<le> unat x" for x v
  proof
    assume "x \<in> walk_bytes ?m ?pt v"
    moreover have "set (walk_cells ?m 2 ?pt v) \<subseteq> {0x80300000, 0x80301000, 0x80302000, 0x80302008}"
      using v by (auto simp: sample_walk)
    ultimately obtain a i where xa: "x = a + of_nat i" and i: "i < 8"
      and a: "a \<in> {0x80300000, 0x80301000, 0x80302000, 0x80302008}"
      unfolding walk_bytes_def by blast
    have "unat (of_nat i :: u64) = i" using i by (simp add: unat_of_nat64)
    then show False using a i xa x by (auto simp: unat_add64)
  qed
  have "mapped ?m ?pt a \<and> pte_of ?m ?pt (PGROUNDDOWN a) AND PTE_W \<noteq> 0" if "a \<in> sample_space" for a
    using pg [OF that] by (auto simp: mapped_def sample_translate)
  moreover have "phys ?m ?pt a \<notin> walk_bytes ?m ?pt (PGROUNDDOWN b)" if "a \<in> sample_space" "b \<in> sample_space" for a b
    by (rule low [OF pg [OF that(2)]]) (use sample_phys_unat [OF that(1), of m] in auto)
  ultimately show "uspace ?m ?pt sample_space" by (simp add: uspace_def)
  show "inj_on (phys ?m ?pt) sample_space"
  proof (rule inj_onI)
    fix a b assume ab: "a \<in> sample_space" "b \<in> sample_space" "phys ?m ?pt a = phys ?m ?pt b"
    then have "unat (phys ?m ?pt a) = unat (phys ?m ?pt b)" by simp
    then have "unat a = unat b"
      using ab(1,2) by (auto simp: sample_phys_unat sample_space_def split: if_splits)
    then show "a = b" by (simp only: word_unat_eq_iff)
  qed
qed

lemma sample_range: "unat va + n \<le> 0x2000 \<Longrightarrow> urange va n \<subseteq> sample_space"
  by (auto simp: urange_def sample_space_def unat_add64 unat_of_nat64)

text \<open>Four bytes across the boundary of the two pages.\<close>

lemma sample_user_addrs:
  "user_addrs (sample_pt_mem m) 0x80300000 0xffe 4 = [0x80305ffe, 0x80305fff, 0x80303000, 0x80303001]"
  by (simp add: user_addrs_def phys_def PGROUNDDOWN_def PGSIZE_def sample_translate upt_conv_Cons)

lemma sample_four: "urange 0xffe 4 \<subseteq> sample_space"
  by (rule sample_range) simp

lemma sample_writable:
  "writable (sample_pt_mem m) 0x80300000 0xffe 4" "apart (sample_pt_mem m) 0x80300000 0xffe 4"
  "all_mapped (sample_pt_mem m) 0x80300000 0xffe 4"
  using uspace_range [OF sample_uspace(1) sample_four] by (simp_all add: writable_def)

definition sample_user :: kmem_state where
  "sample_user = kmem_set sample_pt_mem sample_kmem"

lemma sample_user_pmem: "pmem sample_user = sample_pt_mem (pmem sample_kmem)"
  by (simp add: sample_user_def)

lemma take_user_bytes: "k \<le> n \<Longrightarrow> take k (user_bytes m pt va n) = user_bytes m pt va k"
  using user_bytes_split [of k n m pt va] by simp

theorem copyin_reads_bytes_witness:
  "copyin 0x80300000 0xffe 4 (sample_user, []) =
   Ok (0, map (pmem sample_user) [0x80305ffe, 0x80305fff, 0x80303000, 0x80303001]) (sample_user, [])"
  using copyin_reads_bytes [of sample_user "0x80300000" "0xffe" 4 "[]"]
  by (simp add: sample_user_pmem sample_writable sample_user_addrs)

theorem copyout_copyin_witness:
  "\<exists>t. copyout 0x80300000 0xffe [65, 66, 67, 68] (sample_user, []) = Ok 0 (t, []) \<and>
     copyin 0x80300000 0xffe 4 (t, []) = Ok (0, [65, 66, 67, 68]) (t, [])"
proof -
  have n: "length [65, 66, 67, 68 :: u8] = 4" by simp
  show ?thesis
    using copyout_copyin [of sample_user "0x80300000" "0xffe" "[65, 66, 67, 68]" "[]"]
    unfolding n by (auto simp: sample_user_pmem sample_writable sample_user_addrs)
qed

theorem copyinstr_reads_string_witness:
  "\<exists>t :: kmem_state. pmem t 0x80305ffe = 65 \<and> copyinstr 0x80300000 0xffe 4 (t, []) = Ok (0, [char_of_byte 65, NUL]) (t, [])"
proof -
  define m where "m = sample_pt_mem (pmem sample_kmem)"
  define t where "t = kmem_set (writes (user_addrs m 0x80300000 0xffe 4) [65, 0, 67, 68]) sample_user"
  have p: "pmem t = writes (user_addrs m 0x80300000 0xffe 4) [65, 0, 67, 68] m"
    by (simp add: t_def m_def sample_user_pmem)
  have c: "all_mapped (pmem t) 0x80300000 0xffe 4"
    "user_addrs (pmem t) 0x80300000 0xffe 4 = [0x80305ffe, 0x80305fff, 0x80303000, 0x80303001]"
    using copyout_cong [OF sample_writable(1,2) _ p [unfolded m_def]]
    by (simp_all add: sample_user_addrs)
  have a: "user_addrs m 0x80300000 0xffe 4 = [0x80305ffe, 0x80305fff, 0x80303000, 0x80303001]"
    by (simp add: m_def sample_user_addrs)
  have b: "user_bytes (pmem t) 0x80300000 0xffe 4 = [65, 0, 67, 68]"
    unfolding user_bytes_addrs c(2) by (simp add: p a)
  have "user_bytes (pmem t) 0x80300000 0xffe 1 = [65]"
    using take_user_bytes [of 1 4 "pmem t" "0x80300000" "0xffe"] b by simp
  moreover have "copyinstr 0x80300000 0xffe 4 (t, []) = Ok (0, map char_of_byte (user_bytes (pmem t) 0x80300000 0xffe 1) @ [NUL]) (t, [])"
    by (rule copyinstr_reads_string [OF c(1)]) (simp_all add: b)
  moreover have "pmem t 0x80305ffe = 65" by (simp add: p a)
  ultimately show ?thesis by (intro exI [of _ t]) simp
qed

end
