(* ===== verification/Wakeup.thy ===== *)
theory Wakeup
  imports PanicLog
begin

text \<open>
  Sleeping and waking, kernel/proc.c: what wakeup, killed and sleep do to a state in which
  the process locks are free. The waking of one process is a critical section under its
  lock; wakeup is such a section for every process but the caller.
\<close>

section \<open>Waking\<close>

definition wake_step :: "chan option \<Rightarrow> nat \<Rightarrow> 'a sched_state_scheme \<Rightarrow> 'a sched_state_scheme" where
  "wake_step ch i s =
     (if pstate (procs s i) = SLEEPING \<and> pchan (procs s i) = ch
      then set_proc i (\<lambda>q. q\<lparr>pstate := RUNNABLE\<rparr>) s else s)"

lemma wake_step_simps [simp]:
  "hart_ok (wake_step ch i s) = hart_ok s" "lock_free (wake_step ch i s) lk = lock_free s lk"
  "hart (wake_step ch i s) = hart s" "curproc (wake_step ch i s) = curproc s" "pmem (wake_step ch i s) = pmem s"
  by (simp_all add: wake_step_def)

lemma wake_step_settled: "wake_step ch i (settled s) = settled (wake_step ch i s)"
  by (simp add: wake_step_def set_proc_lock)

interpretation wake: spin_section "LkProc i" "wake_one ch i" "wake_step ch i" "\<lambda>_. True"
  by unfold_locales (simp_all add: wake_one_def wake_step_def set_proc_lock)

text \<open>The sleepers of \<open>is\<close> on \<open>ch\<close>, the caller apart, made runnable.\<close>

definition awake :: "chan option \<Rightarrow> nat set \<Rightarrow> nat option \<Rightarrow> (nat \<Rightarrow> proc) \<Rightarrow> nat \<Rightarrow> proc" where
  "awake ch is me ps i =
     (if i \<in> is \<and> me \<noteq> Some i \<and> pstate (ps i) = SLEEPING \<and> pchan (ps i) = ch
      then (ps i)\<lparr>pstate := RUNNABLE\<rparr> else ps i)"

definition woken :: "chan option \<Rightarrow> nat set \<Rightarrow> 'a sched_state_scheme \<Rightarrow> 'a sched_state_scheme" where
  "woken ch is s = s\<lparr>procs := awake ch is (curproc s) (procs s)\<rparr>"

lemma woken_simps [simp]:
  "hart_ok (woken ch is s) = hart_ok s" "lock_free (woken ch is s) lk = lock_free s lk"
  "hart (woken ch is s) = hart s" "curproc (woken ch is s) = curproc s" "pmem (woken ch is s) = pmem s"
  "intr_enabled (woken ch is s) = intr_enabled s" "holds (woken ch is s) lk = holds s lk"
  "cpus (woken ch is s) = cpus s" "locks (woken ch is s) = locks s" "gpr (woken ch is s) = gpr s"
  "procs (woken ch is s) = awake ch is (curproc s) (procs s)"
  by (simp_all add: woken_def hart_ok_def lock_free_def hart_def curproc_def intr_enabled_def holds_def)

lemma awake_simps [simp]:
  "ppagetable (awake ch is me ps i) = ppagetable (ps i)" "pkilled (awake ch is me ps i) = pkilled (ps i)"
  "awake ch {} me ps = ps"
  by (auto simp: awake_def)

lemma set_procs_lock:
  "(acquired lk s)\<lparr>procs := ps\<rparr> = acquired lk (s\<lparr>procs := ps\<rparr>)"
  "(settled s)\<lparr>procs := ps\<rparr> = settled (s\<lparr>procs := ps\<rparr>)"
  by (simp_all add: acquired_def settled_def push_off_st_def set_lock_def set_cpu_def set_sie_def
      intr_enabled_def hart_def)

lemma woken_lock:
  "woken ch is (acquired lk s) = acquired lk (woken ch is s)"
  "woken ch is (settled s) = settled (woken ch is s)"
  by (simp_all add: woken_def set_procs_lock)

lemma woken_empty [simp]: "woken ch {} s = s"
  by (simp add: woken_def)

lemma awake_insert:
  "i \<notin> is \<Longrightarrow> me \<noteq> Some i \<Longrightarrow> pstate (ps i) = SLEEPING \<and> pchan (ps i) = ch \<Longrightarrow>
    awake ch is me (ps(i := (ps i)\<lparr>pstate := RUNNABLE\<rparr>)) = awake ch (insert i is) me ps"
  "\<not> (pstate (ps i) = SLEEPING \<and> pchan (ps i) = ch) \<Longrightarrow> awake ch (insert i is) me ps = awake ch is me ps"
  "awake ch (insert i is) (Some i) ps = awake ch is (Some i) ps"
  by (auto simp: awake_def fun_eq_iff)

lemma woken_insert:
  "i \<notin> is \<Longrightarrow> curproc s \<noteq> Some i \<Longrightarrow> woken ch is (wake_step ch i s) = woken ch (insert i is) s"
  "curproc s = Some i \<Longrightarrow> woken ch (insert i is) s = woken ch is s"
  by (auto simp: woken_def wake_step_def awake_insert) (simp add: set_proc_def awake_insert)

lemma kthen_Ok: "m w = Ok () w' \<Longrightarrow> kthen m k w = k w'"
  by (simp add: kthen_def kbind_Ok)

lemma kbind_myproc: "hart_ok s \<Longrightarrow> kbind myproc f (s, e) = f (curproc s) (settled s, e)"
  by (rule kbind_Ok) (rule myproc_run)

lemma wake_other_run:
  assumes "hart_ok s" and "curproc s \<noteq> Some i \<Longrightarrow> lock_free s (LkProc i)"
  shows "kbind myproc (\<lambda>me. if Some i = me then kret ()
      else kseq [acquire (LkProc i), wake_one ch i, release (LkProc i)]) (s, e) =
    Ok () (settled (woken ch {i} s), e)"
proof (cases "curproc s = Some i")
  case True
  then show ?thesis
    using assms woken_insert(2) [of s i ch "{}"] by (simp add: kbind_myproc)
next
  case False
  then have "wake.section_body i ch (settled s, e) = Ok () (settled (wake_step ch i (settled s)), e)"
    using assms by (intro wake.section_run) simp_all
  moreover have "wake_step ch i s = woken ch {i} s"
    using woken_insert(1) [of i "{}" s ch] False by simp
  ultimately show ?thesis
    using assms(1) False
    by (simp add: kbind_myproc wake.section_body_def wake_step_settled del: kseq.simps)
qed

lemma wake_all_run:
  "distinct is \<Longrightarrow> hart_ok s \<Longrightarrow> \<forall>i \<in> set is. curproc s \<noteq> Some i \<longrightarrow> lock_free s (LkProc i) \<Longrightarrow>
   kfor is (\<lambda>i. kbind myproc (\<lambda>me.
     if Some i = me then kret ()
     else kseq [acquire (LkProc i), wake_one ch i, release (LkProc i)])) (s, e) =
   Ok () (if is = [] then s else settled (woken ch (set is) s), e)"
proof (induction "is" arbitrary: s)
  case (Cons i "is")
  have "woken ch (set is) (woken ch {i} s) = woken ch (insert i (set is)) s"
    by (auto simp: woken_def awake_def fun_eq_iff curproc_def hart_def)
  moreover have "kthen (kbind myproc (\<lambda>me. if Some i = me then kret ()
      else kseq [acquire (LkProc i), wake_one ch i, release (LkProc i)])) k (s, e) =
    k (settled (woken ch {i} s), e)" for k :: "('a sched_state_scheme, unit) kfun"
    using Cons.prems by (intro kthen_Ok wake_other_run) auto
  ultimately show ?case
    using Cons by (simp add: woken_lock del: woken_simps(11) kseq.simps)
qed simp

lemma wakeup_on_run:
  assumes "hart_ok s" and "\<forall>i < NPROC. curproc s \<noteq> Some i \<longrightarrow> lock_free s (LkProc i)"
  shows "wakeup_on ch (s, e) = Ok () (settled (woken ch {..<NPROC} s), e)"
proof -
  have "[0..<NPROC] \<noteq> []" by (simp add: NPROC_def del: upt_rec_numeral)
  moreover have "set [0..<NPROC] = {..<NPROC}" by auto
  ultimately show ?thesis
    using wake_all_run [of "[0..<NPROC]" s ch e] assms by (simp add: wakeup_on_def)
qed

lemma wakeup_run [krun]:
  "hart_ok s \<Longrightarrow> \<forall>i < NPROC. curproc s \<noteq> Some i \<longrightarrow> lock_free s (LkProc i) \<Longrightarrow>
   wakeup ch (s, e) = Ok () (settled (woken (Some ch) {..<NPROC} s), e)"
  by (simp add: wakeup_def wakeup_on_run)

lemma killed_run [krun]:
  "hart_ok s \<Longrightarrow> lock_free s (LkProc p) \<Longrightarrow> killed p (s, e) = Ok (pkilled (procs s p)) (settled s, e)"
  by (simp add: killed_def kthen_def kbind_def acquire_run release_run)

section \<open>Sleeping\<close>

lemma acquired_swap: "l \<noteq> k \<Longrightarrow> acquired l (acquired k s) = acquired k (acquired l s)"
  by (simp add: acquired_def push_off_st_def set_lock_def set_cpu_def set_sie_def intr_enabled_def hart_def
      fun_upd_twist)

lemma release_outer:
  assumes "hart_ok s" and "lock_free s l" and "l \<noteq> k"
  shows "release l (acquired k (acquired l s), e) = Ok () (acquired k s, e)"
proof -
  have "0 < noff (this_cpu (acquired k s))" using assms(1) by (simp add: hart_ok_def)
  then have "settled (acquired k s) = acquired k s" by (rule settled_idem)
  then show ?thesis
    using release_run [of "acquired k s" l e] assms acquired_swap [OF assms(3), of s] by simp
qed

text \<open>The state a process leaves behind when it sleeps: what its swtch saves.\<close>

definition asleep :: "chan \<Rightarrow> nat \<Rightarrow> 'a sched_state_scheme \<Rightarrow> 'a sched_state_scheme" where
  "asleep ch p s = set_proc p (\<lambda>q. q\<lparr>pchan := Some ch, pstate := SLEEPING, pcontext := save_context (gpr s)\<rparr>) s"

lemma set_proc_twice: "set_proc i f (set_proc i g s) = set_proc i (\<lambda>q. f (g q)) s"
  by (simp add: set_proc_def)

lemma settled_acquired [simp]: "hart_ok s \<Longrightarrow> settled (acquired lk s) = acquired lk s"
  by (rule settled_idem) (simp add: hart_ok_def)

lemma sched_blocks:
  assumes "hart_ok s" and "noff (this_cpu s) = 0" and "curproc s = Some p" and "pstate (procs s p) \<noteq> RUNNING"
  shows "sched (acquired (LkProc p) s, []) =
    Blocked (acquired (LkProc p) (set_proc p (\<lambda>q. q\<lparr>pcontext := save_context (gpr s)\<rparr>) s), [])"
  using assms
  by (simp add: sched_def with_myproc_run kthen_def kbind_def swtch_proc_def env_step_def set_proc_lock)

lemma sleep_blocks:
  assumes "hart_ok s" and "noff (this_cpu s) = 0" and "curproc s = Some p" and "lk \<noteq> LkProc p"
    and "lock_free s lk" and "lock_free s (LkProc p)"
  shows "sleep ch lk (acquired lk s, []) = Blocked (acquired (LkProc p) (asleep ch p s), [])"
proof -
  let ?s = "set_proc p (\<lambda>q. q\<lparr>pchan := Some ch, pstate := SLEEPING\<rparr>) s"
  have "sched (acquired (LkProc p) ?s, []) = Blocked (acquired (LkProc p) (asleep ch p s), [])"
    using assms sched_blocks [of ?s p] by (simp add: asleep_def set_proc_twice)
  moreover have "set_proc p (\<lambda>q. q\<lparr>pstate := SLEEPING\<rparr>) (set_proc p (\<lambda>q. q\<lparr>pchan := Some ch\<rparr>) (acquired (LkProc p) s)) =
      acquired (LkProc p) ?s"
    by (simp add: set_proc_lock set_proc_twice)
  ultimately show ?thesis
    using assms
    by (simp add: sleep_def with_myproc_run kthen_def kbind_def acquire_run release_outer)
qed

section \<open>Resuming\<close>

text \<open>
  What a process finds when the scheduler of some hart has switched back to it: its
  registers loaded, its own lock held, the interrupt flag of that hart as it was when it
  slept.
\<close>

definition resumed :: "nat \<Rightarrow> bool \<Rightarrow> 'a sched_state_scheme \<Rightarrow> 'a sched_state_scheme" where
  "resumed p ie u = set_sie ie (u\<lparr>gpr := load_context (pcontext (procs u p)) (gpr u)\<rparr>)"

lemma resumed_simps [simp]:
  "procs (resumed p ie u) = procs u" "locks (resumed p ie u) = locks u" "cpus (resumed p ie u) = cpus u"
  "hart (resumed p ie u) = hart u" "lock_free (resumed p ie u) lk = lock_free u lk" "pmem (resumed p ie u) = pmem u"
  "curproc (resumed p ie u) = curproc u" "intr_enabled (resumed p ie u) = ie"
  "sleeplocks (resumed p ie u) = sleeplocks u"
  by (simp_all add: resumed_def hart_def load_context_def lock_free_def curproc_def set_sie_def [of _ u]) 
    (simp_all add: set_sie_def)

lemma acquired_gpr:
  assumes "noff (this_cpu u) = 0"
  shows "set_cpu (hart u) (\<lambda>q. q\<lparr>intena := ie\<rparr>) ((acquired lk u)\<lparr>gpr := load_context c (gpr u)\<rparr>) =
    acquired lk (set_sie ie (u\<lparr>gpr := load_context c (gpr u)\<rparr>))"
proof -
  define h v where "h = hart u" and "v = u\<lparr>gpr := load_context c (gpr u)\<rparr>"
  have "(x OR SSTATUS_SIE) AND NOT SSTATUS_SIE = x AND NOT SSTATUS_SIE" for x
    by (rule bit_word_eqI) (auto simp: bit_simps)
  then have sie: "set_sie False (set_sie ie v) = set_sie False v"
    by (simp add: set_sie_def and.assoc)
  have h: "hart v = h" "hart (set_sie ie v) = h" "cpus v = cpus u" "locks v = locks u"
    by (simp_all add: v_def h_def hart_def load_context_def)
  have w: "acquired lk (set_sie ie v) = set_lock lk (\<lambda>l. l\<lparr>locked := 1, lcpu := Some h\<rparr>)
      (set_cpu h (\<lambda>p. p\<lparr>intena := ie, noff := 1\<rparr>) (set_sie False v))"
    using assms by (simp add: acquired_def push_off_st_def sie h h_def [symmetric] set_cpu_def)
  have u: "acquired lk u = set_lock lk (\<lambda>l. l\<lparr>locked := 1, lcpu := Some h\<rparr>)
      (set_cpu h (\<lambda>p. p\<lparr>intena := intr_enabled u, noff := 1\<rparr>) (set_sie False u))"
    using assms by (simp add: acquired_def push_off_st_def h_def [symmetric] set_cpu_def)
  have swap: "q\<lparr>noff := n, intena := b\<rparr> = q\<lparr>intena := b, noff := n\<rparr>" for q :: cpu and n b
    by (cases q) simp
  show ?thesis
    unfolding v_def [symmetric] h_def [symmetric] u w
    by (cases u, simp add: v_def set_lock_def set_cpu_def set_sie_def swap)
qed

lemma sched_run:
  assumes "hart_ok s" and "noff (this_cpu s) = 0" and "curproc s = Some p" and "pstate (procs s p) \<noteq> RUNNING"
    and "g (acquired (LkProc p) (set_proc p (\<lambda>q. q\<lparr>pcontext := save_context (gpr s)\<rparr>) s)) = acquired (LkProc p) u"
    and "noff (this_cpu u) = 0"
  shows "sched (acquired (LkProc p) s, g # e) = Ok () (acquired (LkProc p) (resumed p (intr_enabled s) u), e)"
proof -
  have "intena (cpus (acquired (LkProc p) s) (hart s)) = intr_enabled s"
    using assms(2) by (simp add: acquired_def push_off_st_def)
  moreover have "hart ((acquired (LkProc p) u)\<lparr>gpr := load_context c (gpr u)\<rparr>) = hart u" for c
    using hart_upd by (simp add: hart_def load_context_def)
  ultimately show ?thesis
    using assms acquired_gpr [OF assms(6)]
    by (simp add: sched_def with_myproc_run kthen_def kbind_def swtch_proc_def env_step_def set_proc_lock resumed_def)
qed

lemma sleep_run:
  assumes "hart_ok s" and "noff (this_cpu s) = 0" and "curproc s = Some p" and "lk \<noteq> LkProc p"
    and "lock_free s lk" and "lock_free s (LkProc p)"
    and g: "g (acquired (LkProc p) (asleep ch p s)) = acquired (LkProc p) u"
    and "noff (this_cpu u) = 0" and "lock_free u (LkProc p)" and "lock_free u lk"
  shows "sleep ch lk (acquired lk s, g # e) =
    Ok () (acquired lk (set_proc p (\<lambda>q. q\<lparr>pchan := None\<rparr>) (resumed p (intr_enabled s) u)), e)"
proof -
  let ?s = "set_proc p (\<lambda>q. q\<lparr>pchan := Some ch, pstate := SLEEPING\<rparr>) s"
  have "sched (acquired (LkProc p) ?s, g # e) = Ok () (acquired (LkProc p) (resumed p (intr_enabled s) u), e)"
    using assms sched_run [of ?s p g u e] by (simp add: asleep_def set_proc_twice)
  moreover have "set_proc p (\<lambda>q. q\<lparr>pstate := SLEEPING\<rparr>) (set_proc p (\<lambda>q. q\<lparr>pchan := Some ch\<rparr>) (acquired (LkProc p) s)) =
      acquired (LkProc p) ?s"
    by (simp add: set_proc_lock set_proc_twice)
  moreover have "hart_ok (resumed p (intr_enabled s) u)"
    using assms(8) by (simp add: hart_ok_def)
  ultimately show ?thesis
    using assms
    by (simp add: sleep_def with_myproc_run kthen_def kbind_def acquire_run release_outer set_proc_lock release_run)
qed

section \<open>Properties\<close>

text \<open>
  wakeup makes exactly the processes runnable that sleep on the channel: every other
  process, the caller and the rest of the kernel state stay as they are.
\<close>

theorem wakeup_wakes_sleepers:
  assumes "hart_ok s" and "\<forall>i < NPROC. curproc s \<noteq> Some i \<longrightarrow> lock_free s (LkProc i)"
  shows "\<exists>t. wakeup ch (s, e) = Ok () (t, e) \<and>
    (\<forall>i. procs t i =
       (if i < NPROC \<and> curproc s \<noteq> Some i \<and> pstate (procs s i) = SLEEPING \<and> pchan (procs s i) = Some ch
        then (procs s i)\<lparr>pstate := RUNNABLE\<rparr> else procs s i)) \<and>
    t\<lparr>procs := procs s\<rparr> = settled s"
  using wakeup_run [OF assms, of ch e] by (auto simp: awake_def woken_def set_procs_lock)


definition sample_sleeper :: panic_state where
  "sample_sleeper = set_proc 3 (\<lambda>q. q\<lparr>pstate := SLEEPING, pchan := Some ChTicks\<rparr>)
     (set_proc 4 (\<lambda>q. q\<lparr>pstate := SLEEPING, pchan := Some ChLog\<rparr>) sample_panic)"

theorem wakeup_wakes_sleepers_witness:
  "\<exists>t. wakeup ChTicks (sample_sleeper, []) = Ok () (t, []) \<and> pstate (procs t 3) = RUNNABLE \<and>
     pstate (procs t 4) = SLEEPING"
  using wakeup_wakes_sleepers [of sample_sleeper ChTicks "[]"]
  by (auto simp: sample_sleeper_def like_sample_facts [OF sample_panic_like] curproc_def NPROC_def)

definition sample_running :: panic_state where
  "sample_running = set_proc 2 (\<lambda>q. q\<lparr>pstate := RUNNING\<rparr>) (set_cpu 0 (\<lambda>c. c\<lparr>cproc := Some 2\<rparr>) sample_panic)"

lemma sample_running_facts:
  "hart sample_running = 0" "hart_ok sample_running" "noff (cpus sample_running 0) = 0"
  "curproc sample_running = Some 2" "lock_free sample_running lk"
  by (simp_all add: sample_running_def like_sample_facts [OF sample_panic_like] curproc_def hart_ok_def
     lock_free_def) (use like_sample_facts(3) [OF sample_panic_like] in \<open>simp_all add: lock_free_def\<close>)


end
