(* ===== verification/Sample.thy ===== *)
theory Sample
  imports Trap Paging Wakeup
begin

text \<open>
  A whole kernel state for the examples: hart 0 runs process 2, all locks are free, the
  process has two pages mapped (those of \<open>sample_pt_mem\<close>), the page pool has one page, the
  tables of files, inodes and pipes are empty, and the buffer cache is as binit leaves it.
\<close>

definition sample_bufs :: "nat \<Rightarrow> buf" where
  "sample_bufs i = \<lparr>bvalid = False, bdisk = False, bdev = 0, bblockno = 0, brefcnt = 0,
     bprev = (if i = NBUF - 1 then bhead else if i = bhead then 0 else i + 1), bnext = (if i = 0 then bhead else i - 1),
     bdata = replicate BSIZE 0\<rparr>"

definition empty_inode :: inode where
  "empty_inode = \<lparr>idev = 0, inum = 0, iref = 0, ivalid = False, itype = 0, imajor = 0, iminor = 0,
     inlink = 0, isize = 0, iaddrs = replicate 13 0\<rparr>"

definition empty_pipe :: pipe where
  "empty_pipe = \<lparr>pi_data = replicate PIPESIZE 0, pi_nread = 0, pi_nwrite = 0,
     pi_readopen = True, pi_writeopen = True\<rparr>"

definition empty_file :: kfile where
  "empty_file = \<lparr>f_type = FD_NONE, f_ref = 0, f_readable = False, f_writable = False, f_pipe = 0,
     f_ip = None, f_off = 0, f_major = 0\<rparr>"

text \<open>The trap frame of the process, at 0x80306000: its a0 and a1 are two user addresses.\<close>

definition sample_frame :: mem where
  "sample_frame = st64 (st64 (\<lambda>_. 0) 0x80306070 0x100) 0x80306078 0x800"

definition sample_proc :: proc where
  "sample_proc = zero_proc\<lparr>pstate := RUNNING, pid := 7, psz := 0x2000, ppagetable := 0x80300000, ptrapframe := 0x80306000\<rparr>"

definition sample_kernel :: trap_state where
  "sample_kernel = \<lparr>csr = zero_csrs, gpr = (\<lambda>_. 0), cpus = (\<lambda>_. idle_cpu)(0 := idle_cpu\<lparr>cproc := Some 2\<rparr>),
     locks = (\<lambda>_. free_lock), pmem = sample_pt_mem sample_frame, kmapped = (\<lambda>_. True),
     procs = (\<lambda>_. zero_proc)(2 := sample_proc), initproc = None, nextpid = 8, ticks = 7,
     sleeplocks = (\<lambda>_. \<lparr>slocked = False, slname = [], slpid = 0\<rparr>),
     uart_out = [], uart_in = [], uart_idle = True, uart_reg = (\<lambda>_. 0), uart_divisor = (\<lambda>_. 0),
     tx_busy = 0, panicking = False, panicked = False,
     log_entries = (\<lambda>_. zero_entry), log_head = 0, log_count = 0, flushing = False,
     saved_crash_ctx = zero_crash_context,
     image = sample_image, freelist = 0x87fff000, kernel_pagetable = 0,
     bufs = sample_bufs, vd_desc = (\<lambda>_. zero_desc), vd_desc_page = 0, vd_avail_page = 0, vd_used_page = 0,
     avail_idx = 0, avail_ring = (\<lambda>_. 0), dev_used_idx = 0, dev_used_ring = (\<lambda>_. 0), vd_free = (\<lambda>_. True),
     vd_used_idx = 0, info_b = (\<lambda>_. None), info_status = (\<lambda>_. 0),
     vd_ops = (\<lambda>_. \<lparr>rq_type = 0, rq_reserved = 0, rq_sector = 0\<rparr>), vio_written = (\<lambda>_. 0), vio_answer = (\<lambda>_ _. 0),
     fl_start = 2, fl_outstanding = 0, fl_committing = False, fl_dev = 1, lh_n = 0, lh_block = (\<lambda>_. 0),
     sb = \<lparr>sb_magic = 0x10203040, sb_size = 2000, sb_nblocks = 1953, sb_ninodes = 200, sb_nlog = 31,
       sb_logstart = 2, sb_inodestart = 33, sb_bmapstart = 46\<rparr>,
     inodes = (\<lambda>_. empty_inode),
     cons_buf = replicate INPUT_BUF_SIZE NUL, cons_r = 0, cons_w = 0, cons_e = 0,
     dev_read = (\<lambda>_. None), dev_write = (\<lambda>_. None), pipes = (\<lambda>_. empty_pipe), files = (\<lambda>_. empty_file),
     plic_reg = (\<lambda>_. 0), plic_pending = (\<lambda>_. []), plic_done = [], forkret_first = False, started = True\<rparr>"

lemma sample_kernel_facts [simp]:
  "hart sample_kernel = 0" "hart_ok sample_kernel" "lock_free sample_kernel lk" "\<not> intr_enabled sample_kernel"
  "noff (cpus sample_kernel c) = 0" "curproc sample_kernel = Some 2" "gpr sample_kernel r = 0"
  "kmapped sample_kernel a" "csr sample_kernel = zero_csrs" "pmem sample_kernel = sample_pt_mem sample_frame"
  "procs sample_kernel 2 = sample_proc" "image sample_kernel = sample_image"
  by (simp_all add: sample_kernel_def hart_def hart_ok_def lock_free_def intr_enabled_def curproc_def idle_cpu_def
      free_lock_def zero_csrs_def)

lemma sample_proc_simps [simp]:
  "pstate sample_proc = RUNNING" "pid sample_proc = 7" "ppagetable sample_proc = 0x80300000" "\<not> pkilled sample_proc"
  "psz sample_proc = 0x2000" "ptrapframe sample_proc = 0x80306000"
  by (simp_all add: sample_proc_def zero_proc_def)

lemma sample_kernel_tables [simp]:
  "pipes sample_kernel pi = empty_pipe" "files sample_kernel f = empty_file" "inodes sample_kernel i = empty_inode"
  "bufs sample_kernel = sample_bufs" "ticks sample_kernel = 7" "nextpid sample_kernel = 8"
  "cons_r sample_kernel = 0" "cons_w sample_kernel = 0" "cons_e sample_kernel = 0"
  "cons_buf sample_kernel = replicate INPUT_BUF_SIZE NUL"
  "uart_out sample_kernel = []" "uart_in sample_kernel = []" "uart_idle sample_kernel" "\<not> panicked sample_kernel"
  "uart_reg sample_kernel n = 0" "\<not> panicking sample_kernel" "tx_busy sample_kernel = 0"
  "freelist sample_kernel = 0x87fff000" "lh_n sample_kernel = 0" "fl_outstanding sample_kernel = 0"
  "\<not> fl_committing sample_kernel" "sleeplocks sample_kernel x = \<lparr>slocked = False, slname = [], slpid = 0\<rparr>"
  by (simp_all add: sample_kernel_def)

lemma sample_args:
  "ld64 (sample_pt_mem sample_frame) 0x80306070 = 0x100" "ld64 (sample_pt_mem sample_frame) 0x80306078 = 0x800"
  by (simp_all add: sample_pt_mem_def sample_frame_def ld64_st64_same ld64_st64_other aligned8_def)

end
