(* ===== verification/Pipes.thy ===== *)
theory Pipes
  imports Sample Ring
begin

text \<open>
  A pipe as a queue of at most PIPESIZE bytes: its content is the part of the ring between
  the two counters, pipewrite appends to it and piperead takes from its front.
\<close>

interpretation pring: ring PIPESIZE
  by unfold_locales (simp_all add: PIPESIZE_def)

definition pipe_content :: "pipe \<Rightarrow> u8 list" where
  "pipe_content p = ring_content PIPESIZE (pi_data p) (pi_nread p) (pi_nwrite p)"

text \<open>The invariant of the record: a buffer of PIPESIZE bytes, never more of them in use.\<close>

definition pipe_wf :: "pipe \<Rightarrow> bool" where
  "pipe_wf p \<longleftrightarrow> length (pi_data p) = PIPESIZE \<and> unat (pi_nwrite p - pi_nread p) \<le> PIPESIZE"

lemma length_pipe_content: "length (pipe_content p) = unat (pi_nwrite p - pi_nread p)"
  by (simp add: pipe_content_def)

lemma pipe_full_iff: "pipe_full p \<longleftrightarrow> length (pipe_content p) = PIPESIZE"
  by (simp add: pipe_full_def pring.full_iff length_pipe_content)

lemma pipe_put_content:
  assumes "pipe_wf p" and "length (pipe_content p) < PIPESIZE"
  shows "pipe_wf (pipe_put b p)" and "pipe_content (pipe_put b p) = pipe_content p @ [b]"
  using assms pring.push [of "pi_data p" "pi_nwrite p" "pi_nread p" b] pring.count_Suc [of "pi_nwrite p" "pi_nread p"]
  by (simp_all add: pipe_wf_def pipe_content_def pipe_put_def)

definition pipe_take :: "pipe \<Rightarrow> pipe" where
  "pipe_take p = p\<lparr>pi_nread := pi_nread p + 1\<rparr>"

lemma pipe_take_content:
  assumes "pipe_wf p" and "pi_nread p \<noteq> pi_nwrite p"
  shows "pipe_wf (pipe_take p)" and "pipe_content p = pipe_next p # pipe_content (pipe_take p)"
  using assms pring.pop [of "pi_nread p" "pi_nwrite p" "pi_data p"] pring.count_pred [of "pi_nread p" "pi_nwrite p"]
  by (simp_all add: pipe_wf_def pipe_content_def pipe_take_def pipe_next_def) arith

lemma pipe_empty_iff: "pipe_content p = [] \<longleftrightarrow> pi_nread p = pi_nwrite p"
  by (simp add: pipe_content_def ring_empty_iff)

lemma pipe_puts_content:
  "pipe_wf p \<Longrightarrow> length (pipe_content p) + length bs \<le> PIPESIZE \<Longrightarrow>
   pipe_wf (fold pipe_put bs p) \<and> pipe_content (fold pipe_put bs p) = pipe_content p @ bs"
proof (induction bs arbitrary: p)
  case (Cons b bs)
  then have "length (pipe_content p) < PIPESIZE" by simp
  note p = pipe_put_content [OF Cons.prems(1) this, of b]
  show ?case using Cons.IH [of "pipe_put b p"] Cons.prems p by simp
qed simp

section \<open>The pipe in the state\<close>

lemma set_pipe_simps [simp]:
  "pipes (set_pipe pi f s) = (pipes s)(pi := f (pipes s pi))"
  "procs (set_pipe pi f s) = procs s" "pmem (set_pipe pi f s) = pmem s" "hart_ok (set_pipe pi f s) = hart_ok s"
  "lock_free (set_pipe pi f s) lk = lock_free s lk" "curproc (set_pipe pi f s) = curproc s"
  "hart (set_pipe pi f s) = hart s" "cpus (set_pipe pi f s) = cpus s" "locks (set_pipe pi f s) = locks s"
  by (simp_all add: set_pipe_def hart_ok_def lock_free_def curproc_def intr_enabled_def hart_def)

lemma pipes_lock [simp]: "pipes (acquired lk s) = pipes s" "pipes (settled s) = pipes s" "pipes (woken ch is s) = pipes s"
  by (simp_all add: acquired_def settled_def push_off_st_def set_lock_def set_cpu_def set_sie_def woken_def)

lemma set_pipe_lock:
  "set_pipe pi f (acquired lk s) = acquired lk (set_pipe pi f s)"
  "set_pipe pi f (settled s) = settled (set_pipe pi f s)"
  by (simp_all add: set_pipe_def acquired_def settled_def push_off_st_def set_lock_def set_cpu_def set_sie_def
      intr_enabled_def hart_def)

lemma set_pipe_set_pipe: "set_pipe pi f (set_pipe pi g s) = set_pipe pi (\<lambda>p. f (g p)) s"
  by (simp add: set_pipe_def)

lemma set_pipe_same: "f (pipes s pi) = pipes s pi \<Longrightarrow> set_pipe pi f s = s"
  by (simp add: set_pipe_def fun_upd_idem)

lemma all_mapped_take: "all_mapped m pt va n \<Longrightarrow> k \<le> n \<Longrightarrow> all_mapped m pt va k"
  by (simp add: all_mapped_def)

section \<open>Writing\<close>

lemma pipewrite_loop_run:
  assumes "hart_ok s" and "lock_free s (LkProc pr)" and "\<not> pkilled (procs s pr)" and "pi_readopen (pipes s pi)"
    and "pipe_wf (pipes s pi)" and "length (pipe_content (pipes s pi)) + k \<le> PIPESIZE"
    and "all_mapped (pmem s) (ppagetable (procs s pr)) (addr + of_nat i) k" and "k < fuel"
  shows "pipewrite_loop fuel pr pi addr (int (i + k)) (int i) (acquired (LkPipe pi) s, e) =
    Ok (Some (int (i + k)))
      (acquired (LkPipe pi) (set_pipe pi (fold pipe_put
         (user_bytes (pmem s) (ppagetable (procs s pr)) (addr + of_nat i) k)) s), e)"
  using assms
proof (induction k arbitrary: i s fuel)
  case 0
  then obtain f where "fuel = Suc f" by (cases fuel) auto
  then show ?case by (simp add: user_bytes_def set_pipe_same)
next
  case (Suc k)
  then obtain f where f: "fuel = Suc f" by (cases fuel) auto
  let ?pt = "ppagetable (procs s pr)"
  let ?b = "pmem s (phys (pmem s) ?pt (addr + of_nat i))"
  let ?s = "set_pipe pi (pipe_put ?b) s"
  have free: "length (pipe_content (pipes s pi)) < PIPESIZE" using Suc.prems by simp
  note p = pipe_put_content [OF Suc.prems(5) free, of ?b]
  have nf: "\<not> pipe_full (pipes s pi)" using free by (simp add: pipe_full_iff)
  have am: "all_mapped (pmem s) ?pt (addr + of_nat i) 1"
    "all_mapped (pmem s) ?pt (addr + of_nat (Suc i)) k"
    using all_mapped_take [OF Suc.prems(7), of 1] all_mapped_rest [OF Suc.prems(7), of 1] by (simp_all add: algebra_simps)
  have one: "user_bytes (pmem s) ?pt (addr + of_nat i) 1 = [?b]" by (simp add: user_bytes_def)
  have ub: "user_bytes (pmem s) ?pt (addr + of_nat i) (Suc k) =
      ?b # user_bytes (pmem s) ?pt (addr + of_nat (Suc i)) k"
    using user_bytes_split [of 1 "Suc k" "pmem s" ?pt "addr + of_nat i"] one by (simp add: algebra_simps)
  have ci: "copyin ?pt (addr + word_of_int (int i)) 1 (acquired (LkPipe pi) s, e) = Ok (0, [?b]) (acquired (LkPipe pi) s, e)"
    using copyin_run [of "acquired (LkPipe pi) s" ?pt "addr + of_nat i" 1 e] am(1) one by simp
  have IH: "pipewrite_loop f pr pi addr (int (Suc i + k)) (int (Suc i)) (acquired (LkPipe pi) ?s, e) =
    Ok (Some (int (Suc i + k)))
      (acquired (LkPipe pi) (set_pipe pi (fold pipe_put (user_bytes (pmem ?s) (ppagetable (procs ?s pr)) (addr + of_nat (Suc i)) k)) ?s), e)"
    by (rule Suc.IH) (use Suc.prems am(2) p f in \<open>simp_all add: pipe_put_def [of _ "pipes s pi"]\<close>)
  have "int i + 1 = int (Suc i)" "int (i + Suc k) = int (Suc i + k)" by simp_all
  then show ?case
    using Suc.prems nf IH
    by (simp add: f kbind_def kthen_def killed_run ci [simplified] set_pipe_lock set_pipe_set_pipe ub ac_simps)
qed

lemma pipewrite_run:
  assumes "hart_ok s" and "curproc s = Some pr" and "lock_free s (LkPipe pi)"
    and "lock_free s (LkProc pr)" and "\<forall>i < NPROC. lock_free s (LkProc i)"
    and "\<not> pkilled (procs s pr)" and "pi_readopen (pipes s pi)" and "pipe_wf (pipes s pi)"
    and "length (pipe_content (pipes s pi)) + k \<le> PIPESIZE"
    and "all_mapped (pmem s) (ppagetable (procs s pr)) addr k"
  shows "pipewrite pi addr (int k) (s, e) = Ok (int k)
    (settled (woken (Some (ChPipeR pi)) {..<NPROC}
      (set_pipe pi (fold pipe_put (user_bytes (pmem s) (ppagetable (procs s pr)) addr k)) s)), e)"
proof -
  let ?s = "set_pipe pi (fold pipe_put (user_bytes (pmem s) (ppagetable (procs s pr)) addr k)) s"
  have "pipewrite_loop (Suc (nat (int k) + length (snd (acquired (LkPipe pi) s, e)))) pr pi addr (int (0 + k)) (int 0) (acquired (LkPipe pi) s, e) =
      Ok (Some (int (0 + k))) (acquired (LkPipe pi) ?s, e)"
    using pipewrite_loop_run [of s pr pi k addr 0 "Suc (nat (int k) + length e)" e] assms by simp
  moreover have "wakeup (ChPipeR pi) (acquired (LkPipe pi) ?s, e) =
      Ok () (acquired (LkPipe pi) (woken (Some (ChPipeR pi)) {..<NPROC} ?s), e)"
    using wakeup_run [of "acquired (LkPipe pi) ?s" "ChPipeR pi" e] assms by (simp add: woken_lock)
  ultimately show ?thesis
    using assms
    by (simp add: pipewrite_def with_myproc_run kthen_def kbind_def acquire_run release_run del: pipewrite_loop.simps)
qed

section \<open>Reading\<close>

lemma writable_take: "writable m pt va n \<Longrightarrow> k \<le> n \<Longrightarrow> writable m pt va k"
  unfolding writable_def all_mapped_def by simp

lemma apart_take: "apart m pt va n \<Longrightarrow> k \<le> n \<Longrightarrow> apart m pt va k"
  unfolding apart_def by simp

lemma user_addrs_Suc: "user_addrs m pt va (Suc k) = phys m pt va # user_addrs m pt (va + 1) k"
  using user_addrs_split [of 1 "Suc k" m pt va] by (simp add: user_addrs_def)

lemma kmem_set_lock: "kmem_set f (acquired lk s) = acquired lk (kmem_set f s)"
  by (simp add: kmem_set_def acquired_pmem)

lemma kmem_set_pipe: "kmem_set f (set_pipe pi g s) = set_pipe pi g (kmem_set f s)"
  by (simp add: kmem_set_def set_pipe_def)

lemma kmem_set_pipes [simp]: "pipes (kmem_set f s) = pipes s" "procs (kmem_set f s) = procs s"
  by (simp_all add: kmem_set_def)

lemma kmem_set_twice: "kmem_set f (kmem_set g s) = kmem_set (\<lambda>m. f (g m)) s"
  by (simp add: kmem_set_def)

text \<open>The state after \<open>j\<close> bytes have been taken out and written to the addresses \<open>as\<close>.\<close>

definition pipe_read_st :: "u64 \<Rightarrow> nat \<Rightarrow> u64 list \<Rightarrow> 'a pipe_state_scheme \<Rightarrow> 'a pipe_state_scheme" where
  "pipe_read_st pi j as s =
     set_pipe pi (pipe_take ^^ j) (kmem_set (writes (take j as) (pipe_content (pipes s pi))) s)"

lemma piperead_loop_run:
  assumes "hart_ok s" and "pipe_wf (pipes s pi)"
    and "writable (pmem s) (ppagetable (procs s pr)) (addr + of_nat i) k"
    and "apart (pmem s) (ppagetable (procs s pr)) (addr + of_nat i) k"
    and "j = min k (length (pipe_content (pipes s pi)))"
  shows "piperead_loop k pr pi addr (int i) (acquired (LkPipe pi) s, e) =
      Ok (int (i + j)) (acquired (LkPipe pi)
        (pipe_read_st pi j (user_addrs (pmem s) (ppagetable (procs s pr)) (addr + of_nat i) k) s), e)"
  using assms
proof (induction k arbitrary: i s j)
  case 0
  then show ?case by (simp add: pipe_read_st_def set_pipe_same kmem_set_def)
next
  case (Suc k)
  let ?pt = "ppagetable (procs s pr)" and ?va = "addr + of_nat i" and ?p = "pipes s pi"
  show ?case
  proof (cases "pi_nread ?p = pi_nwrite ?p")
    case True
    then have "pipe_content ?p = []" by (simp add: pipe_empty_iff)
    then show ?thesis using True Suc.prems(5) by (simp add: pipe_read_st_def set_pipe_same kmem_set_def)
  next
    case False
    let ?ch = "pipe_next ?p" and ?a = "phys (pmem s) ?pt ?va"
    note p = pipe_take_content [OF Suc.prems(2) False]
    let ?s = "set_pipe pi pipe_take (kmem_set (writes [?a] [?ch]) s)"
    have ua: "user_addrs (pmem s) ?pt ?va (Suc k) = ?a # user_addrs (pmem s) ?pt (?va + 1) k"
      by (rule user_addrs_Suc)
    have "((pmem s)(?a := ?ch)) x = pmem s x" if "x \<notin> set (user_addrs (pmem s) ?pt ?va (Suc k))" for x
      using that by (simp add: ua)
    note rr = range_rest [OF Suc.prems(3,4), of 1, OF _ this]
    have co: "copyout ?pt ?va [?ch] (acquired (LkPipe pi) s, e) = Ok 0 (acquired (LkPipe pi) (kmem_set (writes [?a] [?ch]) s), e)"
      using copyout_run [of "acquired (LkPipe pi) s" ?pt ?va "[?ch]" e]
        writable_take [OF Suc.prems(3), of 1] apart_take [OF Suc.prems(4), of 1] user_addrs_Suc [of "pmem s" ?pt ?va 0]
      by (simp add: kmem_set_lock user_addrs_def)
    obtain j' where j: "j = Suc j'" "j' = min k (length (pipe_content (pipe_take ?p)))"
      using Suc.prems(5) p(2) by simp
    have IH: "piperead_loop k pr pi addr (int (Suc i)) (acquired (LkPipe pi) ?s, e) =
        Ok (int (Suc i + j')) (acquired (LkPipe pi)
          (pipe_read_st pi j' (user_addrs (pmem ?s) (ppagetable (procs ?s pr)) (addr + of_nat (Suc i)) k) ?s), e)"
      by (rule Suc.IH) (use Suc.prems(1) p(1) j(2) rr(1,2) in \<open>simp_all add: algebra_simps\<close>)
    have w: "writes (a # as) (b # bs) = (\<lambda>m. writes as bs (m(a := b)))" for a b as bs
      by (rule ext) simp
    have "pipe_take ^^ Suc j' = (\<lambda>p. (pipe_take ^^ j') (pipe_take p))"
      by (rule ext) (simp add: funpow_swap1)
    then have st: "pipe_read_st pi j' (user_addrs (pmem ?s) (ppagetable (procs ?s pr)) (addr + of_nat (Suc i)) k) ?s =
        pipe_read_st pi j (user_addrs (pmem s) ?pt ?va (Suc k)) s"
      using rr(3) p(2)
      by (simp add: pipe_read_st_def j(1) ua kmem_set_pipe kmem_set_twice set_pipe_set_pipe w algebra_simps del: funpow.simps)
    have "(\<lambda>p. p\<lparr>pi_nread := 1 + pi_nread p\<rparr>) = pipe_take"
      by (rule ext) (simp add: pipe_take_def)
    then show ?thesis
      using False IH [unfolded st] co j(1)
      by (simp add: kbind_def kthen_def set_pipe_lock ac_simps)
  qed
qed

lemma pipe_takes_content:
  "pipe_wf p \<Longrightarrow> j \<le> length (pipe_content p) \<Longrightarrow>
   pipe_wf ((pipe_take ^^ j) p) \<and> pipe_content ((pipe_take ^^ j) p) = drop j (pipe_content p)"
proof (induction j arbitrary: p)
  case (Suc j)
  then have "pi_nread p \<noteq> pi_nwrite p" by (auto simp: length_pipe_content)
  note p = pipe_take_content [OF Suc.prems(1) this]
  show ?case using Suc.IH [of "pipe_take p"] Suc.prems p by (simp add: funpow_swap1)
qed simp

lemma pipe_wait_ready:
  "hart_ok s \<Longrightarrow> \<not> (pi_nread (pipes s pi) = pi_nwrite (pipes s pi) \<and> pi_writeopen (pipes s pi)) \<Longrightarrow>
   pipe_wait pr pi (s, e) = Ok True (s, e)"
  by (cases "pi_nread (pipes s pi) = pi_nwrite (pipes s pi)") (simp_all add: pipe_wait_def kretry_def kbind_def)

lemma pipe_read_st_simps [simp]:
  "hart_ok (pipe_read_st pi j as s) = hart_ok s" "lock_free (pipe_read_st pi j as s) lk = lock_free s lk"
  "curproc (pipe_read_st pi j as s) = curproc s" "procs (pipe_read_st pi j as s) = procs s"
  "pmem (pipe_read_st pi j as s) = writes (take j as) (pipe_content (pipes s pi)) (pmem s)"
  "pipes (pipe_read_st pi j as s) = (pipes s)(pi := (pipe_take ^^ j) (pipes s pi))"
  by (simp_all add: pipe_read_st_def curproc_def)

lemma piperead_run:
  assumes "hart_ok s" and "curproc s = Some pr" and "lock_free s (LkPipe pi)"
    and "\<forall>i < NPROC. lock_free s (LkProc i)" and "pipe_wf (pipes s pi)"
    and "pipe_content (pipes s pi) \<noteq> [] \<or> \<not> pi_writeopen (pipes s pi)"
    and "writable (pmem s) (ppagetable (procs s pr)) addr k" and "apart (pmem s) (ppagetable (procs s pr)) addr k"
    and "j = min k (length (pipe_content (pipes s pi)))"
  shows "piperead pi addr (int k) (s, e) = Ok (int j)
    (settled (woken (Some (ChPipeW pi)) {..<NPROC}
      (pipe_read_st pi j (user_addrs (pmem s) (ppagetable (procs s pr)) addr k) s)), e)"
proof -
  let ?s = "pipe_read_st pi j (user_addrs (pmem s) (ppagetable (procs s pr)) addr k) s"
  have "piperead_loop (nat (int k)) pr pi addr 0 (acquired (LkPipe pi) s, e) = Ok (int j) (acquired (LkPipe pi) ?s, e)"
    using piperead_loop_run [of s pi pr addr 0 k j e] assms by simp
  moreover have "pipe_wait pr pi (acquired (LkPipe pi) s, e) = Ok True (acquired (LkPipe pi) s, e)"
    using assms by (intro pipe_wait_ready) (auto simp: pipe_empty_iff)
  moreover have "wakeup (ChPipeW pi) (acquired (LkPipe pi) ?s, e) =
      Ok () (acquired (LkPipe pi) (woken (Some (ChPipeW pi)) {..<NPROC} ?s), e)"
    using wakeup_run [of "acquired (LkPipe pi) ?s" "ChPipeW pi" e] assms by (simp add: woken_lock)
  ultimately show ?thesis
    using assms
    by (simp add: piperead_def with_myproc_run kthen_def kbind_def acquire_run release_run)
qed

section \<open>Properties\<close>

text \<open>
  C22. pipewrite appends: with the read end open, the caller not killed, its bytes mapped
  and room for all of them, it returns their number, the content of the pipe is the old
  content followed by them, and neither another pipe nor memory changes.
\<close>

theorem pipewrite_appends:
  assumes "hart_ok s" and "curproc s = Some pr" and "lock_free s (LkPipe pi)"
    and "lock_free s (LkProc pr)" and "\<forall>i < NPROC. lock_free s (LkProc i)"
    and "\<not> pkilled (procs s pr)" and "pi_readopen (pipes s pi)" and "pipe_wf (pipes s pi)"
    and "length (pipe_content (pipes s pi)) + k \<le> PIPESIZE"
    and "all_mapped (pmem s) (ppagetable (procs s pr)) addr k"
  shows "\<exists>t. pipewrite pi addr (int k) (s, e) = Ok (int k) (t, e) \<and> pipe_wf (pipes t pi) \<and>
    pipe_content (pipes t pi) = pipe_content (pipes s pi) @ user_bytes (pmem s) (ppagetable (procs s pr)) addr k \<and>
    (\<forall>q. q \<noteq> pi \<longrightarrow> pipes t q = pipes s q) \<and> pmem t = pmem s"
  using pipewrite_run [OF assms, of e]
    pipe_puts_content [OF assms(8), of "user_bytes (pmem s) (ppagetable (procs s pr)) addr k"] assms(9)
  by simp

text \<open>
  C23. piperead takes from the front: of a pipe that has bytes, or whose write end is
  closed, it returns the number of bytes there are, at most the number asked for; these
  are the first of the content, stored at the caller's addresses, and the rest stays; a
  closed, empty pipe gives 0.
\<close>

theorem piperead_takes:
  assumes "hart_ok s" and "curproc s = Some pr" and "lock_free s (LkPipe pi)"
    and "\<forall>i < NPROC. lock_free s (LkProc i)" and "pipe_wf (pipes s pi)"
    and "pipe_content (pipes s pi) \<noteq> [] \<or> \<not> pi_writeopen (pipes s pi)"
    and "writable (pmem s) (ppagetable (procs s pr)) addr k" and "apart (pmem s) (ppagetable (procs s pr)) addr k"
    and "distinct (user_addrs (pmem s) (ppagetable (procs s pr)) addr k)"
  shows "\<exists>t j. j = min k (length (pipe_content (pipes s pi))) \<and>
    piperead pi addr (int k) (s, e) = Ok (int j) (t, e) \<and> pipe_wf (pipes t pi) \<and>
    pipe_content (pipes t pi) = drop j (pipe_content (pipes s pi)) \<and>
    map (pmem t) (take j (user_addrs (pmem s) (ppagetable (procs s pr)) addr k)) = take j (pipe_content (pipes s pi))"
proof -
  let ?c = "pipe_content (pipes s pi)" and ?as = "user_addrs (pmem s) (ppagetable (procs s pr)) addr k"
  let ?j = "min k (length ?c)"
  have "writes (take ?j ?as) ?c (pmem s) = writes (take ?j ?as) (take ?j ?c) (pmem s)"
    using writes_append [of "take ?j ?as" "take ?j ?c" "[]" "drop ?j ?c" "pmem s"] by simp
  moreover have "map (writes (take ?j ?as) (take ?j ?c) (pmem s)) (take ?j ?as) = take ?j ?c"
    by (rule map_writes) (use assms(9) in simp_all)
  moreover have "?j \<le> length ?c" by simp
  note pipe_takes_content [OF assms(5) this]
  ultimately show ?thesis
    using piperead_run [OF assms(1-8) refl, of e] by simp
qed

lemma empty_pipe_wf: "pipe_wf empty_pipe" "pipe_content empty_pipe = []" "pi_readopen empty_pipe" "pi_writeopen empty_pipe"
  by (simp_all add: pipe_wf_def pipe_content_def empty_pipe_def ring_content_def)

theorem pipewrite_appends_witness:
  "\<exists>t. pipewrite 0x80400000 0xffe 4 (sample_kernel, []) = Ok 4 (t, []) \<and> length (pipe_content (pipes t 0x80400000)) = 4"
proof -
  have "\<exists>t. pipewrite 0x80400000 0xffe (int 4) (sample_kernel, []) = Ok (int 4) (t, []) \<and>
    pipe_content (pipes t 0x80400000) = user_bytes (pmem sample_kernel) 0x80300000 0xffe 4"
    using pipewrite_appends [of sample_kernel 2 "0x80400000" 4 "0xffe" "[]"]
    by (auto simp: empty_pipe_wf sample_writable PIPESIZE_def)
  then show ?thesis by auto
qed

definition sample_full_pipe :: "trap_state" where
  "sample_full_pipe = set_pipe 0x80400000 (fold pipe_put [65, 66, 67, 68, 69, 70]) sample_kernel"

theorem piperead_takes_witness:
  "\<exists>t. piperead 0x80400000 0xffe 4 (sample_full_pipe, []) = Ok 4 (t, []) \<and>
     pipe_content (pipes t 0x80400000) = [69, 70] \<and>
     map (pmem t) [0x80305ffe, 0x80305fff, 0x80303000, 0x80303001] = [65, 66, 67, 68]"
proof -
  have p: "pipe_wf (pipes sample_full_pipe 0x80400000)" "pipe_content (pipes sample_full_pipe 0x80400000) = [65, 66, 67, 68, 69, 70]"
    using pipe_puts_content [of empty_pipe "[65, 66, 67, 68, 69, 70]"]
    by (simp_all add: sample_full_pipe_def empty_pipe_wf PIPESIZE_def)
  have f: "hart_ok sample_full_pipe" "curproc sample_full_pipe = Some 2" "lock_free sample_full_pipe lk"
    "procs sample_full_pipe 2 = sample_proc" "pmem sample_full_pipe = sample_pt_mem sample_frame" for lk
    by (simp_all add: sample_full_pipe_def)
  have "\<exists>t j. j = min 4 6 \<and> piperead 0x80400000 0xffe (int 4) (sample_full_pipe, []) = Ok (int j) (t, []) \<and>
      pipe_content (pipes t 0x80400000) = drop j [65, 66, 67, 68, 69, 70] \<and>
      map (pmem t) (take j [0x80305ffe, 0x80305fff, 0x80303000, 0x80303001]) = take j [65, 66, 67, 68, 69, 70]"
    using piperead_takes [of sample_full_pipe 2 "0x80400000" "0xffe" 4 "[]"]
    by (auto simp: p f sample_writable sample_user_addrs)
  then show ?thesis by (auto simp: eval_nat_numeral)
qed

end
