(* ===== verification/Lines.thy ===== *)
theory Lines
  imports Sample Ring
begin

text \<open>
  The console input as a line editor: the characters ready to be read and the line being
  edited are two consecutive parts of the ring, and every key the interrupt handler gets
  is a step on this pair.
\<close>

interpretation cring: ring INPUT_BUF_SIZE
  by unfold_locales (simp_all add: INPUT_BUF_SIZE_def)

section \<open>The two parts of the ring\<close>

definition cons_ready :: "'a cons_state_scheme \<Rightarrow> string" where
  "cons_ready s = ring_content INPUT_BUF_SIZE (cons_buf s) (cons_r s) (cons_w s)"

definition cons_edit :: "'a cons_state_scheme \<Rightarrow> string" where
  "cons_edit s = ring_content INPUT_BUF_SIZE (cons_buf s) (cons_w s) (cons_e s)"

definition cons_wf :: "'a cons_state_scheme \<Rightarrow> bool" where
  "cons_wf s \<longleftrightarrow> length (cons_buf s) = INPUT_BUF_SIZE \<and>
     length (cons_ready s) + length (cons_edit s) \<le> INPUT_BUF_SIZE"

lemma cons_lengths: "length (cons_ready s) = unat (cons_w s - cons_r s)" "length (cons_edit s) = unat (cons_e s - cons_w s)"
  by (simp_all add: cons_ready_def cons_edit_def)

lemma cons_count: "cons_wf s \<Longrightarrow> unat (cons_e s - cons_r s) = length (cons_ready s) + length (cons_edit s)"
proof -
  assume "cons_wf s"
  then have "unat (cons_w s - cons_r s) + unat (cons_e s - cons_w s) < 2 ^ 32"
    by (simp add: cons_wf_def cons_lengths INPUT_BUF_SIZE_def)
  moreover have "unat (a + b) = unat a + unat b" if "unat a + unat b < 2 ^ 32" for a b :: u32
    using that by (simp add: unat_word_ariths(1))
  ultimately have "unat ((cons_w s - cons_r s) + (cons_e s - cons_w s)) = unat (cons_w s - cons_r s) + unat (cons_e s - cons_w s)"
    by blast
  moreover have "(cons_w s - cons_r s) + (cons_e s - cons_w s) = cons_e s - cons_r s" by simp
  ultimately show ?thesis by (simp only: cons_lengths)
qed

lemma ring_content_keep:
  assumes "unat (w - r) \<le> unat (e - r)" and "unat (e - r) < INPUT_BUF_SIZE"
  shows "ring_content INPUT_BUF_SIZE (buf[unat e mod INPUT_BUF_SIZE := x]) r w = ring_content INPUT_BUF_SIZE buf r w"
  unfolding ring_content_def
proof (intro map_cong refl nth_list_update_neq)
  fix k assume "k \<in> set [0..<unat (w - r)]"
  then have "k < unat (e - r)" using assms(1) by simp
  then show "unat e mod INPUT_BUF_SIZE \<noteq> unat (r + of_nat k) mod INPUT_BUF_SIZE"
    using cring.slot_differs [OF _ assms(2)] by metis
qed

text \<open>\<open>cons.w = cons.e\<close> makes the edited line ready.\<close>

lemma ring_content_join:
  assumes "unat (e - r) = unat (w - r) + unat (e - w)"
  shows "ring_content N buf r e = ring_content N buf r w @ ring_content N buf w e"
proof -
  have "r + of_nat (unat (w - r)) = w" by simp
  then have "r + (of_nat (unat (w - r)) + of_nat k) = w + of_nat k" for k
    by (simp add: add.assoc [symmetric])
  then have "map (\<lambda>k. buf ! (unat (r + of_nat k) mod N)) [unat (w - r)..<unat (w - r) + unat (e - w)] =
      ring_content N buf w e"
    by (auto simp: ring_content_def map_add_upt [of "unat (w - r)" "unat (e - w)", symmetric] comp_def add.commute)
  then show ?thesis
    unfolding ring_content_def [of N buf r e] assms ring_content_def [of N buf r w]
    by (subst upt_add_eq_append) simp_all
qed

section \<open>Steps of the editor\<close>

text \<open>What a key does to the ready characters and the line, and what it echoes.\<close>

definition ends_line :: "int \<Rightarrow> string \<Rightarrow> string \<Rightarrow> bool" where
  "ends_line c rd ed \<longleftrightarrow> c = 0x0A \<or> c = ctrl CHR ''D'' \<or> length rd + length ed = INPUT_BUF_SIZE"

definition add_key :: "int \<Rightarrow> string \<times> string \<Rightarrow> string \<times> string" where
  "add_key c = (\<lambda>(rd, ed). let ed' = ed @ [code_char c] in
     if ends_line c rd ed' then (rd @ ed', []) else (rd, ed'))"

definition kill_line :: "string \<Rightarrow> string" where
  "kill_line ed = rev (dropWhile (\<lambda>c. c \<noteq> CHR 0x0A) (rev ed))"

definition key_step :: "int \<Rightarrow> string \<times> string \<Rightarrow> string \<times> string" where
  "key_step c = (\<lambda>(rd, ed).
     if c = ctrl CHR ''U'' then (rd, kill_line ed)
     else if c = ctrl CHR ''H'' \<or> c = 0x7F then (rd, butlast ed)
     else if c = 0 \<or> INPUT_BUF_SIZE \<le> length rd + length ed then (rd, ed)
     else add_key (if c = 0x0D then 0x0A else c) (rd, ed))"

definition rubout :: "nat \<Rightarrow> string" where
  "rubout n = concat (replicate n (cons_text BACKSPACE))"

definition key_echo :: "int \<Rightarrow> string \<times> string \<Rightarrow> string" where
  "key_echo c = (\<lambda>(rd, ed).
     if c = ctrl CHR ''U'' then rubout (length ed - length (kill_line ed))
     else if c = ctrl CHR ''H'' \<or> c = 0x7F then rubout (if ed = [] then 0 else 1)
     else if c = 0 \<or> INPUT_BUF_SIZE \<le> length rd + length ed then []
     else cons_text (if c = 0x0D then 0x0A else c))"

section \<open>The state\<close>

lemma cons_lock [simp]:
  "cons_buf (acquired lk s) = cons_buf s" "cons_r (acquired lk s) = cons_r s" "cons_w (acquired lk s) = cons_w s"
  "cons_e (acquired lk s) = cons_e s" "cons_buf (settled s) = cons_buf s" "cons_r (settled s) = cons_r s"
  "cons_w (settled s) = cons_w s" "cons_e (settled s) = cons_e s"
  by (simp_all add: acquired_def settled_def push_off_st_def set_lock_def set_cpu_def set_sie_def)

text \<open>An update of the ring and of the text printed.\<close>

definition cons_set :: "char list \<Rightarrow> u32 \<Rightarrow> u32 \<Rightarrow> string \<Rightarrow> 'a cons_state_scheme \<Rightarrow> 'a cons_state_scheme" where
  "cons_set buf w e txt s = s\<lparr>cons_buf := buf, cons_w := w, cons_e := e, uart_out := uart_out s @ txt\<rparr>"

lemma cons_set_simps [simp]:
  "cons_buf (cons_set buf w e txt s) = buf" "cons_w (cons_set buf w e txt s) = w" "cons_e (cons_set buf w e txt s) = e"
  "cons_r (cons_set buf w e txt s) = cons_r s" "uart_out (cons_set buf w e txt s) = uart_out s @ txt"
  "hart_ok (cons_set buf w e txt s) = hart_ok s" "lock_free (cons_set buf w e txt s) lk = lock_free s lk"
  "curproc (cons_set buf w e txt s) = curproc s" "tty_ok (cons_set buf w e txt s) = tty_ok s"
  "procs (cons_set buf w e txt s) = procs s"
  "cons_set buf w e txt (cons_set buf' w' e' txt' s) = cons_set buf w e (txt' @ txt) s"
  by (simp_all add: cons_set_def hart_ok_def lock_free_def curproc_def tty_ok_def intr_enabled_def hart_def)

lemma cons_set_lock:
  "cons_set buf w e txt (acquired lk s) = acquired lk (cons_set buf w e txt s)"
  by (simp add: cons_set_def acquired_def push_off_st_def set_lock_def set_cpu_def set_sie_def
      intr_enabled_def hart_def)

lemma consputc_locked:
  assumes "tty_ok s"
  shows "consputc c (acquired lk s, e) = Ok () (acquired lk (cons_set (cons_buf s) (cons_w s) (cons_e s) (cons_text c) s), e)"
proof -
  have "hart_ok s" using assms by (simp add: tty_ok_def)
  then have "unpanicked_settled (acquired lk t) = acquired lk t" if "hart_ok t" for t :: "'a cons_state_scheme"
    using that by (simp add: unpanicked_settled_def)
  moreover have "tty_put (cons_text c) s = cons_set (cons_buf s) (cons_w s) (cons_e s) (cons_text c) s"
    by (simp add: tty_put_def cons_set_def)
  ultimately show ?thesis
    using assms \<open>hart_ok s\<close> by (simp add: consputc_run tty_put_lock)
qed

lemma cons_erase_locked:
  assumes "tty_ok s"
  shows "cons_erase (acquired lk s, e) =
    Ok () (acquired lk (cons_set (cons_buf s) (cons_w s) (cons_e s - 1) (cons_text BACKSPACE) s), e)"
proof -
  have "(acquired lk s)\<lparr>cons_e := v\<rparr> = acquired lk (cons_set (cons_buf s) (cons_w s) v [] s)" for v
    by (simp add: cons_set_def acquired_def push_off_st_def set_lock_def set_cpu_def set_sie_def
      intr_enabled_def hart_def)
  then show ?thesis
    using assms consputc_locked [of "cons_set (cons_buf s) (cons_w s) (cons_e s - 1) [] s" BACKSPACE lk e]
    by (simp add: cons_erase_def kthen_def kbind_def)
qed

text \<open>The ring as the pair of the editor.\<close>

definition cons_line :: "'a cons_state_scheme \<Rightarrow> string \<times> string" where
  "cons_line s = (cons_ready s, cons_edit s)"

lemma cons_erase_line:
  assumes "cons_wf s" and "cons_e s \<noteq> cons_w s"
    and t: "t = cons_set (cons_buf s) (cons_w s) (cons_e s - 1) txt s"
  shows "cons_wf t" and "cons_line t = (cons_ready s, butlast (cons_edit s))"
proof -
  have "cons_edit t = butlast (cons_edit s)" "cons_ready t = cons_ready s"
    using cring.erase [of "cons_w s" "cons_e s" "cons_buf s"] assms(2)
    by (simp_all add: cons_edit_def cons_ready_def t)
  then show "cons_wf t" "cons_line t = (cons_ready s, butlast (cons_edit s))"
    using assms(1) by (simp_all add: cons_wf_def cons_line_def t) arith
qed

lemma cons_last:
  assumes "cons_e s \<noteq> cons_w s"
  shows "cons_edit s \<noteq> []" and "last (cons_edit s) = cons_buf s ! (unat (cons_e s - 1) mod INPUT_BUF_SIZE)"
proof -
  have nz: "cons_e s - cons_w s \<noteq> 0" using assms by simp
  then obtain d where d: "unat (cons_e s - cons_w s) = Suc d" by (cases "unat (cons_e s - cons_w s)") (auto simp: unat_eq_0)
  have "of_nat (unat (cons_e s - cons_w s)) = cons_e s - cons_w s" by simp
  then have "cons_w s + of_nat d = cons_e s - 1" unfolding d by (simp add: algebra_simps)
  then show "cons_edit s \<noteq> []" "last (cons_edit s) = cons_buf s ! (unat (cons_e s - 1) mod INPUT_BUF_SIZE)"
    by (simp_all add: cons_edit_def ring_content_def d)
qed

lemma kill_line_step: "ed \<noteq> [] \<Longrightarrow> kill_line ed = (if last ed = CHR 0x0A then ed else kill_line (butlast ed))"
  by (cases ed rule: rev_cases) (simp_all add: kill_line_def)

lemma kill_line_length: "length (kill_line ed) \<le> length ed"
  by (simp add: kill_line_def) (metis length_dropWhile_le length_rev)

lemma rubout_simps [simp]: "rubout 0 = []" "rubout (Suc n) = cons_text BACKSPACE @ rubout n"
  by (simp_all add: rubout_def)

lemma kill_loop_run:
  "tty_ok s \<Longrightarrow> cons_wf s \<Longrightarrow> length (cons_edit s) = n \<Longrightarrow>
   \<exists>t. kwhile n (\<lambda>s. cons_e s \<noteq> cons_w s \<and> cons_buf s ! (unat (cons_e s - 1) mod INPUT_BUF_SIZE) \<noteq> CHR 0x0A)
        cons_erase (acquired lk s, e) = Ok () (acquired lk t, e) \<and>
      (\<exists>buf w f. t = cons_set buf w f (rubout (n - length (kill_line (cons_edit s)))) s) \<and>
      cons_wf t \<and> cons_line t = (cons_ready s, kill_line (cons_edit s))"
proof (induction n arbitrary: s)
  case 0
  then have "cons_e s = cons_w s" by (simp add: cons_lengths unat_eq_0)
  moreover have "s = cons_set (cons_buf s) (cons_w s) (cons_e s) [] s" by (simp add: cons_set_def)
  ultimately show ?case using 0 by (intro exI [of _ s]) (auto simp: cons_line_def kill_line_def)
next
  case (Suc n)
  then have ne: "cons_e s \<noteq> cons_w s" by (auto simp: cons_lengths)
  show ?case
  proof (cases "last (cons_edit s) = CHR 0x0A")
    case True
    moreover have "s = cons_set (cons_buf s) (cons_w s) (cons_e s) [] s" by (simp add: cons_set_def)
    ultimately show ?thesis
      using ne Suc.prems cons_last [OF ne] kill_line_step [of "cons_edit s"]
      by (intro exI [of _ s]) (auto simp: cons_line_def)
  next
    case False
    let ?s = "cons_set (cons_buf s) (cons_w s) (cons_e s - 1) (cons_text BACKSPACE) s"
    have l: "cons_wf ?s" "cons_ready ?s = cons_ready s" "cons_edit ?s = butlast (cons_edit s)"
      using cons_erase_line [OF Suc.prems(2) ne refl] by (simp_all add: cons_line_def)
    have k: "kill_line (cons_edit s) = kill_line (butlast (cons_edit s))"
      using kill_line_step [OF cons_last(1) [OF ne]] False by simp
    have "length (kill_line (butlast (cons_edit s))) \<le> n"
      using kill_line_length [of "butlast (cons_edit s)"] Suc.prems(3) by simp
    then have r: "rubout (Suc n - length (kill_line (butlast (cons_edit s)))) =
        cons_text BACKSPACE @ rubout (n - length (kill_line (butlast (cons_edit s))))"
      by (simp add: Suc_diff_le)
    have "length (cons_edit ?s) = n" using l(3) Suc.prems(3) by simp
    from Suc.IH [OF _ l(1) this] Suc.prems(1) l
    obtain t buf w f where t: "kwhile n (\<lambda>s. cons_e s \<noteq> cons_w s \<and> cons_buf s ! (unat (cons_e s - 1) mod INPUT_BUF_SIZE) \<noteq> CHR 0x0A)
          cons_erase (acquired lk ?s, e) = Ok () (acquired lk t, e)"
        "t = cons_set buf w f (rubout (n - length (kill_line (butlast (cons_edit s))))) ?s" "cons_wf t"
        "cons_line t = (cons_ready s, kill_line (butlast (cons_edit s)))"
      by auto
    then show ?thesis
      using ne False cons_last(2) [OF ne] cons_erase_locked [OF Suc.prems(1), of lk e]
      by (intro exI [of _ t]) (auto simp: kthen_def kbind_def k r)
  qed
qed

section \<open>Typing\<close>

lemma woken_cons [simp]:
  "cons_buf (woken ch is s) = cons_buf s" "cons_r (woken ch is s) = cons_r s" "cons_w (woken ch is s) = cons_w s"
  "cons_e (woken ch is s) = cons_e s" "uart_out (woken ch is s) = uart_out s"
  by (simp_all add: woken_def)

lemma cons_view_simps:
  "cons_wf (woken ch is s) = cons_wf s" "cons_line (woken ch is s) = cons_line s"
  "cons_wf (settled s) = cons_wf s" "cons_line (settled s) = cons_line s"
  by (simp_all add: cons_wf_def cons_line_def cons_ready_def cons_edit_def)

lemma cons_put_locked:
  "cons_put ch (acquired lk s) = acquired lk
     (cons_set ((cons_buf s)[unat (cons_e s) mod INPUT_BUF_SIZE := ch]) (cons_w s) (cons_e s + 1) [] s)"
  by (simp add: cons_put_def cons_set_def acquired_def push_off_st_def set_lock_def set_cpu_def set_sie_def
      intr_enabled_def hart_def)

lemma cons_put_line:
  assumes "cons_wf s" and "unat (cons_e s - cons_r s) < INPUT_BUF_SIZE"
    and t: "t = cons_set ((cons_buf s)[unat (cons_e s) mod INPUT_BUF_SIZE := ch]) (cons_w s) (cons_e s + 1) txt s"
  shows "cons_wf t" and "cons_ready t = cons_ready s" and "cons_edit t = cons_edit s @ [ch]"
proof -
  have len: "length (cons_buf s) = INPUT_BUF_SIZE" using assms(1) by (simp add: cons_wf_def)
  have n: "unat (cons_e s - cons_r s) = unat (cons_w s - cons_r s) + unat (cons_e s - cons_w s)"
    using cons_count [OF assms(1)] by (simp add: cons_lengths)
  show r: "cons_ready t = cons_ready s"
    using ring_content_keep [of "cons_w s" "cons_r s" "cons_e s" "cons_buf s" ch] n assms(2)
    by (simp add: cons_ready_def t)
  show ed: "cons_edit t = cons_edit s @ [ch]"
    using cring.push [OF len, of "cons_e s" "cons_w s" ch] n assms(2)
    by (simp add: cons_edit_def t)
  show "cons_wf t"
    using assms(2) n len r ed by (simp add: cons_wf_def t) (simp add: cons_lengths)
qed

text \<open>The end of a line.\<close>

lemma cons_commit_line:
  assumes "cons_wf s" and t: "t = cons_set (cons_buf s) (cons_e s) (cons_e s) txt s"
  shows "cons_wf t" and "cons_line t = (cons_ready s @ cons_edit s, [])"
proof -
  have n: "unat (cons_e s - cons_r s) = unat (cons_w s - cons_r s) + unat (cons_e s - cons_w s)"
    using cons_count [OF assms(1)] by (simp add: cons_lengths)
  then have "cons_ready t = cons_ready s @ cons_edit s"
    using ring_content_join [OF n, of INPUT_BUF_SIZE "cons_buf s"] by (simp add: cons_ready_def cons_edit_def t)
  moreover have "cons_edit t = []" by (simp add: cons_edit_def ring_content_def t)
  ultimately show "cons_wf t" "cons_line t = (cons_ready s @ cons_edit s, [])"
    using assms(1) by (simp_all add: cons_wf_def cons_line_def t)
qed

lemma cons_w_locked:
  "(acquired lk s)\<lparr>cons_w := v\<rparr> = acquired lk (cons_set (cons_buf s) v (cons_e s) [] s)"
  by (simp add: cons_set_def acquired_def push_off_st_def set_lock_def set_cpu_def set_sie_def
      intr_enabled_def hart_def)

lemma cons_input_run:
  assumes "tty_ok s" and "cons_wf s" and "lock_free s LkCons" and "\<forall>i < NPROC. lock_free s (LkProc i)"
    and "c0 \<noteq> 0" and "length (cons_ready s) + length (cons_edit s) < INPUT_BUF_SIZE"
    and c: "c = (if c0 = 0x0D then 0x0A else c0)"
  shows "\<exists>t. cons_input c0 (acquired LkCons s, e) = Ok () (acquired LkCons t, e) \<and> hart_ok t \<and> lock_free t LkCons \<and>
    cons_wf t \<and> cons_line t = add_key c (cons_line s) \<and> uart_out t = uart_out s @ cons_text c"
proof -
  have hart: "hart_ok s" using assms(1) by (simp add: tty_ok_def)
  have room: "unat (cons_e s - cons_r s) < INPUT_BUF_SIZE" using cons_count [OF assms(2)] assms(6) by simp
  let ?s = "cons_set ((cons_buf s)[unat (cons_e s) mod INPUT_BUF_SIZE := code_char c]) (cons_w s) (cons_e s + 1) (cons_text c) s"
  note p = cons_put_line [OF assms(2) room refl, of "code_char c" "cons_text c"]
  have full: "unat (cons_e s + 1 - cons_r s) = length (cons_ready s) + length (cons_edit s @ [code_char c])"
    using cons_count [OF p(1)] p(2,3) by simp
  have put: "kseq [consputc c, kmod (cons_put (code_char c)), k] (acquired LkCons s, e) = kthen k (kret ()) (acquired LkCons ?s, e)" for k
    using assms(1) by (simp add: kthen_def kbind_def consputc_locked cons_put_locked)
  show ?thesis
  proof (cases "ends_line c (cons_ready s) (cons_edit s @ [code_char c])")
    case True
    let ?t = "cons_set (cons_buf ?s) (cons_e ?s) (cons_e ?s) [] ?s"
    note l = cons_commit_line [OF p(1) refl, of "[]"]
    have "wakeup ChConsR (acquired LkCons ?t, e) = Ok () (acquired LkCons (woken (Some ChConsR) {..<NPROC} ?t), e)"
      using wakeup_run [of "acquired LkCons ?t" ChConsR e] assms hart by (simp add: woken_lock)
    moreover have "c = 0x0A \<or> c = ctrl CHR ''D'' \<or> unat (cons_e s + 1 - cons_r s) = INPUT_BUF_SIZE"
      using True full by (simp add: ends_line_def)
    ultimately have "cons_input c0 (acquired LkCons s, e) = Ok () (acquired LkCons (woken (Some ChConsR) {..<NPROC} ?t), e)"
      using assms(5) room
      by (simp add: cons_input_def c [symmetric] Let_def put cons_w_locked kthen_def kbind_def del: kseq.simps)
    moreover have "cons_line ?t = add_key c (cons_line s)"
      using l(2) p(2,3) True by (simp add: add_key_def cons_line_def)
    ultimately show ?thesis
      using l(1) hart assms(3)
      by (intro exI [of _ "woken (Some ChConsR) {..<NPROC} ?t"]) (simp add: cons_view_simps)
  next
    case False
    then have "\<not> (c = 0x0A \<or> c = ctrl CHR ''D'' \<or> unat (cons_e s + 1 - cons_r s) = INPUT_BUF_SIZE)"
      using full by (simp add: ends_line_def)
    then have "cons_input c0 (acquired LkCons s, e) = Ok () (acquired LkCons ?s, e)"
      using assms(5) room
      by (simp add: cons_input_def c [symmetric] Let_def put kthen_def kbind_def del: kseq.simps)
    moreover have "cons_line ?s = add_key c (cons_line s)"
      using p(2,3) False by (simp add: add_key_def cons_line_def)
    ultimately show ?thesis
      using p(1) hart assms(3) by (intro exI [of _ ?s]) simp
  qed
qed

section \<open>Properties\<close>

text \<open>
  C24. The console edits lines: on every key but control-P, consoleintr takes the pair of
  the characters ready to be read and the line being edited one step of the editor --- it
  kills the line, rubs out its last character, ignores the key when the ring is full, or
  adds it, handing the line to the readers at its end or when the ring becomes full ---,
  echoes the step, and keeps the ring well formed.
\<close>

theorem consoleintr_edits:
  assumes "tty_ok s" and "cons_wf s" and "lock_free s LkCons" and "\<forall>i < NPROC. lock_free s (LkProc i)"
    and "c \<noteq> ctrl CHR ''P''"
  shows "\<exists>t. consoleintr c (s, e) = Ok () (t, e) \<and> cons_wf t \<and> cons_line t = key_step c (cons_line s) \<and>
    uart_out t = uart_out s @ key_echo c (cons_line s)"
proof -
  have hart: "hart_ok s" using assms(1) by (simp add: tty_ok_def)
  have fin: ?thesis if "body (acquired LkCons s, e) = Ok () (acquired LkCons t, e)" "hart_ok t" "lock_free t LkCons"
      "cons_wf t" "cons_line t = key_step c (cons_line s)" "uart_out t = uart_out s @ key_echo c (cons_line s)"
      "consoleintr c = kseq [acquire LkCons, body, release LkCons]" for body t
    using that assms(3) hart
    by (intro exI [of _ "settled t"]) (simp add: kthen_def kbind_def acquire_run release_run cons_view_simps)
  consider (U) "c = ctrl CHR ''U''" | (H) "c \<noteq> ctrl CHR ''U''" "c = ctrl CHR ''H'' \<or> c = 0x7F"
    | (other) "c \<noteq> ctrl CHR ''U''" "\<not> (c = ctrl CHR ''H'' \<or> c = 0x7F)" by blast
  then show ?thesis
  proof cases
    case U
    obtain t buf w f where t: "cons_kill_line (acquired LkCons s, e) = Ok () (acquired LkCons t, e)"
        "t = cons_set buf w f (rubout (length (cons_edit s) - length (kill_line (cons_edit s)))) s" "cons_wf t"
        "cons_line t = (cons_ready s, kill_line (cons_edit s))"
      using kill_loop_run [OF assms(1,2) refl, of LkCons e] by (auto simp: cons_kill_line_def kbind_def cons_lengths)
    show ?thesis
      by (rule fin [of cons_kill_line t]) (use t assms hart U in \<open>simp_all add: key_step_def key_echo_def cons_line_def consoleintr_def\<close>)
  next
    case H
    show ?thesis
    proof (cases "cons_e s = cons_w s")
      case True
      then have "cons_edit s = []" by (simp add: cons_edit_def ring_content_def)
      then show ?thesis
        using True by (intro fin [of "kwhen (\<lambda>s. cons_e s \<noteq> cons_w s) cons_erase" s])
          (use assms hart H in \<open>auto simp: key_step_def key_echo_def cons_line_def consoleintr_def\<close>)
    next
      case False
      note l = cons_erase_line [OF assms(2) False refl, of "cons_text BACKSPACE"]
      show ?thesis
        using False cons_last(1) [OF False] l
        by (intro fin [of "kwhen (\<lambda>s. cons_e s \<noteq> cons_w s) cons_erase"
            "cons_set (cons_buf s) (cons_w s) (cons_e s - 1) (cons_text BACKSPACE) s"])
          (use assms hart H in \<open>auto simp: cons_erase_locked key_step_def key_echo_def cons_line_def consoleintr_def
             One_nat_def\<close>)
    qed
  next
    case other
    have ci: "consoleintr c = kseq [acquire LkCons, cons_input c, release LkCons]"
      using other assms(5) by (simp add: consoleintr_def)
    show ?thesis
    proof (cases "c = 0 \<or> INPUT_BUF_SIZE \<le> length (cons_ready s) + length (cons_edit s)")
      case True
      then have "cons_input c (acquired LkCons s, e) = Ok () (acquired LkCons s, e)"
        using cons_count [OF assms(2)] by (auto simp: cons_input_def)
      then show ?thesis
        by (intro fin [of "cons_input c" s]) (use assms hart other True ci in \<open>auto simp: key_step_def key_echo_def cons_line_def\<close>)
    next
      case False
      obtain t where "cons_input c (acquired LkCons s, e) = Ok () (acquired LkCons t, e)" "hart_ok t" "lock_free t LkCons"
          "cons_wf t" "cons_line t = add_key (if c = 0x0D then 0x0A else c) (cons_line s)"
          "uart_out t = uart_out s @ cons_text (if c = 0x0D then 0x0A else c)"
        using cons_input_run [OF assms(1-4) _ _ refl, of c e] False by auto
      then show ?thesis
        by (intro fin [of "cons_input c" t]) (use other False ci in \<open>auto simp: key_step_def key_echo_def cons_line_def\<close>)
    qed
  qed
qed

lemma sample_tty: "tty_ok sample_kernel"
  by (simp add: tty_ok_def)

lemma sample_cons: "cons_wf sample_kernel" "cons_line sample_kernel = ([], [])"
  by (simp_all add: cons_wf_def cons_line_def cons_ready_def cons_edit_def ring_content_def)

theorem consoleintr_edits_witness:
  "\<exists>t. consoleintr 0x61 (sample_kernel, []) = Ok () (t, []) \<and> cons_line t = ([], ''a'') \<and> uart_out t = ''a''"
proof -
  have a: "code_char 0x61 = CHR ''a''" by code_simp
  have k: "key_step 0x61 ([], []) = ([], ''a'')" "key_echo 0x61 ([], []) = ''a''"
    by (simp_all add: key_step_def key_echo_def ctrl_def add_key_def ends_line_def INPUT_BUF_SIZE_def cons_text_def
       BACKSPACE_def a)
  have "(0x61 :: int) \<noteq> ctrl CHR ''P''" by (simp add: ctrl_def)
  then show ?thesis
    using consoleintr_edits [OF sample_tty sample_cons(1), of "0x61" "[]"] k sample_cons(2) by auto
qed

end
