(* ===== verification/Total.thy ===== *)
theory Total
  imports Pipe
begin

text \<open>
  The loops of the kernel return. A loop whose rounds spin or sleep uses up an action of
  the environment in each round (\<open>kwaits\<close>), so the pending actions are fuel enough; the
  other loops get enough fuel from their callers. \<open>ktotal\<close> is lifted through the calls, up
  to the sleep locks and the pipes.
\<close>

section \<open>Spin locks and the hart\<close>

lemma ktotal_csr [ktotal_intros]: "ktotal r_sstatus" "ktotal (w_sstatus v)" "ktotal r_tp"
  by (simp_all add: r_sstatus_def w_sstatus_def r_tp_def ktotal_base)

lemma ktotal_hart [ktotal_intros]:
  "ktotal intr_on" "ktotal intr_off" "ktotal intr_get" "ktotal cpuid" "ktotal mycpu"
  by (simp_all add: intr_on_def intr_off_def intr_get_def cpuid_def mycpu_def ktotal_intros)

lemma ktotal_push_pop [ktotal_intros]: "ktotal push_off" "ktotal pop_off" "ktotal (holding lk)"
  by (auto simp: push_off_def pop_off_def holding_def intro!: ktotal_intros)

lemma ktotal_acquire_spin [ktotal_intros]: "ktotal (acquire_spin lk)"
proof -
  have "(\<forall>w'. acquire_spin lk w \<noteq> NoFuel w') \<and>
      (\<forall>x w'. acquire_spin lk w = Ok x w' \<longrightarrow> length (snd w') \<le> length (snd w))"
    for w :: "'a machine_scheme world"
    by (induction lk w rule: acquire_spin.induct) (auto simp: le_Suc_eq)
  then show ?thesis by (simp add: ktotal_def)
qed

lemma ktotal_lock [ktotal_intros]: "ktotal (acquire lk)" "ktotal (release lk)"
  by (auto simp: acquire_def release_def intro!: ktotal_intros)

section \<open>Processes\<close>

lemma ktotal_myproc [ktotal_intros]: "ktotal myproc"
  by (auto simp: myproc_def intro!: ktotal_intros)

lemma ktotal_with_myproc [ktotal_intros]: "(\<And>p. ktotal (f p)) \<Longrightarrow> ktotal (with_myproc f)"
  by (auto simp: with_myproc_def intro!: ktotal_intros)

lemma kwaits_with_myproc: "(\<And>p. kwaits (f p)) \<Longrightarrow> kwaits (with_myproc f)"
  unfolding with_myproc_def by (auto intro!: kwaits_kbind ktotal_intros kwaits_kpanic split: option.splits)

lemma kwaits_kseq: "\<forall>m \<in> set ms. ktotal m \<Longrightarrow> \<exists>m \<in> set ms. kwaits m \<Longrightarrow> kwaits (kseq ms)"
  by (induction ms) (auto intro: kwaits_kthen_left kwaits_kthen_right ktotal_kseq)

lemma ktotal_swtch [ktotal_intros]: "ktotal (swtch_proc p)" "ktotal (swtch_cpu c)"
  by (auto simp: swtch_proc_def swtch_cpu_def intro!: ktotal_intros)

lemma kwaits_swtch: "kwaits (swtch_proc p)"
  unfolding swtch_proc_def by (rule kwaits_kseq) (auto intro!: ktotal_intros kwaits_env_step)

lemma ktotal_sched [ktotal_intros]: "ktotal sched"
  by (auto simp: sched_def intro!: ktotal_intros)

lemma kwaits_sched: "kwaits sched"
  unfolding sched_def
  by (intro kwaits_with_myproc kwaits_kseq)
    (auto intro!: ktotal_intros kwaits_kbind kwaits_kthen_left kwaits_swtch)

lemma ktotal_sleep [ktotal_intros]: "ktotal (sleep ch lk)" "ktotal yield"
  by (auto simp: sleep_def yield_def intro!: ktotal_intros)

lemma kwaits_sleep: "kwaits (sleep ch lk)"
  unfolding sleep_def
  by (intro kwaits_with_myproc kwaits_kseq) (auto intro!: ktotal_intros kwaits_sched)

lemma ktotal_wakeup [ktotal_intros]: "ktotal (wakeup_on c)" "ktotal (wakeup ch)" "ktotal (killed p)"
  by (auto simp: wakeup_on_def wakeup_def wake_one_def killed_def intro!: ktotal_intros)

lemma ktotal_acquiresleep [ktotal_intros]: "ktotal (acquiresleep x)" "ktotal (releasesleep x)"
  by (auto simp: acquiresleep_def releasesleep_def intro!: ktotal_intros kwaits_sleep)

section \<open>Loops that wait\<close>

text \<open>\<open>total_at m w\<close>: the run of \<open>m\<close> from the world \<open>w\<close> does not run out of fuel.\<close>

definition total_at :: "('s, 'a) kfun \<Rightarrow> 's world \<Rightarrow> bool" where
  "total_at m w \<longleftrightarrow> (\<forall>w'. m w \<noteq> NoFuel w') \<and> (\<forall>x w'. m w = Ok x w' \<longrightarrow> length (snd w') \<le> length (snd w))"

lemma ktotalI: "(\<And>w. total_at m w) \<Longrightarrow> ktotal m"
  unfolding ktotal_def total_at_def by blast

lemma ktotalD: "ktotal m \<Longrightarrow> total_at m w"
  unfolding ktotal_def total_at_def by blast

lemma ktotal_world: "(\<And>w. total_at (g w) w) \<Longrightarrow> ktotal (\<lambda>w. g w w)"
  unfolding ktotal_def total_at_def by blast

lemma total_at_le: "total_at m w \<Longrightarrow> m w = Ok x w' \<Longrightarrow> length (snd w') \<le> length (snd w)"
  unfolding total_at_def by blast

lemma kwaitsD: "kwaits m \<Longrightarrow> m w = Ok x w' \<Longrightarrow> length (snd w') < length (snd w)"
  unfolding kwaits_def by blast

lemma total_at_kret [simp]: "total_at (kret x) w"
  by (simp add: total_at_def)

lemma total_at_kbind:
  assumes "total_at m w" and "\<And>x w'. m w = Ok x w' \<Longrightarrow> length (snd w') \<le> length (snd w) \<Longrightarrow> total_at (f x) w'"
  shows "total_at (kbind m f) w"
proof (cases "m w")
  case (Ok x w')
  with total_at_le [OF assms(1) Ok] assms(2) [OF Ok] show ?thesis
    by (auto simp: total_at_def kbind_def intro: order_trans)
qed (use assms(1) in \<open>simp_all add: total_at_def kbind_def\<close>)

lemma total_at_kthen:
  assumes "ktotal m" and "\<And>w'. m w = Ok () w' \<Longrightarrow> length (snd w') \<le> length (snd w) \<Longrightarrow> total_at k w'"
  shows "total_at (kthen m k) w"
  unfolding kthen_def by (rule total_at_kbind) (use assms in \<open>auto dest: ktotalD\<close>)

lemma total_at_kthen_wait:
  assumes "ktotal m" and "kwaits m" and "\<And>w'. m w = Ok () w' \<Longrightarrow> length (snd w') < length (snd w) \<Longrightarrow> total_at k w'"
  shows "total_at (kthen m k) w"
  by (rule total_at_kthen [OF assms(1)]) (use assms(3) kwaitsD [OF assms(2)] in blast)

text \<open>Trying again after every wait.\<close>

lemma kretry_loop_total:
  fixes att :: "('a, 'b option) kfun"
  assumes "ktotal att" and "ktotal m" and "kwaits m"
  shows "length (snd w) < n \<Longrightarrow> total_at (kretry_loop n att m) w"
proof (induction n arbitrary: w)
  case (Suc n)
  show ?case
    unfolding kretry_loop.simps
  proof (rule total_at_kbind)
    show "total_at att w" by (rule ktotalD [OF assms(1)])
    fix r and w1 :: "'a world"
    assume le: "length (snd w1) \<le> length (snd w)"
    have "total_at (kthen m (kretry_loop n att m)) w1"
      by (rule total_at_kthen_wait [OF assms(2,3)]) (use Suc le in simp)
    then show "total_at (case r of None \<Rightarrow> kthen m (kretry_loop n att m) | Some v \<Rightarrow> kret v) w1"
      by (cases r) simp_all
  qed
qed simp

lemma kretry_total [ktotal_intros]: "ktotal att \<Longrightarrow> ktotal m \<Longrightarrow> kwaits m \<Longrightarrow> ktotal (kretry att m)"
  using ktotal_world [of "\<lambda>w. kretry_loop (Suc (length (snd w))) att m"] kretry_loop_total [of att m]
  unfolding kretry_def [abs_def] by blast

section \<open>Memory\<close>

lemma ktotal_mem [ktotal_intros]:
  "ktotal (kload a)" "ktotal (kstore a v)" "ktotal (kmemset d c n)" "ktotal (kmemmove d sr n)"
  by (simp_all add: kload_def kstore_def kmemset_def kmemmove_def ktotal_base)

lemma ktotal_pages [ktotal_intros]: "ktotal (kfree pa)" "ktotal kalloc"
  by (auto simp: kfree_def kalloc_def intro!: ktotal_intros)

lemma ktotal_walk [ktotal_intros]: "ktotal (walk pt va alloc)"
proof -
  have "ktotal (walk_levels l pt va alloc)" for l
    by (induction l arbitrary: pt) (auto simp: Let_def intro!: ktotal_intros)
  then show ?thesis by (auto simp: walk_def intro!: ktotal_intros)
qed

lemma ktotal_walkaddr [ktotal_intros]: "ktotal (walkaddr pt va)" "ktotal (ismapped pt va)"
  by (auto simp: walkaddr_def ismapped_def intro!: ktotal_intros)

text \<open>The loop of mappages reaches its last page with the rounds it is given.\<close>

lemma ktotal_map_loop: "lst = a + of_nat n * PGSIZE \<Longrightarrow> ktotal (map_loop (Suc n) pt a lst pa perm)"
proof (induction n arbitrary: a pa)
  case (Suc n)
  then have "lst = (a + PGSIZE) + of_nat n * PGSIZE" by (simp add: algebra_simps)
  note Suc.IH [OF this]
  then show ?case by (subst map_loop.simps) (auto intro!: ktotal_intros)
qed (auto intro!: ktotal_intros)

lemma ktotal_mappages [ktotal_intros]: "ktotal (mappages pt va sz pa perm :: ('a kmem_state_scheme, int) kfun)"
proof (cases "sz mod PGSIZE = 0 \<and> sz \<noteq> 0")
  case True
  have "PGSIZE * (sz div PGSIZE) + sz mod PGSIZE = sz" by (rule mult_div_mod_eq)
  then have sz: "sz = (sz div PGSIZE) * PGSIZE" using True by (simp add: mult.commute)
  then have "sz div PGSIZE \<noteq> 0" using True by (metis mult_zero_left)
  then obtain n where n: "unat (sz div PGSIZE) = Suc n"
    by (metis not0_implies_Suc unat_eq_0)
  have "of_nat (unat (sz div PGSIZE)) = sz div PGSIZE" by simp
  then have "of_nat n + 1 = sz div PGSIZE" unfolding n by (simp add: add.commute)
  then have "(of_nat n + 1) * PGSIZE = sz" using sz by metis
  then have "va + sz - PGSIZE = va + of_nat n * PGSIZE" by (auto simp: algebra_simps)
  then have "ktotal (map_loop (Suc n) pt va (va + sz - PGSIZE) pa perm :: ('a kmem_state_scheme, int) kfun)" by (rule ktotal_map_loop)
  then show ?thesis using True n by (simp add: mappages_def ktotal_base del: map_loop.simps)
qed (auto simp: mappages_def ktotal_base)

lemma ktotal_vmfault [ktotal_intros]: "ktotal (vmfault pt va rd)"
  by (auto simp: vmfault_def Let_def intro!: ktotal_intros)

lemma ktotal_case_prod [ktotal_intros]: "(\<And>x y. ktotal (f x y)) \<Longrightarrow> ktotal (case p of (x, y) \<Rightarrow> f x y)"
  by (cases p) simp

lemma ktotal_copyin [ktotal_intros]: "ktotal (copyin pt va n :: ('a kmem_state_scheme, int \<times> u8 list) kfun)"
proof (induction n arbitrary: va rule: less_induct)
  case (less n)
  have "ktotal (copyin pt va' (n - page_part va n) :: ('a kmem_state_scheme, int \<times> u8 list) kfun)" if "n \<noteq> 0" for va'
    by (rule less) (use that page_part_pos [of n va] in simp)
  then show ?case
    by (subst copyin.simps) (auto simp: Let_def intro!: ktotal_intros)
qed

lemma ktotal_copyout [ktotal_intros]: "ktotal (copyout pt va bs :: ('a kmem_state_scheme, int) kfun)"
proof (induction "length bs" arbitrary: va bs rule: less_induct)
  case less
  have "ktotal (copyout pt va' (drop (page_part va (length bs)) bs) :: ('a kmem_state_scheme, int) kfun)" if "bs \<noteq> []" for va'
    by (rule less) (use that page_part_pos [of "length bs" va] in simp)
  then show ?case
    by (subst copyout.simps) (auto simp: Let_def intro!: ktotal_intros)
qed

section \<open>Pipes\<close>

lemma pipewrite_loop_total:
  "nat (n - i) + length (snd w) < fuel \<Longrightarrow> total_at (pipewrite_loop fuel pr pi addr n i) w" for w :: "'a pipe_state_scheme world"
proof (induction fuel arbitrary: i w)
  case (Suc fuel)
  let ?W = "kthen (wakeup (ChPipeR pi)) (kthen (sleep (ChPipeW pi) (LkPipe pi)) (pipewrite_loop fuel pr pi addr n i))"
  let ?C = "kbind (kget (\<lambda>s. ppagetable (procs s pr))) (\<lambda>pt.
     kbind (copyin pt (addr + word_of_int i) 1) (\<lambda>(r, bs).
       if r = -1 then kret (Some i)
       else kthen (kmod (set_pipe pi (pipe_put (bs ! 0)))) (pipewrite_loop fuel pr pi addr n (i + 1))))"
  have W: "total_at ?W w1" if "length (snd w1) \<le> length (snd w)" for w1 :: "'a pipe_state_scheme world"
    by (rule total_at_kthen [OF ktotal_wakeup(2)], rule total_at_kthen_wait [OF ktotal_sleep(1) kwaits_sleep], rule Suc.IH)
      (use that Suc.prems in simp)
  have C: "total_at ?C w1" if "length (snd w1) \<le> length (snd w)" and "i < n"
    for w1 :: "'a pipe_state_scheme world"
    by (intro total_at_kbind)
      (use that Suc in \<open>auto intro!: ktotalD [OF ktotal_copyin] ktotalD [OF ktotal_base(5)] total_at_kthen ktotal_intros\<close>)
  show ?case
  proof (cases "i < n")
    case True
    have "total_at (kif (\<lambda>s. pipe_full (pipes s pi)) ?W ?C) w1"
      if "length (snd w1) \<le> length (snd w)" for w1 :: "'a pipe_state_scheme world"
      using W [OF that] C [OF that True] by (simp add: total_at_def)
    moreover have "ktotal (kif (\<lambda>s. \<not> pi_readopen (pipes s pi)) (kret True) (killed pr))"
      "ktotal (kthen (release (LkPipe pi)) (kret None))"
      by (intro ktotal_intros)+
    ultimately show ?thesis
      unfolding pipewrite_loop.simps if_P [OF True]
      by (intro total_at_kbind) (auto dest: ktotalD)
  qed simp
qed simp

lemma ktotal_pipewrite [ktotal_intros]: "ktotal (pipewrite pi addr n)"
proof -
  have "ktotal (\<lambda>w. pipewrite_loop (Suc (nat n + length (snd w))) pr pi addr n 0 w)" for pr
    by (rule ktotal_world [where g = "\<lambda>w. pipewrite_loop (Suc (nat n + length (snd w))) pr pi addr n 0"])
      (rule pipewrite_loop_total, simp)
  then show ?thesis
    by (auto simp: pipewrite_def simp del: pipewrite_loop.simps intro!: ktotal_intros)
qed

lemma ktotal_pipes [ktotal_intros]: "ktotal (piperead pi addr n)"
proof -
  have "ktotal (piperead_loop k pr pi addr i)" for k pr i
    by (induction k arbitrary: i) (auto intro!: ktotal_intros)
  then show ?thesis
    by (auto simp: piperead_def pipe_wait_def intro!: ktotal_intros kwaits_sleep)
qed

section \<open>Console and log\<close>

lemma ktotal_either [ktotal_intros]: "ktotal (either_copyout u dst bs)" "ktotal (either_copyin u sr n)"
  by (auto simp: either_copyout_def either_copyin_def intro!: ktotal_intros)

lemma ktotal_uartwrite [ktotal_intros]: "ktotal (uartwrite cs)"
  by (auto simp: uartwrite_def uart_thr_def uart_write_def intro!: ktotal_intros kwaits_sleep)

lemma ktotal_consolewrite_loop: "n - i \<le> int k \<Longrightarrow> ktotal (consolewrite_loop k u sr n i :: ('a cons_state_scheme, int) kfun)"
proof (induction k arbitrary: i)
  case (Suc k)
  then have "ktotal (consolewrite_loop k u sr n (i + (if 32 > n - i then n - i else 32)) :: ('a cons_state_scheme, int) kfun)"
    if "i < n"
    using that by (intro Suc.IH) auto
  then show ?case
    by (auto simp: Let_def intro!: ktotal_intros)
qed (auto intro!: ktotal_intros)

lemma ktotal_console [ktotal_intros]: "ktotal (consolewrite u sr n)" "ktotal (consoleread u dst n)"
proof -
  show "ktotal (consolewrite u sr n)"
    unfolding consolewrite_def by (rule ktotal_consolewrite_loop) simp
  have "ktotal (consoleread_loop k u dst t)" for k dst t
    by (induction k arbitrary: dst) (auto simp: cons_wait_def intro!: ktotal_intros kwaits_sleep)
  then show "ktotal (consoleread u dst n)"
    by (auto simp: consoleread_def intro!: ktotal_intros)
qed

lemma ktotal_begin_op [ktotal_intros]: "ktotal begin_op"
  by (auto simp: begin_op_def intro!: ktotal_intros kwaits_sleep)

lemma ktotal_no_NoFuel: "ktotal m \<Longrightarrow> m w \<noteq> NoFuel w'"
  unfolding ktotal_def by blast


end
