(* ===== verification/CrashUser.thy ===== *)
theory CrashUser
  imports Sysproc
begin

text \<open>
  The user side of the panic logger: user/dumppanic.c, user/logtest.c, user/crashme.c. A
  program is a function of the system calls it makes and of a state the calls work on; its
  result is what it printed (\<open>None\<close> when a conversion lacks its argument) and its exit
  code. The crash context it gets is read back from the bytes the kernel copied out.
\<close>

section \<open>struct crash_context, read from memory\<close>

definition reg_slot :: "reg \<Rightarrow> nat" where
  "reg_slot r = length (takeWhile (\<lambda>x. x \<noteq> r) all_regs)"

definition get_int :: "nat \<Rightarrow> u8 list \<Rightarrow> int" where
  "get_int off bs = sint (get32 off bs)"

definition get_chars :: "nat \<Rightarrow> nat \<Rightarrow> u8 list \<Rightarrow> char list" where
  "get_chars n off bs = map char_of_byte (take n (drop off bs))"

definition ctx_of_bytes :: "u8 list \<Rightarrow> crash_context" where
  "ctx_of_bytes bs =
     \<lparr>cc_reg = (\<lambda>r. get64 (8 * reg_slot r) bs),
      cc_sepc = get64 248 bs, cc_scause = get64 256 bs, cc_stval = get64 264 bs, cc_sstatus = get64 272 bs,
      cc_pid = get_int 280 bs, cc_pname = get_chars 16 284 bs, cc_pstate = get_int 300 bs,
      cc_stacktrace = map (\<lambda>i. get64 (304 + 8 * i) bs) [0..<10],
      cc_stack_depth = get_int 384 bs, cc_cpu = get_int 388 bs, cc_panic_msg = get_chars 128 392 bs,
      cc_panic_ticks = get64 520 bs, cc_magic = get32 528 bs\<rparr>"

section \<open>Printing\<close>

text \<open>A list of printf calls, in order.\<close>

primrec uprint_all :: "(string \<times> va list) list \<Rightarrow> string option" where
  "uprint_all [] = Some []"
| "uprint_all (l # ls) =
     (case uprintf (fst l) (snd l) of None \<Rightarrow> None | Some a \<Rightarrow> map_option (\<lambda>b. a @ b) (uprint_all ls))"

section \<open>dumppanic.c\<close>

definition print_ctx :: "crash_context \<Rightarrow> (string \<times> va list) list" where
  "print_ctx c =
     (ln (newline @ ''========== SAVED KERNEL PANIC CRASH DUMP ==========''), []) #
     (if cc_magic c \<noteq> CRASH_MAGIC then
        [ (ln ''(No valid crash context found. magic=0x%x, expected 0x%x)'', [va_u32 (cc_magic c), va_u32 CRASH_MAGIC]) ]
      else
        [ (ln ''Message: %s'', [va_text (cstr (cc_panic_msg c))]),
          (ln ''Ticks:   %lu'', [Num (cc_panic_ticks c)]),
          (ln ''CPU:     %d'', [va_of_int (cc_cpu c)]),
          (ln (newline @ ''-- RISC-V Register State --''), []) ]
        @ dump_regs (cc_reg c) @
        [ (ln (newline @ ''-- Supervisor CSRs --''), []),
          (ln ''sepc=0x%lx  scause=0x%lx  stval=0x%lx  sstatus=0x%lx'',
             [Num (cc_sepc c), Num (cc_scause c), Num (cc_stval c), Num (cc_sstatus c)]),
          (ln (newline @ ''-- Process Info --''), []),
          (ln ''pid=%d  name=%s  state=%d'',
             [va_of_int (cc_pid c), va_text (cstr (cc_pname c)), va_of_int (cc_pstate c)]),
          (ln (newline @ ''-- Stack Trace (FP walk, %d frames) --''), [va_of_int (cc_stack_depth c)]) ]
        @ map (\<lambda>i. (ln ''  [%d] 0x%lx'', [va_nat i, Num (cc_stacktrace c ! i)]))
            [0..<nat (min (cc_stack_depth c) 10)]
        @ [ (ln ''===================================================='', []) ])"

text \<open>
  The call \<open>dumppanic(&ctx, &sz)\<close>: its return value, what the bytes of \<open>ctx\<close> and the
  value of \<open>sz\<close> are after it, and the new state.
\<close>

type_synonym 's dump_call = "'s \<Rightarrow> (int \<times> u8 list \<times> u64) \<times> 's"

definition dumppanic_main :: "'s dump_call \<Rightarrow> 's \<Rightarrow> (string option \<times> int) \<times> 's" where
  "dumppanic_main dump s =
     (let ((ret, bs, sz), s') = dump s in
      (if ret < 0 then (uprint_all [(ln ''dumppanic: syscall failed'', [])], -1)
       else if sz \<noteq> of_nat CRASH_CTX_SIZE then
         (uprint_all [(ln ''dumppanic: size mismatch (expected %lu, got %lu)'', [Num (of_nat CRASH_CTX_SIZE), Num sz])], -1)
       else (uprint_all (print_ctx (ctx_of_bytes bs)), 0), s'))"

section \<open>crashme.c\<close>

definition crashme_main :: "('s \<Rightarrow> int \<times> 's) \<Rightarrow> 's \<Rightarrow> (string option \<times> int) \<times> 's" where
  "crashme_main crash s =
     (let (ret, s') = crash s; l0 = (ln ''crashme: triggering kernel panic capture...'', []) in
      (if ret < 0 then (uprint_all [l0, (ln ''crashme: syscall failed'', [])], -1)
       else (uprint_all [l0, (ln ''crashme: capture complete. run '' @ squote @ ''dumppanic'' @ squote @ '' to view.'', [])], 0), s'))"

section \<open>logtest.c\<close>

text \<open>The state of the test program: the counters and the lines printed so far.\<close>

record tests =
  tests_run :: int
  tests_passed :: int
  tlines :: "(string \<times> va list) list"

definition TEST :: "string \<Rightarrow> tests \<Rightarrow> tests" where
  "TEST name t = t\<lparr>tests_run := tests_run t + 1,
     tlines := tlines t @ [(''  TEST %d: %s ... '', [va_of_int (tests_run t + 1), va_text name])]\<rparr>"

definition PASS :: "tests \<Rightarrow> tests" where
  "PASS t = t\<lparr>tlines := tlines t @ [(ln ''PASS'', [])], tests_passed := tests_passed t + 1\<rparr>"

definition FAIL :: "string \<Rightarrow> tests \<Rightarrow> tests" where
  "FAIL msg t = t\<lparr>tlines := tlines t @ [(ln ''FAIL: %s'', [va_text msg])]\<rparr>"

definition check :: "bool \<Rightarrow> string \<Rightarrow> tests \<Rightarrow> tests" where
  "check ok msg t = (if ok then PASS t else FAIL msg t)"

text \<open>\<open>for (int i = 0; i < n; i++) if (logtest() != 0) { ok = 0; break; }\<close>\<close>

primrec stress :: "nat \<Rightarrow> ('s \<Rightarrow> int \<times> 's) \<Rightarrow> 's \<Rightarrow> bool \<times> 's" where
  "stress 0 lt s = (True, s)"
| "stress (Suc n) lt s = (let (r, s') = lt s in if r \<noteq> 0 then (False, s') else stress n lt s')"

definition logtest_tests :: "'s dump_call \<Rightarrow> ('s \<Rightarrow> int \<times> 's) \<Rightarrow> 's \<Rightarrow> tests \<times> 's" where
  "logtest_tests dump lt s =
     (let t = \<lparr>tests_run = 0, tests_passed = 0,
            tlines = [(ln ''logtest: starting kernel panic log tests'', [])]\<rparr>;
          t = TEST ''crash context magic is 0 before panic'' t;
          ((r, bs, sz), s) = dump s;
          t = check (r = 0 \<and> sz = of_nat CRASH_CTX_SIZE \<and> cc_magic (ctx_of_bytes bs) = 0) ''expected magic=0'' t;
          t = TEST ''crash context fields are zeroed before panic'' t;
          ((_, bs, _), s) = dump s;
          c = ctx_of_bytes bs;
          t = check (cc_reg c RA = 0 \<and> cc_reg c SP = 0 \<and> cc_sepc c = 0 \<and> cc_pid c = 0)
                ''some fields non-zero before panic'' t;
          t = TEST ''kernel log_test (info/warn/debug/flush + crash ctx)'' t;
          (ret, s) = lt s;
          t = check (ret = 0) ''logtest() returned non-zero'' t;
          t = TEST ''dumppanic syscall returns valid crash context'' t;
          ((ret, _, sz), s) = dump s;
          t = check (ret = 0 \<and> sz = of_nat CRASH_CTX_SIZE) ''syscall failed or size mismatch'' t;
          t = TEST ''crash context populated after log_test'' t;
          ((_, bs, _), s) = dump s;
          c = ctx_of_bytes bs;
          t = check (cc_magic c = 0xDEADBEEF \<and> cc_reg c RA \<noteq> 0) ''context not populated'' t;
          t = TEST ''repeated log_test calls (stress)'' t;
          (ok, s) = stress 5 lt s;
          t = check ok ''logtest failed on iteration'' t
      in (t, s))"

definition logtest_main :: "'s dump_call \<Rightarrow> ('s \<Rightarrow> int \<times> 's) \<Rightarrow> 's \<Rightarrow> (string option \<times> int) \<times> 's" where
  "logtest_main dump lt s =
     (let (t, s') = logtest_tests dump lt s;
          ls = tlines t @ [(newline @ ln ''logtest: %d/%d tests passed'', [va_of_int (tests_passed t), va_of_int (tests_run t)])] in
      (if tests_passed t = tests_run t then (uprint_all (ls @ [(ln ''logtest: ALL TESTS PASSED'', [])]), 0)
       else (uprint_all (ls @ [(ln ''logtest: SOME TESTS FAILED'', [])]), 1), s'))"

end
