(* ===== verification/CrashCalls.thy ===== *)
theory CrashCalls
  imports CrashUser Sample
begin

text \<open>
  From the capture in the kernel to the text on the screen: the layout of the crash
  context, the system calls dumppanic and crashme, and the programs that use them.
\<close>

section \<open>The layout\<close>

lemma take_block:
  assumes "\<forall>i < length bss. length (bss ! i) = k" and "i < length bss"
  shows "take k (drop (k * i) (concat bss @ ys)) = bss ! i"
  using assms
proof (induction bss arbitrary: i)
  case (Cons b bss)
  have k: "length b = k" and ks: "\<forall>i < length bss. length (bss ! i) = k" using Cons.prems(1) by auto
  show ?case
  proof (cases i)
    case 0
    then show ?thesis using k by simp
  next
    case (Suc j)
    then have "take k (drop (k * j) (concat bss @ ys)) = bss ! j"
      using Cons.prems(2) by (intro Cons.IH [OF ks]) simp
    then show ?thesis using Suc k by simp
  qed
qed simp

lemma length_words: "length (concat (map (\<lambda>x. le_enc k (f x)) xs)) = k * length xs"
  by (induction xs) simp_all

lemma length_all_regs: "length all_regs = 31"
  by (simp add: all_regs_def)

lemma reg_slot: "reg_slot r < 31" "all_regs ! reg_slot r = r"
  by (cases r; simp add: reg_slot_def all_regs_def)+

lemma get_le_enc: "le_dec (le_enc k x) = x mod 256 ^ k"
  by (rule le_dec_enc)

lemma of_nat_le_enc:
  "of_nat (le_dec (le_enc 8 (unat v))) = (v :: u64)"
  "of_nat (le_dec (le_enc 4 (unat w))) = (w :: u32)"
proof -
  have "unat v < 256 ^ 8" "unat w < 256 ^ 4" using unsigned_less [of v] unsigned_less [of w] by simp_all
  then show "of_nat (le_dec (le_enc 8 (unat v))) = v" "of_nat (le_dec (le_enc 4 (unat w))) = w"
    by (simp_all add: le_dec_enc)
qed

text \<open>What the C types allow: character arrays of their length, ten frames, 32-bit ints.\<close>

definition is_int :: "int \<Rightarrow> bool" where
  "is_int v \<longleftrightarrow> - (2 ^ 31) \<le> v \<and> v < 2 ^ 31"

definition ctx_wf :: "crash_context \<Rightarrow> bool" where
  "ctx_wf c \<longleftrightarrow> length (cc_pname c) = 16 \<and> length (cc_stacktrace c) = 10 \<and> length (cc_panic_msg c) = 128 \<and>
     is_int (cc_pid c) \<and> is_int (cc_pstate c) \<and> is_int (cc_stack_depth c) \<and> is_int (cc_cpu c)"

lemma length_crash_bytes: "ctx_wf c \<Longrightarrow> length (crash_bytes c) = CRASH_CTX_SIZE"
  by (simp add: crash_bytes_def ctx_wf_def length_words length_all_regs int_bytes_def CRASH_CTX_SIZE_def)

lemma sint_int: "is_int v \<Longrightarrow> sint (word_of_int v :: u32) = v"
  by (simp add: is_int_def sint_sbintrunc' signed_take_bit_int_eq_self)

text \<open>The fields sit one after the other: the part of the image from a field on.\<close>

lemma ctx_of_crash_bytes:
  assumes "ctx_wf c"
  shows "ctx_of_bytes (crash_bytes c) = c"
proof -
  define R where "R = concat (map (\<lambda>r. le_enc 8 (unat (cc_reg c r))) all_regs)"
  define S where "S = concat (map (\<lambda>v. le_enc 8 (unat v)) (cc_stacktrace c))"
  have R: "length R = 248" by (simp add: R_def length_words length_all_regs)
  have wf: "length (cc_pname c) = 16" "length (cc_stacktrace c) = 10" "length (cc_panic_msg c) = 128"
    using assms by (simp_all add: ctx_wf_def)
  have S: "length S = 80" by (simp add: S_def length_words wf)
  let ?C = "concat (map (\<lambda>v. le_enc 8 (unat v)) [cc_sepc c, cc_scause c, cc_stval c, cc_sstatus c])"
  have b: "crash_bytes c = R @ ?C @ int_bytes (cc_pid c) @ map byte_of (cc_pname c) @ int_bytes (cc_pstate c) @ S @
      int_bytes (cc_stack_depth c) @ int_bytes (cc_cpu c) @ map byte_of (cc_panic_msg c) @
      le_enc 8 (unat (cc_panic_ticks c)) @ le_enc 4 (unat (cc_magic c)) @ replicate 4 0"
    by (simp add: crash_bytes_def R_def S_def)
  have reg: "get64 (8 * reg_slot r) (crash_bytes c) = cc_reg c r" for r
  proof -
    have "take 8 (drop (8 * reg_slot r) (R @ ys)) = map (\<lambda>r. le_enc 8 (unat (cc_reg c r))) all_regs ! reg_slot r" for ys
      unfolding R_def by (rule take_block) (use reg_slot [of r] in \<open>simp_all add: length_all_regs\<close>)
    then have "take 8 (drop (8 * reg_slot r) (crash_bytes c)) = le_enc 8 (unat (cc_reg c r))"
      unfolding b by (simp only:) (simp add: reg_slot length_all_regs)
    then show ?thesis by (simp add: get64_def get_le_def of_nat_le_enc)
  qed
  have stack: "get64 (304 + 8 * i) (crash_bytes c) = cc_stacktrace c ! i" if "i < 10" for i
  proof -
    have blk: "take 8 (drop (8 * i) (S @ ys)) = map (\<lambda>v. le_enc 8 (unat v)) (cc_stacktrace c) ! i" for ys
      unfolding S_def by (rule take_block) (use that wf in simp_all)
    have "drop (304 + 8 * i) (crash_bytes c) = drop (8 * i) (drop 304 (crash_bytes c))" by (simp add: add.commute)
    also have "drop 304 (crash_bytes c) = S @ int_bytes (cc_stack_depth c) @ int_bytes (cc_cpu c) @
        map byte_of (cc_panic_msg c) @ le_enc 8 (unat (cc_panic_ticks c)) @ le_enc 4 (unat (cc_magic c)) @ replicate 4 0"
      using R wf by (simp add: b int_bytes_def)
    finally have "take 8 (drop (304 + 8 * i) (crash_bytes c)) = le_enc 8 (unat (cc_stacktrace c ! i))"
      using that wf by (simp only: blk) simp
    then show ?thesis by (simp add: get64_def get_le_def of_nat_le_enc)
  qed
  have st: "map (\<lambda>i. get64 (304 + 8 * i) (crash_bytes c)) [0..<10] = cc_stacktrace c"
    by (rule nth_equalityI) (simp_all add: stack wf)
  have ints: "sint (of_nat (le_dec (int_bytes v)) :: u32) = v" if "is_int v" for v
    using that by (simp add: int_bytes_def of_nat_le_enc sint_int)
  have len: "length (int_bytes v) = 4" for v by (simp add: int_bytes_def)
  show ?thesis
    unfolding ctx_of_bytes_def reg st
    using assms R S
    by (simp add: b get64_def get32_def get_le_def get_int_def get_chars_def of_nat_le_enc ints len ctx_wf_def comp_def)
qed

section \<open>The system calls\<close>

lemma argaddr_run [krun]:
  "hart_ok s \<Longrightarrow> curproc s = Some p \<Longrightarrow> n < 6 \<Longrightarrow>
   argaddr n (s, e) = Ok (ld64 (pmem s) (ptrapframe (procs s p) + (TF_a0 + 8 * of_nat n))) (settled s, e)"
  by (simp add: argaddr_def argraw_def with_myproc_run tf_get_def kbind_def kload_def)

lemma ctx_kmem [simp]: "procs (kmem_set f s) = procs s" "saved_crash_ctx (kmem_set f s) = saved_crash_ctx s" "curproc (kmem_set f s) = curproc s"
  by (simp_all add: kmem_set_def curproc_def hart_def)

lemma ctx_settled [simp]: "saved_crash_ctx (settled s) = saved_crash_ctx s"
  by (simp add: settled_def set_cpu_def)

lemma sys_dumppanic_run:
  assumes "hart_ok s" and "curproc s = Some p" and "ctx_wf (saved_crash_ctx s)"
    and dst: "dst = ld64 (pmem s) (ptrapframe (procs s p) + TF_a0)"
    and len: "len = ld64 (pmem s) (ptrapframe (procs s p) + (TF_a0 + 8))"
    and pt: "pt = ppagetable (procs s p)"
    and A: "uspace (pmem s) pt A" "inj_on (phys (pmem s) pt) A" "urange dst CRASH_CTX_SIZE \<subseteq> A" "urange len 8 \<subseteq> A"
    and disj: "urange dst CRASH_CTX_SIZE \<inter> urange len 8 = {}"
  shows "\<exists>m. sys_dumppanic (s, e) = Ok 0 (kmem_set (\<lambda>_. m) (settled s), e) \<and>
     user_bytes m pt dst CRASH_CTX_SIZE = crash_bytes (saved_crash_ctx s) \<and>
     user_bytes m pt len 8 = le_enc 8 CRASH_CTX_SIZE \<and>
     (\<forall>x. x \<notin> phys (pmem s) pt ` A \<longrightarrow> m x = pmem s x)"
proof -
  let ?s = "settled s" and ?bs = "crash_bytes (saved_crash_ctx s)"
  have l: "length ?bs = CRASH_CTX_SIZE" by (rule length_crash_bytes [OF assms(3)])
  have n: "length (le_enc 8 CRASH_CTX_SIZE) = 8" by simp
  obtain m1 where m1: "copyout pt len (le_enc 8 CRASH_CTX_SIZE) (?s, e) = Ok 0 (kmem_set (\<lambda>_. m1) ?s, e)"
      "uspace m1 pt A" "inj_on (phys m1 pt) A" "\<forall>a \<in> A. phys m1 pt a = phys (pmem s) pt a"
      "user_bytes m1 pt len 8 = le_enc 8 CRASH_CTX_SIZE"
      "\<forall>x. x \<notin> phys (pmem s) pt ` A \<longrightarrow> m1 x = pmem s x"
    using copyout_uspace [of ?s pt A len "le_enc 8 CRASH_CTX_SIZE" e] A(1,2,4) n by auto
  have "urange dst (length ?bs) \<subseteq> A" "length ?bs \<le> 2 ^ 64" using A(3) by (simp_all add: l CRASH_CTX_SIZE_def)
  then obtain m2 where m2: "copyout pt dst ?bs (kmem_set (\<lambda>_. m1) ?s, e) = Ok 0 (kmem_set (\<lambda>_. m2) (kmem_set (\<lambda>_. m1) ?s), e)"
      "user_bytes m2 pt dst CRASH_CTX_SIZE = ?bs" "\<forall>a \<in> A. phys m2 pt a = phys m1 pt a"
      "\<forall>a \<in> A - urange dst CRASH_CTX_SIZE. m2 (phys m2 pt a) = m1 (phys m1 pt a)"
      "\<forall>x. x \<notin> phys m1 pt ` A \<longrightarrow> m2 x = m1 x"
    using copyout_uspace [of "kmem_set (\<lambda>_. m1) ?s" pt A dst ?bs e] m1(2,3) l by auto
  have "m2 (phys m2 pt (len + of_nat i)) = m1 (phys m1 pt (len + of_nat i))" if "i < 8" for i
  proof -
    have "len + of_nat i \<in> urange len 8" using that by (simp add: urange_def)
    then have "len + of_nat i \<in> A - urange dst CRASH_CTX_SIZE" using A(4) disj by blast
    then show ?thesis using m2(4) by blast
  qed
  then have "user_bytes m2 pt len 8 = user_bytes m1 pt len 8" by (simp add: user_bytes_def)
  moreover have "phys m1 pt ` A = phys (pmem s) pt ` A" using m1(4) by (simp add: image_def)
  moreover have "kmem_set (\<lambda>_. m2) (kmem_set (\<lambda>_. m1) ?s) = kmem_set (\<lambda>_. m2) ?s" by (simp add: kmem_set_def)
  moreover have "sys_dumppanic (s, e) = Ok 0 (kmem_set (\<lambda>_. m2) (kmem_set (\<lambda>_. m1) ?s), e)"
    using assms(1,2) m1(1) m2(1) pt dst len
    by (simp add: sys_dumppanic_def kbind_def argaddr_run with_myproc_run)
  ultimately show ?thesis
    using m1(5,6) m2(2,5) by (intro exI [of _ m2]) simp
qed

section \<open>What the programs print\<close>

definition user_text :: "(string \<times> va list) list \<Rightarrow> string" where
  "user_text ls = concat (map (\<lambda>(fmt, ap). map code_char (the (render user_digits fmt ap))) ls)"

definition user_printable :: "string \<times> va list \<Rightarrow> bool" where
  "user_printable l \<longleftrightarrow> NUL \<notin> set (fst l) \<and> render user_digits (fst l) (snd l) \<noteq> None"

lemma uprint_all_run: "\<forall>l \<in> set ls. user_printable l \<Longrightarrow> uprint_all ls = Some (user_text ls)"
  by (induction ls) (auto simp: user_text_def user_printable_def uprintf_render)

lemma print_ctx_printable: "\<forall>l \<in> set (print_ctx c). user_printable l"
  by (simp add: print_ctx_def dump_regs_def user_printable_def render_eval)

lemma user_text_simps [simp]:
  "user_text [] = []" "user_text (l # ls) = map code_char (the (render user_digits (fst l) (snd l))) @ user_text ls"
  "user_text (ls @ ks) = user_text ls @ user_text ks"
  by (simp_all add: user_text_def split_def)

lemma tests_printable:
  "user_printable (''  TEST %d: %s ... '', [va_of_int k, va_text m])" "user_printable (ln ''PASS'', [])"
  "user_printable (ln ''FAIL: %s'', [va_text m])" "user_printable (ln ''logtest: starting kernel panic log tests'', [])"
  "user_printable (newline @ ln ''logtest: %d/%d tests passed'', [va_of_int k, va_of_int l])"
  "user_printable (ln ''logtest: ALL TESTS PASSED'', [])" "user_printable (ln ''logtest: SOME TESTS FAILED'', [])"
  by (simp_all add: user_printable_def render_eval)

text \<open>A run of logtest: the six verdicts.\<close>

definition clean_ctx :: "crash_context \<Rightarrow> bool" where
  "clean_ctx c \<longleftrightarrow> cc_magic c = 0 \<and> cc_reg c RA = 0 \<and> cc_reg c SP = 0 \<and> cc_sepc c = 0 \<and> cc_pid c = 0"

lemma check_simps [simp]:
  "tests_run (check b m t) = tests_run t" "tests_run (TEST n t) = tests_run t + 1"
  "tests_passed (check b m t) = tests_passed t + (if b then 1 else 0)" "tests_passed (TEST n t) = tests_passed t"
  by (simp_all add: check_def TEST_def PASS_def FAIL_def)

definition tests_ok :: "tests \<Rightarrow> bool" where
  "tests_ok t \<longleftrightarrow> (\<forall>l \<in> set (tlines t). user_printable l)"

lemma tests_ok_simps [simp]:
  "tests_ok (TEST n t) = tests_ok t" "tests_ok (check b m t) = tests_ok t"
  "tests_ok \<lparr>tests_run = 0, tests_passed = 0, tlines = [(ln ''logtest: starting kernel panic log tests'', [])]\<rparr>"
  by (auto simp: tests_ok_def check_def TEST_def PASS_def FAIL_def tests_printable)

lemma stress_passes:
  assumes "\<And>s. good s \<Longrightarrow> fst (lt s) = 0 \<and> good (snd (lt s))"
  shows "good s \<Longrightarrow> fst (stress n lt s)"
proof (induction n arbitrary: s)
  case (Suc n)
  then show ?case using assms [of s] by (cases "lt s") simp
qed simp

section \<open>Properties\<close>



text \<open>
  C11. From the kernel to the screen: with the addresses of ctx and sz in the trap frame and
  the memory there mapped writable, sys_dumppanic returns 0, writes the size and the saved
  context to user memory and changes nothing else; the dumppanic program, given what the
  call left in its memory, prints the lines of exactly the saved context and exits with 0.
\<close>

theorem dumppanic_shows_saved:
  assumes "hart_ok s" and "curproc s = Some p" and "ctx_wf (saved_crash_ctx s)"
    and "dst = ld64 (pmem s) (ptrapframe (procs s p) + TF_a0)"
    and "len = ld64 (pmem s) (ptrapframe (procs s p) + (TF_a0 + 8))"
    and "pt = ppagetable (procs s p)"
    and "uspace (pmem s) pt A" and "inj_on (phys (pmem s) pt) A"
    and "urange dst CRASH_CTX_SIZE \<subseteq> A" and "urange len 8 \<subseteq> A"
    and "urange dst CRASH_CTX_SIZE \<inter> urange len 8 = {}"
  shows "\<exists>t. sys_dumppanic (s, e) = Ok 0 (t, e) \<and> saved_crash_ctx t = saved_crash_ctx s \<and>
     (\<forall>x. x \<notin> phys (pmem s) pt ` A \<longrightarrow> pmem t x = pmem s x) \<and>
     fst (dumppanic_main (\<lambda>_. ((0, user_bytes (pmem t) pt dst CRASH_CTX_SIZE,
         of_nat (le_dec (user_bytes (pmem t) pt len 8))), ())) ()) =
       (Some (user_text (print_ctx (saved_crash_ctx s))), 0)"
proof -
  obtain m where m: "sys_dumppanic (s, e) = Ok 0 (kmem_set (\<lambda>_. m) (settled s), e)"
     "user_bytes m pt dst CRASH_CTX_SIZE = crash_bytes (saved_crash_ctx s)"
     "user_bytes m pt len 8 = le_enc 8 CRASH_CTX_SIZE"
     "\<forall>x. x \<notin> phys (pmem s) pt ` A \<longrightarrow> m x = pmem s x"
    using sys_dumppanic_run [OF assms, of e] by blast
  have "fst (dumppanic_main (\<lambda>_. ((0, crash_bytes (saved_crash_ctx s), of_nat (le_dec (le_enc 8 CRASH_CTX_SIZE))), ())) ()) =
      (Some (user_text (print_ctx (saved_crash_ctx s))), 0)"
    using uprint_all_run [OF print_ctx_printable]
    by (simp add: dumppanic_main_def le_dec_enc CRASH_CTX_SIZE_def ctx_of_crash_bytes [OF assms(3)])
  then show ?thesis
    using m by (intro exI [of _ "kmem_set (\<lambda>_. m) (settled s)"]) simp
qed

theorem dumppanic_shows_saved_witness:
  "\<exists>t. sys_dumppanic (sample_kernel, []) = Ok 0 (t, []) \<and>
     fst (dumppanic_main (\<lambda>_. ((0, user_bytes (pmem t) 0x80300000 0x100 536,
         of_nat (le_dec (user_bytes (pmem t) 0x80300000 0x800 8))), ())) ()) =
       (Some (user_text (print_ctx zero_crash_context)), 0)"
proof -
  have c: "saved_crash_ctx sample_kernel = zero_crash_context" by (simp add: sample_kernel_def)
  have wf: "ctx_wf zero_crash_context" by (simp add: ctx_wf_def zero_crash_context_def is_int_def)
  have a: "0x80306000 + TF_a0 = 0x80306070" by (simp add: TF_a0_def)
  have d: "urange 0x100 CRASH_CTX_SIZE \<inter> urange 0x800 8 = {}"
  proof -
    have "unat (0x100 + of_nat i :: u64) < 0x800" if "i < CRASH_CTX_SIZE" for i
      using that by (simp add: CRASH_CTX_SIZE_def unat_add64 unat_of_nat64)
    moreover have "0x800 \<le> unat (0x800 + of_nat i :: u64)" if "i < 8" for i
      using that by (simp add: unat_add64 unat_of_nat64)
    ultimately show ?thesis by (fastforce simp: urange_def)
  qed
  have r: "urange 0x100 CRASH_CTX_SIZE \<subseteq> sample_space" "urange 0x800 8 \<subseteq> sample_space"
    by (rule sample_range, simp add: CRASH_CTX_SIZE_def)+
  show ?thesis
    using dumppanic_shows_saved [of sample_kernel 2 "0x100" "0x800" "0x80300000" sample_space "[]"]
      sample_uspace [of sample_frame] r d
    by (auto simp: c wf a sample_args CRASH_CTX_SIZE_def TF_a0_def)
qed



lemma crashme_formats:
  "printable (ln ''crashme: simulating kernel panic...'') []"
  "fmt_text (ln ''crashme: simulating kernel panic...'') [] = ''crashme: simulating kernel panic...'' @ newline"
  by (simp_all add: printable_def fmt_text_def render_eval)

lemma crash_context_printed [simp]: "crash_context_of msg (printed txt s) = crash_context_of msg s"
  by (cases "curproc s") (simp_all add: crash_context_of_def printed_def unpanicked_settled_def Let_def)

lemma printed_panic_simps [simp]:
  "flushing (printed txt s) = flushing s" "log_view (printed txt s) = log_view s" "pmem (printed txt s) = pmem s"
  "kmapped (printed txt s) = kmapped s" "panicked (printed txt s) = panicked s"
  "uart_out (printed txt s) = uart_out s @ txt" "saved_crash_ctx (printed txt s) = saved_crash_ctx s"
  "hart_ok (printed txt s) = hart_ok s" "lock_free (printed txt s) lk = lock_free s lk"
  by (simp_all add: printed_def unpanicked_settled_def hart_ok_def lock_free_def intr_enabled_def)

lemma panicked_set_ctx [simp]: "panicked (set_ctx f s) = panicked s"
  by (simp add: set_ctx_def)

text \<open>
  C12. crashme is a rehearsal: the call prints its notice, captures the context with the
  message "crashme: user-initiated crash", prints the log and the dump of that capture as
  panic would, but returns 0 and leaves the kernel unpanicked, with the capture saved.
\<close>

theorem sys_crashme_reports:
  assumes "pr_ready s" and "\<not> flushing s" and "lock_free s LkTicks" and "lock_free s LkLogbuf"
    and "frames_mapped 10 s (gpr s S0)"
  shows "\<exists>t. sys_crashme (s, e) = Ok 0 (t, e) \<and> panicked t = panicked s \<and>
     saved_crash_ctx t = crash_context_of ''crashme: user-initiated crash'' s \<and> log_view t = log_view s \<and>
     uart_out t = uart_out s @ ''crashme: simulating kernel panic...'' @ newline @ flush_text (log_view s) @
       dump_text (crash_context_of ''crashme: user-initiated crash'' s)"
proof -
  let ?msg = "''crashme: user-initiated crash''"
  let ?p = "printed (''crashme: simulating kernel panic...'' @ newline) s"
  let ?a = "settled (set_ctx (\<lambda>_. crash_context_of ?msg s) ?p)"
  have ok: "hart_ok s" using assms(1) by (simp add: pr_ready_def tty_ok_def)
  have notice: "printf (ln ''crashme: simulating kernel panic...'') [] (s, e) = Ok () (?p, e)"
    using printf_run [OF crashme_formats(1) assms(1), of e] by (simp add: crashme_formats)
  have "frames_mapped 10 ?p (gpr ?p S0)" using assms(5) frames_mapped_cong [of ?p s] by simp
  then have save: "log_save_crash_context ?msg (?p, e) = Ok () (?a, e)"
    using log_save_run [of ?p ?msg e] ok assms(3) by simp
  let ?b = "settled ((tty_put (flush_text (log_view s)) ?a)\<lparr>flushing := False\<rparr>)"
  have flush: "log_flush (?a, e) = Ok () (?b, e)"
    using log_flush_run [of ?a e] assms(1,2,4) by simp
  have dump: "log_dump_crash_context (?b, e) = Ok () (printed (dump_text (crash_context_of ?msg s)) ?b, e)"
    using log_dump_run [of ?b e] assms(1) by (simp add: crash_context_of_def Let_def)
  have "sys_crashme (s, e) = Ok 0 (printed (dump_text (crash_context_of ?msg s)) ?b, e)"
    by (simp only: sys_crashme_def kseq.simps kthen_def kbind_def notice save flush dump res.case)
  then show ?thesis by simp
qed

lemma sample_frames: "frames_mapped 10 sample_kernel (gpr sample_kernel S0)"
  by (simp add: eval_nat_numeral)

theorem sys_crashme_reports_witness:
  "\<exists>t. sys_crashme (sample_kernel, []) = Ok 0 (t, []) \<and> \<not> panicked t \<and>
     uart_out t = ''crashme: simulating kernel panic...'' @ newline @ flush_text [] @
       dump_text (crash_context_of ''crashme: user-initiated crash'' sample_kernel)"
proof -
  have "log_view sample_kernel = []" "\<not> flushing sample_kernel" by (simp_all add: log_view_def sample_kernel_def)
  then show ?thesis
    using sys_crashme_reports [of sample_kernel "[]"] sample_frames by (auto simp: pr_ready_def tty_ok_def)
qed

end
