(* ===== verification/Spin.thy ===== *)
theory Spin
  imports Machine
begin

text \<open>
  One spin lock of kernel/spinlock.c used by all harts at once. Machine runs acquire and
  release on one hart, other harts being actions of the environment; here every load, store
  and atomic swap on the lock is a step of its own, and the steps of the harts interleave
  freely (memory is sequentially consistent: the fences of the code are between its steps).
  push_off and pop_off touch only the hart itself and have no step.
\<close>

section \<open>Harts and steps\<close>

text \<open>
  Where a hart stands. The flag of a test is not part of the code: it records whether the
  call was made by a hart that holds the lock, for the statements below.
\<close>

datatype spin_pc =
    Away | InSection
  | AcqTestLocked bool | AcqTestCpu bool | AcqSwap bool | AcqSetCpu
  | RelTestLocked bool | RelTestCpu bool | RelClearCpu bool | RelUnlock bool
  | Panicked string bool

record spin_state =
  slock :: spinlock
  spc :: "nat \<Rightarrow> spin_pc"

definition goto :: "nat \<Rightarrow> spin_pc \<Rightarrow> spin_state \<Rightarrow> spin_state" where
  "goto h p s = s\<lparr>spc := (spc s)(h := p)\<rparr>"

definition store_locked :: "u32 \<Rightarrow> spin_state \<Rightarrow> spin_state" where
  "store_locked v s = s\<lparr>slock := (slock s)\<lparr>locked := v\<rparr>\<rparr>"

definition store_cpu :: "nat option \<Rightarrow> spin_state \<Rightarrow> spin_state" where
  "store_cpu c s = s\<lparr>slock := (slock s)\<lparr>lcpu := c\<rparr>\<rparr>"

text \<open>
  A hart may call acquire and release at any time, also when it must not: a call of acquire
  by the holder and a call of release by another hart are the misuses the code tests for.
\<close>

inductive spin_step :: "spin_state \<Rightarrow> spin_state \<Rightarrow> bool" where
  call_acquire: "spc s h = Away \<Longrightarrow> spin_step s (goto h (AcqTestLocked False) s)"
| call_acquire_again: "spc s h = InSection \<Longrightarrow> spin_step s (goto h (AcqTestLocked True) s)"
| acquire_test_locked: "spc s h = AcqTestLocked b \<Longrightarrow>
    spin_step s (goto h (if locked (slock s) \<noteq> 0 then AcqTestCpu b else AcqSwap b) s)"
| acquire_test_cpu: "spc s h = AcqTestCpu b \<Longrightarrow>
    spin_step s (goto h (if lcpu (slock s) = Some h then Panicked ''acquire'' b else AcqSwap b) s)"
| acquire_swap: "spc s h = AcqSwap b \<Longrightarrow>
    spin_step s (store_locked 1 (goto h (if locked (slock s) \<noteq> 0 then AcqSwap b else AcqSetCpu) s))"
| acquire_set_cpu: "spc s h = AcqSetCpu \<Longrightarrow> spin_step s (store_cpu (Some h) (goto h InSection s))"
| call_release: "spc s h = InSection \<Longrightarrow> spin_step s (goto h (RelTestLocked True) s)"
| call_release_away: "spc s h = Away \<Longrightarrow> spin_step s (goto h (RelTestLocked False) s)"
| release_test_locked: "spc s h = RelTestLocked b \<Longrightarrow>
    spin_step s (goto h (if locked (slock s) \<noteq> 0 then RelTestCpu b else Panicked ''release'' b) s)"
| release_test_cpu: "spc s h = RelTestCpu b \<Longrightarrow>
    spin_step s (goto h (if lcpu (slock s) = Some h then RelClearCpu b else Panicked ''release'' b) s)"
| release_clear_cpu: "spc s h = RelClearCpu b \<Longrightarrow> spin_step s (store_cpu None (goto h (RelUnlock b) s))"
| release_unlock: "spc s h = RelUnlock b \<Longrightarrow> spin_step s (store_locked 0 (goto h Away s))"

abbreviation spin_steps :: "spin_state \<Rightarrow> spin_state \<Rightarrow> bool" where
  "spin_steps \<equiv> spin_step\<^sup>*\<^sup>*"

text \<open>After initlock, with no hart near the lock.\<close>

definition spin_init :: "string \<Rightarrow> spin_state" where
  "spin_init name = \<lparr>slock = \<lparr>locked = 0, lname = name, lcpu = None\<rparr>, spc = (\<lambda>_. Away)\<rparr>"

definition spin_reachable :: "string \<Rightarrow> spin_state \<Rightarrow> bool" where
  "spin_reachable name s \<longleftrightarrow> spin_steps (spin_init name) s"

section \<open>The invariant\<close>

text \<open>Between the swap that takes the lock and the one that gives it back.\<close>

definition owns :: "spin_pc \<Rightarrow> bool" where
  "owns p = (case p of
     InSection \<Rightarrow> True | AcqSetCpu \<Rightarrow> True | AcqTestLocked b \<Rightarrow> b | AcqTestCpu b \<Rightarrow> b
   | RelTestLocked b \<Rightarrow> b | RelTestCpu b \<Rightarrow> b | RelClearCpu b \<Rightarrow> True | RelUnlock b \<Rightarrow> True
   | Panicked m b \<Rightarrow> b | _ \<Rightarrow> False)"

text \<open>The hart's record in the lock: written after the first swap, cleared before the last.\<close>

definition recorded :: "spin_pc \<Rightarrow> bool" where
  "recorded p \<longleftrightarrow> owns p \<and> p \<noteq> AcqSetCpu \<and> (\<forall>b. p \<noteq> RelUnlock b)"

text \<open>Positions no hart reaches: a holder that spins, a stranger that unlocks, a wrong panic.\<close>

definition proper :: "spin_pc \<Rightarrow> bool" where
  "proper p = (case p of
     AcqSwap b \<Rightarrow> \<not> b | RelClearCpu b \<Rightarrow> b | RelUnlock b \<Rightarrow> b
   | Panicked m b \<Rightarrow> m = (if b then ''acquire'' else ''release'') | _ \<Rightarrow> True)"

definition spin_inv :: "spin_state \<Rightarrow> bool" where
  "spin_inv s \<longleftrightarrow>
     (\<forall>i j. owns (spc s i) \<longrightarrow> owns (spc s j) \<longrightarrow> i = j) \<and>
     ((\<exists>i. owns (spc s i)) \<longleftrightarrow> locked (slock s) \<noteq> 0) \<and>
     (\<forall>i. lcpu (slock s) = Some i \<longleftrightarrow> recorded (spc s i)) \<and>
     (\<forall>i. proper (spc s i))"

lemmas spin_defs = goto_def store_locked_def store_cpu_def owns_def recorded_def proper_def

lemma spin_inv_init: "spin_inv (spin_init name)"
  by (simp add: spin_inv_def spin_init_def owns_def recorded_def proper_def)

text \<open>
  A step changes one hart's position and the lock: what has to be shown of it, for the hart
  that moves and for the others.
\<close>

lemma spin_inv_move:
  assumes inv: "spin_inv s"
    and pc: "spc s' = (spc s)(h := p)"
    and pp: "proper p"
    and own: "owns p \<Longrightarrow> owns (spc s h) \<or> locked (slock s) = 0"
    and lk: "locked (slock s') \<noteq> 0 \<longleftrightarrow> owns p \<or> (locked (slock s) \<noteq> 0 \<and> \<not> owns (spc s h))"
    and cpu: "lcpu (slock s') = (if recorded p then Some h
      else if recorded (spc s h) then None else lcpu (slock s))"
  shows "spin_inv s'"
proof -
  have one: "i = j" if "owns (spc s i)" "owns (spc s j)" for i j
    using inv that by (simp add: spin_inv_def)
  have taken: "(\<exists>i. owns (spc s i)) \<longleftrightarrow> locked (slock s) \<noteq> 0"
    using inv by (simp add: spin_inv_def)
  have rec: "lcpu (slock s) = Some i \<longleftrightarrow> recorded (spc s i)" for i
    using inv by (simp add: spin_inv_def)
  have ro: "owns q" if "recorded q" for q using that by (simp add: recorded_def)
  have "i = j" if "owns (spc s' i)" "owns (spc s' j)" for i j
    using that one taken own by (auto simp: pc split: if_splits)
  moreover have "(\<exists>i. owns (spc s' i)) \<longleftrightarrow> locked (slock s') \<noteq> 0"
  proof -
    have "(\<exists>i. owns (spc s' i)) \<longleftrightarrow> owns p \<or> (\<exists>i. i \<noteq> h \<and> owns (spc s i))" by (auto simp: pc)
    also have "\<dots> \<longleftrightarrow> owns p \<or> (locked (slock s) \<noteq> 0 \<and> \<not> owns (spc s h))" using taken one by metis
    finally show ?thesis by (simp add: lk)
  qed
  moreover have "lcpu (slock s') = Some i \<longleftrightarrow> recorded (spc s' i)" for i
  proof (cases "i = h")
    case True
    then show ?thesis using rec [of h] by (auto simp: pc cpu)
  next
    case False
    have "\<not> recorded (spc s i)" if "recorded p"
      using that own [OF ro] ro [of "spc s i"] one [of i h] taken False by blast
    then show ?thesis using False rec [of i] rec [of h] one [of i h] ro by (auto simp: pc cpu)
  qed
  moreover have "proper (spc s' i)" for i
    using inv pp by (simp add: pc spin_inv_def)
  ultimately show ?thesis by (simp add: spin_inv_def)
qed

lemma spin_invD:
  assumes "spin_inv s"
  shows "proper (spc s h)" "owns (spc s h) \<Longrightarrow> locked (slock s) \<noteq> 0"
    "lcpu (slock s) = Some h \<longleftrightarrow> recorded (spc s h)"
  using assms unfolding spin_inv_def by blast+

lemma goto_simps [simp]:
  "spc (goto h p s) = (spc s)(h := p)" "slock (goto h p s) = slock s"
  "spc (store_locked v s) = spc s" "slock (store_locked v s) = (slock s)\<lparr>locked := v\<rparr>"
  "spc (store_cpu c s) = spc s" "slock (store_cpu c s) = (slock s)\<lparr>lcpu := c\<rparr>"
  by (simp_all add: goto_def store_locked_def store_cpu_def)

lemma goto_swap [simp]:
  "goto h p (goto h q s) = goto h p s"
  "goto h p (store_locked v s) = store_locked v (goto h p s)"
  "goto h p (store_cpu c s) = store_cpu c (goto h p s)"
  by (simp_all add: goto_def store_locked_def store_cpu_def)

text \<open>The tests of holding() tell exactly whether the caller holds the lock.\<close>

lemma holding_exact:
  assumes "spin_inv s"
  shows "spc s h = AcqTestCpu b \<or> spc s h = RelTestCpu b \<Longrightarrow> lcpu (slock s) = Some h \<longleftrightarrow> b"
    "spc s h = RelTestLocked b \<Longrightarrow> b \<Longrightarrow> locked (slock s) \<noteq> 0"
    "spc s h = AcqTestLocked b \<Longrightarrow> b \<Longrightarrow> locked (slock s) \<noteq> 0"
proof -
  have r: "recorded (AcqTestCpu b) \<longleftrightarrow> b" "recorded (RelTestCpu b) \<longleftrightarrow> b"
    "owns (RelTestLocked b) \<longleftrightarrow> b" "owns (AcqTestLocked b) \<longleftrightarrow> b"
    by (simp_all add: owns_def recorded_def)
  show "spc s h = AcqTestCpu b \<or> spc s h = RelTestCpu b \<Longrightarrow> lcpu (slock s) = Some h \<longleftrightarrow> b"
    using spin_invD(3) [OF assms, of h] r(1,2) by metis
  show "spc s h = RelTestLocked b \<Longrightarrow> b \<Longrightarrow> locked (slock s) \<noteq> 0"
    "spc s h = AcqTestLocked b \<Longrightarrow> b \<Longrightarrow> locked (slock s) \<noteq> 0"
    using spin_invD(2) [OF assms, of h] r(3,4) by metis+
qed

lemma spin_inv_step: "spin_step s s' \<Longrightarrow> spin_inv s \<Longrightarrow> spin_inv s'"
proof (induction rule: spin_step.induct)
  case (call_acquire s h)
  show ?case
    by (rule spin_inv_move [where s = s and h = h and p = "AcqTestLocked False"])
      (use call_acquire in \<open>simp_all add: owns_def recorded_def proper_def\<close>)
next
  case (call_acquire_again s h)
  show ?case
    by (rule spin_inv_move [where s = s and h = h and p = "AcqTestLocked True"])
      (use call_acquire_again spin_invD(2,3) [of s h] in \<open>simp_all add: owns_def recorded_def proper_def\<close>)
next
  case (acquire_test_locked s h b)
  show ?case
    by (rule spin_inv_move [where s = s and h = h and p = "if locked (slock s) \<noteq> 0 then AcqTestCpu b else AcqSwap b"])
      (use acquire_test_locked spin_invD(2,3) [of s h] holding_exact(3) [of s h b] in \<open>auto simp: owns_def recorded_def proper_def\<close>)
next
  case (acquire_test_cpu s h b)
  then have b: "lcpu (slock s) = Some h \<longleftrightarrow> b" by (simp add: holding_exact)
  show ?case
    by (cases b; rule spin_inv_move [where s = s and h = h and p = "if b then Panicked ''acquire'' b else AcqSwap b"])
      (use acquire_test_cpu spin_invD(2) [of s h] in \<open>simp_all add: b owns_def recorded_def proper_def\<close>)
next
  case (acquire_swap s h b)
  then have nb: "\<not> b" using spin_invD(1) [of s h] by (simp add: proper_def)
  show ?case
    by (rule spin_inv_move [where s = s and h = h and p = "if locked (slock s) \<noteq> 0 then AcqSwap b else AcqSetCpu"])
      (use acquire_swap nb in \<open>auto simp: owns_def recorded_def proper_def split: if_splits\<close>)
next
  case (acquire_set_cpu s h)
  show ?case
    by (rule spin_inv_move [where s = s and h = h and p = InSection])
      (use acquire_set_cpu spin_invD(2) [of s h] in \<open>simp_all add: owns_def recorded_def proper_def\<close>)
next
  case (call_release s h)
  show ?case
    by (rule spin_inv_move [where s = s and h = h and p = "RelTestLocked True"])
      (use call_release spin_invD(2,3) [of s h] in \<open>simp_all add: owns_def recorded_def proper_def\<close>)
next
  case (call_release_away s h)
  show ?case
    by (rule spin_inv_move [where s = s and h = h and p = "RelTestLocked False"])
      (use call_release_away in \<open>simp_all add: owns_def recorded_def proper_def\<close>)
next
  case (release_test_locked s h b)
  show ?case
    by (rule spin_inv_move [where s = s and h = h and p = "if locked (slock s) \<noteq> 0 then RelTestCpu b else Panicked ''release'' b"])
      (use release_test_locked spin_invD(2,3) [of s h] holding_exact(2) [of s h b] in \<open>auto simp: owns_def recorded_def proper_def\<close>)
next
  case (release_test_cpu s h b)
  then have b: "lcpu (slock s) = Some h \<longleftrightarrow> b" by (simp add: holding_exact)
  show ?case
    by (cases b; rule spin_inv_move [where s = s and h = h and p = "if b then RelClearCpu b else Panicked ''release'' b"])
      (use release_test_cpu spin_invD(2) [of s h] in \<open>simp_all add: b owns_def recorded_def proper_def\<close>)
next
  case (release_clear_cpu s h b)
  then have "b" using spin_invD(1) [of s h] by (simp add: proper_def)
  show ?case
    by (rule spin_inv_move [where s = s and h = h and p = "RelUnlock b"])
      (use release_clear_cpu spin_invD(2) [of s h] \<open>b\<close> in \<open>auto simp: owns_def recorded_def proper_def\<close>)
next
  case (release_unlock s h b)
  then have "b" using spin_invD(1) [of s h] by (simp add: proper_def)
  show ?case
    by (rule spin_inv_move [where s = s and h = h and p = Away])
      (use release_unlock spin_invD(2,3) [of s h] \<open>b\<close> in \<open>auto simp: owns_def recorded_def proper_def\<close>)
qed

lemma spin_inv_reachable: "spin_reachable name s \<Longrightarrow> spin_inv s"
  unfolding spin_reachable_def
  by (induction rule: rtranclp_induct) (auto intro: spin_inv_init spin_inv_step)

section \<open>Mutual exclusion and exact misuse tests\<close>

text \<open>
  The positions of a hart in the middle of a misuse of acquire: it holds the lock and is on
  its way to the panic, or has panicked.
\<close>

definition doomed :: "spin_pc \<Rightarrow> bool" where
  "doomed p \<longleftrightarrow> p = AcqTestLocked True \<or> p = AcqTestCpu True \<or> (\<exists>m. p = Panicked m True)"

text \<open>
  A run for the examples: hart 0 takes the lock and enters; hart 1 finds it taken and spins.
\<close>

definition spin_sample :: spin_state where
  "spin_sample = \<lparr>slock = \<lparr>locked = 1, lname = ''bcache'', lcpu = Some 0\<rparr>,
     spc = (\<lambda>_. Away)(0 := InSection, 1 := AcqSwap False)\<rparr>"

lemma spin_stepI: "spin_step s t \<Longrightarrow> spin_steps t u \<Longrightarrow> spin_steps s u"
  by (rule converse_rtranclp_into_rtranclp)

text \<open>A hart alone takes a free lock in four steps and gives it back in five.\<close>

lemma take_free_lock:
  assumes "spc s h = Away" and "locked (slock s) = 0"
  shows "spin_steps s (store_cpu (Some h) (store_locked 1 (goto h InSection s)))"
proof -
  let ?a = "goto h (AcqTestLocked False) s" and ?b = "goto h (AcqSwap False) s"
  let ?c = "store_locked 1 (goto h AcqSetCpu s)"
  have "spin_step s ?a" using assms by (intro call_acquire)
  moreover have "spin_step ?a ?b"
    using acquire_test_locked [of ?a h False] assms by simp
  moreover have "spin_step ?b ?c"
    using acquire_swap [of ?b h False] assms by simp
  moreover have "spin_step ?c (store_cpu (Some h) (store_locked 1 (goto h InSection s)))"
    using acquire_set_cpu [of ?c h] by simp
  ultimately show ?thesis by (blast intro: spin_stepI)
qed

lemma give_lock_back:
  assumes "spc s h = InSection" and "locked (slock s) \<noteq> 0" and "lcpu (slock s) = Some h"
  shows "spin_steps s (store_locked 0 (store_cpu None (goto h Away s)))"
proof -
  let ?a = "goto h (RelTestLocked True) s" and ?b = "goto h (RelTestCpu True) s"
  let ?c = "goto h (RelClearCpu True) s" and ?d = "store_cpu None (goto h (RelUnlock True) s)"
  have "spin_step s ?a" using assms by (intro call_release)
  moreover have "spin_step ?a ?b"
    using release_test_locked [of ?a h True] assms by simp
  moreover have "spin_step ?b ?c"
    using release_test_cpu [of ?b h True] assms by simp
  moreover have "spin_step ?c ?d"
    using release_clear_cpu [of ?c h True] by simp
  moreover have "spin_step ?d (store_locked 0 (store_cpu None (goto h Away s)))"
    using release_unlock [of ?d h True] by simp
  ultimately show ?thesis by (blast intro: spin_stepI)
qed

lemma spin_sample_reachable: "spin_reachable ''bcache'' spin_sample"
proof -
  let ?i = "spin_init ''bcache''"
  let ?a = "store_cpu (Some 0) (store_locked 1 (goto 0 InSection ?i))"
  let ?b = "goto 1 (AcqTestLocked False) ?a" and ?c = "goto 1 (AcqTestCpu False) ?a"
  have "spin_steps ?i ?a"
    by (rule take_free_lock) (simp_all add: spin_init_def)
  moreover have "spin_step ?a ?b" by (intro call_acquire) (simp add: spin_init_def)
  moreover have "spin_step ?b ?c"
    using acquire_test_locked [of ?b 1 False] by (simp add: goto_def)
  moreover have "spin_step ?c spin_sample"
    using acquire_test_cpu [of ?c 1 False]
    by (simp add: goto_def store_cpu_def store_locked_def spin_init_def spin_sample_def)
  ultimately show ?thesis
    unfolding spin_reachable_def by (meson rtranclp.rtrancl_into_rtrancl)
qed

text \<open>
  C26. Mutual exclusion of the spin lock under any interleaving of the single loads, stores
  and swaps of acquire and release of any number of harts, misuse included: two different
  harts are never both inside, a hart inside is the one the lock names as its holder, and a
  hart that spins or that has given the lock back is not inside.
\<close>

theorem spin_mutual_exclusion:
  assumes "spin_reachable name s" and "spc s i = InSection"
  shows "locked (slock s) \<noteq> 0 \<and> lcpu (slock s) = Some i \<and> {j. owns (spc s j)} = {i}"
proof -
  note inv = spin_inv_reachable [OF assms(1)]
  have own: "owns (spc s i)" "recorded (spc s i)"
    using assms(2) by (simp_all add: owns_def recorded_def)
  have "{j. owns (spc s j)} = {i}" using inv own(1) unfolding spin_inv_def by blast
  moreover have "locked (slock s) \<noteq> 0" by (rule spin_invD(2) [OF inv own(1)])
  moreover have "lcpu (slock s) = Some i" using spin_invD(3) [OF inv] own(2) by blast
  ultimately show ?thesis by blast
qed

theorem spin_mutual_exclusion_witness: "{j. owns (spc spin_sample j)} = {0}"
  using spin_mutual_exclusion [OF spin_sample_reachable, of 0] by (simp add: spin_sample_def)

text \<open>
  C27. The test holding(lk), two separate loads of a word that other harts are changing, is
  exact: acquire panics only in a hart that already holds the lock and never lets such a
  hart spin on its own lock, and release panics only in a hart that does not hold the lock
  and never lets such a hart write to it.
\<close>

theorem spin_misuse_exact:
  assumes "spin_reachable name s"
  shows "(\<forall>msg b. spc s h = Panicked msg b \<longrightarrow> msg = (if b then ''acquire'' else ''release'')) \<and>
    spc s h \<noteq> AcqSwap True \<and> spc s h \<noteq> RelClearCpu False \<and> spc s h \<noteq> RelUnlock False"
  using spin_invD(1) [OF spin_inv_reachable [OF assms], of h] by (auto simp: proper_def)

theorem spin_misuse_exact_witness:
  "spc spin_sample 1 \<noteq> AcqSwap True \<and> spc spin_sample 1 = AcqSwap False"
  using spin_misuse_exact [OF spin_sample_reachable, of 1] by (simp add: spin_sample_def)

text \<open>Unless it is doomed, the holder can leave; a hart elsewhere stays where it is.\<close>

lemma holder_leaves:
  assumes inv: "spin_inv s" and own: "owns (spc s i)" and ok: "\<not> doomed (spc s i)"
  shows "\<exists>s'. spin_steps s s' \<and> locked (slock s') = 0 \<and> (\<forall>j. j \<noteq> i \<longrightarrow> spc s' j = spc s j)"
proof -
  have from_section: ?thesis if "spin_steps s t" "spc t i = InSection" "locked (slock t) \<noteq> 0"
    "lcpu (slock t) = Some i" "\<forall>j. j \<noteq> i \<longrightarrow> spc t j = spc s j" for t
    by (intro exI [of _ "store_locked 0 (store_cpu None (goto i Away t))"] conjI
        rtranclp_trans [OF that(1) give_lock_back [OF that(2-4)]]) (use that in simp_all)
  have lk: "locked (slock s) \<noteq> 0" by (rule spin_invD(2) [OF inv own])
  have cpu: "recorded (spc s i) \<Longrightarrow> lcpu (slock s) = Some i" using spin_invD(3) [OF inv] by blast
  have good: "proper (spc s i)" by (rule spin_invD(1) [OF inv])
  have unlock_now: ?thesis if "spin_steps s t" "spc t i = RelUnlock True" "\<forall>j. j \<noteq> i \<longrightarrow> spc t j = spc s j" for t
    by (intro exI [of _ "store_locked 0 (goto i Away t)"] conjI
        rtranclp.rtrancl_into_rtrancl [OF that(1) release_unlock [OF that(2)]]) (use that in simp_all)
  have clear: ?thesis if "spin_steps s t" "spc t i = RelClearCpu True" "\<forall>j. j \<noteq> i \<longrightarrow> spc t j = spc s j" for t
    using that release_clear_cpu [OF that(2)]
    by (intro unlock_now [of "store_cpu None (goto i (RelUnlock True) t)"]) auto
  have test: ?thesis if "spin_steps s t" "spc t i = RelTestCpu True" "lcpu (slock t) = Some i"
      "\<forall>j. j \<noteq> i \<longrightarrow> spc t j = spc s j" for t
    using that release_test_cpu [OF that(2)]
    by (intro clear [of "goto i (RelClearCpu True) t"]) auto
  show ?thesis
  proof (cases "spc s i")
    case InSection
    then show ?thesis using from_section [of s] lk cpu by (simp add: recorded_def owns_def)
  next
    case AcqSetCpu
    then show ?thesis
      using lk acquire_set_cpu [OF AcqSetCpu] by (intro from_section [of "store_cpu (Some i) (goto i InSection s)"]) auto
  next
    case (RelTestLocked b)
    then have "b" using own by (simp add: owns_def)
    then show ?thesis
      using RelTestLocked lk cpu release_test_locked [OF RelTestLocked]
      by (intro test [of "goto i (RelTestCpu b) s"]) (auto simp: recorded_def owns_def)
  next
    case (RelTestCpu b)
    then show ?thesis using own cpu test [of s] by (simp add: owns_def recorded_def)
  next
    case (RelClearCpu b)
    then show ?thesis using good clear [of s] by (simp add: proper_def)
  next
    case (RelUnlock b)
    then show ?thesis using good unlock_now [of s] by (simp add: proper_def)
  qed (use own ok in \<open>auto simp: owns_def doomed_def\<close>)
qed

text \<open>
  C28. The lock is never lost: from every reachable state in which no hart that holds the
  lock has asked for it again, a hart that spins in acquire can still get in.
\<close>

theorem spin_waiter_gets_in:
  assumes "spin_reachable name s" and "spc s h = AcqSwap b" and "\<forall>i. \<not> doomed (spc s i)"
  shows "\<exists>s'. spin_steps s s' \<and> spc s' h = InSection"
proof -
  note inv = spin_inv_reachable [OF assms(1)]
  have b: "\<not> b" using spin_invD(1) [OF inv, of h] assms(2) by (simp add: proper_def)
  have "\<exists>t. spin_steps s t \<and> locked (slock t) = 0 \<and> spc t h = AcqSwap b"
  proof (cases "locked (slock s) = 0")
    case True
    then show ?thesis using assms(2) by blast
  next
    case False
    then obtain i where i: "owns (spc s i)" using inv unfolding spin_inv_def by blast
    have "h \<noteq> i" using i assms(2) by (auto simp: owns_def)
    with holder_leaves [OF inv i] assms(2,3) show ?thesis by metis
  qed
  then obtain t where t: "spin_steps s t" "locked (slock t) = 0" "spc t h = AcqSwap b" by blast
  let ?u = "store_locked 1 (goto h AcqSetCpu t)"
  have "spin_step t ?u" using acquire_swap [OF t(3)] t(2) by simp
  moreover have "spin_step ?u (store_cpu (Some h) (goto h InSection ?u))"
    by (rule acquire_set_cpu) simp
  ultimately have "spin_steps s (store_cpu (Some h) (goto h InSection ?u))"
    using t(1) by (meson rtranclp.rtrancl_into_rtrancl)
  then show ?thesis by (intro exI [of _ "store_cpu (Some h) (goto h InSection ?u)"] conjI) simp_all
qed

theorem spin_waiter_gets_in_witness: "\<exists>s'. spin_steps spin_sample s' \<and> spc s' 1 = InSection"
  using spin_waiter_gets_in [OF spin_sample_reachable, of 1 False]
  by (simp add: spin_sample_def doomed_def)

section \<open>The operations of Machine are runs of the steps\<close>

lemma acquire_OkD:
  assumes "acquire lk (m, []) = Ok () (m', e')"
  shows "locked (locks m lk) = 0 \<and> locks m' lk = (locks m lk)\<lparr>locked := 1, lcpu := Some (hart m)\<rparr>"
proof (cases "locked (locks m lk) = 0")
  case True
  then have "m' = acquired lk m" using assms acquire_free [OF True, of "[]"] by simp
  with True show ?thesis by simp
next
  case False
  have l: "locks (push_off_st m) = locks m" by simp
  show ?thesis
    using assms False acquire_held [of m lk "[]"]
    by (cases "holds m lk") (simp_all add: acquire_def kbind_def kthen_def push_off_run l)
qed

lemma acquire_PanicD:
  "acquire lk (m, []) = Panic msg w \<Longrightarrow> msg = ''acquire'' \<and> holds m lk"
  by (auto simp: acquire_def kbind_def kthen_def push_off_run split: if_splits)

lemma release_OkD:
  assumes "release lk (m, []) = Ok () (m', e')"
  shows "holds m lk \<and> locks m' lk = (locks m lk)\<lparr>locked := 0, lcpu := None\<rparr>"
proof (cases "holds m lk")
  case True
  then show ?thesis
    using assms
    by (auto simp: release_def kbind_def kthen_def pop_off_def set_cpu_def set_lock_def set_sie_def
        split: if_splits)
next
  case False
  then show ?thesis using assms by (simp add: release_not_held)
qed

text \<open>
  C29. The sequential acquire and release of one hart, on which all later theories rest, are
  runs of the interleaved steps: what they leave in the lock is what the steps leave there,
  and where acquire panics the steps panic.
\<close>

theorem machine_runs_are_steps:
  assumes "slock s = locks m lk" and "h = hart m"
  shows "(spc s h = Away \<longrightarrow> acquire lk (m, []) = Ok () (m', []) \<longrightarrow>
      spin_steps s (goto h InSection s\<lparr>slock := locks m' lk\<rparr>)) \<and>
    (spc s h = InSection \<longrightarrow> acquire lk (m, []) = Panic msg (m', []) \<longrightarrow>
      spin_steps s (goto h (Panicked msg True) s)) \<and>
    (spc s h = InSection \<longrightarrow> release lk (m, []) = Ok () (m', []) \<longrightarrow>
      spin_steps s (goto h Away s\<lparr>slock := locks m' lk\<rparr>))"
proof (intro conjI impI)
  assume "spc s h = Away" and run: "acquire lk (m, []) = Ok () (m', [])"
  note d = acquire_OkD [OF run]
  have "goto h InSection s\<lparr>slock := locks m' lk\<rparr> = store_cpu (Some h) (store_locked 1 (goto h InSection s))"
    using d assms by (simp add: goto_def store_cpu_def store_locked_def)
  then show "spin_steps s (goto h InSection s\<lparr>slock := locks m' lk\<rparr>)"
    using take_free_lock [OF \<open>spc s h = Away\<close>] d assms(1) by simp
next
  assume pc: "spc s h = InSection" and run: "acquire lk (m, []) = Panic msg (m', [])"
  note d = acquire_PanicD [OF run]
  let ?a = "goto h (AcqTestLocked True) s" and ?b = "goto h (AcqTestCpu True) s"
  have "spin_step s ?a" using pc by (rule call_acquire_again)
  moreover have "spin_step ?a ?b"
    using acquire_test_locked [of ?a h True] d assms by (simp add: holds_def)
  moreover have "spin_step ?b (goto h (Panicked msg True) s)"
    using acquire_test_cpu [of ?b h True] d assms by (simp add: holds_def)
  ultimately show "spin_steps s (goto h (Panicked msg True) s)" by (blast intro: spin_stepI)
next
  assume pc: "spc s h = InSection" and run: "release lk (m, []) = Ok () (m', [])"
  note d = release_OkD [OF run]
  have eq: "goto h Away s\<lparr>slock := locks m' lk\<rparr> = store_locked 0 (store_cpu None (goto h Away s))"
    using d assms by (simp add: goto_def store_cpu_def store_locked_def)
  show "spin_steps s (goto h Away s\<lparr>slock := locks m' lk\<rparr>)"
    unfolding eq using give_lock_back [OF pc] d assms by (simp add: holds_def)
qed

theorem machine_runs_are_steps_witness:
  "spin_steps \<lparr>slock = free_lock, spc = (\<lambda>_. Away)\<rparr>
     \<lparr>slock = free_lock\<lparr>locked := 1, lcpu := Some 0\<rparr>, spc = (\<lambda>_. Away)(0 := InSection)\<rparr>"
proof -
  have "like_sample sample_machine" by (simp add: like_sample_def machine.truncate_def sample_machine_def)
  note f = like_sample_facts [OF this]
  have lk: "locks sample_machine l = free_lock" for l by (simp add: sample_machine_def)
  have run: "acquire LkPr (sample_machine, []) = Ok () (acquired LkPr sample_machine, [])"
    by (rule acquire_run [OF f(3)])
  show ?thesis
    using machine_runs_are_steps [of "\<lparr>slock = free_lock, spc = (\<lambda>_. Away)\<rparr>" sample_machine LkPr 0
        "acquired LkPr sample_machine"] run f(1) lk
    by (simp add: goto_def)
qed

end
