(* ===== verification/Printers.thy ===== *)
theory Printers
  imports Sample
begin

text \<open>
  The three formatters of the repository compared: printf (kernel/printf.c), vsnprintf
  (kernel/paniclog.c) and the user library's printf (user/printf.c). What they print, that
  no buffer of theirs is overrun, and where they agree.
\<close>

section \<open>Bounds\<close>

lemma length_numeral_of: "2 \<le> b \<Longrightarrow> x < b ^ Suc k \<Longrightarrow> length (numeral_of ds b x) \<le> Suc k"
  by (simp add: numeral_of_def length_udigits)

lemma length_signed_numeral: "length (signed_numeral ds (sint (x :: u64))) \<le> 20"
proof -
  have "\<bar>sint x\<bar> \<le> 2 ^ 63" using sint_ge [of x] sint_lt [of x] by simp
  then have "nat \<bar>sint x\<bar> < 10 ^ Suc 18" by simp
  then have "length (numeral_of ds 10 (nat \<bar>sint x\<bar>)) \<le> Suc 18" by (intro length_numeral_of) simp_all
  then show ?thesis by (cases "sint x < 0") (simp_all add: signed_numeral_def)
qed

text \<open>
  The scratch arrays suffice: printint of kernel and user library store at most the 20
  characters of \<open>char buf[20]\<close>, sign included, for every 64-bit argument (the smallest one
  needs all of them), and the digit loops of vsnprintf at most 20 of its \<open>char tmp[24]\<close>.
\<close>

theorem scratch_buffers_suffice:
  "length (printint x 10 sg) \<le> 20 \<and> length (printint x 16 False) \<le> 20 \<and>
   length (uprintint x 10 sg) \<le> 20 \<and> length (uprintint x 16 False) \<le> 20 \<and>
   length (vsn_unsigned 10 x) \<le> 20 \<and> length (vsn_unsigned 16 x) \<le> 20 \<and>
   length (vsn_signed x) \<le> 20 \<and> length (printint (2 ^ 63) 10 True) = 20"
proof -
  have n: "length (numeral_of ds 10 (unat x)) \<le> 20" "length (numeral_of ds 16 (unat x)) \<le> 20" for ds
    using numeral_length [of ds x] by (simp_all add: numeral_of_def)
  have "length (printint x 10 sg) \<le> 20" "length (uprintint x 10 sg) \<le> 20"
    using n length_signed_numeral [of _ x]
    by (cases sg; simp add: printint_signed printint_unsigned signed_codes uprintint_unsigned)+
  moreover have "length (printint (2 ^ 63) 10 True) = 20"
    by (simp add: printint_def udigits.simps Let_def word_sless_alt)
  ultimately show ?thesis
    using n length_signed_numeral [of _ x]
    by (simp add: printint_unsigned uprintint_unsigned vsn_codes_fun)
qed



section \<open>Agreement\<close>

text \<open>The formats without a hexadecimal conversion: only those differ in the case of the letters.\<close>

function no_hex :: "string \<Rightarrow> bool" where
  "no_hex [] = True"
| "no_hex (c # cs) =
     (if c \<noteq> CHR ''%'' then no_hex cs
      else (case fst (conv_of cs) of
              Hex w \<Rightarrow> False | Pointer \<Rightarrow> False | Stop \<Rightarrow> True
            | _ \<Rightarrow> no_hex (drop (snd (conv_of cs) + 1) cs)))"
  by pat_completeness auto
termination
  by (relation "measure length") auto

lemma numeral_of_digits:
  "take 10 ds = take 10 ds' \<Longrightarrow> 10 \<le> length ds \<Longrightarrow> 10 \<le> length ds' \<Longrightarrow>
   numeral_of ds 10 x = numeral_of ds' 10 x"
proof (induction x rule: less_induct)
  case (less x)
  have "ds ! (x mod 10) = take 10 ds ! (x mod 10)" by simp
  also have "\<dots> = ds' ! (x mod 10)" by (simp add: less.prems(1))
  finally have d: "ds ! (x mod 10) = ds' ! (x mod 10)" .
  show ?case
    using less d by (subst (1 2) numeral_of_rec) (auto simp: div_less_dividend)
qed

lemma digits_agree: "numeral_of digits 10 x = numeral_of user_digits 10 x"
  "signed_numeral digits i = signed_numeral user_digits i"
proof -
  show 1: "numeral_of digits 10 x = numeral_of user_digits 10 x" for x
    by (rule numeral_of_digits) (simp_all add: digits_def user_digits_def)
  show "signed_numeral digits i = signed_numeral user_digits i"
    by (simp add: signed_numeral_def 1)
qed

lemma render_no_hex: "no_hex fmt \<Longrightarrow> render digits fmt ap = render user_digits fmt ap"
proof (induction fmt arbitrary: ap rule: no_hex.induct)
  case 1
  then show ?case by (simp add: render.simps)
next
  case (2 c cs)
  show ?case
  proof (cases "c = CHR ''%''")
    case True
    show ?thesis
    proof (cases "fst (conv_of cs)")
      case (Signed w)
      then show ?thesis
        using 2 True by (cases ap; cases "hd ap") (auto simp: render.simps digits_agree)
    next
      case (Unsigned w)
      then show ?thesis
        using 2 True by (cases ap; cases "hd ap") (auto simp: render.simps digits_agree)
    next
      case Character
      then show ?thesis using 2 True by (cases ap; cases "hd ap") (auto simp: render.simps)
    next
      case Text
      then show ?thesis
        using 2 True by (auto simp: render.simps render_conv_cases split: list.splits va.splits)
    qed (use 2 True in \<open>auto simp: render.simps\<close>)
  next
    case False
    then show ?thesis using 2 by (simp add: render.simps)
  qed
qed

lemma cons_out_plain: "BACKSPACE \<notin> set out \<Longrightarrow> cons_out out = map code_char out"
  by (induction out) (auto simp: cons_out_def cons_text_def)

text \<open>
  C31. The three printers agree: on a format without hexadecimal conversions, and when no
  code is the console's BACKSPACE (a %c of 256), the user library's printf writes, vsnprintf
  with room enough stores, and the kernel's printf puts on the console the same characters.
\<close>

theorem printers_agree:
  assumes "NUL \<notin> set fmt" and "no_hex fmt" and "render digits fmt ap = Some out"
    and "BACKSPACE \<notin> set out" and "int (length out) < n" and "pr_ready s"
  shows "\<exists>txt. uprintf fmt ap = Some txt \<and> vsnprintf n fmt ap = Some (txt @ [NUL], length txt) \<and>
    printf fmt ap (s, e) = Ok () (printed txt s, e)"
proof (intro exI [of _ "map code_char out"] conjI)
  show "uprintf fmt ap = Some (map code_char out)"
    using assms render_no_hex [of fmt ap] by (simp add: uprintf_render)
  show "vsnprintf n fmt ap = Some (map code_char out @ [NUL], length (map code_char out))"
    using assms by (simp add: vsnprintf_render)
  have "printable fmt ap" using assms by (simp add: printable_def)
  then show "printf fmt ap (s, e) = Ok () (printed (map code_char out) s, e)"
    using assms by (simp add: printf_run fmt_text_def cons_out_plain)
qed

theorem printers_agree_witness:
  "uprintf ''pid %d%%'' [Num 42] = Some ''pid 42%'' \<and>
   printf ''pid %d%%'' [Num 42] (sample_kernel, []) = Ok () (printed ''pid 42%'' sample_kernel, [])"
proof -
  let ?f = "''pid %d%%''" and ?a = "[Num 42]"
  have r: "render digits ?f ?a = Some (codes ''pid 42%'')"
    by (simp add: render_steps signed_numeral_def numeral_of_def udigits.simps digits_def)
  have ready: "pr_ready sample_kernel"
    by (simp add: pr_ready_def tty_ok_def)
  have "no_hex ?f" by (simp add: conv_of_def Let_def)
  moreover have "BACKSPACE \<notin> set (codes ''pid 42%'')"
    by (simp add: BACKSPACE_def code_of_def)
  ultimately obtain t where "uprintf ?f ?a = Some t"
    and v: "vsnprintf 8 ?f ?a = Some (t @ [NUL], length t)"
    and "printf ?f ?a (sample_kernel, []) = Ok () (printed t sample_kernel, [])"
    using printers_agree [OF _ _ r _ _ ready, of 8 "[]"] by auto
  moreover have "t = ''pid 42%''"
    using v r by (simp add: vsnprintf_render)
  ultimately show ?thesis by simp
qed

end
