(* ===== verification/Ulib.thy ===== *)
theory Ulib
  imports Printers
begin

text \<open>
  The user library user/ulib.c. A pointer into a string is the rest of the string from
  there on, the null pointer being \<open>None\<close>; an array the caller passes is a character list,
  returned updated. The system calls the routines make are parameters.
\<close>

section \<open>Strings\<close>

function ustrcpy :: "char list \<Rightarrow> string \<Rightarrow> char list" where
  "ustrcpy s t = (if char_at t 0 = NUL then NUL # drop 1 s else char_at t 0 # ustrcpy (drop 1 s) (drop 1 t))"
  by pat_completeness auto
termination by (relation "measure (\<lambda>(s, t). length t)") (auto simp: char_at_def split: if_splits)

function ustrcmp :: "string \<Rightarrow> string \<Rightarrow> int" where
  "ustrcmp p q =
     (if char_at p 0 \<noteq> NUL \<and> char_at p 0 = char_at q 0 then ustrcmp (drop 1 p) (drop 1 q)
      else of_char (char_at p 0) - of_char (char_at q 0))"
  by pat_completeness auto
termination by (relation "measure (\<lambda>(p, q). length p)") (auto simp: char_at_def split: if_splits)

declare ustrcpy.simps [simp del] ustrcmp.simps [simp del]

fun ustrlen :: "string \<Rightarrow> nat" where
  "ustrlen [] = 0"
| "ustrlen (c # cs) = (if c \<noteq> NUL then Suc (ustrlen cs) else 0)"

fun ustrchr :: "string \<Rightarrow> char \<Rightarrow> string option" where
  "ustrchr [] c = None"
| "ustrchr (x # xs) c = (if x = NUL then None else if x = c then Some (x # xs) else ustrchr xs c)"

text \<open>
  \<open>n = n*10 + *s++ - '0'\<close>, from left to right on a 32-bit int: an overflow of the product or
  of the sum before '0' is taken off is undefined (\<open>None\<close>).
\<close>

definition in_int :: "int \<Rightarrow> bool" where
  "in_int x \<longleftrightarrow> - (2 ^ 31) \<le> x \<and> x < 2 ^ 31"

fun atoi_loop :: "int \<Rightarrow> string \<Rightarrow> int option" where
  "atoi_loop n [] = Some n"
| "atoi_loop n (c # cs) =
     (if code_of CHR ''0'' \<le> code_of c \<and> code_of c \<le> code_of CHR ''9''
      then (if in_int (n * 10) \<and> in_int (n * 10 + code_of c)
            then atoi_loop (n * 10 + code_of c - code_of CHR ''0'') cs else None)
      else Some n)"

definition atoi :: "string \<Rightarrow> int option" where
  "atoi s = atoi_loop 0 s"

section \<open>Memory\<close>

definition umemset :: "mem \<Rightarrow> u64 \<Rightarrow> u8 \<Rightarrow> nat \<Rightarrow> mem" where
  "umemset m dst c n = fold (\<lambda>i m. m(dst + of_nat i := c)) [0..<n] m"

text \<open>The two copying loops are those of string.c; the test that chooses between them is not.\<close>

definition umemmove :: "mem \<Rightarrow> u64 \<Rightarrow> u64 \<Rightarrow> int \<Rightarrow> mem" where
  "umemmove m dst src n =
     (if src > dst then memmove_fwd m dst src (nat n)
      else memmove_back m (dst + word_of_int n) (src + word_of_int n) (nat n))"

fun umemcmp :: "u8 list \<Rightarrow> u8 list \<Rightarrow> int" where
  "umemcmp (x # xs) (y # ys) = (if x \<noteq> y then uint x - uint y else umemcmp xs ys)"
| "umemcmp _ _ = 0"

section \<open>Input\<close>

text \<open>\<open>rd\<close> is read(0, &c, 1): its return value and the character.\<close>

function gets_loop :: "('s \<Rightarrow> (int \<times> char) \<times> 's) \<Rightarrow> int \<Rightarrow> nat \<Rightarrow> char list \<Rightarrow> 's \<Rightarrow> nat \<times> char list \<times> 's" where
  "gets_loop rd mx i buf s =
     (if \<not> int i + 1 < mx then (i, buf, s)
      else (let ((cc, c), s') = rd s in
        if cc < 1 then (i, buf, s')
        else if c = CHR 0x0A \<or> c = CHR 0x0D then (i + 1, buf[i := c], s')
        else gets_loop rd mx (i + 1) (buf[i := c]) s'))"
  by pat_completeness auto
termination by (relation "measure (\<lambda>(rd, mx, i, buf, s). nat mx - i)") auto

declare gets_loop.simps [simp del]

definition gets :: "('s \<Rightarrow> (int \<times> char) \<times> 's) \<Rightarrow> char list \<Rightarrow> int \<Rightarrow> 's \<Rightarrow> char list \<times> 's" where
  "gets rd buf mx s = (let (i, buf, s') = gets_loop rd mx 0 buf s in (buf[i := NUL], s'))"

definition ustat :: "(string \<Rightarrow> 's \<Rightarrow> int \<times> 's) \<Rightarrow> (int \<Rightarrow> 's \<Rightarrow> int \<times> 's) \<Rightarrow> (int \<Rightarrow> 's \<Rightarrow> 's) \<Rightarrow> string \<Rightarrow> 's \<Rightarrow> int \<times> 's" where
  "ustat open_rdonly fstat close n s =
     (let (fd, s) = open_rdonly n s in
      if fd < 0 then (-1, s)
      else let (r, s) = fstat fd s in (r, close fd s))"

section \<open>What the string routines compute\<close>

lemma cstr_rec: "cstr s = (if char_at s 0 = NUL then [] else char_at s 0 # cstr (drop 1 s))"
  by (cases s) (auto simp: cstr_def)

lemma ustrlen_cstr: "ustrlen s = length (cstr s)"
  by (induction s) (auto simp: cstr_def)

lemma ustrcpy_spec: "ustrcpy s t = cstr t @ NUL # drop (Suc (length (cstr t))) s"
proof (induction s t rule: ustrcpy.induct)
  case (1 s t)
  show ?case using 1 by (subst ustrcpy.simps, subst (1 2) cstr_rec) (simp add: drop_drop)
qed

lemma ustrcmp_zero: "ustrcmp p q = 0 \<longleftrightarrow> cstr p = cstr q"
proof (induction p q rule: ustrcmp.induct)
  case (1 p q)
  have "(of_char (char_at p 0) :: int) - of_char (char_at q 0) = 0 \<longleftrightarrow> char_at p 0 = char_at q 0"
    by (metis eq_iff_diff_eq_0 of_char_eq_iff)
  moreover have "(of_char c :: int) = 0 \<longleftrightarrow> c = NUL" for c using of_char_eq_iff [of c NUL] by simp
  ultimately show ?case using 1 by (subst ustrcmp.simps, subst (1 2) cstr_rec) auto
qed

lemma ustrchr_none: "ustrchr s c = None \<longleftrightarrow> c \<notin> set (cstr s) \<or> c = NUL"
  by (induction s) (auto simp: cstr_def)

lemma ustrchr_some: "ustrchr s c = Some q \<Longrightarrow> c \<noteq> NUL \<and> (\<exists>p. s = p @ q \<and> hd q = c \<and> q \<noteq> [] \<and> c \<notin> set p \<and> NUL \<notin> set p)"
proof (induction s)
  case (Cons x xs)
  show ?case
  proof (cases "x = c")
    case True
    then show ?thesis using Cons by (auto split: if_splits)
  next
    case False
    then obtain p where "xs = p @ q" "hd q = c" "q \<noteq> []" "c \<notin> set p" "NUL \<notin> set p" "c \<noteq> NUL" "x \<noteq> NUL"
      using Cons by (auto split: if_splits)
    then show ?thesis using False by (intro conjI exI [of _ "x # p"]) auto
  qed
qed simp

text \<open>
  The user library's memmove, which copies forwards exactly when the source lies above
  the destination, has the same effect as the kernel's, which copies backwards only when the
  ranges overlap that way: both put the old bytes of the source range in place.
\<close>

theorem umemmove_is_memmove:
  assumes "unat src + n \<le> 2 ^ 64" and "unat dst + n \<le> 2 ^ 64"
  shows "umemmove m dst src (int n) = memmove m dst src n"
proof
  fix x
  note k = memmove_at [OF assms, of m x]
  show "umemmove m dst src (int n) x = memmove m dst src n x"
  proof (cases "src = dst")
    case True
    have "memmove_back m (dst + of_nat n) (dst + of_nat n) n = m" for m
    proof (induction n)
      case (Suc n)
      have "dst + of_nat (Suc n) - 1 = dst + of_nat n" by simp
      then show ?case by (simp only: memmove_back.simps fun_upd_triv Suc)
    qed simp
    then show ?thesis using k True by (simp add: umemmove_def)
  next
    case False
    show ?thesis
    proof (cases "src > dst")
      case True
      then have "unat dst \<le> unat src" by (simp add: word_less_nat_alt)
      then show ?thesis
        using k True memmove_fwd_at [of dst src n m x] assms by (simp add: umemmove_def)
    next
      case nlt: False
      then have "unat src < unat dst"
        using False by (meson linorder_neqE_nat word_less_nat_alt word_unat_eq_iff)
      then show ?thesis
        using k nlt memmove_back_at [of src dst n m x] assms by (simp add: umemmove_def)
    qed
  qed
qed

theorem umemmove_is_memmove_witness:
  "umemmove (\<lambda>a. ucast a) 0x1000 0x1002 (int 8) = memmove (\<lambda>a. ucast a) 0x1000 0x1002 8"
  by (rule umemmove_is_memmove) simp_all

section \<open>Numbers\<close>

definition is_digit :: "char \<Rightarrow> bool" where
  "is_digit c \<longleftrightarrow> code_of CHR ''0'' \<le> code_of c \<and> code_of c \<le> code_of CHR ''9''"

lemma atoi_loop_append:
  "\<forall>c \<in> set s. is_digit c \<Longrightarrow>
   atoi_loop n (s @ t) = (case atoi_loop n s of None \<Rightarrow> None | Some m \<Rightarrow> atoi_loop m t)"
  by (induction s arbitrary: n) (auto simp: is_digit_def)

lemma digit_codes: "x < 10 \<Longrightarrow> is_digit (user_digits ! x) \<and> code_of (user_digits ! x) = 48 + int x"
proof -
  assume "x < 10"
  then have "x \<in> set [0..<10]" by simp
  then have "x = 0 \<or> x = 1 \<or> x = 2 \<or> x = 3 \<or> x = 4 \<or> x = 5 \<or> x = 6 \<or> x = 7 \<or> x = 8 \<or> x = 9"
    by auto
  then show ?thesis by (auto simp: user_digits_def is_digit_def code_of_def)
qed

lemma numeral_digits: "\<forall>c \<in> set (numeral_of user_digits 10 x). is_digit c"
proof (induction x rule: less_induct)
  case (less x)
  have "0 < x div 10 \<Longrightarrow> x div 10 < x" by linarith
  with less [of "x div 10"] show ?case by (subst numeral_of_rec) (auto simp: digit_codes)
qed

lemma atoi_numeral: "x + 48 < 2 ^ 31 \<Longrightarrow> atoi_loop 0 (numeral_of user_digits 10 x) = Some (int x)"
proof (induction x rule: less_induct)
  case (less x)
  have d: "is_digit (user_digits ! (x mod 10))" "code_of (user_digits ! (x mod 10)) = 48 + int (x mod 10)"
    using digit_codes [of "x mod 10"] by simp_all
  have z: "code_of CHR ''0'' = 48" by (simp add: code_of_def)
  have x: "int (x div 10) * 10 + int (x mod 10) = int x" by presburger
  have one: "atoi_loop (int (x div 10)) [user_digits ! (x mod 10)] = Some (int x)"
    using d x less.prems by (simp add: is_digit_def in_int_def z)
  show ?case
  proof (cases "x div 10 = 0")
    case True
    then show ?thesis using one by (subst numeral_of_rec) simp_all
  next
    case False
    then have "atoi_loop 0 (numeral_of user_digits 10 (x div 10)) = Some (int (x div 10))"
      using less by (intro less.IH) auto
    then show ?thesis
      using False one numeral_digits [of "x div 10"] by (subst numeral_of_rec) (simp_all add: atoi_loop_append)
  qed
qed

text \<open>
  What printf writes for a non-negative int with %d, atoi reads back, as long as the sum
  it forms before taking '0' off stays in an int: up to 2147483599. (For the 48 larger ints
  the C code overflows; this is where the bound comes from.)
\<close>

theorem atoi_reads_printed:
  assumes "x \<le> 2147483599" and "uprintf ''%d'' [Num (of_nat x)] = Some t"
  shows "atoi t = Some (int x)"
proof -
  have "unat (of_nat x :: u32) = x"
    using assms(1) by (simp add: unat_of_nat take_bit_nat_eq_self)
  moreover have "ucast (of_nat x :: u64) = (of_nat x :: u32)"
    using assms(1) by (simp add: unsigned_of_nat take_bit_nat_eq_self)
  moreover have "sint (of_nat x :: u32) = int x"
    using assms(1) by (simp add: signed_of_nat signed_take_bit_int_eq_self)
  ultimately have "t = numeral_of user_digits 10 x"
    using assms(2) by (simp add: uprintf_render render_steps signed_numeral_def)
  then show ?thesis using assms(1) by (simp add: atoi_def atoi_numeral)
qed

theorem atoi_reads_printed_witness: "atoi ''4096'' = Some 4096"
proof -
  have "uprintf ''%d'' [Num (of_nat 4096)] = Some ''4096''"
    by (simp add: uprintf_render render_steps signed_numeral_def numeral_of_def udigits.simps user_digits_def)
  from atoi_reads_printed [OF _ this] show ?thesis by simp
qed

section \<open>Lines\<close>

text \<open>A source of characters: what one read of a byte must do. \<open>src\<close> is what is left to read.\<close>

definition char_source :: "('s \<Rightarrow> (int \<times> char) \<times> 's) \<Rightarrow> ('s \<Rightarrow> string) \<Rightarrow> bool" where
  "char_source rd src \<longleftrightarrow>
     (\<forall>s. src s = [] \<longrightarrow> fst (fst (rd s)) < 1 \<and> src (snd (rd s)) = []) \<and>
     (\<forall>s c cs. src s = c # cs \<longrightarrow> fst (fst (rd s)) = 1 \<and> snd (fst (rd s)) = c \<and> src (snd (rd s)) = cs)"

text \<open>The first line with its end, cut to \<open>k\<close> characters.\<close>

fun first_line :: "nat \<Rightarrow> string \<Rightarrow> string" where
  "first_line 0 cs = []"
| "first_line (Suc k) [] = []"
| "first_line (Suc k) (c # cs) = c # (if c = CHR 0x0A \<or> c = CHR 0x0D then [] else first_line k cs)"

lemma length_first_line: "length (first_line k cs) \<le> k"
  by (induction k cs rule: first_line.induct) auto

lemma gets_loop_spec:
  assumes "char_source rd src"
  shows "i + k + 1 = nat mx \<Longrightarrow> nat mx \<le> length buf \<Longrightarrow>
    \<exists>s'. gets_loop rd mx i buf s =
      (i + length (first_line k (src s)),
       take i buf @ first_line k (src s) @ drop (i + length (first_line k (src s))) buf, s') \<and>
      src s' = drop (length (first_line k (src s))) (src s)"
proof (induction k arbitrary: i buf s)
  case 0
  then show ?case by (subst gets_loop.simps) auto
next
  case (Suc k)
  then have lt: "int i + 1 < mx" "i < length buf" by linarith+
  obtain cc c s1 where rd: "rd s = ((cc, c), s1)" by (metis prod.collapse)
  show ?case
  proof (cases "src s")
    case Nil
    then have "cc < 1" "src s1 = []" using assms rd unfolding char_source_def by (metis fst_conv snd_conv)+
    then show ?thesis using lt rd Nil by (subst gets_loop.simps) simp
  next
    case (Cons d ds)
    then have cc: "cc = 1" "c = d" "src s1 = ds"
      using assms rd unfolding char_source_def by (metis fst_conv snd_conv)+
    show ?thesis
    proof (cases "c = CHR 0x0A \<or> c = CHR 0x0D")
      case True
      then show ?thesis using lt rd Cons cc by (subst gets_loop.simps) (auto simp: upd_conv_take_nth_drop)
    next
      case False
      obtain s' where "gets_loop rd mx (i + 1) (buf[i := c]) s1 =
          (i + 1 + length (first_line k ds),
           take (i + 1) (buf[i := c]) @ first_line k ds @ drop (i + 1 + length (first_line k ds)) (buf[i := c]), s')"
          and "src s' = drop (length (first_line k ds)) ds"
        using Suc.IH [of "i + 1" "buf[i := c]" s1] Suc.prems cc by auto
      moreover have "take (i + 1) (buf[i := c]) = take i buf @ [c]"
        using lt by (simp add: take_Suc_conv_app_nth)
      ultimately show ?thesis
        using lt rd Cons cc False by (subst gets_loop.simps) simp
    qed
  qed
qed

text \<open>
  gets reads one line: it stores the characters up to and including the first newline or
  carriage return, at most max - 1 of them, then a NUL, touches no other byte of the array,
  and leaves the rest of the input for the next call.
\<close>

theorem gets_reads_line:
  assumes "char_source rd src" and "1 \<le> mx" and "mx \<le> int (length buf)"
  shows "\<exists>s' line. gets rd buf mx s = (line @ NUL # drop (length line + 1) buf, s') \<and>
    line = first_line (nat (mx - 1)) (src s) \<and> int (length line) < mx \<and> src s' = drop (length line) (src s)"
proof -
  define line where "line = first_line (nat (mx - 1)) (src s)"
  have len: "int (length line) < mx"
    using length_first_line [of "nat (mx - 1)" "src s"] assms(2) by (simp add: line_def)
  have k: "0 + nat (mx - 1) + 1 = nat mx" "nat mx \<le> length buf" using assms(2,3) by linarith+
  obtain s' where s': "gets_loop rd mx 0 buf s = (length line, line @ drop (length line) buf, s')"
    and src: "src s' = drop (length line) (src s)"
    using gets_loop_spec [OF assms(1) k, of s] unfolding line_def [symmetric] by auto
  have "(line @ drop (length line) buf)[length line := NUL] = line @ NUL # drop (length line + 1) buf"
    using len assms(3) by (simp add: list_update_append flip: Cons_nth_drop_Suc)
  then show ?thesis using s' src len by (auto simp: gets_def line_def)
qed

definition list_source :: "string \<Rightarrow> (int \<times> char) \<times> string" where
  "list_source cs = (case cs of [] \<Rightarrow> ((0, NUL), []) | c # r \<Rightarrow> ((1, c), r))"

theorem gets_reads_line_witness:
  "\<exists>s'. gets list_source (replicate 8 CHR ''x'') 6 (''ls'' @ [CHR 0x0A] @ ''cat'') =
     (''ls'' @ [CHR 0x0A, NUL] @ ''xxxx'', s') \<and> s' = ''cat''"
proof -
  have "char_source list_source (\<lambda>cs. cs)"
    by (simp add: char_source_def list_source_def)
  from gets_reads_line [OF this, of 6 "replicate 8 CHR ''x''" "''ls'' @ [CHR 0x0A] @ ''cat''"]
  show ?thesis by (simp add: eval_nat_numeral)
qed

end
