(* ===== verification/Grep.thy ===== *)
theory Grep
  imports Ulib
begin

text \<open>
  user/grep.c: the regular expression matcher and the loop that reads a file into a buffer
  of 1024 bytes and prints the lines that match. The matcher is proved equal to membership
  in the language of the pattern, the loop to print exactly the matching lines.
\<close>

section \<open>The matcher\<close>

text \<open>A pointer into pattern or text is the rest of the string; its end is the NUL.\<close>

function matchhere :: "string \<Rightarrow> string \<Rightarrow> bool"
  and matchstar :: "char \<Rightarrow> string \<Rightarrow> string \<Rightarrow> bool" where
  "matchhere re tx =
     (if char_at re 0 = NUL then True
      else if char_at re 1 = CHR ''*'' then matchstar (char_at re 0) (drop 2 re) tx
      else if char_at re 0 = CHR ''$'' \<and> char_at re 1 = NUL then char_at tx 0 = NUL
      else if char_at tx 0 \<noteq> NUL \<and> (char_at re 0 = CHR ''.'' \<or> char_at re 0 = char_at tx 0)
        then matchhere (drop 1 re) (drop 1 tx)
      else False)"
| "matchstar c re tx =
     (if matchhere re tx then True
      else if char_at tx 0 \<noteq> NUL \<and> (char_at tx 0 = c \<or> c = CHR ''.'') then matchstar c re (drop 1 tx)
      else False)"
  by pat_completeness auto
termination
  by (relation "measures [\<lambda>x. case x of Inl (re, tx) \<Rightarrow> length re | Inr (c, re, tx) \<Rightarrow> length re,
      \<lambda>x. case x of Inl (re, tx) \<Rightarrow> length tx | Inr (c, re, tx) \<Rightarrow> length tx,
      \<lambda>x. case x of Inl _ \<Rightarrow> 0 | Inr _ \<Rightarrow> 1]") (auto simp: char_at_def split: if_splits)

declare matchhere.simps [simp del] matchstar.simps [simp del]

function match_loop :: "string \<Rightarrow> string \<Rightarrow> bool" where
  "match_loop re tx =
     (if matchhere re tx then True
      else if char_at tx 0 \<noteq> NUL then match_loop re (drop 1 tx) else False)"
  by pat_completeness auto
termination by (relation "measure (\<lambda>(re, tx). length tx)") (auto simp: char_at_def split: if_splits)

declare match_loop.simps [simp del]

definition match :: "string \<Rightarrow> string \<Rightarrow> bool" where
  "match re tx =
     (if char_at re 0 = CHR ''^'' then matchhere (drop 1 re) tx else match_loop re tx)"

section \<open>The loop over the file\<close>

text \<open>
  The lines of the buffer from \<open>p\<close> on: what is left when no newline follows, and what was
  written. While a line is matched its newline is overwritten by a NUL.
\<close>

function scan_lines :: "string \<Rightarrow> string \<Rightarrow> string \<times> string" where
  "scan_lines pat p =
     (case ustrchr p (CHR 0x0A) of
        None \<Rightarrow> (p, [])
      | Some q \<Rightarrow>
          let line = take (length p - length q) p;
              (rest, out) = scan_lines pat (drop 1 q)
          in (rest, (if match pat line then line @ [CHR 0x0A] else []) @ out))"
  by pat_completeness auto
termination
proof (relation "measure (\<lambda>(pat, p). length p)")
  fix pat p q line
  assume "ustrchr p (CHR 0x0A) = Some q"
  from ustrchr_some [OF this] obtain u where "p = u @ q" "q \<noteq> []" by blast
  then show "((pat, drop 1 q), (pat, p)) \<in> measure (\<lambda>(pat, p). length p)" by (cases q) simp_all
qed simp

declare scan_lines.simps [simp del]

definition GREP_BUF :: nat where "GREP_BUF = 1024"

text \<open>
  \<open>rd k\<close> is read(fd, buf+m, k): the return value and the bytes stored. The loop ends when
  read returns 0 or an error; \<open>fuel\<close> bounds its rounds (\<open>None\<close> when they are used up).
\<close>

primrec grep_loop :: "nat \<Rightarrow> (nat \<Rightarrow> 's \<Rightarrow> (int \<times> string) \<times> 's) \<Rightarrow> string \<Rightarrow> string \<Rightarrow> 's \<Rightarrow> (string \<times> 's) option" where
  "grep_loop 0 rd pat buf s = None"
| "grep_loop (Suc fuel) rd pat buf s =
     (let ((n, bs), s') = rd (GREP_BUF - length buf - 1) s in
      if n \<le> 0 then Some ([], s')
      else let (rest, out) = scan_lines pat (buf @ bs) in
        map_option (\<lambda>(more, t). (out @ more, t)) (grep_loop fuel rd pat rest s'))"

definition grep :: "nat \<Rightarrow> (nat \<Rightarrow> 's \<Rightarrow> (int \<times> string) \<times> 's) \<Rightarrow> string \<Rightarrow> 's \<Rightarrow> (string \<times> 's) option" where
  "grep fuel rd pat s = grep_loop fuel rd pat [] s"

section \<open>What a pattern means\<close>

text \<open>
  A pattern is a sequence of items: a character class (one character, or any), or a class
  repeated; a final dollar sign and a leading circumflex anchor the match. The language of
  the items is a set of words; the pattern matches a text that contains such a word, at the
  start or the end if anchored there.
\<close>

datatype atom = Exactly char | Anything
datatype item = One atom | Many atom

definition atom_of :: "char \<Rightarrow> atom" where
  "atom_of c = (if c = CHR ''.'' then Anything else Exactly c)"

primrec atom_set :: "atom \<Rightarrow> char set" where
  "atom_set (Exactly c) = {c}"
| "atom_set Anything = UNIV"

primrec words :: "item list \<Rightarrow> string set" where
  "words [] = {[]}"
| "words (i # is) = (case i of
     One a \<Rightarrow> {c # w |c w. c \<in> atom_set a \<and> w \<in> words is}
   | Many a \<Rightarrow> {u @ w |u w. set u \<subseteq> atom_set a \<and> w \<in> words is})"

text \<open>The items of a pattern and whether it ends in an anchor.\<close>

fun items :: "string \<Rightarrow> item list \<times> bool" where
  "items [] = ([], False)"
| "items [c] = (if c = CHR ''$'' then ([], True) else ([One (atom_of c)], False))"
| "items (c # d # cs) =
     (if d = CHR ''*'' then (case items cs of (is, e) \<Rightarrow> (Many (atom_of c) # is, e))
      else (case items (d # cs) of (is, e) \<Rightarrow> (One (atom_of c) # is, e)))"

definition matches_at_start :: "string \<Rightarrow> string \<Rightarrow> bool" where
  "matches_at_start re tx \<longleftrightarrow>
     (\<exists>w rest. tx = w @ rest \<and> w \<in> words (fst (items re)) \<and> (snd (items re) \<longrightarrow> rest = []))"

definition matches :: "string \<Rightarrow> string \<Rightarrow> bool" where
  "matches re tx \<longleftrightarrow>
     (case re of
        c # cs \<Rightarrow> if c = CHR ''^'' then matches_at_start cs tx
                  else (\<exists>pre suf. tx = pre @ suf \<and> matches_at_start re suf)
      | [] \<Rightarrow> True)"

section \<open>The matcher decides the language\<close>

lemma atom_of_set: "x \<in> atom_set (atom_of c) \<longleftrightarrow> x = c \<or> c = CHR ''.''"
  by (auto simp: atom_of_def)

lemma start_Nil [simp]: "matches_at_start [] tx"
  by (auto simp: matches_at_start_def)

lemma start_One:
  assumes "items re = (One a # is, e)" and "items re' = (is, e)"
  shows "matches_at_start re tx \<longleftrightarrow> (\<exists>c cs. tx = c # cs \<and> c \<in> atom_set a \<and> matches_at_start re' cs)"
proof
  assume "matches_at_start re tx"
  then obtain x r where x: "tx = x @ r" "x \<in> words (One a # is)" "e \<longrightarrow> r = []"
    using assms by (auto simp: matches_at_start_def)
  then obtain c w where "x = c # w" "c \<in> atom_set a" "w \<in> words is" by auto
  with x show "\<exists>c cs. tx = c # cs \<and> c \<in> atom_set a \<and> matches_at_start re' cs"
    using assms by (auto simp: matches_at_start_def)
next
  assume "\<exists>c cs. tx = c # cs \<and> c \<in> atom_set a \<and> matches_at_start re' cs"
  then obtain c w r where "tx = (c # w) @ r" "c \<in> atom_set a" "w \<in> words is" "e \<longrightarrow> r = []"
    using assms by (auto simp: matches_at_start_def)
  then show "matches_at_start re tx"
    unfolding matches_at_start_def using assms by (intro exI [of _ "c # w"] exI [of _ r]) auto
qed

lemma start_Many:
  assumes "items re = (Many a # is, e)" and "items re' = (is, e)"
  shows "matches_at_start re tx \<longleftrightarrow>
    matches_at_start re' tx \<or> (\<exists>c cs. tx = c # cs \<and> c \<in> atom_set a \<and> matches_at_start re cs)"
proof -
  have m: "matches_at_start re t \<longleftrightarrow>
      (\<exists>u w r. t = u @ w @ r \<and> set u \<subseteq> atom_set a \<and> w \<in> words is \<and> (e \<longrightarrow> r = []))" for t
  proof -
    have "x \<in> words (Many a # is) \<longleftrightarrow> (\<exists>u w. x = u @ w \<and> set u \<subseteq> atom_set a \<and> w \<in> words is)" for x
      by auto
    then show ?thesis unfolding matches_at_start_def assms(1) fst_conv snd_conv by (metis append.assoc)
  qed
  have m': "matches_at_start re' t \<longleftrightarrow> (\<exists>w r. t = w @ r \<and> w \<in> words is \<and> (e \<longrightarrow> r = []))" for t
    unfolding matches_at_start_def using assms by simp
  show ?thesis
  proof
    assume "matches_at_start re tx"
    then obtain u w r where *: "tx = u @ w @ r" "set u \<subseteq> atom_set a" "w \<in> words is" "e \<longrightarrow> r = []"
      using m by blast
    show "matches_at_start re' tx \<or> (\<exists>c cs. tx = c # cs \<and> c \<in> atom_set a \<and> matches_at_start re cs)"
    proof (cases u)
      case Nil
      then show ?thesis using * m' [of tx] by auto
    next
      case (Cons c u')
      then show ?thesis using * m [of "u' @ w @ r"] by auto
    qed
  next
    assume "matches_at_start re' tx \<or> (\<exists>c cs. tx = c # cs \<and> c \<in> atom_set a \<and> matches_at_start re cs)"
    then show "matches_at_start re tx"
    proof
      assume "matches_at_start re' tx"
      then obtain w r where "tx = [] @ w @ r" "w \<in> words is" "e \<longrightarrow> r = []" using m' by auto
      then show ?thesis unfolding m by (intro exI [of _ "[]"] exI [of _ w] exI [of _ r]) simp
    next
      assume "\<exists>c cs. tx = c # cs \<and> c \<in> atom_set a \<and> matches_at_start re cs"
      then obtain c u w r where "tx = c # u @ w @ r" "c \<in> atom_set a" "set u \<subseteq> atom_set a"
        "w \<in> words is" "e \<longrightarrow> r = []" using m by auto
      then show ?thesis unfolding m by (intro exI [of _ "c # u"] exI [of _ w] exI [of _ r]) simp
    qed
  qed
qed

text \<open>The two functions together: a star consumes characters of its class, then the rest matches.\<close>

lemma matchhere_matchstar:
  "NUL \<notin> set re \<Longrightarrow> NUL \<notin> set tx \<Longrightarrow> matchhere re tx \<longleftrightarrow> matches_at_start re tx"
  "NUL \<notin> set re' \<Longrightarrow> NUL \<notin> set tx' \<Longrightarrow> c \<noteq> NUL \<Longrightarrow>
     matchstar c re' tx' \<longleftrightarrow> matches_at_start (c # CHR ''*'' # re') tx'"
proof (induction re tx and c re' tx' rule: matchhere_matchstar.induct)
  case (1 re tx)
  show ?case
  proof (cases re rule: items.cases)
    case 1
    then show ?thesis by (subst matchhere.simps) simp
  next
    case (2 c)
    then have c: "c \<noteq> NUL" using "1.prems" by simp
    show ?thesis
    proof (cases "c = CHR ''$''")
      case True
      then show ?thesis
        using 2 "1.prems" by (subst matchhere.simps) (auto simp: char_at_NUL_iff matches_at_start_def)
    next
      case False
      then have i: "items re = ([One (atom_of c)], False)" using 2 by simp
      show ?thesis
        using 2 c False "1.prems" "1.IH"(2)
        unfolding start_One [OF i, of "[]", simplified]
        by (subst matchhere.simps) (cases tx; auto simp: atom_of_set matchhere.simps [of "[]"])
    qed
  next
    case (3 c d cs)
    then have c: "c \<noteq> NUL" "d \<noteq> NUL" "NUL \<notin> set cs" using "1.prems" by auto
    show ?thesis
    proof (cases "d = CHR ''*''")
      case True
      then show ?thesis
        using 3 c "1.prems" "1.IH"(1) by (subst matchhere.simps) simp
    next
      case False
      then have i: "items re = (One (atom_of c) # fst (items (d # cs)), snd (items (d # cs)))"
        using 3 by (simp add: case_prod_beta)
      show ?thesis
        using 3 c False "1.prems" "1.IH"(2)
        unfolding start_One [OF i, of "d # cs", simplified]
        by (subst matchhere.simps) (cases tx; auto simp: atom_of_set)
    qed
  qed
next
  case (2 c re' tx')
  have i: "items (c # CHR ''*'' # re') = (Many (atom_of c) # fst (items re'), snd (items re'))"
    by (simp add: case_prod_beta)
  have sm: "matches_at_start (c # CHR ''*'' # re') tx' \<longleftrightarrow> matches_at_start re' tx' \<or>
      (\<exists>x xs. tx' = x # xs \<and> x \<in> atom_set (atom_of c) \<and> matches_at_start (c # CHR ''*'' # re') xs)"
    by (rule start_Many [OF i]) simp
  show ?case
  proof (cases tx')
    case Nil
    then show ?thesis using 2 sm by (subst matchstar.simps) simp
  next
    case (Cons x xs)
    then have "x \<noteq> NUL" using 2 by auto
    then show ?thesis
      using 2 sm Cons by (subst matchstar.simps) (auto simp: atom_of_set)
  qed
qed

lemma match_loop_spec:
  "NUL \<notin> set re \<Longrightarrow> NUL \<notin> set tx \<Longrightarrow>
   match_loop re tx \<longleftrightarrow> (\<exists>pre suf. tx = pre @ suf \<and> matches_at_start re suf)"
proof (induction re tx rule: match_loop.induct)
  case (1 re tx)
  show ?case
  proof (cases tx)
    case Nil
    then show ?thesis using 1 by (subst match_loop.simps) (simp add: matchhere_matchstar)
  next
    case (Cons c cs)
    have "(\<exists>pre suf. c # cs = pre @ suf \<and> matches_at_start re suf) \<longleftrightarrow>
        matches_at_start re (c # cs) \<or> (\<exists>pre suf. cs = pre @ suf \<and> matches_at_start re suf)"
      by (auto simp: Cons_eq_append_conv)
    then show ?thesis
      using 1 Cons by (subst match_loop.simps) (auto simp: matchhere_matchstar)
  qed
qed

text \<open>
  C32. The matcher is right: for every pattern and text without NUL it returns 1 exactly when
  the text contains a word of the pattern's language, at the start if the pattern begins
  with ^ and up to the end if it ends with $. It always returns.
\<close>

theorem match_decides:
  assumes "NUL \<notin> set re" and "NUL \<notin> set tx"
  shows "match re tx \<longleftrightarrow> matches re tx"
proof (cases re)
  case Nil
  then show ?thesis by (simp add: match_def matches_def match_loop.simps matchhere.simps)
next
  case (Cons c cs)
  then show ?thesis
    using assms by (simp add: match_def matches_def matchhere_matchstar match_loop_spec)
qed

theorem match_decides_witness: "match ''^ab*.$'' ''abbbc'' \<and> matches ''^ab*.$'' ''abbbc''"
proof -
  have "match ''^ab*.$'' ''abbbc''"
    by (simp add: match_def matchhere.simps matchstar.simps)
  then show ?thesis using match_decides [of "''^ab*.$''" "''abbbc''"] by simp
qed

section \<open>The loop prints the matching lines\<close>

text \<open>
  What read(fd, buf, k) does on a file without errors: \<open>src\<close> is what is left to read; a
  read of at least one byte takes some of it unless nothing is left.
\<close>

definition reads_file :: "(nat \<Rightarrow> 's \<Rightarrow> (int \<times> string) \<times> 's) \<Rightarrow> ('s \<Rightarrow> string) \<Rightarrow> bool" where
  "reads_file rd src \<longleftrightarrow>
     (\<forall>k s n bs s'. rd k s = ((n, bs), s') \<longrightarrow>
        src s = bs @ src s' \<and> length bs \<le> k \<and> n = int (length bs) \<and> (0 < k \<longrightarrow> src s \<noteq> [] \<longrightarrow> bs \<noteq> []))"

lemma reads_fileD:
  assumes "reads_file rd src"
  obtains bs s' where "rd k s = ((int (length bs), bs), s')" "src s = bs @ src s'" "length bs \<le> k"
    "0 < k \<Longrightarrow> src s \<noteq> [] \<Longrightarrow> bs \<noteq> []"
proof -
  obtain n bs s' where "rd k s = ((n, bs), s')" by (metis prod.collapse)
  with assms that show ?thesis unfolding reads_file_def by blast
qed

text \<open>The complete lines of a text, without their newlines, and what follows the last one.\<close>

primrec split_lines :: "string \<Rightarrow> string list \<times> string" where
  "split_lines [] = ([], [])"
| "split_lines (c # cs) =
     (let (ls, r) = split_lines cs in
      if c = CHR 0x0A then ([] # ls, r)
      else case ls of [] \<Rightarrow> ([], c # r) | l # ls' \<Rightarrow> ((c # l) # ls', r))"

lemma split_line: "CHR 0x0A \<notin> set u \<Longrightarrow>
    split_lines (u @ CHR 0x0A # cs) = (u # fst (split_lines cs), snd (split_lines cs))"
  by (induction u) (auto simp: case_prod_beta)

lemma split_rest: "CHR 0x0A \<notin> set u \<Longrightarrow> split_lines u = ([], u)"
  by (induction u) auto

lemma scan_lines_spec:
  "NUL \<notin> set p \<Longrightarrow> scan_lines pat p = (snd (split_lines p),
     concat (map (\<lambda>l. l @ [CHR 0x0A]) (filter (match pat) (fst (split_lines p)))))"
proof (induction pat p rule: scan_lines.induct)
  case (1 pat p)
  have cstr: "cstr p = p" using 1(2) cstr_append_NUL [of p "[]"] by (simp add: cstr_def takeWhile_eq_all_conv) (metis takeWhile_eq_all_conv)
  show ?case
  proof (cases "ustrchr p (CHR 0x0A)")
    case None
    then have "CHR 0x0A \<notin> set p" using cstr by (simp add: ustrchr_none)
    then show ?thesis using None by (subst scan_lines.simps) (simp add: split_rest)
  next
    case (Some q)
    then obtain u cs where p: "p = u @ CHR 0x0A # cs" "CHR 0x0A \<notin> set u" "q = CHR 0x0A # cs"
      using ustrchr_some [OF Some] by (cases q) auto
    then have "scan_lines pat cs = (snd (split_lines cs),
        concat (map (\<lambda>l. l @ [CHR 0x0A]) (filter (match pat) (fst (split_lines cs)))))"
      using 1(1) [OF Some refl] 1(2) by simp
    then show ?thesis using Some p by (subst scan_lines.simps) (simp add: split_line)
  qed
qed

lemma split_append:
  "split_lines (a @ b) = (fst (split_lines a) @ fst (split_lines (snd (split_lines a) @ b)),
     snd (split_lines (snd (split_lines a) @ b)))"
proof (induction "length a" arbitrary: a rule: less_induct)
  case less
  show ?case
  proof (cases "CHR 0x0A \<in> set a")
    case True
    then obtain u cs where a: "a = u @ CHR 0x0A # cs" "CHR 0x0A \<notin> set u"
      by (meson split_list_first)
    then show ?thesis using less [of cs] by (simp add: split_line)
  next
    case False
    then show ?thesis by (simp add: split_rest)
  qed
qed

lemma split_parts:
  "set (snd (split_lines a)) \<subseteq> set a - {CHR 0x0A}" "l \<in> set (fst (split_lines a)) \<Longrightarrow> set l \<subseteq> set a"
proof (induction a arbitrary: l)
  case (Cons c cs)
  { case 1
    show ?case using Cons(1) by (auto simp: case_prod_beta split: list.splits)
  next
    case 2
    then show ?case using Cons(2) by (fastforce simp: case_prod_beta split: list.splits if_splits) }
qed simp_all

lemma grep_loop_spec:
  assumes "reads_file rd src"
  shows "NUL \<notin> set (buf @ src s) \<Longrightarrow> CHR 0x0A \<notin> set buf \<Longrightarrow>
    \<forall>l \<in> set (fst (split_lines (buf @ src s))). length l < GREP_BUF - 1 \<Longrightarrow> length (src s) < fuel \<Longrightarrow>
    \<exists>s'. grep_loop fuel rd pat buf s =
      Some (concat (map (\<lambda>l. l @ [CHR 0x0A]) (filter (match pat) (fst (split_lines (buf @ src s))))), s')"
proof (induction fuel arbitrary: buf s)
  case (Suc fuel)
  obtain bs s1 where rd: "rd (GREP_BUF - length buf - 1) s = ((int (length bs), bs), s1)"
    and src: "src s = bs @ src s1" and le: "length bs \<le> GREP_BUF - length buf - 1"
    and ne: "0 < GREP_BUF - length buf - 1 \<Longrightarrow> src s \<noteq> [] \<Longrightarrow> bs \<noteq> []"
    using reads_fileD [OF assms] by metis
  show ?case
  proof (cases "bs = []")
    case True
    have "fst (split_lines (buf @ src s)) = []"
    proof (cases "CHR 0x0A \<in> set (src s)")
      case nl: True
      then have full: "GREP_BUF - 1 \<le> length buf" using ne True by fastforce
      obtain u cs where "src s = u @ CHR 0x0A # cs" "CHR 0x0A \<notin> set u"
        using nl by (meson split_list_first)
      then have "buf @ u \<in> set (fst (split_lines (buf @ src s)))"
        using Suc.prems(2) split_line [of "buf @ u" cs] by simp
      then show ?thesis using Suc.prems(3) full by fastforce
    qed (use Suc.prems(2) in \<open>simp add: split_rest\<close>)
    then show ?thesis using rd True by simp
  next
    case False
    let ?p = "buf @ bs"
    have nul: "NUL \<notin> set ?p" using Suc.prems(1) src by simp
    have "\<exists>s'. grep_loop fuel rd pat (snd (split_lines ?p)) s1 =
        Some (concat (map (\<lambda>l. l @ [CHR 0x0A]) (filter (match pat)
          (fst (split_lines (snd (split_lines ?p) @ src s1))))), s')"
    proof (rule Suc.IH)
      show "NUL \<notin> set (snd (split_lines ?p) @ src s1)"
        using Suc.prems(1) src nul split_parts(1) [of ?p] by auto
      show "CHR 0x0A \<notin> set (snd (split_lines ?p))" using split_parts(1) [of ?p] by auto
      show "\<forall>l \<in> set (fst (split_lines (snd (split_lines ?p) @ src s1))). length l < GREP_BUF - 1"
        using Suc.prems(3) src split_append [of ?p "src s1"] by simp
      show "length (src s1) < fuel" using Suc.prems(4) src False by (cases bs) auto
    qed
    moreover have "fst (split_lines (buf @ src s)) =
        fst (split_lines ?p) @ fst (split_lines (snd (split_lines ?p) @ src s1))"
      using src split_append [of ?p "src s1"] by simp
    ultimately show ?thesis
      using rd False by (auto simp: scan_lines_spec [OF nul])
  qed
qed simp

text \<open>
  C33. grep prints exactly the complete lines of the file that match, in order and each with
  its newline, whatever sizes the reads come in --- provided no line exceeds the 1022
  characters that fit the buffer (a longer one ends the program without a message), and a
  last line without newline is not looked at.
\<close>

theorem grep_prints_matching_lines:
  assumes "reads_file rd src" and "NUL \<notin> set pat" and "NUL \<notin> set (src s)"
    and "\<forall>l \<in> set (fst (split_lines (src s))). length l \<le> 1022" and "length (src s) < fuel"
  shows "\<exists>s'. grep fuel rd pat s =
    Some (concat (map (\<lambda>l. l @ [CHR 0x0A]) (filter (matches pat) (fst (split_lines (src s))))), s')"
proof -
  have "\<forall>l \<in> set (fst (split_lines (src s))). length l < GREP_BUF - 1"
    using assms(4) by (auto simp: GREP_BUF_def)
  then obtain s' where "grep fuel rd pat s =
      Some (concat (map (\<lambda>l. l @ [CHR 0x0A]) (filter (match pat) (fst (split_lines (src s))))), s')"
    using grep_loop_spec [OF assms(1), of "[]" s fuel pat] assms(3,5) by (auto simp: grep_def)
  moreover have "filter (match pat) (fst (split_lines (src s))) = filter (matches pat) (fst (split_lines (src s)))"
    using assms(2,3) split_parts(2) [of _ "src s"] by (intro filter_cong refl match_decides) blast+
  ultimately show ?thesis by metis
qed

text \<open>A file that hands out at most three bytes at a time.\<close>

definition chunk_read :: "nat \<Rightarrow> string \<Rightarrow> (int \<times> string) \<times> string" where
  "chunk_read k cs = (let bs = take (min k 3) cs in ((int (length bs), bs), drop (length bs) cs))"

lemma chunk_read_reads: "reads_file chunk_read (\<lambda>cs. cs)"
  by (auto simp: reads_file_def chunk_read_def Let_def min_def split: if_splits)

theorem grep_prints_matching_lines_witness:
  "\<exists>s'. grep 40 chunk_read ''o.t'' (''one'' @ [CHR 0x0A] @ ''octet'' @ [CHR 0x0A] @ ''out'') =
     Some (''octet'' @ [CHR 0x0A], s')"
proof -
  let ?f = "''one'' @ [CHR 0x0A] @ ''octet'' @ [CHR 0x0A] @ ''out''"
  have m: "\<not> matches ''o.t'' ''one''" "matches ''o.t'' ''octet''"
    using match_decides [of "''o.t''" "''one''"] match_decides [of "''o.t''" "''octet''"]
    by (simp_all add: match_def match_loop.simps matchhere.simps)
  show ?thesis
    using grep_prints_matching_lines [OF chunk_read_reads, of "''o.t''" ?f 40] m by simp
qed

end
