(* ===== verification/Sh.thy ===== *)
theory Sh
  imports Ulib Sysfile
begin

text \<open>
  The shell's parser, user/sh.c: tokens, the recursive descent over line, pipe, exec and
  block, the redirections, and nulterminate, which cuts the input buffer in place into the
  strings the command tree points to. A pointer into the buffer is the rest of the input
  from there on. malloc is taken to succeed (the code does not test it).
\<close>

section \<open>Commands\<close>

text \<open>
  The tagged structs behind struct cmd; \<open>'t\<close> is the type of a counted string: a pair of
  pointers (argv and eargv, file and efile) in the parser, its text in the statements.
\<close>

datatype 't cmd =
    EXEC "'t list"
  | REDIR "'t cmd" 't int int
  | PIPE "'t cmd" "'t cmd"
  | LIST "'t cmd" "'t cmd"
  | BACK "'t cmd"

type_synonym token = "string \<times> string"

definition sh_MAXARGS :: nat where "sh_MAXARGS = 10"

text \<open>
  The constructors of the C code fill a fresh struct. \<open>add_arg\<close> is \<open>cmd->argv[argc] = q\<close> on
  the execcmd that the redirections built meanwhile wrap.
\<close>

fun add_arg :: "'t \<Rightarrow> 't cmd \<Rightarrow> 't cmd" where
  "add_arg t (EXEC ts) = EXEC (ts @ [t])"
| "add_arg t (REDIR c f m fd) = REDIR (add_arg t c) f m fd"
| "add_arg t c = c"

section \<open>Tokens\<close>

definition whitespace :: string where
  "whitespace = [CHR '' '', CHR 0x09, CHR 0x0D, CHR 0x0A, CHR 0x0B]"

definition symbols :: string where "symbols = ''<|>&;()''"

definition is_white :: "char \<Rightarrow> bool" where "is_white c \<longleftrightarrow> ustrchr whitespace c \<noteq> None"

definition is_symbol :: "char \<Rightarrow> bool" where "is_symbol c \<longleftrightarrow> ustrchr symbols c \<noteq> None"

text \<open>\<open>while(s < es && strchr(whitespace, *s)) s++;\<close>\<close>

definition skip_white :: "string \<Rightarrow> string" where "skip_white s = dropWhile is_white s"

definition gettoken :: "string \<Rightarrow> char \<times> token \<times> string" where
  "gettoken s =
     (let q = skip_white s; c = char_at q 0;
          (ret, eq) =
            (if c = NUL then (c, q)
             else if c \<in> {CHR ''|'', CHR ''('', CHR '')'', CHR '';'', CHR ''&'', CHR ''<''} then (c, drop 1 q)
             else if c = CHR ''>'' then
               (if char_at q 1 = CHR ''>'' then (CHR ''+'', drop 2 q) else (c, drop 1 q))
             else (CHR ''a'', dropWhile (\<lambda>x. \<not> is_white x \<and> \<not> is_symbol x) q))
      in (ret, (q, eq), skip_white eq))"

definition peek :: "string \<Rightarrow> string \<Rightarrow> string \<times> bool" where
  "peek s toks = (let s' = skip_white s in
     (s', char_at s' 0 \<noteq> NUL \<and> ustrchr toks (char_at s' 0) \<noteq> None))"

section \<open>The parser\<close>

text \<open>
  What a parsing function returns: a value and the advanced pointer; the message of the
  panic that ended the process; or that the rounds it was given did not suffice.
\<close>

datatype 'a pres = Done 'a string | Syntax string | Unfinished

primrec pbind :: "'a pres \<Rightarrow> ('a \<Rightarrow> string \<Rightarrow> 'b pres) \<Rightarrow> 'b pres" where
  "pbind (Done x s) f = f x s"
| "pbind (Syntax msg) f = Syntax msg"
| "pbind Unfinished f = Unfinished"

primrec parseredirs :: "nat \<Rightarrow> token cmd \<Rightarrow> string \<Rightarrow> token cmd pres" where
  "parseredirs 0 c s = Unfinished"
| "parseredirs (Suc n) c s =
     (let (s, more) = peek s ''<>'' in
      if \<not> more then Done c s
      else let (tok, _, s) = gettoken s; (tok2, f, s) = gettoken s in
        if tok2 \<noteq> CHR ''a'' then Syntax ''missing file for redirection''
        else parseredirs n
          (if tok = CHR ''<'' then REDIR c f (uint O_RDONLY) 0
           else if tok = CHR ''>'' then REDIR c f (uint (O_WRONLY OR O_CREATE OR O_TRUNC)) 1
           else if tok = CHR ''+'' then REDIR c f (uint (O_WRONLY OR O_CREATE)) 1
           else c) s)"

primrec exec_args :: "nat \<Rightarrow> nat \<Rightarrow> token cmd \<Rightarrow> string \<Rightarrow> token cmd pres" where
  "exec_args 0 argc c s = Unfinished"
| "exec_args (Suc n) argc c s =
     (let (s, stop) = peek s ''|)&;'' in
      if stop then Done c s
      else let (tok, t, s) = gettoken s in
        if tok = NUL then Done c s
        else if tok \<noteq> CHR ''a'' then Syntax ''syntax''
        else if sh_MAXARGS \<le> argc + 1 then Syntax ''too many args''
        else pbind (parseredirs n (add_arg t c) s) (exec_args n (argc + 1)))"

primrec parse_amps :: "nat \<Rightarrow> token cmd \<Rightarrow> string \<Rightarrow> token cmd pres" where
  "parse_amps 0 c s = Unfinished"
| "parse_amps (Suc n) c s =
     (let (s, more) = peek s ''&'' in
      if \<not> more then Done c s
      else let (_, _, s) = gettoken s in parse_amps n (BACK c) s)"

fun parseline :: "nat \<Rightarrow> string \<Rightarrow> token cmd pres"
  and parsepipe :: "nat \<Rightarrow> string \<Rightarrow> token cmd pres"
  and parseexec :: "nat \<Rightarrow> string \<Rightarrow> token cmd pres"
  and parseblock :: "nat \<Rightarrow> string \<Rightarrow> token cmd pres" where
  "parseline 0 s = Unfinished"
| "parseline (Suc n) s =
     pbind (parsepipe n s) (\<lambda>c s.
     pbind (parse_amps n c s) (\<lambda>c s.
       let (s, more) = peek s '';'' in
       if \<not> more then Done c s
       else let (_, _, s) = gettoken s in pbind (parseline n s) (\<lambda>r s. Done (LIST c r) s)))"
| "parsepipe 0 s = Unfinished"
| "parsepipe (Suc n) s =
     pbind (parseexec n s) (\<lambda>c s.
       let (s, more) = peek s ''|'' in
       if \<not> more then Done c s
       else let (_, _, s) = gettoken s in pbind (parsepipe n s) (\<lambda>r s. Done (PIPE c r) s))"
| "parseexec 0 s = Unfinished"
| "parseexec (Suc n) s =
     (let (s, block) = peek s ''('' in
      if block then parseblock n s
      else pbind (parseredirs n (EXEC []) s) (exec_args n 0))"
| "parseblock 0 s = Unfinished"
| "parseblock (Suc n) s =
     (let (s, open) = peek s ''('' in
      if \<not> open then Syntax ''parseblock''
      else let (_, _, s) = gettoken s in
        pbind (parseline n s) (\<lambda>c s.
          let (s, close) = peek s '')'' in
          if \<not> close then Syntax ''syntax - missing )''
          else let (_, _, s) = gettoken s in parseredirs n c s))"

text \<open>Four rounds per character and four more are enough (\<open>parse_finishes\<close>).\<close>

definition parse_fuel :: "string \<Rightarrow> nat" where "parse_fuel s = 4 * length s + 4"

definition parse_tree :: "string \<Rightarrow> token cmd pres" where
  "parse_tree s = pbind (parseline (parse_fuel s) s) (\<lambda>c s.
     let (s, _) = peek s [] in if s \<noteq> [] then Syntax ''syntax'' else Done c s)"

section \<open>Cutting the buffer\<close>

text \<open>\<open>*e = 0\<close> for a pointer \<open>e\<close> into a buffer whose text has \<open>n\<close> characters.\<close>

definition put_nul :: "nat \<Rightarrow> token \<Rightarrow> char list \<Rightarrow> char list" where
  "put_nul n t buf = buf[n - length (snd t) := NUL]"

primrec nulterminate :: "nat \<Rightarrow> token cmd \<Rightarrow> char list \<Rightarrow> char list" where
  "nulterminate n (EXEC ts) buf = fold (put_nul n) ts buf"
| "nulterminate n (REDIR c f m fd) buf = put_nul n f (nulterminate n c buf)"
| "nulterminate n (PIPE l r) buf = nulterminate n r (nulterminate n l buf)"
| "nulterminate n (LIST l r) buf = nulterminate n r (nulterminate n l buf)"
| "nulterminate n (BACK c) buf = nulterminate n c buf"

text \<open>The command tree and the buffer it points into.\<close>

definition parsecmd :: "string \<Rightarrow> (token cmd \<times> char list) pres" where
  "parsecmd s = pbind (parse_tree s) (\<lambda>c r. Done (c, nulterminate (length s) c (s @ [NUL])) r)"

section \<open>Reading a command line\<close>

definition getcmd :: "('s \<Rightarrow> (int \<times> char) \<times> 's) \<Rightarrow> char list \<Rightarrow> 's \<Rightarrow> int \<times> char list \<times> 's" where
  "getcmd rd buf s =
     (let (buf, s') = gets rd (replicate (length buf) NUL) (int (length buf)) s in
      (if char_at buf 0 = NUL then -1 else 0, buf, s'))"

end
