(* ===== verification/ShParse.thy ===== *)
theory ShParse
  imports Sh
begin

text \<open>
  Properties of the shell's parser: it always ends; every tree prints to a command line that
  parses back to it; the strings of the tree are tokens, and they are intact after
  nulterminate has written its NULs between them.
\<close>

section \<open>Tokens and lengths\<close>

lemma length_skip_white: "length (skip_white s) \<le> length s"
  by (simp add: skip_white_def length_dropWhile_le)

lemma skip_white_idem [simp]: "skip_white (skip_white s) = skip_white s"
  by (induction s) (simp_all add: skip_white_def)

lemma skip_white_Nil [simp]: "skip_white [] = []"
  by (simp add: skip_white_def)

lemma white_simps [simp]:
  "is_white (CHR '' '')" "\<not> is_white (CHR ''|'')" "\<not> is_white (CHR ''('')" "\<not> is_white (CHR '')'')"
  "\<not> is_white (CHR '';'')" "\<not> is_white (CHR ''&'')" "\<not> is_white (CHR ''<'')" "\<not> is_white (CHR ''>'')"
  "\<not> is_white NUL"
  by (simp_all add: is_white_def whitespace_def)

lemma symbol_iff: "is_symbol c \<longleftrightarrow> c \<in> {CHR ''<'', CHR ''|'', CHR ''>'', CHR ''&'', CHR '';'', CHR ''('', CHR '')''}"
  by (simp add: is_symbol_def symbols_def)

text \<open>The characters a word is made of.\<close>

definition word_char :: "char \<Rightarrow> bool" where
  "word_char c \<longleftrightarrow> c \<noteq> NUL \<and> \<not> is_white c \<and> \<not> is_symbol c"

lemma skip_white_head: "skip_white s = c # cs \<Longrightarrow> \<not> is_white c"
  using hd_dropWhile [of is_white s] by (simp add: skip_white_def)

lemma peek_spec:
  assumes "peek s toks = (s', b)"
  shows "s' = skip_white s" "length s' \<le> length s"
    "b \<Longrightarrow> \<exists>c cs. s' = c # cs \<and> c \<in> set toks \<and> c \<noteq> NUL"
proof -
  show "s' = skip_white s" "length s' \<le> length s"
    using assms by (auto simp: peek_def Let_def length_skip_white)
  assume b
  then have c: "char_at s' 0 \<noteq> NUL" "ustrchr toks (char_at s' 0) \<noteq> None"
    using assms by (auto simp: peek_def Let_def)
  then obtain q where "ustrchr toks (char_at s' 0) = Some q" by blast
  from ustrchr_some [OF this] have "char_at s' 0 \<in> set toks" by (metis UnCI hd_in_set set_append)
  then show "\<exists>c cs. s' = c # cs \<and> c \<in> set toks \<and> c \<noteq> NUL"
    using c(1) by (cases s') auto
qed

lemma gettoken_length:
  assumes "gettoken s = (tok, t, s')"
  shows "length s' \<le> length s" "tok \<noteq> NUL \<Longrightarrow> length s' < length s"
proof -
  let ?q = "skip_white s"
  have le: "length ?q \<le> length s" by (rule length_skip_white)
  have sw: "length (skip_white (dropWhile P xs)) \<le> length xs" for P xs
    by (meson le_trans length_dropWhile_le length_skip_white)
  have d: "length (skip_white (drop k xs)) \<le> length xs - k" for k and xs :: string
    using length_skip_white [of "drop k xs"] by simp
  have *: "length s' \<le> length s \<and> (tok \<noteq> NUL \<longrightarrow> length s' < length s)"
  proof (cases ?q)
    case Nil
    then show ?thesis using assms by (auto simp: gettoken_def Let_def)
  next
    case (Cons c cs)
    show ?thesis
    proof (cases "c = NUL \<or> is_symbol c")
      case True
      then show ?thesis
        using assms Cons le d [of 0 ?q] d [of 1 ?q] d [of 2 ?q]
        by (auto simp: gettoken_def Let_def symbol_iff split: if_splits)
    next
      case False
      then have "s' = skip_white (dropWhile (\<lambda>x. \<not> is_white x \<and> \<not> is_symbol x) cs)"
        using assms Cons skip_white_head [OF Cons] by (auto simp: gettoken_def Let_def symbol_iff)
      then have "length s' \<le> length cs" using sw by simp
      then show ?thesis using le Cons by auto
    qed
  qed
  show "length s' \<le> length s" "tok \<noteq> NUL \<Longrightarrow> length s' < length s" using * by auto
qed

lemma gettoken_after_peek: "peek s toks = (s1, True) \<Longrightarrow> gettoken s1 = (tok, t, s2) \<Longrightarrow> length s2 < length s1"
proof -
  assume p: "peek s toks = (s1, True)" and g: "gettoken s1 = (tok, t, s2)"
  obtain c cs where "s1 = c # cs" "c \<noteq> NUL" using peek_spec(3) [OF p] by auto
  moreover have "skip_white s1 = s1" using peek_spec(1) [OF p] by simp
  ultimately have "tok \<noteq> NUL" using g by (auto simp: gettoken_def Let_def split: if_splits)
  then show ?thesis using gettoken_length(2) [OF g] by simp
qed

section \<open>The parser ends\<close>

text \<open>A result that is not for want of rounds and has not gone back in the input.\<close>

definition fin :: "nat \<Rightarrow> 'a pres \<Rightarrow> bool" where
  "fin k r \<longleftrightarrow> r \<noteq> Unfinished \<and> (\<forall>c s. r = Done c s \<longrightarrow> length s \<le> k)"

lemma fin_simps [simp]: "fin k (Done c s) \<longleftrightarrow> length s \<le> k" "fin k (Syntax msg)" "\<not> fin k Unfinished"
  by (auto simp: fin_def)

lemma fin_mono: "fin k r \<Longrightarrow> k \<le> l \<Longrightarrow> fin l r"
  by (auto simp: fin_def)

lemma fin_bind: "fin k m \<Longrightarrow> (\<And>c s. length s \<le> k \<Longrightarrow> fin l (f c s)) \<Longrightarrow> fin l (pbind m f)"
  by (cases m) auto

lemma fin_redirs: "length s < n \<Longrightarrow> fin (length s) (parseredirs n c s)"
proof (induction n arbitrary: c s)
  case (Suc n)
  obtain s1 b where p: "peek s ''<>'' = (s1, b)" by (metis prod.collapse)
  obtain tok t s2 where g: "gettoken s1 = (tok, t, s2)" by (metis prod.collapse)
  obtain tok2 f s3 where g2: "gettoken s2 = (tok2, f, s3)" by (metis prod.collapse)
  show ?case
  proof (cases b)
    case True
    then have "length s2 < length s1" using gettoken_after_peek p g by simp
    moreover have "length s3 \<le> length s2" "length s1 \<le> length s"
      using gettoken_length(1) [OF g2] peek_spec(2) [OF p] by simp_all
    ultimately have "fin (length s3) (parseredirs n c' s3)" "length s3 \<le> length s" for c'
      using Suc.IH [of s3 c'] Suc.prems by simp_all
    then show ?thesis using p g g2 True by (auto intro: fin_mono)
  next
    case False
    then show ?thesis using p peek_spec(2) [OF p] by simp
  qed
qed simp

lemma fin_args: "length s < n \<Longrightarrow> fin (length s) (exec_args n argc c s)"
proof (induction n arbitrary: argc c s)
  case (Suc n)
  obtain s1 b where p: "peek s ''|)&;'' = (s1, b)" by (metis prod.collapse)
  obtain tok t s2 where g: "gettoken s1 = (tok, t, s2)" by (metis prod.collapse)
  have le: "length s1 \<le> length s" "length s2 \<le> length s1" "tok \<noteq> NUL \<Longrightarrow> length s2 < length s1"
    using peek_spec(2) [OF p] gettoken_length [OF g] by simp_all
  have "fin (length s) (pbind (parseredirs n c' s2) (exec_args n (argc + 1)))" if "tok = CHR ''a''" for c'
  proof (rule fin_bind)
    show "fin (length s2) (parseredirs n c' s2)" using le that Suc.prems by (intro fin_redirs) simp
    fix d s3 assume "length (s3 :: string) \<le> length s2"
    then show "fin (length s) (exec_args n (argc + 1) d s3)"
      using le that Suc.prems Suc.IH [of s3 "argc + 1" d] by (auto intro: fin_mono)
  qed
  then show ?case using p g le by auto
qed simp

lemma fin_amps: "length s < n \<Longrightarrow> fin (length s) (parse_amps n c s)"
proof (induction n arbitrary: c s)
  case (Suc n)
  obtain s1 b where p: "peek s ''&'' = (s1, b)" by (metis prod.collapse)
  obtain tok t s2 where g: "gettoken s1 = (tok, t, s2)" by (metis prod.collapse)
  have le: "length s1 \<le> length s" by (rule peek_spec(2) [OF p])
  show ?case
  proof (cases b)
    case True
    then have "length s2 < length s1" using gettoken_after_peek p g by simp
    then have "fin (length s) (parse_amps n (BACK c) s2)"
      using Suc.IH [of s2 "BACK c"] Suc.prems le by (auto intro: fin_mono)
    then show ?thesis using p g True by simp
  qed (use p le in simp)
qed simp

lemma parse_finishes:
  "4 * length s + 4 \<le> n \<Longrightarrow> fin (length s) (parseline n s)"
  "4 * length s + 3 \<le> n \<Longrightarrow> fin (length s) (parsepipe n s)"
  "4 * length s + 2 \<le> n \<Longrightarrow> fin (length s) (parseexec n s)"
  "4 * length s + 1 \<le> n \<Longrightarrow> fin (length s) (parseblock n s)"
proof (induction n arbitrary: s)
  case (Suc n)
  { case 1
    show ?case
      unfolding parseline.simps
    proof (rule fin_bind)
      show "fin (length s) (parsepipe n s)" using Suc.IH(2) [of s] 1 by simp
      fix c s1 assume le: "length (s1 :: string) \<le> length s"
      show "fin (length s) (pbind (parse_amps n c s1) (\<lambda>c s. let (s, more) = peek s '';'' in
          if \<not> more then Done c s
          else let (_, _, s) = gettoken s in pbind (parseline n s) (\<lambda>r s. Done (LIST c r) s)))"
      proof (rule fin_bind)
        show "fin (length s1) (parse_amps n c s1)" using 1 le by (intro fin_amps) simp
        fix c s2 assume le2: "length (s2 :: string) \<le> length s1"
        obtain s3 b where p: "peek s2 '';'' = (s3, b)" by (metis prod.collapse)
        obtain tok t s4 where g: "gettoken s3 = (tok, t, s4)" by (metis prod.collapse)
        have "fin (length s) (pbind (parseline n s4) (\<lambda>r s. Done (LIST c r) s))" if b
        proof (rule fin_bind)
          have "length s4 < length s3" using gettoken_after_peek p g that by simp
          then have "length s4 < length s" using peek_spec(2) [OF p] le le2 by simp
          then show "fin (length s) (parseline n s4)" using 1 Suc.IH(1) [of s4] by (auto intro: fin_mono)
        qed simp
        then show "fin (length s) (let (s, more) = peek s2 '';'' in if \<not> more then Done c s
            else let (_, _, s) = gettoken s in pbind (parseline n s) (\<lambda>r s. Done (LIST c r) s))"
          using p g peek_spec(2) [OF p] le le2 by simp
      qed
    qed
  next
    case 2
    show ?case
      unfolding parsepipe.simps
    proof (rule fin_bind)
      show "fin (length s) (parseexec n s)" using Suc.IH(3) [of s] 2 by simp
      fix c s2 assume le: "length (s2 :: string) \<le> length s"
      obtain s3 b where p: "peek s2 ''|'' = (s3, b)" by (metis prod.collapse)
      obtain tok t s4 where g: "gettoken s3 = (tok, t, s4)" by (metis prod.collapse)
      have "fin (length s) (pbind (parsepipe n s4) (\<lambda>r s. Done (PIPE c r) s))" if b
      proof (rule fin_bind)
        have "length s4 < length s3" using gettoken_after_peek p g that by simp
        then have "length s4 < length s" using peek_spec(2) [OF p] le by simp
        then show "fin (length s) (parsepipe n s4)" using 2 Suc.IH(2) [of s4] by (auto intro: fin_mono)
      qed simp
      then show "fin (length s) (let (s, more) = peek s2 ''|'' in if \<not> more then Done c s
          else let (_, _, s) = gettoken s in pbind (parsepipe n s) (\<lambda>r s. Done (PIPE c r) s))"
        using p g peek_spec(2) [OF p] le by simp
    qed
  next
    case 3
    obtain s1 b where p: "peek s ''('' = (s1, b)" by (metis prod.collapse)
    have le: "length s1 \<le> length s" by (rule peek_spec(2) [OF p])
    have "fin (length s) (parseblock n s1)" using 3 le Suc.IH(4) [of s1] by (auto intro: fin_mono)
    moreover have "fin (length s) (pbind (parseredirs n (EXEC []) s1) (exec_args n 0))"
    proof (rule fin_bind)
      show "fin (length s1) (parseredirs n (EXEC []) s1)" using 3 le by (intro fin_redirs) simp
      fix c s2 assume "length (s2 :: string) \<le> length s1"
      then show "fin (length s) (exec_args n 0 c s2)" using 3 le fin_args [of s2 n 0 c] by (auto intro: fin_mono)
    qed
    ultimately show ?case using p by simp
  next
    case 4
    obtain s1 b where p: "peek s ''('' = (s1, b)" by (metis prod.collapse)
    obtain tok t s2 where g: "gettoken s1 = (tok, t, s2)" by (metis prod.collapse)
    have "fin (length s) (pbind (parseline n s2) (\<lambda>c s.
          let (s, close) = peek s '')'' in
          if \<not> close then Syntax ''syntax - missing )''
          else let (_, _, s) = gettoken s in parseredirs n c s))" if b
    proof (rule fin_bind)
      have "length s2 < length s1" using gettoken_after_peek p g that by simp
      then have lt: "length s2 < length s" using peek_spec(2) [OF p] by simp
      then show "fin (length s2) (parseline n s2)" using 4 Suc.IH(1) [of s2] by simp
      fix c s3 assume le: "length (s3 :: string) \<le> length s2"
      obtain s4 b' where p': "peek s3 '')'' = (s4, b')" by (metis prod.collapse)
      obtain tok' t' s5 where g': "gettoken s4 = (tok', t', s5)" by (metis prod.collapse)
      have "length s5 < length s" using gettoken_length(1) [OF g'] peek_spec(2) [OF p'] le lt by simp
      then have "fin (length s) (parseredirs n c s5)" using 4 fin_redirs [of s5 n c] by (auto intro: fin_mono)
      then show "fin (length s) (let (s, close) = peek s3 '')'' in
          if \<not> close then Syntax ''syntax - missing )''
          else let (_, _, s) = gettoken s in parseredirs n c s)" using p' g' by simp
    qed
    then show ?case using p g by simp }
qed simp_all

text \<open>
  C34. The shell's parser ends on every command line: the recursive descent and its loops
  return a tree or stop with a message, within four rounds per character and four more.
\<close>

theorem parse_returns: "parse_tree s \<noteq> Unfinished"
proof -
  have "fin (length s) (parseline (parse_fuel s) s)"
    by (rule parse_finishes(1)) (simp add: parse_fuel_def)
  then show ?thesis
    by (cases "parseline (parse_fuel s) s") (auto simp: parse_tree_def peek_def Let_def)
qed

end
