(* ===== verification/ShPrint.thy ===== *)
theory ShPrint
  imports ShParse
begin

text \<open>
  Printing a command tree as a command line and parsing it back. Every tree with proper
  words can be printed: what a level of the grammar cannot hold goes into parentheses.
\<close>

section \<open>Well-formed trees and their command lines\<close>

definition tok_text :: "token \<Rightarrow> string" where
  "tok_text t = take (length (fst t) - length (snd t)) (fst t)"

abbreviation texts :: "token cmd \<Rightarrow> string cmd" where "texts \<equiv> map_cmd tok_text"

definition word :: "string \<Rightarrow> bool" where
  "word w \<longleftrightarrow> w \<noteq> [] \<and> (\<forall>c \<in> set w. word_char c)"

text \<open>The three redirections: operator, mode and descriptor.\<close>

definition redir_op :: "int \<Rightarrow> string" where
  "redir_op m = (if m = uint O_RDONLY then ''< '' else if m = uint (O_WRONLY OR O_CREATE OR O_TRUNC) then ''> '' else ''>> '')"

definition redir_ok :: "int \<Rightarrow> int \<Rightarrow> bool" where
  "redir_ok m fd \<longleftrightarrow> (m = uint O_RDONLY \<and> fd = 0) \<or>
     (m = uint (O_WRONLY OR O_CREATE OR O_TRUNC) \<and> fd = 1) \<or> (m = uint (O_WRONLY OR O_CREATE) \<and> fd = 1)"

primrec valid :: "string cmd \<Rightarrow> bool" where
  "valid (EXEC ws) \<longleftrightarrow> length ws < sh_MAXARGS \<and> (\<forall>w \<in> set ws. word w)"
| "valid (REDIR c f m fd) \<longleftrightarrow> valid c \<and> word f \<and> redir_ok m fd"
| "valid (PIPE l r) \<longleftrightarrow> valid l \<and> valid r"
| "valid (LIST l r) \<longleftrightarrow> valid l \<and> valid r"
| "valid (BACK c) \<longleftrightarrow> valid c"

definition show_words :: "string list \<Rightarrow> string" where
  "show_words ws = concat (map (\<lambda>w. w @ '' '') ws)"

definition show_redir :: "string \<times> int \<times> int \<Rightarrow> string" where
  "show_redir r = redir_op (fst (snd r)) @ fst r @ '' ''"

text \<open>The text of a tree at the four levels of the grammar: line, background, pipe, exec.\<close>

record shown =
  sline :: string
  sback :: string
  spipe :: string
  sexec :: string

definition in_block :: "string \<Rightarrow> string" where "in_block t = ''( '' @ t @ '') ''"

primrec showing :: "string cmd \<Rightarrow> shown" where
  "showing (EXEC ws) = (let e = show_words ws in \<lparr>sline = e, sback = e, spipe = e, sexec = e\<rparr>)"
| "showing (REDIR c f m fd) = (let e = sexec (showing c) @ show_redir (f, m, fd) in
     \<lparr>sline = e, sback = e, spipe = e, sexec = e\<rparr>)"
| "showing (PIPE l r) = (let p = sexec (showing l) @ ''| '' @ spipe (showing r) in
     \<lparr>sline = p, sback = p, spipe = p, sexec = in_block p\<rparr>)"
| "showing (LIST l r) = (let t = sback (showing l) @ ''; '' @ sline (showing r); b = in_block t in
     \<lparr>sline = t, sback = b, spipe = b, sexec = b\<rparr>)"
| "showing (BACK c) = (let k = sback (showing c) @ ''& ''; b = in_block k in
     \<lparr>sline = k, sback = k, spipe = b, sexec = b\<rparr>)"

definition show_cmd :: "string cmd \<Rightarrow> string" where "show_cmd t = sline (showing t)"

section \<open>White space before a token does not matter\<close>

lemma peek_eval: "NUL \<notin> set toks \<Longrightarrow>
    peek s toks = (skip_white s, skip_white s \<noteq> [] \<and> hd (skip_white s) \<noteq> NUL \<and> hd (skip_white s) \<in> set toks)"
proof -
  assume "NUL \<notin> set toks"
  then have "cstr toks = toks" using cstr_append_NUL [of toks "[]"] by (simp add: cstr_def takeWhile_eq_all_conv) (metis takeWhile_eq_all_conv)
  then show ?thesis
    by (cases "skip_white s") (auto simp: peek_def Let_def ustrchr_none)
qed

lemma peek_skip [simp]: "peek (skip_white s) toks = peek s toks"
  by (simp add: peek_def)

lemma parse_skip [simp]:
  "parseredirs n c (skip_white s) = parseredirs n c s" "exec_args n k c (skip_white s) = exec_args n k c s"
  "parse_amps n c (skip_white s) = parse_amps n c s" "parseexec n (skip_white s) = parseexec n s"
  by (cases n; simp)+

lemma parsepipe_skip [simp]: "parsepipe n (skip_white s) = parsepipe n s"
  by (cases n) simp_all

lemma parseline_skip [simp]: "parseline n (skip_white s) = parseline n s"
  by (cases n) simp_all

lemma skip_white_simps [simp]:
  "\<not> is_white c \<Longrightarrow> skip_white (c # cs) = c # cs" "skip_white (CHR '' '' # cs) = skip_white cs"
  by (simp_all add: skip_white_def)

lemma gettoken_symbol [simp]:
  "c \<in> {CHR ''|'', CHR ''('', CHR '')'', CHR '';'', CHR ''&'', CHR ''<''} \<Longrightarrow>
   gettoken (c # cs) = (c, (c # cs, cs), skip_white cs)"
  by (auto simp: gettoken_def Let_def)

lemma gettoken_right:
  "gettoken (CHR ''>'' # CHR '' '' # cs) = (CHR ''>'', (CHR ''>'' # CHR '' '' # cs, CHR '' '' # cs), skip_white cs)"
  "gettoken (CHR ''>'' # CHR ''>'' # cs) = (CHR ''+'', (CHR ''>'' # CHR ''>'' # cs, cs), skip_white cs)"
  by (simp_all add: gettoken_def Let_def)

lemma gettoken_skip [simp]: "gettoken (skip_white s) = gettoken s"
  by (simp add: gettoken_def)

lemma gettoken_word:
  assumes "word w" and "r = [] \<or> \<not> word_char (hd r)" and "NUL \<notin> set r"
  shows "gettoken (w @ r) = (CHR ''a'', (w @ r, r), skip_white r)" and "tok_text (w @ r, r) = w"
proof -
  obtain c cs where w: "w = c # cs" using assms(1) by (cases w) (auto simp: word_def)
  have c: "c \<noteq> NUL" "\<not> is_white c" "\<not> is_symbol c" using assms(1) w by (simp_all add: word_def word_char_def)
  have "dropWhile (\<lambda>x. \<not> is_white x \<and> \<not> is_symbol x) (w @ r) = dropWhile (\<lambda>x. \<not> is_white x \<and> \<not> is_symbol x) r"
    using assms(1) by (intro dropWhile_append2) (simp add: word_def word_char_def)
  also have "\<dots> = r" using assms(2,3) by (cases r) (auto simp: word_char_def)
  finally show "gettoken (w @ r) = (CHR ''a'', (w @ r, r), skip_white r)"
    using c w by (auto simp: gettoken_def Let_def symbol_iff)
  show "tok_text (w @ r, r) = w" by (simp add: tok_text_def)
qed

lemma word_head: "word w \<Longrightarrow> \<exists>c cs. w = c # cs \<and> word_char c"
  by (cases w) (auto simp: word_def)

lemma word_char_not: "word_char c \<Longrightarrow> c \<notin> {CHR ''<'', CHR ''|'', CHR ''>'', CHR ''&'', CHR '';'', CHR ''('', CHR '')''} \<and> \<not> is_white c \<and> c \<noteq> NUL"
  by (auto simp: word_char_def symbol_iff)

lemma skip_word [simp]: "word w \<Longrightarrow> skip_white (w @ r) = w @ r"
  using word_head [of w] by (auto dest: word_char_not)

section \<open>Each printed piece parses back\<close>

text \<open>What follows the piece, white space aside, is the end or one of the characters given.\<close>

definition follows :: "string \<Rightarrow> string \<Rightarrow> bool" where
  "follows cs r \<longleftrightarrow> NUL \<notin> set r \<and> (skip_white r = [] \<or> hd (skip_white r) \<in> set cs)"

definition parsed :: "token cmd pres \<Rightarrow> string cmd \<Rightarrow> string \<Rightarrow> bool" where
  "parsed res t r \<longleftrightarrow> res = Unfinished \<or> (\<exists>c. res = Done c (skip_white r) \<and> texts c = t)"

lemma parsed_bind:
  assumes "parsed m t r" and "\<And>c. texts c = t \<Longrightarrow> parsed (f c (skip_white r)) t' r'"
  shows "parsed (pbind m f) t' r'"
  using assms unfolding parsed_def by (cases m) auto

definition add_redirs :: "'t cmd \<Rightarrow> ('t \<times> int \<times> int) list \<Rightarrow> 't cmd" where
  "add_redirs c rs = foldl (\<lambda>c r. REDIR c (fst r) (fst (snd r)) (snd (snd r))) c rs"

lemma add_redirs_simps [simp]:
  "add_redirs c [] = c" "add_redirs c (r # rs) = add_redirs (REDIR c (fst r) (fst (snd r)) (snd (snd r))) rs"
  "add_redirs c (rs @ [(f, m, fd)]) = REDIR (add_redirs c rs) f m fd"
  by (simp_all add: add_redirs_def)

definition show_redirs :: "(string \<times> int \<times> int) list \<Rightarrow> string" where
  "show_redirs rs = concat (map show_redir rs)"

lemma modes_distinct:
  "uint O_RDONLY \<noteq> uint (O_WRONLY OR O_CREATE OR O_TRUNC)" "uint O_RDONLY \<noteq> uint (O_WRONLY OR O_CREATE)"
  "uint (O_WRONLY OR O_CREATE) \<noteq> uint (O_WRONLY OR O_CREATE OR O_TRUNC)"
  by (simp_all add: O_RDONLY_def O_WRONLY_def O_CREATE_def O_TRUNC_def)

lemma NUL_word: "word w \<Longrightarrow> NUL \<notin> set w"
  by (auto simp: word_def word_char_def)

lemma NUL_show_redirs: "\<forall>x \<in> set rs. word (fst x) \<Longrightarrow> NUL \<notin> set (show_redirs rs)"
  by (induction rs) (auto simp: show_redirs_def show_redir_def redir_op_def NUL_word)

lemma redirs_run:
  "\<forall>x \<in> set rs. word (fst x) \<and> redir_ok (fst (snd x)) (snd (snd x)) \<Longrightarrow> follows ''|)&;'' r \<Longrightarrow>
   parsed (parseredirs n c (show_redirs rs @ r)) (add_redirs (texts c) rs) r"
proof (induction n arbitrary: rs c)
  case 0
  then show ?case by (simp add: parsed_def)
next
  case (Suc n)
  show ?case
  proof (cases rs)
    case Nil
    then show ?thesis using Suc.prems by (auto simp: peek_eval parsed_def follows_def show_redirs_def)
  next
    case (Cons x rs')
    obtain f m fd where x: "x = (f, m, fd)" by (cases x)
    have f: "word f" "redir_ok m fd" using Suc.prems Cons x by simp_all
    let ?r = "'' '' @ show_redirs rs' @ r"
    have nul: "NUL \<notin> set ?r" using Suc.prems Cons by (simp add: follows_def NUL_show_redirs)
    have tok: "gettoken (f @ ?r) = (CHR ''a'', (f @ ?r, ?r), skip_white ?r)" "tok_text (f @ ?r, ?r) = f"
      by (rule gettoken_word [OF f(1) _ nul], simp add: word_char_def)+
    have "parsed (parseredirs n (REDIR c (f @ ?r, ?r) m fd) (show_redirs rs' @ r))
        (add_redirs (texts (REDIR c (f @ ?r, ?r) m fd)) rs') r"
      using Suc.prems Cons by (intro Suc.IH) simp_all
    then have IH: "parsed (parseredirs n (REDIR c (f @ ?r, ?r) m fd) (skip_white ?r)) (add_redirs (texts c) rs) r"
      using Cons x tok(2) by simp
    have s: "show_redirs rs @ r = redir_op m @ f @ ?r"
      using Cons x by (simp add: show_redirs_def show_redir_def)
    have fs: "gettoken (skip_white (f @ t)) = gettoken (f @ t)" for t by simp
    consider "m = uint O_RDONLY" "fd = 0" | "m = uint (O_WRONLY OR O_CREATE OR O_TRUNC)" "fd = 1"
      | "m = uint (O_WRONLY OR O_CREATE)" "fd = 1" using f(2) by (auto simp: redir_ok_def)
    then show ?thesis
    proof cases
      case 1
      then show ?thesis using IH tok(1) unfolding s by (simp add: redir_op_def peek_eval)
    next
      case 2
      then show ?thesis
        using IH tok(1) modes_distinct unfolding s by (simp add: redir_op_def peek_eval gettoken_right)
    next
      case 3
      then show ?thesis
        using IH tok(1) modes_distinct unfolding s by (simp add: redir_op_def peek_eval gettoken_right)
    qed
  qed
qed

lemma texts_add_arg: "texts (add_arg t c) = add_arg (tok_text t) (texts c)"
  by (induction t c rule: add_arg.induct) simp_all

lemma NUL_show_words: "\<forall>w \<in> set ws. word w \<Longrightarrow> NUL \<notin> set (show_words ws)"
  by (induction ws) (auto simp: show_words_def NUL_word)

lemma follows_mono: "follows cs r \<Longrightarrow> set cs \<subseteq> set ds \<Longrightarrow> follows ds r"
  by (auto simp: follows_def)

text \<open>A run of words, of which the last may be followed by redirections.\<close>

lemma args_end:
  assumes "follows ''|)&;'' r"
  shows "parsed (exec_args n k c r) (texts c) r"
  using assms by (cases n; cases "skip_white r")
    (auto simp: parsed_def follows_def peek_eval gettoken_def Let_def dest: arg_cong [of _ _ skip_white])

lemma args_end_texts: "texts c = t \<Longrightarrow> follows ''|)&;'' r \<Longrightarrow> parsed (exec_args n k c (skip_white r)) t r"
  using args_end by auto

lemma args_run:
  "\<forall>w \<in> set ws. word w \<Longrightarrow> \<forall>x \<in> set rs. word (fst x) \<and> redir_ok (fst (snd x)) (snd (snd x)) \<Longrightarrow>
   ws \<noteq> [] \<or> rs = [] \<Longrightarrow> k + length ws < sh_MAXARGS \<Longrightarrow> follows ''|)&;'' r \<Longrightarrow>
   parsed (exec_args n k c (show_words ws @ show_redirs rs @ r)) (add_redirs (fold add_arg ws (texts c)) rs) r"
proof (induction ws arbitrary: n k c)
  case Nil
  then show ?case using args_end [of r n k c] by (simp add: show_words_def show_redirs_def)
next
  case (Cons w ws)
  show ?case
  proof (cases n)
    case 0
    then show ?thesis by (simp add: parsed_def)
  next
    case (Suc m)
    let ?t = "show_words ws @ show_redirs rs @ r" and ?r = "'' '' @ show_words ws @ show_redirs rs @ r"
    have w: "word w" using Cons.prems by simp
    obtain x xs where x: "w = x # xs" "word_char x" using word_head [OF w] by blast
    note xn = word_char_not [OF x(2)]
    have "NUL \<notin> set ?r"
      using Cons.prems by (simp add: follows_def NUL_show_redirs NUL_show_words)
    then have tok: "gettoken (w @ ?r) = (CHR ''a'', (w @ ?r, ?r), skip_white ?r)" "tok_text (w @ ?r, ?r) = w"
      using gettoken_word [OF w, of ?r] by (simp_all add: word_char_def)
    have s: "show_words (w # ws) @ show_redirs rs @ r = w @ ?r" by (simp add: show_words_def)
    let ?c = "add_arg (w @ ?r, ?r) c"
    have c: "texts ?c = add_arg w (texts c)" using tok(2) by (simp add: texts_add_arg)
    have "parsed (pbind (parseredirs m ?c ?t) (exec_args m (k + 1))) (add_redirs (fold add_arg (w # ws) (texts c)) rs) r"
    proof (cases "ws = []")
      case True
      have "?t = show_redirs rs @ r" using True by (simp add: show_words_def)
      then have "parsed (parseredirs m ?c ?t) (add_redirs (texts ?c) rs) r"
        using redirs_run [OF Cons.prems(2,5), of m ?c] by argo
      then show ?thesis
        unfolding c using True by (intro parsed_bind [where r = r and t = "add_redirs (add_arg w (texts c)) rs"]
            args_end_texts Cons.prems(5)) simp_all
    next
      case False
      then obtain v vs where v: "ws = v # vs" "word v" using Cons.prems by (cases ws) auto
      obtain y ys where y: "v = y # ys" "word_char y" using word_head [OF v(2)] by blast
      have "skip_white ?t = ?t" using v(2) unfolding v(1) by (simp add: show_words_def)
      moreover have "hd ?t = y" "?t \<noteq> []" using v(1) y(1) by (simp_all add: show_words_def)
      ultimately have "parseredirs m ?c ?t = Unfinished \<or> parseredirs m ?c ?t = Done ?c ?t"
        using word_char_not [OF y(2)] by (cases m) (auto simp: peek_eval)
      moreover have "parsed (exec_args m (k + 1) ?c ?t) (add_redirs (fold add_arg ws (texts ?c)) rs) r"
        using Cons.prems False by (intro Cons.IH) simp_all
      ultimately show ?thesis using c by (auto simp: parsed_def)
    qed
    moreover have "k + 1 < sh_MAXARGS" using Cons.prems(4) by simp
    moreover have "pbind (parseredirs m ?c (skip_white ?r)) f = pbind (parseredirs m ?c ?t) f" for f
      by simp
    ultimately show ?thesis
      unfolding s Suc using xn x(1) tok(1) by (simp add: peek_eval del: append_assoc)
  qed
qed

section \<open>The round trip\<close>

text \<open>A tree is a base and the redirections around it.\<close>

primrec base :: "'t cmd \<Rightarrow> 't cmd" where
  "base (EXEC ts) = EXEC ts"
| "base (REDIR c f m fd) = base c"
| "base (PIPE l r) = PIPE l r"
| "base (LIST l r) = LIST l r"
| "base (BACK c) = BACK c"

primrec redirs :: "'t cmd \<Rightarrow> ('t \<times> int \<times> int) list" where
  "redirs (EXEC ts) = []"
| "redirs (REDIR c f m fd) = redirs c @ [(f, m, fd)]"
| "redirs (PIPE l r) = []"
| "redirs (LIST l r) = []"
| "redirs (BACK c) = []"

lemma base_redirs: "add_redirs (base t) (redirs t) = t"
  by (induction t) simp_all

lemma sexec_base: "sexec (showing t) = sexec (showing (base t)) @ show_redirs (redirs t)"
  by (induction t) (simp_all add: show_redirs_def Let_def)

lemma valid_base: "valid t \<Longrightarrow> valid (base t) \<and> (\<forall>x \<in> set (redirs t). word (fst x) \<and> redir_ok (fst (snd x)) (snd (snd x)))"
  by (induction t) auto

lemma size_base: "size (base t) \<le> size t"
  by (induction t) auto

lemma base_not_redir: "base t \<noteq> REDIR c f m fd"
  by (induction t) auto

lemma NUL_showing: "valid t \<Longrightarrow> NUL \<notin> set (sline (showing t)) \<and> NUL \<notin> set (sback (showing t)) \<and>
    NUL \<notin> set (spipe (showing t)) \<and> NUL \<notin> set (sexec (showing t))"
  by (induction t) (auto simp: Let_def in_block_def NUL_show_words NUL_word show_redir_def redir_op_def)

definition line_ok :: "string cmd \<Rightarrow> bool" where
  "line_ok t \<longleftrightarrow> (\<forall>n r. follows '')'' r \<longrightarrow> parsed (parseline n (sline (showing t) @ r)) t r)"

definition back_ok :: "string cmd \<Rightarrow> bool" where
  "back_ok t \<longleftrightarrow> (\<forall>n m r. follows '')&;'' r \<longrightarrow>
     (let res = pbind (parsepipe n (sback (showing t) @ r)) (parse_amps m) in
      res = Unfinished \<or> (\<exists>c k. res = parse_amps k c (skip_white r) \<and> texts c = t)))"

definition pipe_ok :: "string cmd \<Rightarrow> bool" where
  "pipe_ok t \<longleftrightarrow> (\<forall>n r. follows '')&;'' r \<longrightarrow> parsed (parsepipe n (spipe (showing t) @ r)) t r)"

definition exec_ok :: "string cmd \<Rightarrow> bool" where
  "exec_ok t \<longleftrightarrow> (\<forall>n r. follows ''|)&;'' r \<longrightarrow> parsed (parseexec n (sexec (showing t) @ r)) t r)"

lemma followsI: "NUL \<notin> set r \<Longrightarrow> c \<in> set cs \<Longrightarrow> \<not> is_white c \<Longrightarrow> c \<noteq> NUL \<Longrightarrow> follows cs (c # r)"
  by (simp add: follows_def)

lemma pipe_from_exec:
  assumes "spipe (showing t) = sexec (showing t)" and "exec_ok t"
  shows "pipe_ok t"
  unfolding pipe_ok_def
proof (intro allI impI)
  fix n r assume r: "follows '')&;'' r"
  have nb: "\<not> snd (peek r ''|'')" using r by (auto simp: follows_def peek_eval)
  show "parsed (parsepipe n (spipe (showing t) @ r)) t r"
  proof (cases n)
    case (Suc m)
    have "parsed (parseexec m (sexec (showing t) @ r)) t r"
      using assms(2) follows_mono [OF r] by (simp add: exec_ok_def)
    then show ?thesis
      unfolding Suc assms(1) parsepipe.simps
      by (rule parsed_bind) (use nb in \<open>auto simp: peek_eval parsed_def\<close>)
  qed (simp add: parsed_def)
qed

lemma back_from_pipe:
  assumes "sback (showing t) = spipe (showing t)" and "pipe_ok t"
  shows "back_ok t"
  unfolding back_ok_def Let_def
proof (intro allI impI)
  fix n m r assume r: "follows '')&;'' r"
  then have "parsed (parsepipe n (sback (showing t) @ r)) t r"
    using assms by (simp add: pipe_ok_def)
  then show "pbind (parsepipe n (sback (showing t) @ r)) (parse_amps m) = Unfinished \<or>
      (\<exists>c k. pbind (parsepipe n (sback (showing t) @ r)) (parse_amps m) = parse_amps k c (skip_white r) \<and> texts c = t)"
    unfolding parsed_def by (metis pbind.simps(1,3))
qed

lemma amps_end: "follows '');'' r \<Longrightarrow> parsed (parse_amps k c r) (texts c) r"
  by (cases k) (auto simp: parsed_def follows_def peek_eval)

text \<open>Before the end of a line or a semicolon no ampersand is left.\<close>

lemma back_done:
  assumes "back_ok t" and "follows '');'' r"
  shows "parsed (pbind (parsepipe n (sback (showing t) @ r)) (parse_amps m)) t r"
proof -
  have "follows '')&;'' r" by (rule follows_mono [OF assms(2)]) simp
  then have "pbind (parsepipe n (sback (showing t) @ r)) (parse_amps m) = Unfinished \<or>
      (\<exists>c k. pbind (parsepipe n (sback (showing t) @ r)) (parse_amps m) = parse_amps k c (skip_white r) \<and> texts c = t)"
    using assms(1) unfolding back_ok_def Let_def by blast
  then show ?thesis
  proof
    assume "\<exists>c k. pbind (parsepipe n (sback (showing t) @ r)) (parse_amps m) = parse_amps k c (skip_white r) \<and> texts c = t"
    then obtain c k where "pbind (parsepipe n (sback (showing t) @ r)) (parse_amps m) = parse_amps k c r"
      and "texts c = t" by auto
    then show ?thesis using amps_end [OF assms(2), of k c] by simp
  qed (simp add: parsed_def)
qed

lemma pbind_assoc: "pbind (pbind m f) g = pbind m (\<lambda>c s. pbind (f c s) g)"
  by (cases m) simp_all

lemma line_from_back:
  assumes "sline (showing t) = sback (showing t)" and "back_ok t"
  shows "line_ok t"
  unfolding line_ok_def
proof (intro allI impI)
  fix n r assume r: "follows '')'' r"
  have nb: "\<not> snd (peek r '';'')" using r by (auto simp: follows_def peek_eval)
  show "parsed (parseline n (sline (showing t) @ r)) t r"
  proof (cases n)
    case (Suc m)
    have "parsed (pbind (parsepipe m (sback (showing t) @ r)) (parse_amps m)) t r"
      using back_done [OF assms(2)] follows_mono [OF r] by simp
    then show ?thesis
      unfolding Suc assms(1) parseline.simps pbind_assoc [symmetric]
      by (rule parsed_bind) (use nb in \<open>auto simp: peek_eval parsed_def\<close>)
  qed (simp add: parsed_def)
qed

text \<open>A block with its redirections.\<close>

lemma exec_from_block:
  assumes base: "sexec (showing (base t)) = in_block (sline (showing (base t)))"
    and ok: "line_ok (base t)" and v: "valid t"
  shows "exec_ok t"
  unfolding exec_ok_def
proof (intro allI impI)
  fix n r assume r: "follows ''|)&;'' r"
  let ?rs = "show_redirs (redirs t) @ r"
  let ?l = "sline (showing (base t))"
  have vb: "valid (base t)" "\<forall>x \<in> set (redirs t). word (fst x) \<and> redir_ok (fst (snd x)) (snd (snd x))"
    using valid_base [OF v] by simp_all
  have nul: "NUL \<notin> set ?rs" using r vb(2) by (simp add: follows_def NUL_show_redirs)
  have s: "sexec (showing t) @ r = ''( '' @ ?l @ '') '' @ ?rs"
    by (subst sexec_base) (simp add: base in_block_def)
  have fol: "follows '')'' ('') '' @ ?rs)" using nul by (simp add: follows_def)
  show "parsed (parseexec n (sexec (showing t) @ r)) t r"
  proof (cases n)
    case (Suc m)
    show ?thesis
    proof (cases m)
      case (Suc k)
      have "parsed (pbind (parseline k (?l @ '') '' @ ?rs)) (\<lambda>c s.
          let (s, close) = peek s '')'' in
          if \<not> close then Syntax ''syntax - missing )''
          else let (_, _, s) = gettoken s in parseredirs k c s)) t r"
      proof (rule parsed_bind)
        show "parsed (parseline k (?l @ '') '' @ ?rs)) (base t) ('') '' @ ?rs)"
          using ok fol unfolding line_ok_def by blast
        fix c assume c: "texts c = base t"
        have "parsed (parseredirs k c ?rs) (add_redirs (texts c) (redirs t)) r"
          by (rule redirs_run [OF vb(2) r])
        then show "parsed (let (s, close) = peek (skip_white ('') '' @ ?rs)) '')'' in
            if \<not> close then Syntax ''syntax - missing )''
            else let (_, _, s) = gettoken s in parseredirs k c s) t r"
          unfolding c base_redirs by (simp add: peek_eval)
      qed
      moreover have "parseexec n (sexec (showing t) @ r) = parseblock m (sexec (showing t) @ r)"
        unfolding s \<open>n = Suc m\<close> by (simp add: peek_eval)
      moreover have "parseblock m (sexec (showing t) @ r) = pbind (parseline k (?l @ '') '' @ ?rs)) (\<lambda>c s.
          let (s, close) = peek s '')'' in
          if \<not> close then Syntax ''syntax - missing )''
          else let (_, _, s) = gettoken s in parseredirs k c s)"
        unfolding s \<open>m = Suc k\<close> by (simp add: peek_eval)
      ultimately show ?thesis by argo
    next
      case 0
      then show ?thesis unfolding s \<open>n = Suc m\<close> by (simp add: peek_eval parsed_def)
    qed
  qed (simp add: parsed_def)
qed

lemma exec_from_words:
  assumes "base t = EXEC ws" and v: "valid t"
  shows "exec_ok t"
  unfolding exec_ok_def
proof (intro allI impI)
  fix n r assume r: "follows ''|)&;'' r"
  have vb: "length ws < sh_MAXARGS" "\<forall>w \<in> set ws. word w"
    "\<forall>x \<in> set (redirs t). word (fst x) \<and> redir_ok (fst (snd x)) (snd (snd x))"
    using valid_base [OF v] assms(1) by simp_all
  let ?s = "show_words ws @ show_redirs (redirs t) @ r"
  have s: "sexec (showing t) @ r = ?s"
    by (subst sexec_base) (simp add: assms(1) Let_def)
  have t: "add_redirs (EXEC ws) (redirs t) = t" using base_redirs [of t] assms(1) by simp
  have fe: "fold add_arg ws (EXEC vs) = EXEC (vs @ ws)" for vs :: "string list"
    by (induction ws arbitrary: vs) simp_all
  show "parsed (parseexec n (sexec (showing t) @ r)) t r"
  proof (cases n)
    case (Suc m)
    have run: "parsed (pbind (parseredirs m (EXEC []) ?s) (exec_args m 0)) t r"
    proof (cases "ws = []")
      case True
      have "parsed (parseredirs m (EXEC []) ?s) (add_redirs (texts (EXEC [])) (redirs t)) r"
        using redirs_run [OF vb(3) r, of m "EXEC []"] True by (simp add: show_words_def)
      then show ?thesis
        using t True by (intro parsed_bind [where r = r and t = t] args_end_texts r) simp_all
    next
      case False
      then obtain v vs where v: "ws = v # vs" "word v" using vb by (cases ws) auto
      obtain y ys where y: "v = y # ys" "word_char y" using word_head [OF v(2)] by blast
      have "skip_white ?s = ?s" using v(2) unfolding v(1) by (simp add: show_words_def)
      moreover have "hd ?s = y" "?s \<noteq> []" using v(1) y(1) by (simp_all add: show_words_def)
      ultimately have "parseredirs m (EXEC []) ?s = Unfinished \<or> parseredirs m (EXEC []) ?s = Done (EXEC []) ?s"
        using word_char_not [OF y(2)] by (cases m) (auto simp: peek_eval)
      moreover have "parsed (exec_args m 0 (EXEC []) ?s) (add_redirs (fold add_arg ws (texts (EXEC []))) (redirs t)) r"
        using vb r False by (intro args_run) simp_all
      ultimately show ?thesis using t fe [of "[]"] by (auto simp: parsed_def)
    qed
    have nb: "\<not> snd (peek ?s ''('')"
    proof (cases "ws = []")
      case True
      show ?thesis
      proof (cases "redirs t")
        case Nil
        then show ?thesis using True r by (auto simp: show_words_def show_redirs_def peek_eval follows_def)
      next
        case (Cons x xs)
        then show ?thesis
          using True by (simp add: show_words_def show_redirs_def show_redir_def redir_op_def peek_eval)
      qed
    next
      case False
      then obtain v vs where v: "ws = v # vs" "word v" using vb by (cases ws) auto
      obtain y ys where y: "v = y # ys" "word_char y" using word_head [OF v(2)] by blast
      then show ?thesis using v word_char_not [OF y(2)] by (auto simp: show_words_def peek_eval)
    qed
    have "peek ?s ''('' = (skip_white ?s, False)" using nb by (simp add: peek_def Let_def)
    then show ?thesis unfolding Suc s using run by simp
  qed (simp add: parsed_def)
qed

lemma levels_ok: "valid t \<Longrightarrow> exec_ok t \<and> pipe_ok t \<and> back_ok t \<and> line_ok t"
proof (induction "size t" arbitrary: t rule: less_induct)
  case less
  show ?case
  proof (cases t)
    case (EXEC ws)
    then have "exec_ok t" using less.prems by (intro exec_from_words [of t ws]) simp_all
    then show ?thesis
      using EXEC by (simp add: pipe_from_exec back_from_pipe line_from_back Let_def)
  next
    case (REDIR c f m fd)
    have "exec_ok t"
    proof (cases "\<exists>ws. base t = EXEC ws")
      case True
      then show ?thesis using less.prems exec_from_words by blast
    next
      case False
      show ?thesis
      proof (rule exec_from_block)
        show "sexec (showing (base t)) = in_block (sline (showing (base t)))"
          using False base_not_redir [of t] by (cases "base t") (auto simp: Let_def)
        have "size (base t) < size t" using REDIR size_base [of c] by simp
        then show "line_ok (base t)" using less.hyps valid_base [OF less.prems] by blast
      qed (rule less.prems)
    qed
    then show ?thesis
      using REDIR by (simp add: pipe_from_exec back_from_pipe line_from_back Let_def)
  next
    case (PIPE l r)
    have "pipe_ok t"
      unfolding pipe_ok_def
    proof (intro allI impI)
      fix n s assume s: "follows '')&;'' s"
      have l: "exec_ok l" and r: "pipe_ok r" using less PIPE by simp_all
      let ?r = "''| '' @ spipe (showing r) @ s"
      have "NUL \<notin> set ?r" using less.prems PIPE s by (simp add: follows_def NUL_showing)
      then have fol: "follows ''|)&;'' ?r" by (simp add: follows_def)
      show "parsed (parsepipe n (spipe (showing t) @ s)) t s"
      proof (cases n)
        case (Suc m)
        have "parsed (pbind (parseexec m (sexec (showing l) @ ?r)) (\<lambda>c s.
            let (s, more) = peek s ''|'' in
            if \<not> more then Done c s
            else let (_, _, s) = gettoken s in pbind (parsepipe m s) (\<lambda>r s. Done (PIPE c r) s))) t s"
        proof (rule parsed_bind)
          show "parsed (parseexec m (sexec (showing l) @ ?r)) l ?r"
            using l fol unfolding exec_ok_def by blast
          fix c assume "texts c = l"
          then have "parsed (pbind (parsepipe m (spipe (showing r) @ s)) (\<lambda>r s. Done (PIPE c r) s)) t s"
            by (intro parsed_bind [where t = r and r = s])
              (use r s PIPE in \<open>auto simp: pipe_ok_def parsed_def\<close>)
          then show "parsed (let (s, more) = peek (skip_white ?r) ''|'' in
              if \<not> more then Done c s
              else let (_, _, s) = gettoken s in pbind (parsepipe m s) (\<lambda>r s. Done (PIPE c r) s)) t s"
            by (simp add: peek_eval)
        qed
        then show ?thesis unfolding Suc PIPE by (simp add: Let_def)
      qed (simp add: parsed_def)
    qed
    then have b: "back_ok t" "line_ok t"
      using PIPE by (simp_all add: back_from_pipe line_from_back Let_def)
    moreover have "exec_ok t"
      by (rule exec_from_block) (use PIPE b less.prems in \<open>simp_all add: Let_def\<close>)
    ultimately show ?thesis using \<open>pipe_ok t\<close> by blast
  next
    case (LIST l r)
    have "line_ok t"
      unfolding line_ok_def
    proof (intro allI impI)
      fix n s assume s: "follows '')'' s"
      have l: "back_ok l" and r: "line_ok r" using less LIST by simp_all
      let ?r = "''; '' @ sline (showing r) @ s"
      have "NUL \<notin> set ?r" using less.prems LIST s by (simp add: follows_def NUL_showing)
      then have fol: "follows '');'' ?r" by (simp add: follows_def)
      show "parsed (parseline n (sline (showing t) @ s)) t s"
      proof (cases n)
        case (Suc m)
        have "parsed (pbind (pbind (parsepipe m (sback (showing l) @ ?r)) (parse_amps m)) (\<lambda>c s.
            let (s, more) = peek s '';'' in
            if \<not> more then Done c s
            else let (_, _, s) = gettoken s in pbind (parseline m s) (\<lambda>r s. Done (LIST c r) s))) t s"
        proof (rule parsed_bind)
          show "parsed (pbind (parsepipe m (sback (showing l) @ ?r)) (parse_amps m)) l ?r"
            by (rule back_done [OF l fol])
          fix c assume "texts c = l"
          then have "parsed (pbind (parseline m (sline (showing r) @ s)) (\<lambda>r s. Done (LIST c r) s)) t s"
            by (intro parsed_bind [where t = r and r = s])
              (use r s LIST in \<open>auto simp: line_ok_def parsed_def\<close>)
          then show "parsed (let (s, more) = peek (skip_white ?r) '';'' in
              if \<not> more then Done c s
              else let (_, _, s) = gettoken s in pbind (parseline m s) (\<lambda>r s. Done (LIST c r) s)) t s"
            by (simp add: peek_eval)
        qed
        then show ?thesis unfolding Suc LIST pbind_assoc by (simp add: Let_def)
      qed (simp add: parsed_def)
    qed
    moreover have "exec_ok t"
      by (rule exec_from_block) (use LIST \<open>line_ok t\<close> less.prems in \<open>simp_all add: Let_def\<close>)
    ultimately show ?thesis
      using LIST by (simp add: pipe_from_exec back_from_pipe Let_def)
  next
    case (BACK c)
    have c: "back_ok c" using less BACK by simp
    have "back_ok t"
      unfolding back_ok_def Let_def
    proof (intro allI impI)
      fix n m s assume s: "follows '')&;'' s"
      have "follows '')&;'' (''& '' @ s)" using s by (simp add: follows_def)
      then have "pbind (parsepipe n (sback (showing c) @ ''& '' @ s)) (parse_amps m) = Unfinished \<or>
          (\<exists>d k. pbind (parsepipe n (sback (showing c) @ ''& '' @ s)) (parse_amps m) =
            parse_amps k d (skip_white (''& '' @ s)) \<and> texts d = c)"
        using c unfolding back_ok_def Let_def by blast
      moreover have "parse_amps k d (skip_white (''& '' @ s)) = Unfinished \<or>
          (\<exists>j. parse_amps k d (skip_white (''& '' @ s)) = parse_amps j (BACK d) (skip_white s))" for k d
        by (cases k) (auto simp: peek_eval)
      moreover have "sback (showing t) @ s = sback (showing c) @ ''& '' @ s" using BACK by (simp add: Let_def)
      ultimately show "pbind (parsepipe n (sback (showing t) @ s)) (parse_amps m) = Unfinished \<or>
          (\<exists>d k. pbind (parsepipe n (sback (showing t) @ s)) (parse_amps m) = parse_amps k d (skip_white s) \<and> texts d = t)"
        using BACK by (metis cmd.map(5))
    qed
    then have "line_ok t" using BACK by (simp add: line_from_back Let_def)
    moreover have "exec_ok t"
      by (rule exec_from_block) (use BACK \<open>line_ok t\<close> less.prems in \<open>simp_all add: Let_def\<close>)
    ultimately show ?thesis
      using BACK \<open>back_ok t\<close> by (simp add: pipe_from_exec Let_def)
  qed
qed

text \<open>
  C35. The parser is right on every command: each tree of lists, background jobs, pipes,
  redirections and words (of which a command has at most nine) prints to a line from which
  the shell reads the same tree back --- grouping, the order of redirections and the
  binding of |, & and ; included.
\<close>

theorem parse_show:
  assumes "valid t"
  shows "\<exists>c. parse_tree (show_cmd t) = Done c [] \<and> texts c = t"
proof -
  have "parsed (parseline (parse_fuel (show_cmd t)) (show_cmd t @ [])) t []"
  proof -
    have "follows '')'' []" by (simp add: follows_def)
    then show ?thesis using levels_ok [OF assms] unfolding line_ok_def show_cmd_def by blast
  qed
  moreover have "fin (length (show_cmd t)) (parseline (parse_fuel (show_cmd t)) (show_cmd t))"
    by (rule parse_finishes(1)) (simp add: parse_fuel_def)
  ultimately obtain c where "parseline (parse_fuel (show_cmd t)) (show_cmd t) = Done c []" "texts c = t"
    by (auto simp: parsed_def)
  then show ?thesis by (simp add: parse_tree_def peek_eval)
qed

definition sample_cmd :: "string cmd" where
  "sample_cmd = LIST (BACK (PIPE (EXEC [''ls'']) (REDIR (EXEC [''grep'', ''x'']) ''f'' (uint O_RDONLY) 0)))
     (REDIR (LIST (EXEC [''a'']) (EXEC [''b''])) ''o'' (uint (O_WRONLY OR O_CREATE)) 1)"

theorem parse_show_witness:
  "\<exists>c. parse_tree ''ls | grep x < f & ; ( a ; b ) >> o '' = Done c [] \<and> texts c = sample_cmd"
proof -
  have "valid sample_cmd"
    by (simp add: sample_cmd_def redir_ok_def word_def word_char_def is_white_def whitespace_def symbol_iff sh_MAXARGS_def)
  moreover have "show_cmd sample_cmd = ''ls | grep x < f & ; ( a ; b ) >> o ''"
    using modes_distinct
    by (simp add: sample_cmd_def show_cmd_def show_words_def show_redir_def redir_op_def in_block_def Let_def)
  ultimately show ?thesis using parse_show [of sample_cmd] by simp
qed

end
