(* ===== verification/ShStrings.thy ===== *)
theory ShStrings
  imports ShPrint "HOL-Library.Sublist"
begin

text \<open>
  What the shell's parser returns on any line: a well-formed tree, whose strings are words
  of the line, and which nulterminate, writing into the line itself, leaves intact.
\<close>

section \<open>Tokens of a line\<close>

text \<open>A counted string of the line \<open>b\<close>: a whole word of it, up to where the word ends.\<close>

definition tok_ok :: "string \<Rightarrow> token \<Rightarrow> bool" where
  "tok_ok b t \<longleftrightarrow> suffix (fst t) b \<and>
     (\<exists>w. fst t = w @ snd t \<and> word w \<and> (snd t = [] \<or> \<not> word_char (hd (snd t))))"

lemma tok_ok_text: "tok_ok b t \<Longrightarrow> word (tok_text t) \<and> fst t = tok_text t @ snd t"
  by (auto simp: tok_ok_def tok_text_def)

lemma suffix_skip: "suffix s b \<Longrightarrow> suffix (skip_white s) b"
  unfolding skip_white_def by (rule suffix_order.trans [OF suffix_dropWhile])

lemma suffix_drop': "suffix s b \<Longrightarrow> suffix (drop k s) b"
  by (rule suffix_order.trans [OF suffix_drop])

lemma gettoken_from:
  assumes "gettoken s = (tok, t, s')" and "suffix s b" and "NUL \<notin> set b"
  shows "suffix s' b" and "tok = CHR ''a'' \<Longrightarrow> tok_ok b t"
proof -
  let ?q = "skip_white s" and ?P = "\<lambda>x. \<not> is_white x \<and> \<not> is_symbol x"
  have q: "suffix ?q b" by (rule suffix_skip [OF assms(2)])
  have nul: "NUL \<notin> set ?q" using set_mono_suffix [OF q] assms(3) by blast
  have d: "suffix (dropWhile ?P ?q) b" by (rule suffix_order.trans [OF suffix_dropWhile q])
  have "suffix s' b \<and> (tok = CHR ''a'' \<longrightarrow> tok_ok b t)"
  proof (cases "?q = [] \<or> is_symbol (char_at ?q 0)")
    case True
    then show ?thesis
      using assms(1) q suffix_drop' [OF q, of 1] suffix_drop' [OF q, of 2] nul
      by (cases ?q) (auto simp: gettoken_def Let_def symbol_iff suffix_skip split: if_splits)
  next
    case False
    then obtain c cs where c: "?q = c # cs" "\<not> is_symbol c" "c \<noteq> NUL" using nul by (cases ?q) auto
    have g: "t = (?q, dropWhile ?P ?q)" "s' = skip_white (dropWhile ?P ?q)"
      using assms(1) c by (auto simp: gettoken_def Let_def symbol_iff)
    have "word (takeWhile ?P ?q)"
      using c skip_white_head [OF c(1)] nul by (auto simp: word_def word_char_def dest: set_takeWhileD)
    moreover have "dropWhile ?P ?q = [] \<or> \<not> word_char (hd (dropWhile ?P ?q))"
      using hd_dropWhile [of ?P ?q] by (auto simp: word_char_def)
    ultimately have "tok_ok b t"
      using q unfolding tok_ok_def g(1) fst_conv snd_conv by (metis takeWhile_dropWhile_id)
    then show ?thesis using g(2) d by (simp add: suffix_skip)
  qed
  then show "suffix s' b" "tok = CHR ''a'' \<Longrightarrow> tok_ok b t" by auto
qed

section \<open>Trees of a line\<close>

definition tree_ok :: "string \<Rightarrow> token cmd \<Rightarrow> bool" where
  "tree_ok b c \<longleftrightarrow> valid (texts c) \<and> (\<forall>t \<in> set_cmd c. tok_ok b t)"

lemma tree_ok_simps [simp]:
  "tree_ok b (EXEC ts) \<longleftrightarrow> length ts < sh_MAXARGS \<and> (\<forall>t \<in> set ts. tok_ok b t)"
  "tree_ok b (REDIR c f m fd) \<longleftrightarrow> tree_ok b c \<and> tok_ok b f \<and> redir_ok m fd"
  "tree_ok b (PIPE c d) \<longleftrightarrow> tree_ok b c \<and> tree_ok b d" "tree_ok b (LIST c d) \<longleftrightarrow> tree_ok b c \<and> tree_ok b d"
  "tree_ok b (BACK c) \<longleftrightarrow> tree_ok b c"
  by (auto simp: tree_ok_def dest: tok_ok_text)

text \<open>A result within the line whose value has the property \<open>P\<close>.\<close>

definition yields :: "string \<Rightarrow> ('a \<Rightarrow> bool) \<Rightarrow> 'a pres \<Rightarrow> bool" where
  "yields b P r \<longleftrightarrow> (\<forall>c s. r = Done c s \<longrightarrow> suffix s b \<and> P c)"

lemma yields_simps [simp]: "yields b P (Done c s) \<longleftrightarrow> suffix s b \<and> P c" "yields b P (Syntax msg)" "yields b P Unfinished"
  by (auto simp: yields_def)

lemma yields_bind:
  "yields b P m \<Longrightarrow> (\<And>c s. P c \<Longrightarrow> suffix s b \<Longrightarrow> yields b Q (f c s)) \<Longrightarrow> yields b Q (pbind m f)"
  by (cases m) auto

lemma peek_from: "peek s toks = (s', x) \<Longrightarrow> suffix s b \<Longrightarrow> suffix s' b"
  by (auto simp: peek_def Let_def suffix_skip)

lemma redirs_from:
  assumes "NUL \<notin> set b"
  shows "suffix s b \<Longrightarrow> tree_ok b c \<Longrightarrow> yields b (\<lambda>d. tree_ok b d \<and> base d = base c) (parseredirs n c s)"
proof (induction n arbitrary: c s)
  case (Suc n)
  obtain s1 x where p: "peek s ''<>'' = (s1, x)" by (metis prod.collapse)
  obtain tok t s2 where g: "gettoken s1 = (tok, t, s2)" by (metis prod.collapse)
  obtain tok2 f s3 where g2: "gettoken s2 = (tok2, f, s3)" by (metis prod.collapse)
  have s1: "suffix s1 b" by (rule peek_from [OF p Suc.prems(1)])
  have s2: "suffix s2 b" by (rule gettoken_from(1) [OF g s1 assms])
  note s3 = gettoken_from [OF g2 s2 assms]
  have "yields b (\<lambda>d. tree_ok b d \<and> base d = base c) (parseredirs n (REDIR c f m fd) s3)"
    if "tok2 = CHR ''a''" "redir_ok m fd" for m fd
    using Suc.IH [OF s3(1), of "REDIR c f m fd"] s3(2) that Suc.prems by simp
  moreover have "yields b (\<lambda>d. tree_ok b d \<and> base d = base c) (parseredirs n c s3)"
    by (rule Suc.IH [OF s3(1) Suc.prems(2)])
  ultimately show ?case
    using p g g2 s1 Suc.prems by (auto simp: redir_ok_def)
qed simp

lemma add_arg_ok:
  "tree_ok b c \<Longrightarrow> base c = EXEC ts \<Longrightarrow> tok_ok b t \<Longrightarrow> length ts + 1 < sh_MAXARGS \<Longrightarrow>
   tree_ok b (add_arg t c) \<and> base (add_arg t c) = EXEC (ts @ [t])"
  by (induction c) auto

lemma args_from:
  assumes "NUL \<notin> set b"
  shows "suffix s b \<Longrightarrow> tree_ok b c \<Longrightarrow> base c = EXEC ts \<Longrightarrow> length ts = k \<Longrightarrow>
    yields b (tree_ok b) (exec_args n k c s)"
proof (induction n arbitrary: k c s ts)
  case (Suc n)
  obtain s1 x where p: "peek s ''|)&;'' = (s1, x)" by (metis prod.collapse)
  obtain tok t s2 where g: "gettoken s1 = (tok, t, s2)" by (metis prod.collapse)
  have s1: "suffix s1 b" by (rule peek_from [OF p Suc.prems(1)])
  note s2 = gettoken_from [OF g s1 assms]
  have "yields b (tree_ok b) (pbind (parseredirs n (add_arg t c) s2) (exec_args n (k + 1)))"
    if "tok = CHR ''a''" "\<not> sh_MAXARGS \<le> k + 1"
  proof (rule yields_bind)
    have "tree_ok b (add_arg t c) \<and> base (add_arg t c) = EXEC (ts @ [t])"
      using add_arg_ok [OF Suc.prems(2,3)] s2(2) that Suc.prems(4) by simp
    then show "yields b (\<lambda>d. tree_ok b d \<and> base d = EXEC (ts @ [t])) (parseredirs n (add_arg t c) s2)"
      using redirs_from [OF assms s2(1), of "add_arg t c" n] by (auto simp: yields_def)
  qed (use Suc.prems in \<open>auto intro!: Suc.IH\<close>)
  then show ?case using p g s1 s2(1) Suc.prems by auto
qed simp

lemma amps_from:
  assumes "NUL \<notin> set b"
  shows "suffix s b \<Longrightarrow> tree_ok b c \<Longrightarrow> yields b (tree_ok b) (parse_amps n c s)"
proof (induction n arbitrary: c s)
  case (Suc n)
  obtain s1 x where p: "peek s ''&'' = (s1, x)" by (metis prod.collapse)
  obtain tok t s2 where g: "gettoken s1 = (tok, t, s2)" by (metis prod.collapse)
  have s1: "suffix s1 b" by (rule peek_from [OF p Suc.prems(1)])
  then show ?case
    using p g Suc.prems Suc.IH [OF gettoken_from(1) [OF g s1 assms], of "BACK c"] by simp
qed simp

text \<open>A step over one symbol of the line.\<close>

lemma step_from:
  assumes "suffix s b" and "NUL \<notin> set b" and "\<And>s. suffix s b \<Longrightarrow> yields b P (f s)" and "\<And>s. suffix s b \<Longrightarrow> yields b P (g s)"
  shows "yields b P (let (s, x) = peek s toks in if \<not> x then f s else let (_, _, s) = gettoken s in g s)"
proof -
  obtain s1 x where p: "peek s toks = (s1, x)" by (metis prod.collapse)
  obtain tok t s2 where g: "gettoken s1 = (tok, t, s2)" by (metis prod.collapse)
  have "suffix s1 b" by (rule peek_from [OF p assms(1)])
  then show ?thesis using p g assms gettoken_from(1) [OF g] by simp
qed

lemma parse_from:
  assumes nul: "NUL \<notin> set b"
  shows "suffix s b \<Longrightarrow> yields b (tree_ok b) (parseline n s)"
    and "suffix s b \<Longrightarrow> yields b (tree_ok b) (parsepipe n s)"
    and "suffix s b \<Longrightarrow> yields b (tree_ok b) (parseexec n s)"
    and "suffix s b \<Longrightarrow> yields b (tree_ok b) (parseblock n s)"
proof (induction n arbitrary: s)
  case (Suc n)
  { case 1
    show ?case
      unfolding parseline.simps
      by (intro yields_bind [OF Suc.IH(2) [OF 1]] yields_bind [OF amps_from [OF nul]] step_from nul
          yields_bind [OF Suc.IH(1)]) simp_all
  next
    case 2
    show ?case
      unfolding parsepipe.simps
      by (intro yields_bind [OF Suc.IH(3) [OF 2]] step_from nul yields_bind [OF Suc.IH(2)]) simp_all
  next
    case 3
    obtain s1 x where p: "peek s ''('' = (s1, x)" by (metis prod.collapse)
    have s1: "suffix s1 b" by (rule peek_from [OF p 3])
    have "yields b (tree_ok b) (pbind (parseredirs n (EXEC []) s1) (exec_args n 0))"
      using redirs_from [OF nul s1, of "EXEC []" n]
      by (rule yields_bind) (auto simp: sh_MAXARGS_def intro!: args_from [OF nul])
    then show ?case using p Suc.IH(4) [OF s1] by simp
  next
    case 4
    have "yields b (tree_ok b) (parseredirs n c s)" if "suffix s b" "tree_ok b c" for c s
      using redirs_from [OF nul that, of n] by (auto simp: yields_def)
    then show ?case
      unfolding parseblock.simps
      by (intro step_from 4 nul yields_bind [OF Suc.IH(1)]) simp_all }
qed simp_all

lemma tree_from: "NUL \<notin> set s \<Longrightarrow> parse_tree s = Done c r \<Longrightarrow> tree_ok s c \<and> r = []"
  using parse_from(1) [of s s "parse_fuel s"]
  by (cases "parseline (parse_fuel s) s") (auto simp: parse_tree_def Let_def split: prod.splits if_splits)

text \<open>
  C36. Whatever the line, the tree the parser returns is well formed: every command has at
  most nine words, every redirection one of the three modes with its descriptor, and every
  string is a non-empty run of word characters. (So it prints back, by the round trip.)
\<close>

theorem parser_output_typed:
  assumes "NUL \<notin> set s" and "parse_tree s = Done c r"
  shows "valid (texts c) \<and> r = [] \<and> (\<exists>d. parse_tree (show_cmd (texts c)) = Done d [] \<and> texts d = texts c)"
proof -
  have "valid (texts c)" and "r = []" using tree_from [OF assms] by (simp_all add: tree_ok_def)
  then show ?thesis using parse_show by blast
qed

section \<open>The strings after nulterminate\<close>

lemma fold_put_nul:
  "length (fold (put_nul n) ts buf) = length buf"
  "i < length buf \<Longrightarrow> fold (put_nul n) ts buf ! i = (if \<exists>t \<in> set ts. i = n - length (snd t) then NUL else buf ! i)"
  by (induction ts arbitrary: buf) (auto simp: put_nul_def nth_list_update)

lemma nulterminate_nth:
  "length (nulterminate n c buf) = length buf"
  "i < length buf \<Longrightarrow> nulterminate n c buf ! i = (if \<exists>t \<in> set_cmd c. i = n - length (snd t) then NUL else buf ! i)"
proof (induction c arbitrary: buf)
  case (EXEC ts)
  { case 1 show ?case by (simp add: fold_put_nul) next case 2 then show ?case by (simp add: fold_put_nul) }
next
  case (REDIR c f m fd)
  { case 1 show ?case using REDIR(1) by (simp add: put_nul_def)
  next case 2
    then show ?case
      using REDIR(1) [of buf] REDIR(2) [of buf] by (cases "i = n - length (snd f)") (simp_all add: put_nul_def) }
qed auto

lemma cstr_word: "word w \<Longrightarrow> length w < length xs \<Longrightarrow> (\<And>k. k < length w \<Longrightarrow> xs ! k = w ! k) \<Longrightarrow>
    xs ! length w = NUL \<Longrightarrow> cstr xs = w"
proof -
  assume w: "word w" "length w < length xs" "\<And>k. k < length w \<Longrightarrow> xs ! k = w ! k" "xs ! length w = NUL"
  have "take (length w) xs = w" using w by (intro nth_equalityI) simp_all
  then have "xs = w @ NUL # drop (Suc (length w)) xs"
    using id_take_nth_drop [OF w(2)] w(4) by simp
  then show ?thesis using cstr_append_NUL [OF NUL_word [OF w(1)]] by metis
qed

lemma line_at:
  assumes "tok_ok b t"
  shows "length (snd t) \<le> length b" "k < length (fst t) \<Longrightarrow> b ! (length b - length (fst t) + k) = fst t ! k"
  using assms by (auto simp: tok_ok_def suffix_def nth_append)

text \<open>
  C37. After parsecmd every string of the tree is NUL-terminated in place and holds exactly
  the word the parser counted: nulterminate's writes into the line fall between words, none
  damages another word or the line's end, and the buffer does not grow.
\<close>

theorem nulterminate_cuts_words:
  assumes "NUL \<notin> set s" and "parsecmd s = Done (c, buf) r"
  shows "length buf = length s + 1 \<and>
    (\<forall>t \<in> set_cmd c. cstr (drop (length s - length (fst t)) buf) = tok_text t)"
proof (intro conjI ballI)
  have tree: "parse_tree s = Done c r" and buf: "buf = nulterminate (length s) c (s @ [NUL])"
    using assms(2) by (cases "parse_tree s"; simp add: parsecmd_def)+
  have ok: "tok_ok s t" if "t \<in> set_cmd c" for t
    using tree_from [OF assms(1) tree] that by (simp add: tree_ok_def)
  show "length buf = length s + 1" by (simp add: buf nulterminate_nth)
  fix t assume t: "t \<in> set_cmd c"
  let ?n = "length s" and ?q = "fst t" and ?w = "tok_text t"
  have w: "word ?w" "?q = ?w @ snd t" using tok_ok_text [OF ok [OF t]] by simp_all
  have q: "length ?q \<le> ?n" using ok [OF t] by (auto simp: tok_ok_def dest: suffix_length_le)
  have len: "length ?q = length ?w + length (snd t)" by (subst w(2)) simp
  show "cstr (drop (?n - length ?q) buf) = ?w"
  proof (rule cstr_word [OF w(1)])
    show "length ?w < length (drop (?n - length ?q) buf)" using len q by (simp add: buf nulterminate_nth)
    have "?n - length ?q + length ?w = ?n - length (snd t)" using len q by simp
    then show "drop (?n - length ?q) buf ! length ?w = NUL"
      using t q len by (auto simp: buf nulterminate_nth)
    fix k assume k: "k < length ?w"
    let ?i = "?n - length ?q + k"
    have i: "?i < ?n" "s ! ?i = ?w ! k"
      using k len q line_at(2) [OF ok [OF t], of k] by (simp_all add: nth_append w(2) [symmetric]) (metis nth_append w(2))
    have "?i \<noteq> ?n - length (snd u)" if u: "u \<in> set_cmd c" for u
    proof
      assume eq: "?i = ?n - length (snd u)"
      then have "snd u \<noteq> []" using i(1) by auto
      have le: "length (snd u) \<le> length (fst u)" "length (fst u) \<le> ?n"
        using ok [OF u] by (auto simp: tok_ok_def dest: suffix_length_le)
      have "s ! ?i = fst u ! (length (fst u) - length (snd u))"
      proof -
        have "0 < length (snd u)" using \<open>snd u \<noteq> []\<close> by simp
        then have "length (fst u) - length (snd u) < length (fst u)" using le by linarith
        moreover have "?i = ?n - length (fst u) + (length (fst u) - length (snd u))" using le eq by linarith
        ultimately show ?thesis using line_at(2) [OF ok [OF u]] by metis
      qed
      also have "\<dots> = hd (snd u)"
        using ok [OF u] \<open>snd u \<noteq> []\<close> by (auto simp: tok_ok_def nth_append hd_conv_nth)
      finally have "\<not> word_char (?w ! k)" using ok [OF u] i(2) \<open>snd u \<noteq> []\<close> by (auto simp: tok_ok_def)
      then show False using w(1) k by (simp add: word_def)
    qed
    then show "drop (?n - length ?q) buf ! k = ?w ! k"
      using i by (auto simp: buf nulterminate_nth nth_append)
  qed
qed

theorem nulterminate_cuts_words_witness:
  "parsecmd ''a>b'' = Done (REDIR (EXEC [(''a>b'', ''>b'')]) (''b'', []) 0x601 1, ''a'' @ [NUL] @ ''b'' @ [NUL]) [] \<and>
   cstr (drop 2 (''a'' @ [NUL] @ ''b'' @ [NUL])) = ''b''"
proof -
  have run: "parsecmd ''a>b'' = Done (REDIR (EXEC [(''a>b'', ''>b'')]) (''b'', []) 0x601 1, ''a'' @ [NUL] @ ''b'' @ [NUL]) []"
    by code_simp
  from nulterminate_cuts_words [OF _ run] show ?thesis using run by (simp add: tok_text_def)
qed

theorem parser_output_typed_witness: "valid (REDIR (EXEC [''a'']) ''b'' 0x601 1)"
proof -
  have "parse_tree ''a>b'' = Done (REDIR (EXEC [(''a>b'', ''>b'')]) (''b'', []) 0x601 1) []"
    by code_simp
  from parser_output_typed [OF _ this] show ?thesis by (simp add: tok_text_def)
qed

end
