(* ===== verification/Disk.thy ===== *)
theory Disk
  imports Sample
begin

text \<open>
  The disk driver together with its device: one block transfer. The device is not in the
  repository; it is a function on the state of which only the documented effect on a queued
  request is assumed. While the driver sleeps one action of the environment runs: the
  scheduler leaves the process, the device serves the request and raises its interrupt, the
  handler of the driver runs, and the scheduler comes back to the process.
\<close>

section \<open>The kernel state with a disk\<close>

text \<open>The blocks of the disk by their first sector.\<close>

record dev_state = log_state +
  platter :: "u64 \<Rightarrow> u8 list"

section \<open>Fields the lock operations leave alone\<close>

lemma disk_fields [simp]:
  fixes s :: "'a disk_state_scheme"
  shows "bufs (acquired lk s) = bufs s" "vd_desc (acquired lk s) = vd_desc s"
    "vd_free (acquired lk s) = vd_free s" "avail_idx (acquired lk s) = avail_idx s"
    "avail_ring (acquired lk s) = avail_ring s" "dev_used_idx (acquired lk s) = dev_used_idx s"
    "dev_used_ring (acquired lk s) = dev_used_ring s" "vd_used_idx (acquired lk s) = vd_used_idx s"
    "info_b (acquired lk s) = info_b s" "info_status (acquired lk s) = info_status s"
    "vd_ops (acquired lk s) = vd_ops s" "vio_answer (acquired lk s) = vio_answer s"
    "vio_written (acquired lk s) = vio_written s"
    "bufs (settled s) = bufs s" "vd_desc (settled s) = vd_desc s" "vd_free (settled s) = vd_free s"
    "avail_idx (settled s) = avail_idx s" "avail_ring (settled s) = avail_ring s"
    "dev_used_idx (settled s) = dev_used_idx s" "dev_used_ring (settled s) = dev_used_ring s"
    "vd_used_idx (settled s) = vd_used_idx s" "info_b (settled s) = info_b s"
    "info_status (settled s) = info_status s" "vd_ops (settled s) = vd_ops s"
    "vio_answer (settled s) = vio_answer s" "vio_written (settled s) = vio_written s"
    "bufs (set_cpu c f s) = bufs s" "vd_desc (set_cpu c f s) = vd_desc s"
    "vd_free (set_cpu c f s) = vd_free s" "avail_idx (set_cpu c f s) = avail_idx s"
    "avail_ring (set_cpu c f s) = avail_ring s" "dev_used_idx (set_cpu c f s) = dev_used_idx s"
    "dev_used_ring (set_cpu c f s) = dev_used_ring s" "vd_used_idx (set_cpu c f s) = vd_used_idx s"
    "info_b (set_cpu c f s) = info_b s" "info_status (set_cpu c f s) = info_status s"
    "vd_ops (set_cpu c f s) = vd_ops s" "vio_answer (set_cpu c f s) = vio_answer s"
    "vio_written (set_cpu c f s) = vio_written s"
    "bufs (set_proc i g s) = bufs s" "vd_desc (set_proc i g s) = vd_desc s"
    "vd_free (set_proc i g s) = vd_free s" "avail_idx (set_proc i g s) = avail_idx s"
    "avail_ring (set_proc i g s) = avail_ring s" "dev_used_idx (set_proc i g s) = dev_used_idx s"
    "dev_used_ring (set_proc i g s) = dev_used_ring s" "vd_used_idx (set_proc i g s) = vd_used_idx s"
    "info_b (set_proc i g s) = info_b s" "info_status (set_proc i g s) = info_status s"
    "vd_ops (set_proc i g s) = vd_ops s" "vio_answer (set_proc i g s) = vio_answer s"
    "vio_written (set_proc i g s) = vio_written s"
    "bufs (woken ch is s) = bufs s" "vd_desc (woken ch is s) = vd_desc s"
    "vd_free (woken ch is s) = vd_free s" "avail_idx (woken ch is s) = avail_idx s"
    "avail_ring (woken ch is s) = avail_ring s" "dev_used_idx (woken ch is s) = dev_used_idx s"
    "dev_used_ring (woken ch is s) = dev_used_ring s" "vd_used_idx (woken ch is s) = vd_used_idx s"
    "info_b (woken ch is s) = info_b s" "info_status (woken ch is s) = info_status s"
    "vd_ops (woken ch is s) = vd_ops s" "vio_answer (woken ch is s) = vio_answer s"
    "vio_written (woken ch is s) = vio_written s"
    "bufs (resumed p ie s) = bufs s" "vd_desc (resumed p ie s) = vd_desc s"
    "vd_free (resumed p ie s) = vd_free s" "avail_idx (resumed p ie s) = avail_idx s"
    "avail_ring (resumed p ie s) = avail_ring s" "dev_used_idx (resumed p ie s) = dev_used_idx s"
    "dev_used_ring (resumed p ie s) = dev_used_ring s" "vd_used_idx (resumed p ie s) = vd_used_idx s"
    "info_b (resumed p ie s) = info_b s" "info_status (resumed p ie s) = info_status s"
    "vd_ops (resumed p ie s) = vd_ops s" "vio_answer (resumed p ie s) = vio_answer s"
    "vio_written (resumed p ie s) = vio_written s"
  by (simp_all add: acquired_def settled_def push_off_st_def set_lock_def set_cpu_def set_sie_def set_proc_def
      woken_def resumed_def)

lemma log_fields [simp]:
  fixes s :: "'a log_state_scheme"
  shows "fl_start (acquired lk s) = fl_start s" "fl_outstanding (acquired lk s) = fl_outstanding s"
    "fl_committing (acquired lk s) = fl_committing s" "fl_dev (acquired lk s) = fl_dev s"
    "lh_n (acquired lk s) = lh_n s" "lh_block (acquired lk s) = lh_block s"
    "fl_start (settled s) = fl_start s" "fl_outstanding (settled s) = fl_outstanding s"
    "fl_committing (settled s) = fl_committing s" "fl_dev (settled s) = fl_dev s"
    "lh_n (settled s) = lh_n s" "lh_block (settled s) = lh_block s"
    "fl_start (set_cpu c f s) = fl_start s" "fl_outstanding (set_cpu c f s) = fl_outstanding s"
    "fl_committing (set_cpu c f s) = fl_committing s" "fl_dev (set_cpu c f s) = fl_dev s"
    "lh_n (set_cpu c f s) = lh_n s" "lh_block (set_cpu c f s) = lh_block s"
    "fl_start (set_proc i g s) = fl_start s" "fl_outstanding (set_proc i g s) = fl_outstanding s"
    "fl_committing (set_proc i g s) = fl_committing s" "fl_dev (set_proc i g s) = fl_dev s"
    "lh_n (set_proc i g s) = lh_n s" "lh_block (set_proc i g s) = lh_block s"
    "fl_start (woken ch is s) = fl_start s" "fl_outstanding (woken ch is s) = fl_outstanding s"
    "fl_committing (woken ch is s) = fl_committing s" "fl_dev (woken ch is s) = fl_dev s"
    "lh_n (woken ch is s) = lh_n s" "lh_block (woken ch is s) = lh_block s"
    "fl_start (resumed p ie s) = fl_start s" "fl_outstanding (resumed p ie s) = fl_outstanding s"
    "fl_committing (resumed p ie s) = fl_committing s" "fl_dev (resumed p ie s) = fl_dev s"
    "lh_n (resumed p ie s) = lh_n s" "lh_block (resumed p ie s) = lh_block s"
  by (simp_all add: acquired_def settled_def push_off_st_def set_lock_def set_cpu_def set_sie_def set_proc_def
      woken_def resumed_def)

lemma dev_fields [simp]:
  fixes s :: "'a dev_state_scheme"
  shows "platter (acquired lk s) = platter s"
    "platter (settled s) = platter s"
    "platter (set_cpu c f s) = platter s"
    "platter (set_proc i g s) = platter s"
    "platter (woken ch is s) = platter s"
    "platter (resumed p ie s) = platter s"
  by (simp_all add: acquired_def settled_def push_off_st_def set_lock_def set_cpu_def set_sie_def set_proc_def
      woken_def resumed_def)

lemma uart_fields [simp]:
  fixes s :: "'a uart_state_scheme"
  shows "uart_idle (set_cpu c f s) = uart_idle s" "panicked (set_cpu c f s) = panicked s"
    "panicking (set_cpu c f s) = panicking s" "uart_reg (set_cpu c f s) = uart_reg s"
    "uart_out (set_cpu c f s) = uart_out s"
    "uart_idle (set_proc i g s) = uart_idle s" "panicked (set_proc i g s) = panicked s"
    "panicking (set_proc i g s) = panicking s" "uart_reg (set_proc i g s) = uart_reg s"
    "uart_out (set_proc i g s) = uart_out s"
    "uart_idle (woken ch is s) = uart_idle s" "panicked (woken ch is s) = panicked s"
    "panicking (woken ch is s) = panicking s" "uart_reg (woken ch is s) = uart_reg s"
    "uart_out (woken ch is s) = uart_out s"
    "uart_idle (resumed p ie s) = uart_idle s" "panicked (resumed p ie s) = panicked s"
    "panicking (resumed p ie s) = panicking s" "uart_reg (resumed p ie s) = uart_reg s"
    "uart_out (resumed p ie s) = uart_out s"
  by (simp_all add: acquired_def settled_def push_off_st_def set_lock_def set_cpu_def set_sie_def set_proc_def
      woken_def resumed_def)

lemma disk_upd_lock:
  fixes s :: "'a disk_state_scheme"
  shows "(acquired lk s)\<lparr>bufs := x_bufs\<rparr> = acquired lk (s\<lparr>bufs := x_bufs\<rparr>)"
    "(acquired lk s)\<lparr>vd_desc := x_vd_desc\<rparr> = acquired lk (s\<lparr>vd_desc := x_vd_desc\<rparr>)"
    "(acquired lk s)\<lparr>vd_free := x_vd_free\<rparr> = acquired lk (s\<lparr>vd_free := x_vd_free\<rparr>)"
    "(acquired lk s)\<lparr>avail_idx := x_avail_idx\<rparr> = acquired lk (s\<lparr>avail_idx := x_avail_idx\<rparr>)"
    "(acquired lk s)\<lparr>avail_ring := x_avail_ring\<rparr> = acquired lk (s\<lparr>avail_ring := x_avail_ring\<rparr>)"
    "(acquired lk s)\<lparr>vd_used_idx := x_vd_used_idx\<rparr> = acquired lk (s\<lparr>vd_used_idx := x_vd_used_idx\<rparr>)"
    "(acquired lk s)\<lparr>info_b := x_info_b\<rparr> = acquired lk (s\<lparr>info_b := x_info_b\<rparr>)"
    "(acquired lk s)\<lparr>info_status := x_info_status\<rparr> = acquired lk (s\<lparr>info_status := x_info_status\<rparr>)"
    "(acquired lk s)\<lparr>vd_ops := x_vd_ops\<rparr> = acquired lk (s\<lparr>vd_ops := x_vd_ops\<rparr>)"
    "(acquired lk s)\<lparr>vio_written := x_vio_written\<rparr> = acquired lk (s\<lparr>vio_written := x_vio_written\<rparr>)"
    "(acquired lk s)\<lparr>dev_used_idx := x_dev_used_idx\<rparr> = acquired lk (s\<lparr>dev_used_idx := x_dev_used_idx\<rparr>)"
    "(acquired lk s)\<lparr>dev_used_ring := x_dev_used_ring\<rparr> = acquired lk (s\<lparr>dev_used_ring := x_dev_used_ring\<rparr>)"
  by (simp_all add: acquired_def push_off_st_def set_lock_def set_cpu_def set_sie_def intr_enabled_def hart_def)

lemma log_upd_lock:
  fixes s :: "'a log_state_scheme"
  shows "(acquired lk s)\<lparr>fl_start := x_fl_start\<rparr> = acquired lk (s\<lparr>fl_start := x_fl_start\<rparr>)"
    "(acquired lk s)\<lparr>fl_outstanding := x_fl_outstanding\<rparr> = acquired lk (s\<lparr>fl_outstanding := x_fl_outstanding\<rparr>)"
    "(acquired lk s)\<lparr>fl_committing := x_fl_committing\<rparr> = acquired lk (s\<lparr>fl_committing := x_fl_committing\<rparr>)"
    "(acquired lk s)\<lparr>fl_dev := x_fl_dev\<rparr> = acquired lk (s\<lparr>fl_dev := x_fl_dev\<rparr>)"
    "(acquired lk s)\<lparr>lh_n := x_lh_n\<rparr> = acquired lk (s\<lparr>lh_n := x_lh_n\<rparr>)"
    "(acquired lk s)\<lparr>lh_block := x_lh_block\<rparr> = acquired lk (s\<lparr>lh_block := x_lh_block\<rparr>)"
  by (simp_all add: acquired_def push_off_st_def set_lock_def set_cpu_def set_sie_def intr_enabled_def hart_def)

lemma sleeplocks_lock:
  fixes s :: "'a sched_state_scheme"
  shows "(acquired lk s)\<lparr>sleeplocks := x_sleeplocks\<rparr> = acquired lk (s\<lparr>sleeplocks := x_sleeplocks\<rparr>)"
  by (simp_all add: acquired_def push_off_st_def set_lock_def set_cpu_def set_sie_def intr_enabled_def hart_def)

lemma disk_upd_keep [simp]:
  fixes s :: "'a disk_state_scheme"
  shows "hart (s\<lparr>bufs := x_bufs\<rparr>) = hart s" "hart_ok (s\<lparr>bufs := x_bufs\<rparr>) = hart_ok s" "curproc (s\<lparr>bufs := x_bufs\<rparr>) = curproc s" "intr_enabled (s\<lparr>bufs := x_bufs\<rparr>) = intr_enabled s" "lock_free (s\<lparr>bufs := x_bufs\<rparr>) lk = lock_free s lk"
    "hart (s\<lparr>vd_desc := x_vd_desc\<rparr>) = hart s" "hart_ok (s\<lparr>vd_desc := x_vd_desc\<rparr>) = hart_ok s" "curproc (s\<lparr>vd_desc := x_vd_desc\<rparr>) = curproc s" "intr_enabled (s\<lparr>vd_desc := x_vd_desc\<rparr>) = intr_enabled s" "lock_free (s\<lparr>vd_desc := x_vd_desc\<rparr>) lk = lock_free s lk"
    "hart (s\<lparr>vd_free := x_vd_free\<rparr>) = hart s" "hart_ok (s\<lparr>vd_free := x_vd_free\<rparr>) = hart_ok s" "curproc (s\<lparr>vd_free := x_vd_free\<rparr>) = curproc s" "intr_enabled (s\<lparr>vd_free := x_vd_free\<rparr>) = intr_enabled s" "lock_free (s\<lparr>vd_free := x_vd_free\<rparr>) lk = lock_free s lk"
    "hart (s\<lparr>avail_idx := x_avail_idx\<rparr>) = hart s" "hart_ok (s\<lparr>avail_idx := x_avail_idx\<rparr>) = hart_ok s" "curproc (s\<lparr>avail_idx := x_avail_idx\<rparr>) = curproc s" "intr_enabled (s\<lparr>avail_idx := x_avail_idx\<rparr>) = intr_enabled s" "lock_free (s\<lparr>avail_idx := x_avail_idx\<rparr>) lk = lock_free s lk"
    "hart (s\<lparr>avail_ring := x_avail_ring\<rparr>) = hart s" "hart_ok (s\<lparr>avail_ring := x_avail_ring\<rparr>) = hart_ok s" "curproc (s\<lparr>avail_ring := x_avail_ring\<rparr>) = curproc s" "intr_enabled (s\<lparr>avail_ring := x_avail_ring\<rparr>) = intr_enabled s" "lock_free (s\<lparr>avail_ring := x_avail_ring\<rparr>) lk = lock_free s lk"
    "hart (s\<lparr>vd_used_idx := x_vd_used_idx\<rparr>) = hart s" "hart_ok (s\<lparr>vd_used_idx := x_vd_used_idx\<rparr>) = hart_ok s" "curproc (s\<lparr>vd_used_idx := x_vd_used_idx\<rparr>) = curproc s" "intr_enabled (s\<lparr>vd_used_idx := x_vd_used_idx\<rparr>) = intr_enabled s" "lock_free (s\<lparr>vd_used_idx := x_vd_used_idx\<rparr>) lk = lock_free s lk"
    "hart (s\<lparr>info_b := x_info_b\<rparr>) = hart s" "hart_ok (s\<lparr>info_b := x_info_b\<rparr>) = hart_ok s" "curproc (s\<lparr>info_b := x_info_b\<rparr>) = curproc s" "intr_enabled (s\<lparr>info_b := x_info_b\<rparr>) = intr_enabled s" "lock_free (s\<lparr>info_b := x_info_b\<rparr>) lk = lock_free s lk"
    "hart (s\<lparr>info_status := x_info_status\<rparr>) = hart s" "hart_ok (s\<lparr>info_status := x_info_status\<rparr>) = hart_ok s" "curproc (s\<lparr>info_status := x_info_status\<rparr>) = curproc s" "intr_enabled (s\<lparr>info_status := x_info_status\<rparr>) = intr_enabled s" "lock_free (s\<lparr>info_status := x_info_status\<rparr>) lk = lock_free s lk"
    "hart (s\<lparr>vd_ops := x_vd_ops\<rparr>) = hart s" "hart_ok (s\<lparr>vd_ops := x_vd_ops\<rparr>) = hart_ok s" "curproc (s\<lparr>vd_ops := x_vd_ops\<rparr>) = curproc s" "intr_enabled (s\<lparr>vd_ops := x_vd_ops\<rparr>) = intr_enabled s" "lock_free (s\<lparr>vd_ops := x_vd_ops\<rparr>) lk = lock_free s lk"
    "hart (s\<lparr>vio_written := x_vio_written\<rparr>) = hart s" "hart_ok (s\<lparr>vio_written := x_vio_written\<rparr>) = hart_ok s" "curproc (s\<lparr>vio_written := x_vio_written\<rparr>) = curproc s" "intr_enabled (s\<lparr>vio_written := x_vio_written\<rparr>) = intr_enabled s" "lock_free (s\<lparr>vio_written := x_vio_written\<rparr>) lk = lock_free s lk"
    "hart (s\<lparr>dev_used_idx := x_dev_used_idx\<rparr>) = hart s" "hart_ok (s\<lparr>dev_used_idx := x_dev_used_idx\<rparr>) = hart_ok s" "curproc (s\<lparr>dev_used_idx := x_dev_used_idx\<rparr>) = curproc s" "intr_enabled (s\<lparr>dev_used_idx := x_dev_used_idx\<rparr>) = intr_enabled s" "lock_free (s\<lparr>dev_used_idx := x_dev_used_idx\<rparr>) lk = lock_free s lk"
    "hart (s\<lparr>dev_used_ring := x_dev_used_ring\<rparr>) = hart s" "hart_ok (s\<lparr>dev_used_ring := x_dev_used_ring\<rparr>) = hart_ok s" "curproc (s\<lparr>dev_used_ring := x_dev_used_ring\<rparr>) = curproc s" "intr_enabled (s\<lparr>dev_used_ring := x_dev_used_ring\<rparr>) = intr_enabled s" "lock_free (s\<lparr>dev_used_ring := x_dev_used_ring\<rparr>) lk = lock_free s lk"
  by (simp_all add: hart_def hart_ok_def curproc_def intr_enabled_def lock_free_def)

lemma log_upd_keep [simp]:
  fixes s :: "'a log_state_scheme"
  shows "hart (s\<lparr>fl_start := x_fl_start\<rparr>) = hart s" "hart_ok (s\<lparr>fl_start := x_fl_start\<rparr>) = hart_ok s" "curproc (s\<lparr>fl_start := x_fl_start\<rparr>) = curproc s" "intr_enabled (s\<lparr>fl_start := x_fl_start\<rparr>) = intr_enabled s" "lock_free (s\<lparr>fl_start := x_fl_start\<rparr>) lk = lock_free s lk"
    "hart (s\<lparr>fl_outstanding := x_fl_outstanding\<rparr>) = hart s" "hart_ok (s\<lparr>fl_outstanding := x_fl_outstanding\<rparr>) = hart_ok s" "curproc (s\<lparr>fl_outstanding := x_fl_outstanding\<rparr>) = curproc s" "intr_enabled (s\<lparr>fl_outstanding := x_fl_outstanding\<rparr>) = intr_enabled s" "lock_free (s\<lparr>fl_outstanding := x_fl_outstanding\<rparr>) lk = lock_free s lk"
    "hart (s\<lparr>fl_committing := x_fl_committing\<rparr>) = hart s" "hart_ok (s\<lparr>fl_committing := x_fl_committing\<rparr>) = hart_ok s" "curproc (s\<lparr>fl_committing := x_fl_committing\<rparr>) = curproc s" "intr_enabled (s\<lparr>fl_committing := x_fl_committing\<rparr>) = intr_enabled s" "lock_free (s\<lparr>fl_committing := x_fl_committing\<rparr>) lk = lock_free s lk"
    "hart (s\<lparr>fl_dev := x_fl_dev\<rparr>) = hart s" "hart_ok (s\<lparr>fl_dev := x_fl_dev\<rparr>) = hart_ok s" "curproc (s\<lparr>fl_dev := x_fl_dev\<rparr>) = curproc s" "intr_enabled (s\<lparr>fl_dev := x_fl_dev\<rparr>) = intr_enabled s" "lock_free (s\<lparr>fl_dev := x_fl_dev\<rparr>) lk = lock_free s lk"
    "hart (s\<lparr>lh_n := x_lh_n\<rparr>) = hart s" "hart_ok (s\<lparr>lh_n := x_lh_n\<rparr>) = hart_ok s" "curproc (s\<lparr>lh_n := x_lh_n\<rparr>) = curproc s" "intr_enabled (s\<lparr>lh_n := x_lh_n\<rparr>) = intr_enabled s" "lock_free (s\<lparr>lh_n := x_lh_n\<rparr>) lk = lock_free s lk"
    "hart (s\<lparr>lh_block := x_lh_block\<rparr>) = hart s" "hart_ok (s\<lparr>lh_block := x_lh_block\<rparr>) = hart_ok s" "curproc (s\<lparr>lh_block := x_lh_block\<rparr>) = curproc s" "intr_enabled (s\<lparr>lh_block := x_lh_block\<rparr>) = intr_enabled s" "lock_free (s\<lparr>lh_block := x_lh_block\<rparr>) lk = lock_free s lk"
  by (simp_all add: hart_def hart_ok_def curproc_def intr_enabled_def lock_free_def)

lemma platter_upd_keep [simp]:
  fixes s :: "'a dev_state_scheme"
  shows "hart (s\<lparr>platter := x_platter\<rparr>) = hart s" "hart_ok (s\<lparr>platter := x_platter\<rparr>) = hart_ok s" "curproc (s\<lparr>platter := x_platter\<rparr>) = curproc s" "intr_enabled (s\<lparr>platter := x_platter\<rparr>) = intr_enabled s" "lock_free (s\<lparr>platter := x_platter\<rparr>) lk = lock_free s lk"
  by (simp_all add: hart_def hart_ok_def curproc_def intr_enabled_def lock_free_def)

lemma sleeplocks_upd_keep [simp]:
  fixes s :: "'a sched_state_scheme"
  shows "hart (s\<lparr>sleeplocks := x_sleeplocks\<rparr>) = hart s" "hart_ok (s\<lparr>sleeplocks := x_sleeplocks\<rparr>) = hart_ok s" "curproc (s\<lparr>sleeplocks := x_sleeplocks\<rparr>) = curproc s" "intr_enabled (s\<lparr>sleeplocks := x_sleeplocks\<rparr>) = intr_enabled s" "lock_free (s\<lparr>sleeplocks := x_sleeplocks\<rparr>) lk = lock_free s lk"
  by (simp_all add: hart_def hart_ok_def curproc_def intr_enabled_def lock_free_def)

lemma set_buf_lock:
  "set_buf b f (acquired lk s) = acquired lk (set_buf b f s)" "set_desc i h (acquired lk s) = acquired lk (set_desc i h s)"
  by (simp_all add: set_buf_def set_desc_def disk_upd_lock)

lemma set_buf_keep [simp]:
  "bufs (set_buf b f s) = (bufs s)(b := f (bufs s b))" "vd_desc (set_desc i h s) = (vd_desc s)(i := h (vd_desc s i))"
  "hart (set_buf b f s) = hart s" "hart_ok (set_buf b f s) = hart_ok s" "curproc (set_buf b f s) = curproc s"
  "intr_enabled (set_buf b f s) = intr_enabled s" "lock_free (set_buf b f s) lk = lock_free s lk"
  "hart (set_desc i h s) = hart s" "hart_ok (set_desc i h s) = hart_ok s" "curproc (set_desc i h s) = curproc s"
  "intr_enabled (set_desc i h s) = intr_enabled s" "lock_free (set_desc i h s) lk = lock_free s lk"
  by (simp_all add: set_buf_def set_desc_def)

lemma set_buf_fields [simp]:
  "vd_desc (set_buf b f s) = vd_desc s" "vd_free (set_buf b f s) = vd_free s" "avail_idx (set_buf b f s) = avail_idx s"
  "avail_ring (set_buf b f s) = avail_ring s" "dev_used_idx (set_buf b f s) = dev_used_idx s" "dev_used_ring (set_buf b f s) = dev_used_ring s"
  "vd_used_idx (set_buf b f s) = vd_used_idx s" "info_b (set_buf b f s) = info_b s" "info_status (set_buf b f s) = info_status s"
  "vd_ops (set_buf b f s) = vd_ops s" "vio_answer (set_buf b f s) = vio_answer s" "vio_written (set_buf b f s) = vio_written s"
  "cpus (set_buf b f s) = cpus s" "locks (set_buf b f s) = locks s" "gpr (set_buf b f s) = gpr s"
  "csr (set_buf b f s) = csr s" "pmem (set_buf b f s) = pmem s" "procs (set_buf b f s) = procs s"
  "sleeplocks (set_buf b f s) = sleeplocks s" "bufs (set_desc i h s) = bufs s" "vd_free (set_desc i h s) = vd_free s"
  "avail_idx (set_desc i h s) = avail_idx s" "avail_ring (set_desc i h s) = avail_ring s" "dev_used_idx (set_desc i h s) = dev_used_idx s"
  "dev_used_ring (set_desc i h s) = dev_used_ring s" "vd_used_idx (set_desc i h s) = vd_used_idx s" "info_b (set_desc i h s) = info_b s"
  "info_status (set_desc i h s) = info_status s" "vd_ops (set_desc i h s) = vd_ops s" "vio_answer (set_desc i h s) = vio_answer s"
  "vio_written (set_desc i h s) = vio_written s" "cpus (set_desc i h s) = cpus s" "locks (set_desc i h s) = locks s"
  "gpr (set_desc i h s) = gpr s" "csr (set_desc i h s) = csr s" "pmem (set_desc i h s) = pmem s"
  "procs (set_desc i h s) = procs s" "sleeplocks (set_desc i h s) = sleeplocks s"
  by (simp_all add: set_buf_def set_desc_def)

lemma set_buf_log_fields [simp]:
  fixes s :: "'a dev_state_scheme"
  shows "platter (set_buf b g s) = platter s" "platter (set_desc i h s) = platter s"
    "fl_start (set_buf b g s) = fl_start s" "fl_start (set_desc i h s) = fl_start s"
    "fl_outstanding (set_buf b g s) = fl_outstanding s" "fl_outstanding (set_desc i h s) = fl_outstanding s"
    "fl_committing (set_buf b g s) = fl_committing s" "fl_committing (set_desc i h s) = fl_committing s"
    "fl_dev (set_buf b g s) = fl_dev s" "fl_dev (set_desc i h s) = fl_dev s"
    "lh_n (set_buf b g s) = lh_n s" "lh_n (set_desc i h s) = lh_n s"
    "lh_block (set_buf b g s) = lh_block s" "lh_block (set_desc i h s) = lh_block s"
  by (simp_all add: set_buf_def set_desc_def)

section \<open>The device\<close>

definition sector_of :: "u32 \<Rightarrow> u64" where
  "sector_of n = ucast (n * of_nat (BSIZE div 512))"

text \<open>
  The newest entry of the available ring is the request \<open>i\<close> for buffer \<open>b\<close>: a chain of three
  descriptors, the request, the data, the status byte, the data writable by the device
  exactly when the request is a read.
\<close>

definition queued :: "'a dev_state_scheme \<Rightarrow> nat \<Rightarrow> nat \<Rightarrow> bool" where
  "queued s i b \<longleftrightarrow> unat (avail_ring s (unat (avail_idx s - 1) mod VQ_NUM)) = i \<and> i < VQ_NUM \<and>
     rq_type (vd_ops s i) \<in> {VIRTIO_BLK_T_IN, VIRTIO_BLK_T_OUT} \<and>
     (let d0 = vd_desc s i; d1 = vd_desc s (unat (d_next d0)); d2 = vd_desc s (unat (d_next d1)) in
      d_addr d0 = DmaOps i \<and> d_flags d0 = VRING_DESC_F_NEXT \<and>
      d_addr d1 = DmaData b \<and> d_len d1 = of_nat BSIZE \<and>
      d_flags d1 = (if rq_type (vd_ops s i) = VIRTIO_BLK_T_OUT then 0 else VRING_DESC_F_WRITE) OR VRING_DESC_F_NEXT \<and>
      d_addr d2 = DmaStatus i \<and> d_len d2 = 1 \<and> d_flags d2 = VRING_DESC_F_WRITE)"

text \<open>What the device has done when it has served it: block, status byte, used ring.\<close>

definition served :: "'a dev_state_scheme \<Rightarrow> nat \<Rightarrow> nat \<Rightarrow> 'a dev_state_scheme" where
  "served s i b =
     (let sec = rq_sector (vd_ops s i);
          s1 = (if rq_type (vd_ops s i) = VIRTIO_BLK_T_OUT
                then s\<lparr>platter := (platter s)(sec := bdata (bufs s b))\<rparr>
                else set_buf b (\<lambda>x. x\<lparr>bdata := platter s sec\<rparr>) s)
      in s1\<lparr>info_status := (info_status s)(i := 0),
            dev_used_ring := (dev_used_ring s)(unat (dev_used_idx s) mod VQ_NUM := of_nat i),
            dev_used_idx := dev_used_idx s + 1\<rparr>)"

definition virtio_device :: "('a dev_state_scheme \<Rightarrow> 'a dev_state_scheme) \<Rightarrow> bool" where
  "virtio_device dev \<longleftrightarrow> (\<forall>s i b. queued s i b \<longrightarrow> dev s = served s i b)"

text \<open>
  What happens between the swtch of the sleeping process \<open>p\<close> and its return: the scheduler
  clears c->proc and releases the process, the device serves, the handler runs, and the
  scheduler takes the process up again if it has become runnable.
\<close>

definition disk_round :: "('a dev_state_scheme \<Rightarrow> 'a dev_state_scheme) \<Rightarrow> nat \<Rightarrow> ('a dev_state_scheme, unit) kfun" where
  "disk_round dev p = kseq
     [ kmod (\<lambda>s. set_cpu (hart s) (\<lambda>c. c\<lparr>cproc := None\<rparr>) s),
       release (LkProc p),
       kmod dev,
       virtio_disk_intr,
       acquire (LkProc p),
       kwhen (\<lambda>s. pstate (procs s p) = RUNNABLE) (kseq
         [ kmod (set_proc p (\<lambda>q. q\<lparr>pstate := RUNNING\<rparr>)),
           kmod (\<lambda>s. set_cpu (hart s) (\<lambda>c. c\<lparr>cproc := Some p\<rparr>) s) ]) ]"

definition disk_action :: "('a dev_state_scheme \<Rightarrow> 'a dev_state_scheme) \<Rightarrow> nat \<Rightarrow> 'a dev_state_scheme \<Rightarrow> 'a dev_state_scheme" where
  "disk_action dev p s = fst (res_world (disk_round dev p (s, [])))"

section \<open>The interrupt handler\<close>

lemma kwhile_once:
  assumes "c s" and "body (s, e) = Ok () (t, e')" and "\<not> c t" and "2 \<le> n"
  shows "kwhile n c body (s, e) = Ok () (t, e')"
proof -
  obtain m where "n = Suc (Suc m)" using le_Suc_ex [OF assms(4)] by auto
  then show ?thesis
    by (simp only: kwhile.simps kif_run fst_conv assms(1-3) kthen_def kbind_def res.case if_True if_False)
qed

definition intr_done :: "nat \<Rightarrow> 'a disk_state_scheme \<Rightarrow> 'a disk_state_scheme" where
  "intr_done b s = (woken (Some (ChDiskBuf b)) {..<NPROC} (set_buf b (\<lambda>x. x\<lparr>bdisk := False\<rparr>)
     (s\<lparr>vio_written := (vio_written s)(VIRTIO_MMIO_INTERRUPT_ACK :=
        vio_answer s VIRTIO_MMIO_INTERRUPT_STATUS (vio_written s VIRTIO_MMIO_INTERRUPT_STATUS) AND 3)\<rparr>)))
     \<lparr>vd_used_idx := vd_used_idx s + 1\<rparr>"

lemma used_idx_lock: "(settled s)\<lparr>vd_used_idx := x\<rparr> = settled (s\<lparr>vd_used_idx := x\<rparr>)"
  by (simp add: settled_def set_cpu_def intr_enabled_def hart_def)

lemma disk_intr_run:
  assumes ok: "hart_ok s" and free: "\<And>lk. lock_free s lk"
    and used: "dev_used_idx s = vd_used_idx s + 1"
    and ring: "unat (dev_used_ring s (unat (vd_used_idx s) mod VQ_NUM)) = i"
    and status: "info_status s i = 0" and b: "info_b s i = Some b"
  shows "virtio_disk_intr (s, e) = Ok () (settled (intr_done b s), e)"
proof -
  let ?s1 = "s\<lparr>vio_written := (vio_written s)(VIRTIO_MMIO_INTERRUPT_ACK :=
        vio_answer s VIRTIO_MMIO_INTERRUPT_STATUS (vio_written s VIRTIO_MMIO_INTERRUPT_STATUS) AND 3)\<rparr>"
  let ?s2 = "set_buf b (\<lambda>x. x\<lparr>bdisk := False\<rparr>) ?s1"
  have wake: "wakeup (ChDiskBuf b) (acquired LkDisk ?s2, e) =
      Ok () (acquired LkDisk (woken (Some (ChDiskBuf b)) {..<NPROC} ?s2), e)"
    using wakeup_run [of "acquired LkDisk ?s2" "ChDiskBuf b" e] ok free by (simp add: woken_lock)
  have "disk_complete (acquired LkDisk ?s1, e) = Ok () (acquired LkDisk (intr_done b s), e)"
    using wake ring status b
    by (simp add: disk_complete_def kthen_def kbind_def set_buf_lock disk_upd_lock intr_done_def)
  then have "kwhile 65536 (\<lambda>s. vd_used_idx s \<noteq> dev_used_idx s) disk_complete (acquired LkDisk ?s1, e) =
      Ok () (acquired LkDisk (intr_done b s), e)"
    by (rule kwhile_once [rotated]) (simp_all add: used intr_done_def set_buf_def woken_def)
  moreover have "release LkDisk (acquired LkDisk (intr_done b s), e) = Ok () (settled (intr_done b s), e)"
    using ok free by (intro release_run) (simp_all add: intr_done_def)
  ultimately show ?thesis
    using free [of LkDisk]
    by (simp add: virtio_disk_intr_def vio_read_def vio_write_def kthen_def kbind_def acquire_run disk_upd_lock
        del: kwhile.simps)
qed

section \<open>A calm kernel\<close>

text \<open>
  Process \<open>p\<close>, of process id \<open>k\<close>, runs alone and outside every critical section; the driver
  has no request under way.
\<close>

definition calm :: "nat \<Rightarrow> int \<Rightarrow> 'a disk_state_scheme \<Rightarrow> bool" where
  "calm p k s \<longleftrightarrow> hart_ok s \<and> noff (this_cpu s) = 0 \<and> curproc s = Some p \<and> p < NPROC \<and>
     (\<forall>lk. lock_free s lk) \<and> pid (procs s p) = k \<and> pr_ready s \<and>
     (\<forall>i < VQ_NUM. vd_free s i) \<and> vd_used_idx s = dev_used_idx s"

lemma calmD:
  assumes "calm p k s"
  shows "hart_ok s" "noff (cpus s (hart s)) = 0" "curproc s = Some p" "p < NPROC" "lock_free s lk"
    "pid (procs s p) = k" "pr_ready s" "i < VQ_NUM \<Longrightarrow> vd_free s i" "vd_used_idx s = dev_used_idx s"
  using assms by (simp_all add: calm_def)

text \<open>The rest of the state the file system keeps in memory.\<close>

definition log_vars :: "'a log_state_scheme \<Rightarrow> (sleepid \<Rightarrow> sleeplock) \<times> u32 \<times> int \<times> bool \<times> u32 \<times> int \<times> (nat \<Rightarrow> u32)" where
  "log_vars s = (sleeplocks s, fl_start s, fl_outstanding s, fl_committing s, fl_dev s, lh_n s, lh_block s)"

section \<open>Descriptors\<close>

lemma upt_VQ_NUM: "[0..<VQ_NUM] = [0, 1, 2, 3, 4, 5, 6, 7]"
  by (simp add: VQ_NUM_def upt_rec)

lemma alloc3_run:
  assumes "\<forall>i < VQ_NUM. vd_free s i"
  shows "alloc3_desc (s, e) = Ok (Some [0, 1, 2]) (s\<lparr>vd_free := (vd_free s)(0 := False, 1 := False, 2 := False)\<rparr>, e)"
proof -
  have "vd_free s 0" "vd_free s 1" "vd_free s 2" using assms by (simp_all add: VQ_NUM_def)
  then show ?thesis
    by (simp add: alloc3_desc_def numeral_3_eq_3 alloc_desc_def upt_VQ_NUM kthen_def kbind_def)
qed

definition freed :: "nat \<Rightarrow> 'a disk_state_scheme \<Rightarrow> 'a disk_state_scheme" where
  "freed i s = woken (Some ChDiskFree) {..<NPROC}
     ((set_desc i (\<lambda>_. zero_desc) s)\<lparr>vd_free := (vd_free s)(i := True)\<rparr>)"

lemma set_desc_twice: "set_desc i f (set_desc i g s) = set_desc i (\<lambda>d. f (g d)) s"
  by (simp add: set_desc_def)

lemma free_desc_run:
  assumes "hart_ok s" and free: "\<And>lk. lock_free s lk" and "i < VQ_NUM" and "\<not> vd_free s i"
  shows "free_desc i (acquired LkDisk s, e) = Ok () (acquired LkDisk (freed i s), e)"
proof -
  let ?t = "(set_desc i (\<lambda>_. zero_desc) s)\<lparr>vd_free := (vd_free s)(i := True)\<rparr>"
  have zero: "d\<lparr>d_addr := DmaNull, d_len := 0, d_flags := 0, d_next := 0\<rparr> = zero_desc" for d :: virtq_desc
    by (cases d) (simp add: zero_desc_def)
  have "wakeup ChDiskFree (acquired LkDisk ?t, e) = Ok () (acquired LkDisk (freed i s), e)"
    using wakeup_run [of "acquired LkDisk ?t" ChDiskFree e] assms by (simp add: woken_lock freed_def)
  then show ?thesis
    using assms(3,4)
    by (simp add: free_desc_def kthen_def kbind_def set_buf_lock set_desc_twice zero disk_upd_lock)
qed

lemma freed_simps [simp]:
  "hart_ok (freed i s) = hart_ok s" "lock_free (freed i s) lk = lock_free s lk" "hart (freed i s) = hart s"
  "curproc (freed i s) = curproc s" "cpus (freed i s) = cpus s" "sleeplocks (freed i s) = sleeplocks s"
  "vd_free (freed i s) = (vd_free s)(i := True)" "vd_desc (freed i s) = (vd_desc s)(i := zero_desc)"
  "bufs (freed i s) = bufs s" "vd_used_idx (freed i s) = vd_used_idx s" "dev_used_idx (freed i s) = dev_used_idx s"
  "pid (procs (freed i s) j) = pid (procs s j)" "pr_ready (freed i s) = pr_ready s"
  by (simp_all add: freed_def awake_def pr_ready_def tty_ok_def woken_def set_desc_def hart_ok_def lock_free_def hart_def
      curproc_def intr_enabled_def)

lemma freed_more [simp]: "platter (freed i s) = platter s" "log_vars (freed i s) = log_vars s"
  by (simp_all add: freed_def woken_def set_desc_def log_vars_def)

section \<open>The request\<close>

text \<open>The state in which the driver waits for its request.\<close>

definition requested :: "nat \<Rightarrow> bool \<Rightarrow> 'a dev_state_scheme \<Rightarrow> 'a dev_state_scheme" where
  "requested b wr s = s
     \<lparr>vd_free := (vd_free s)(0 := False, 1 := False, 2 := False),
      vd_ops := (vd_ops s)(0 := \<lparr>rq_type = (if wr then VIRTIO_BLK_T_OUT else VIRTIO_BLK_T_IN),
        rq_reserved = 0, rq_sector = sector_of (bblockno (bufs s b))\<rparr>),
      info_status := (info_status s)(0 := 0xff),
      vd_desc := (vd_desc s)
        (0 := \<lparr>d_addr = DmaOps 0, d_len = 16, d_flags = VRING_DESC_F_NEXT, d_next = 1\<rparr>,
         1 := \<lparr>d_addr = DmaData b, d_len = of_nat BSIZE,
           d_flags = (if wr then 0 else VRING_DESC_F_WRITE) OR VRING_DESC_F_NEXT, d_next = 2\<rparr>,
         2 := \<lparr>d_addr = DmaStatus 0, d_len = 1, d_flags = VRING_DESC_F_WRITE, d_next = 0\<rparr>),
      bufs := (bufs s)(b := (bufs s b)\<lparr>bdisk := True\<rparr>),
      info_b := (info_b s)(0 := Some b),
      avail_ring := (avail_ring s)(unat (avail_idx s) mod VQ_NUM := 0),
      avail_idx := avail_idx s + 1,
      vio_written := (vio_written s)(VIRTIO_MMIO_QUEUE_NOTIFY := 0)\<rparr>"

lemma full_desc: "d\<lparr>d_addr := a, d_len := l, d_flags := f, d_next := n\<rparr> = \<lparr>d_addr = a, d_len = l, d_flags = f, d_next = n\<rparr>"
  for d :: virtq_desc
  by (cases d) simp

definition waiting :: "nat \<Rightarrow> nat \<Rightarrow> ('a dev_state_scheme, unit) kfun" where
  "waiting b i0 = kseq
     [ kloop (\<lambda>s. bdisk (bufs s b)) (sleep (ChDiskBuf b) LkDisk),
       kmod (\<lambda>s. s\<lparr>info_b := (info_b s)(i0 := None)\<rparr>),
       free_chain i0,
       release LkDisk ]"

lemma disk_rw_waits:
  fixes s :: "'a dev_state_scheme"
  assumes "lock_free s LkDisk" and "\<forall>i < VQ_NUM. vd_free s i"
  shows "virtio_disk_rw b wr (s, e) = waiting b 0 (acquired LkDisk (requested b wr s), e)"
proof -
  let ?s = "s\<lparr>vd_free := (vd_free s)(0 := False, 1 := False, 2 := False)\<rparr>"
  have alloc: "kretry alloc3_desc (sleep ChDiskFree LkDisk) (acquired LkDisk s, e) =
      Ok [0, 1, 2] (acquired LkDisk ?s, e)"
    using alloc3_run [of "acquired LkDisk s" e] assms(2)
    by (simp add: kretry_def kbind_def disk_upd_lock)
  have fmt: "format_request b wr sec 0 1 2 (acquired LkDisk ?s, e) = Ok () (acquired LkDisk
     (?s\<lparr>vd_ops := (vd_ops s)(0 := \<lparr>rq_type = (if wr then VIRTIO_BLK_T_OUT else VIRTIO_BLK_T_IN),
        rq_reserved = 0, rq_sector = sec\<rparr>),
      info_status := (info_status s)(0 := 0xff),
      vd_desc := (vd_desc s)
        (0 := \<lparr>d_addr = DmaOps 0, d_len = 16, d_flags = VRING_DESC_F_NEXT, d_next = 1\<rparr>,
         1 := \<lparr>d_addr = DmaData b, d_len = of_nat BSIZE,
           d_flags = (if wr then 0 else VRING_DESC_F_WRITE) OR VRING_DESC_F_NEXT, d_next = 2\<rparr>,
         2 := \<lparr>d_addr = DmaStatus 0, d_len = 1, d_flags = VRING_DESC_F_WRITE, d_next = 0\<rparr>)\<rparr>), e)" for sec
    by (simp add: format_request_def kthen_def kbind_def set_desc_def disk_upd_lock full_desc fun_upd_twist)
  show ?thesis
    using assms(1)
    by (simp add: virtio_disk_rw_def kthen_def kbind_def acquire_run alloc fmt del: One_nat_def if_split)
      (simp add: waiting_def kthen_def kbind_def set_buf_lock set_buf_def disk_upd_lock vio_write_def requested_def
        sector_of_def del: One_nat_def if_split)
qed

section \<open>One round of the environment\<close>

lemma cproc_lock:
  "set_cpu (hart s) (\<lambda>c. c\<lparr>cproc := x\<rparr>) (acquired lk s) = acquired lk (set_cpu (hart s) (\<lambda>c. c\<lparr>cproc := x\<rparr>) s)"
proof -
  have swap: "q\<lparr>intena := b, cproc := x\<rparr> = q\<lparr>cproc := x, intena := b\<rparr>"
    "q\<lparr>noff := n, cproc := x\<rparr> = q\<lparr>cproc := x, noff := n\<rparr>" for q :: cpu and b n
    by (cases q; simp)+
  show ?thesis
    by (cases s) (simp add: acquired_def push_off_st_def set_lock_def set_cpu_def set_sie_def intr_enabled_def
        hart_def swap)
qed

lemma set_cpu_sched [simp]:
  "procs (set_cpu c f s) = procs s" "sleeplocks (set_cpu c f s) = sleeplocks s"
  by (simp_all add: set_cpu_def)

lemma served_simps [simp]:
  "hart_ok (served s i b) = hart_ok s" "lock_free (served s i b) lk = lock_free s lk" "hart (served s i b) = hart s"
  "curproc (served s i b) = curproc s" "cpus (served s i b) = cpus s" "procs (served s i b) = procs s"
  "sleeplocks (served s i b) = sleeplocks s" "pr_ready (served s i b) = pr_ready s"
  "log_vars (served s i b) = log_vars s" "vd_used_idx (served s i b) = vd_used_idx s"
  "vd_free (served s i b) = vd_free s" "vd_desc (served s i b) = vd_desc s" "info_b (served s i b) = info_b s"
  "dev_used_idx (served s i b) = dev_used_idx s + 1" "info_status (served s i b) i = 0"
  "intr_enabled (served s i b) = intr_enabled s" "gpr (served s i b) = gpr s"
  "dev_used_ring (served s i b) = (dev_used_ring s)(unat (dev_used_idx s) mod VQ_NUM := of_nat i)"
  "bufs (served s i b) = (if rq_type (vd_ops s i) = VIRTIO_BLK_T_OUT then bufs s
     else (bufs s)(b := (bufs s b)\<lparr>bdata := platter s (rq_sector (vd_ops s i))\<rparr>))"
  "platter (served s i b) = (if rq_type (vd_ops s i) = VIRTIO_BLK_T_OUT
     then (platter s)(rq_sector (vd_ops s i) := bdata (bufs s b)) else platter s)"
  by (simp_all add: served_def Let_def set_buf_def hart_ok_def lock_free_def hart_def curproc_def pr_ready_def
      tty_ok_def log_vars_def intr_enabled_def)

lemma intr_done_simps [simp]:
  "hart_ok (intr_done b s) = hart_ok s" "lock_free (intr_done b s) lk = lock_free s lk" "hart (intr_done b s) = hart s"
  "curproc (intr_done b s) = curproc s" "cpus (intr_done b s) = cpus s" "sleeplocks (intr_done b s) = sleeplocks s"
  "pr_ready (intr_done b s) = pr_ready s" "vd_used_idx (intr_done b s) = vd_used_idx s + 1"
  "dev_used_idx (intr_done b s) = dev_used_idx s" "vd_free (intr_done b s) = vd_free s"
  "vd_desc (intr_done b s) = vd_desc s" "info_b (intr_done b s) = info_b s" "gpr (intr_done b s) = gpr s"
  "intr_enabled (intr_done b s) = intr_enabled s"
  "bufs (intr_done b s) = (bufs s)(b := (bufs s b)\<lparr>bdisk := False\<rparr>)"
  "procs (intr_done b s) = awake (Some (ChDiskBuf b)) {..<NPROC} (curproc s) (procs s)"
  by (simp_all add: intr_done_def set_buf_def woken_def hart_ok_def lock_free_def hart_def curproc_def pr_ready_def
      tty_ok_def intr_enabled_def)

lemma intr_done_more [simp]: "platter (intr_done b s) = platter s" "log_vars (intr_done b s) = log_vars s"
  by (simp_all add: intr_done_def set_buf_def woken_def log_vars_def)

lemma pr_ready_cong:
  assumes "uart_idle t = uart_idle s" "panicked t = panicked s" "uart_reg t = uart_reg s" "panicking t = panicking s"
    and "hart_ok t = hart_ok s" and "lock_free t LkPr = lock_free s LkPr"
  shows "pr_ready t = pr_ready s"
  using assms by (simp add: pr_ready_def tty_ok_def)

lemma set_cpu_keeps [simp]:
  "lock_free (set_cpu c f s) lk = lock_free s lk" "log_vars (set_cpu c f t) = log_vars t"
  "log_vars (set_proc i g t) = log_vars t" "log_vars (settled t) = log_vars t"
  "log_vars (acquired lk t) = log_vars t" "log_vars (resumed i ie t) = log_vars t"
  by (simp_all add: lock_free_def log_vars_def)

lemma cproc_keeps [simp]:
  "hart_ok (set_cpu h (\<lambda>c. c\<lparr>cproc := x\<rparr>) s) = hart_ok s" "pr_ready (set_cpu h (\<lambda>c. c\<lparr>cproc := x\<rparr>) t) = pr_ready t"
  "pr_ready (set_proc i g t) = pr_ready t" "pr_ready (settled t) = pr_ready t"
  by (simp_all add: hart_ok_def pr_ready_def tty_ok_def)

text \<open>The state without its lock when the scheduler comes back to the process.\<close>

definition rounded :: "nat \<Rightarrow> nat \<Rightarrow> 'a dev_state_scheme \<Rightarrow> 'a dev_state_scheme" where
  "rounded p b s = set_cpu (hart s) (\<lambda>c. c\<lparr>cproc := Some p\<rparr>) (set_proc p (\<lambda>q. q\<lparr>pstate := RUNNING\<rparr>)
     (intr_done b (served (settled (set_cpu (hart s) (\<lambda>c. c\<lparr>cproc := None\<rparr>) s)) 0 b)))"

lemma queued_upd [simp]:
  "queued (settled s) i b = queued s i b" "queued (set_cpu c f s) i b = queued s i b"
  "queued (set_proc p g s) i b = queued s i b"
  by (simp_all add: queued_def)

lemma disk_round_run:
  fixes s :: "'a dev_state_scheme"
  assumes ok: "hart_ok s" and free: "\<And>lk. lock_free s lk" and used: "vd_used_idx s = dev_used_idx s"
    and dev: "virtio_device dev" "queued s 0 b" and b: "info_b s 0 = Some b" and "p < NPROC"
    and slp: "pstate (procs s p) = SLEEPING" "pchan (procs s p) = Some (ChDiskBuf b)"
  shows "disk_action dev p (acquired (LkProc p) s) = acquired (LkProc p) (rounded p b s)"
proof -
  let ?a = "set_cpu (hart s) (\<lambda>c. c\<lparr>cproc := None\<rparr>) s"
  have a: "hart_ok ?a" "\<And>lk. lock_free ?a lk" "curproc ?a = None" "noff (cpus ?a (hart ?a)) = noff (cpus s (hart s))"
    using ok free by (simp_all add: hart_ok_def lock_free_def curproc_def)
  define v where "v = served (settled ?a) 0 b"
  have v: "hart_ok v" "\<And>lk. lock_free v lk" "curproc v = None" "hart v = hart s"
    using a by (simp_all add: v_def curproc_def)
  have "dev (settled ?a) = v"
    using dev by (simp add: virtio_device_def v_def)
  moreover have "virtio_disk_intr (v, []) = Ok () (settled (intr_done b v), [])"
    by (rule disk_intr_run [where i = 0]) (use a v in \<open>simp_all add: v_def used b\<close>)
  moreover have "pstate (procs (intr_done b v) p) = RUNNABLE"
    using v assms by (simp add: awake_def) (simp add: v_def)
  ultimately have "disk_round dev p (acquired (LkProc p) s, []) = Ok () (acquired (LkProc p)
      (set_cpu (hart s) (\<lambda>c. c\<lparr>cproc := Some p\<rparr>) (set_proc p (\<lambda>q. q\<lparr>pstate := RUNNING\<rparr>) (intr_done b v))), [])"
    using a v cproc_lock [of s None "LkProc p"]
      cproc_lock [of "set_proc p (\<lambda>q. q\<lparr>pstate := RUNNING\<rparr>) (intr_done b v)" "Some p" "LkProc p"]
    by (simp add: disk_round_def kthen_def kbind_def release_run acquire_run set_proc_lock)
  then show ?thesis
    by (simp add: disk_action_def rounded_def v_def)
qed

section \<open>A transfer\<close>

lemma requested_simps [simp]:
  "hart_ok (requested b wr s) = hart_ok s" "lock_free (requested b wr s) lk = lock_free s lk"
  "hart (requested b wr s) = hart s" "curproc (requested b wr s) = curproc s" "cpus (requested b wr s) = cpus s"
  "procs (requested b wr s) = procs s" "pr_ready (requested b wr s) = pr_ready s"
  "log_vars (requested b wr s) = log_vars s" "vd_used_idx (requested b wr s) = vd_used_idx s"
  "dev_used_idx (requested b wr s) = dev_used_idx s" "info_b (requested b wr s) = (info_b s)(0 := Some b)"
  "platter (requested b wr s) = platter s" "bufs (requested b wr s) = (bufs s)(b := (bufs s b)\<lparr>bdisk := True\<rparr>)"
  "intr_enabled (requested b wr s) = intr_enabled s" "gpr (requested b wr s) = gpr s"
  "vd_free (requested b wr s) = (vd_free s)(0 := False, 1 := False, 2 := False)"
  "rq_sector (vd_ops (requested b wr s) 0) = sector_of (bblockno (bufs s b))"
  "rq_type (vd_ops (requested b wr s) 0) = (if wr then VIRTIO_BLK_T_OUT else VIRTIO_BLK_T_IN)"
  by (simp_all add: requested_def hart_ok_def lock_free_def hart_def curproc_def pr_ready_def tty_ok_def
      log_vars_def intr_enabled_def)

lemma queued_requested: "queued (requested b wr s) 0 b"
  by (simp add: queued_def requested_def VQ_NUM_def VIRTIO_BLK_T_IN_def VIRTIO_BLK_T_OUT_def)

lemma chain_requested:
  "vd_desc (requested b wr s) 0 = \<lparr>d_addr = DmaOps 0, d_len = 16, d_flags = VRING_DESC_F_NEXT, d_next = 1\<rparr>"
  "vd_desc (requested b wr s) 1 = \<lparr>d_addr = DmaData b, d_len = of_nat BSIZE,
     d_flags = (if wr then 0 else VRING_DESC_F_WRITE) OR VRING_DESC_F_NEXT, d_next = 2\<rparr>"
  "vd_desc (requested b wr s) 2 = \<lparr>d_addr = DmaStatus 0, d_len = 1, d_flags = VRING_DESC_F_WRITE, d_next = 0\<rparr>"
  by (simp_all add: requested_def)

lemma free_chain_run:
  fixes s r :: "'a dev_state_scheme"
  assumes "hart_ok s" and "\<And>lk. lock_free s lk" and "vd_desc s = vd_desc (requested b wr r)"
    and "\<not> vd_free s 0" "\<not> vd_free s 1" "\<not> vd_free s 2"
  shows "free_chain 0 (acquired LkDisk s, e) = Ok () (acquired LkDisk (freed 2 (freed 1 (freed 0 s))), e)"
proof -
  have flags: "((if wr then 0 else VRING_DESC_F_WRITE) OR VRING_DESC_F_NEXT) AND VRING_DESC_F_NEXT \<noteq> 0"
    "VRING_DESC_F_NEXT AND VRING_DESC_F_NEXT \<noteq> 0" "VRING_DESC_F_WRITE AND VRING_DESC_F_NEXT = 0"
    by (simp_all add: VRING_DESC_F_NEXT_def VRING_DESC_F_WRITE_def)
  obtain m where rounds: "VQ_NUM + 1 = Suc (Suc (Suc m))" by (simp add: VQ_NUM_def)
  have "0 < VQ_NUM" "1 < VQ_NUM" "2 < VQ_NUM" by (simp_all add: VQ_NUM_def)
  then show ?thesis
    unfolding free_chain_def rounds
    using assms flags chain_requested [of b wr r]
    by (simp add: kthen_def kbind_def free_desc_run del: One_nat_def)
qed

text \<open>The state the driver is in, without its lock, when its request is done.\<close>

definition resumed_with :: "nat \<Rightarrow> nat \<Rightarrow> 'a dev_state_scheme \<Rightarrow> 'a dev_state_scheme" where
  "resumed_with p b r = (set_proc p (\<lambda>q. q\<lparr>pchan := None\<rparr>)
     (resumed p (intr_enabled r) (rounded p b (asleep (ChDiskBuf b) p r))))\<lparr>info_b := (info_b r)(0 := None)\<rparr>"

lemma asleep_keeps [simp]:
  "bufs (asleep ch p s) = bufs s" "vd_desc (asleep ch p s) = vd_desc s" "vd_free (asleep ch p s) = vd_free s"
  "vd_used_idx (asleep ch p s) = vd_used_idx s" "dev_used_idx (asleep ch p s) = dev_used_idx s"
  "info_b (asleep ch p s) = info_b s" "vd_ops (asleep ch p s) = vd_ops s" "pr_ready (asleep ch p s) = pr_ready s"
  for s :: "'a disk_state_scheme"
  by (simp_all add: asleep_def pr_ready_def tty_ok_def)

lemma asleep_dev [simp]:
  "platter (asleep ch p s) = platter s" "log_vars (asleep ch p s) = log_vars s" "queued (asleep ch p s) i b = queued s i b"
  by (simp_all add: asleep_def log_vars_def)

lemma asleep_machine [simp]:
  "hart (asleep ch p s) = hart s" "hart_ok (asleep ch p s) = hart_ok s" "lock_free (asleep ch p s) lk = lock_free s lk"
  "cpus (asleep ch p s) = cpus s" "curproc (asleep ch p s) = curproc s"
  "procs (asleep ch p s) = (procs s)(p := (procs s p)\<lparr>pchan := Some ch, pstate := SLEEPING, pcontext := save_context (gpr s)\<rparr>)"
  by (simp_all add: asleep_def)

lemma rounded_simps [simp]:
  fixes s :: "'a dev_state_scheme"
  assumes "hart_ok s" and "noff (cpus s (hart s)) = 0"
  shows "noff (cpus (rounded p b s) c) = noff (cpus s c)" "hart (rounded p b s) = hart s"
    "curproc (rounded p b s) = Some p" "lock_free (rounded p b s) lk = lock_free s lk"
    "pid (procs (rounded p b s) i) = pid (procs s i)" "vd_free (rounded p b s) = vd_free s"
    "vd_desc (rounded p b s) = vd_desc s" "vd_used_idx (rounded p b s) = vd_used_idx s + 1"
    "dev_used_idx (rounded p b s) = dev_used_idx s + 1" "log_vars (rounded p b s) = log_vars s"
    "platter (rounded p b s) = (if rq_type (vd_ops s 0) = VIRTIO_BLK_T_OUT
       then (platter s)(rq_sector (vd_ops s 0) := bdata (bufs s b)) else platter s)"
    "bufs (rounded p b s) = (bufs s)(b := (bufs s b)\<lparr>
       bdata := if rq_type (vd_ops s 0) = VIRTIO_BLK_T_OUT then bdata (bufs s b) else platter s (rq_sector (vd_ops s 0)),
       bdisk := False\<rparr>)"
    "pr_ready (rounded p b s) = pr_ready s" "hart_ok (rounded p b s)"
  using assms
  by (simp_all add: rounded_def curproc_def awake_def)

lemma pr_ready_resumed [simp]: "noff (this_cpu s) = 0 \<Longrightarrow> pr_ready (resumed p ie s) = pr_ready s"
  by (rule pr_ready_cong) (simp_all add: hart_ok_def)

lemma info_b_keeps [simp]: "pr_ready (s\<lparr>info_b := x\<rparr>) = pr_ready s" "log_vars (t\<lparr>info_b := x\<rparr>) = log_vars t"
  by (simp_all add: pr_ready_def tty_ok_def log_vars_def)

lemma wait_run:
  fixes r :: "'a dev_state_scheme"
  assumes ok: "hart_ok r" "noff (this_cpu r) = 0" "curproc r = Some p" "p < NPROC" "\<And>lk. lock_free r lk"
    and dev: "virtio_device dev" "queued r 0 b" "info_b r 0 = Some b" and "vd_used_idx r = dev_used_idx r"
    and b: "bdisk (bufs r b)"
  shows "kloop (\<lambda>s. bdisk (bufs s b)) (sleep (ChDiskBuf b) LkDisk) (acquired LkDisk r, disk_action dev p # e) =
      Ok () (acquired LkDisk (set_proc p (\<lambda>q. q\<lparr>pchan := None\<rparr>)
        (resumed p (intr_enabled r) (rounded p b (asleep (ChDiskBuf b) p r)))), e)" (is "_ = Ok () (?t, e)")
    and "kloop (\<lambda>s. bdisk (bufs s b)) (sleep (ChDiskBuf b) LkDisk) (acquired LkDisk r, []) =
      Blocked (acquired (LkProc p) (asleep (ChDiskBuf b) p r), [])"
proof -
  let ?a = "asleep (ChDiskBuf b) p r"
  have act: "disk_action dev p (acquired (LkProc p) ?a) = acquired (LkProc p) (rounded p b ?a)"
    by (rule disk_round_run) (use assms in simp_all)
  have "sleep (ChDiskBuf b) LkDisk (acquired LkDisk r, disk_action dev p # e) = Ok () (?t, e)"
    by (rule sleep_run) (use assms act in simp_all)
  moreover have "bdisk (bufs (acquired LkDisk r) b)" and "\<not> bdisk (bufs ?t b)"
    using b ok by simp_all
  ultimately show "kloop (\<lambda>s. bdisk (bufs s b)) (sleep (ChDiskBuf b) LkDisk) (acquired LkDisk r, disk_action dev p # e) =
      Ok () (?t, e)"
    unfolding kloop_def by (intro kwhile_once) auto
  show "kloop (\<lambda>s. bdisk (bufs s b)) (sleep (ChDiskBuf b) LkDisk) (acquired LkDisk r, []) =
      Blocked (acquired (LkProc p) ?a, [])"
    using sleep_blocks [of r p LkDisk "ChDiskBuf b"] assms by (simp add: kloop_def kthen_def kbind_def)
qed

text \<open>
  One transfer takes one round of the device: the block is on the disk, or the content of
  the sector in the buffer; nothing else of the file system's state has changed, and without
  that round the disk is as it was.
\<close>

lemma disk_rw_run:
  fixes s :: "'a dev_state_scheme" and b :: nat
  assumes calm: "calm p k s" and dev: "virtio_device dev"
  defines "sec \<equiv> sector_of (bblockno (bufs s b))"
  shows "\<exists>t. virtio_disk_rw b wr (s, disk_action dev p # e) = Ok () (t, e) \<and> calm p k t \<and> log_vars t = log_vars s \<and>
      platter t = (if wr then (platter s)(sec := bdata (bufs s b)) else platter s) \<and>
      bufs t = (bufs s)(b := (bufs s b)\<lparr>bdata := if wr then bdata (bufs s b) else platter s sec, bdisk := False\<rparr>)"
    and "\<exists>t. virtio_disk_rw b wr (s, []) = Blocked (t, []) \<and> platter t = platter s"
proof -
  let ?r = "requested b wr s"
  let ?t = "set_proc p (\<lambda>q. q\<lparr>pchan := None\<rparr>) (resumed p (intr_enabled ?r) (rounded p b (asleep (ChDiskBuf b) p ?r)))"
  let ?u = "?t\<lparr>info_b := (info_b ?t)(0 := None)\<rparr>"
  let ?v = "settled (freed 2 (freed 1 (freed 0 ?u)))"
  note c = calmD [OF calm]
  have free3: "\<forall>i < VQ_NUM. vd_free s i" using c by simp
  have a: "hart_ok (asleep (ChDiskBuf b) p ?r)" "noff (cpus (asleep (ChDiskBuf b) p ?r) (hart (asleep (ChDiskBuf b) p ?r))) = 0"
    using c by simp_all
  have wait: "kloop (\<lambda>s. bdisk (bufs s b)) (sleep (ChDiskBuf b) LkDisk) (acquired LkDisk ?r, disk_action dev p # e) =
      Ok () (acquired LkDisk ?t, e)"
    by (rule wait_run) (use c dev queued_requested [of b wr s] in simp_all)
  have ok: "hart_ok ?t" using a by simp (simp add: hart_ok_def)
  have "free_chain 0 (acquired LkDisk ?u, e) = Ok () (acquired LkDisk (freed 2 (freed 1 (freed 0 ?u))), e)"
    by (rule free_chain_run [where b = b and wr = wr and r = s]) (use a ok c in simp_all)
  moreover have "release LkDisk (acquired LkDisk (freed 2 (freed 1 (freed 0 ?u))), e) = Ok () (?v, e)"
    by (rule release_run) (use a ok c in simp_all)
  ultimately have "virtio_disk_rw b wr (s, disk_action dev p # e) = Ok () (?v, e)"
    unfolding disk_rw_waits [OF c(5) free3] waiting_def kseq.simps kthen_def
    by (simp add: kbind_def wait disk_upd_lock)
  moreover have "calm p k ?v"
    using a ok c by (simp add: calm_def)
  moreover have "log_vars ?v = log_vars s"
    using a by simp
  ultimately show "\<exists>t. virtio_disk_rw b wr (s, disk_action dev p # e) = Ok () (t, e) \<and> calm p k t \<and> log_vars t = log_vars s \<and>
      platter t = (if wr then (platter s)(sec := bdata (bufs s b)) else platter s) \<and>
      bufs t = (bufs s)(b := (bufs s b)\<lparr>bdata := if wr then bdata (bufs s b) else platter s sec, bdisk := False\<rparr>)"
    using a by (intro exI [of _ ?v]) (simp add: sec_def VIRTIO_BLK_T_IN_def VIRTIO_BLK_T_OUT_def)
  have "kloop (\<lambda>s. bdisk (bufs s b)) (sleep (ChDiskBuf b) LkDisk) (acquired LkDisk ?r, []) =
      Blocked (acquired (LkProc p) (asleep (ChDiskBuf b) p ?r), [])"
    by (rule wait_run) (use c dev queued_requested [of b wr s] in simp_all)
  then have "virtio_disk_rw b wr (s, []) = Blocked (acquired (LkProc p) (asleep (ChDiskBuf b) p ?r), [])"
    unfolding disk_rw_waits [OF c(5) free3] waiting_def kseq.simps kthen_def
    by (simp add: kbind_def)
  then show "\<exists>t. virtio_disk_rw b wr (s, []) = Blocked (t, []) \<and> platter t = platter s"
    by simp
qed

end
