(* ===== verification/Triples.thy ===== *)
theory Triples
  imports Prelude
begin

text \<open>
  Runs that a power failure may cut. All actions of the environment are one and the same
  action \<open>act\<close>, one round of a device; a run that asks for one more than there are blocks,
  and what then survives is the part \<open>disk\<close> of the state.
\<close>

text \<open>
  From a state with \<open>P\<close>, \<open>m\<close> needs at most \<open>c\<close> rounds of the device: with fewer it returns
  with \<open>Q\<close> or is cut with \<open>C\<close> on the disk; with \<open>c\<close> or more it returns. It never panics.
\<close>

definition chl :: "('s \<Rightarrow> 's) \<Rightarrow> ('s \<Rightarrow> 'd) \<Rightarrow> nat \<Rightarrow> ('s \<Rightarrow> bool) \<Rightarrow> ('s, 'a) kfun \<Rightarrow> ('a \<Rightarrow> 's \<Rightarrow> bool) \<Rightarrow> ('d \<Rightarrow> bool) \<Rightarrow> bool" where
  "chl act disk c P m Q C \<longleftrightarrow> (\<forall>s j. P s \<longrightarrow>
     (\<exists>x t i. i \<le> c \<and> i \<le> j \<and> m (s, replicate j act) = Ok x (t, replicate (j - i) act) \<and> Q x t) \<or>
     (j < c \<and> (\<exists>t. m (s, replicate j act) = Blocked (t, []) \<and> C (disk t))))"

lemma chlI:
  assumes "\<And>s j. P s \<Longrightarrow>
     (\<exists>x t i. i \<le> c \<and> i \<le> j \<and> m (s, replicate j act) = Ok x (t, replicate (j - i) act) \<and> Q x t) \<or>
     (j < c \<and> (\<exists>t. m (s, replicate j act) = Blocked (t, []) \<and> C (disk t)))"
  shows "chl act disk c P m Q C"
  using assms by (simp add: chl_def)

lemma chlE:
  assumes "chl act disk c P m Q C" and "P s"
  obtains (returns) x t i where "i \<le> c" "i \<le> j" "m (s, replicate j act) = Ok x (t, replicate (j - i) act)" "Q x t"
    | (cut) t where "j < c" "m (s, replicate j act) = Blocked (t, [])" "C (disk t)"
  using assms unfolding chl_def by blast

named_theorems chl_intros \<open>rules for the triples of cut runs\<close>

lemma chl_conseq:
  assumes "chl act disk c P m Q C" and "\<And>s. P' s \<Longrightarrow> P s" and "\<And>x t. Q x t \<Longrightarrow> Q' x t" and "\<And>d. C d \<Longrightarrow> C' d"
    and "c \<le> c'"
  shows "chl act disk c' P' m Q' C'"
proof (rule chlI)
  fix s j
  assume "P' s"
  then have "P s" by (rule assms(2))
  from assms(1) this show "(\<exists>x t i. i \<le> c' \<and> i \<le> j \<and> m (s, replicate j act) = Ok x (t, replicate (j - i) act) \<and> Q' x t) \<or>
     (j < c' \<and> (\<exists>t. m (s, replicate j act) = Blocked (t, []) \<and> C' (disk t)))"
  proof (cases rule: chlE [where j = j])
    case (returns x t i)
    then have "i \<le> c'" using assms(5) by simp
    then show ?thesis using returns assms(3) by blast
  next
    case (cut t)
    then have "j < c'" using assms(5) by simp
    then show ?thesis using cut assms(4) by blast
  qed
qed

lemma chl_kbind:
  assumes "chl act disk c P m R C" and "\<And>x. chl act disk c' (R x) (f x) Q C"
  shows "chl act disk (c + c') P (kbind m f) Q C"
proof (rule chlI)
  fix s j
  assume "P s"
  with assms(1) show "(\<exists>x t i. i \<le> c + c' \<and> i \<le> j \<and> kbind m f (s, replicate j act) = Ok x (t, replicate (j - i) act) \<and> Q x t) \<or>
     (j < c + c' \<and> (\<exists>t. kbind m f (s, replicate j act) = Blocked (t, []) \<and> C (disk t)))"
  proof (cases rule: chlE [where j = j])
    case first: (returns x t i)
    from assms(2) [of x] first(4) show ?thesis
    proof (cases rule: chlE [where j = "j - i"])
      case (returns y u l)
      then have "kbind m f (s, replicate j act) = Ok y (u, replicate (j - (i + l)) act)"
        using first by (simp add: kbind_def)
      moreover have "i + l \<le> c + c'" and "i + l \<le> j" using first returns by simp_all
      ultimately show ?thesis using returns by blast
    next
      case (cut u)
      then have "kbind m f (s, replicate j act) = Blocked (u, [])"
        using first by (simp add: kbind_def)
      moreover have "j < c + c'" using first cut by simp
      ultimately show ?thesis using cut by blast
    qed
  next
    case (cut t)
    then have "kbind m f (s, replicate j act) = Blocked (t, [])" and "j < c + c'"
      by (simp_all add: kbind_def)
    then show ?thesis using cut by blast
  qed
qed

text \<open>What returns without the environment.\<close>

lemma chl_pure:
  assumes "\<And>s e. P s \<Longrightarrow> \<exists>t. m (s, e) = Ok x (t, e) \<and> Q x t"
  shows "chl act disk 0 P m Q C"
  using assms unfolding chl_def by (metis diff_zero le0)

lemma chl_run:
  assumes "\<And>s e. P s \<Longrightarrow> \<exists>x t. m (s, e) = Ok x (t, e) \<and> Q x t"
  shows "chl act disk 0 P m Q C"
  using assms unfolding chl_def by (metis diff_zero le0)

lemma chl_kret [chl_intros]: "chl act disk 0 (Q x) (kret x) Q C"
  by (rule chl_pure) simp

lemma chl_kmod: "chl act disk 0 (\<lambda>s. Q () (f s)) (kmod f) Q C"
  by (rule chl_pure) simp

lemma chl_kget_bind:
  assumes "\<And>s. P s \<Longrightarrow> g s = x" and "chl act disk c P (f x) Q C"
  shows "chl act disk c P (kbind (kget g) f) Q C"
  using assms unfolding chl_def kbind_def by simp

lemma chl_kthen:
  "chl act disk c P m (\<lambda>_. R) C \<Longrightarrow> chl act disk c' R k Q C \<Longrightarrow> chl act disk (c + c') P (kthen m k) Q C"
  unfolding kthen_def by (rule chl_kbind)

lemma chl_kseq_Cons:
  "chl act disk c P m (\<lambda>_. R) C \<Longrightarrow> chl act disk c' R (kseq ms) Q C \<Longrightarrow> chl act disk (c + c') P (kseq (m # ms)) Q C"
  by (simp add: chl_kthen)

lemma chl_kif:
  assumes "\<And>s. P s \<Longrightarrow> b s = v" and "chl act disk c P (if v then m else k) Q C"
  shows "chl act disk c P (kif b m k) Q C"
  using assms unfolding chl_def by (cases v) simp_all

lemma chl_kwhen:
  assumes "\<And>s. P s \<Longrightarrow> b s = v" and "chl act disk c P (if v then m else kret ()) Q C"
  shows "chl act disk c P (kwhen b m) Q C"
  unfolding kwhen_def using assms by (rule chl_kif)

text \<open>A loop over indices keeps an invariant that counts its rounds.\<close>

lemma chl_kfor_from:
  assumes "\<And>i. l \<le> i \<Longrightarrow> i < n \<Longrightarrow> chl act disk c (I i) (f i) (\<lambda>_. I (Suc i)) C" and "l \<le> n"
  shows "chl act disk ((n - l) * c) (I l) (kfor [l..<n] f) (\<lambda>_. I n) C"
  using assms
proof (induction "n - l" arbitrary: l)
  case 0
  then show ?case using chl_kret [of act disk "\<lambda>_. I n"] by simp
next
  case (Suc d)
  have "chl act disk (c + (n - Suc l) * c) (I l) (kfor (l # [Suc l..<n]) f) (\<lambda>_. I n) C"
    unfolding kfor.simps by (rule chl_kthen [where R = "I (Suc l)"]) (use Suc in auto)
  moreover have "[l..<n] = l # [Suc l..<n]" and "(n - l) * c = c + (n - Suc l) * c"
    using Suc.hyps(2) upt_conv_Cons [of l n] Suc_diff_Suc [of l n] by simp_all
      (metis Suc_diff_Suc Suc.hyps(2) mult_Suc zero_less_Suc zero_less_diff)
  ultimately show ?case by simp
qed

lemma chl_kfor:
  assumes "\<And>i. i < n \<Longrightarrow> chl act disk c (I i) (f i) (\<lambda>_. I (Suc i)) C"
  shows "chl act disk (n * c) (I 0) (kfor [0..<n] f) (\<lambda>_. I n) C"
  using chl_kfor_from [of 0 n act disk c I f C] assms by simp

end
