(* ===== verification/Lru.thy ===== *)
theory Lru
  imports Bio
begin

text \<open>
  The list of the buffer cache, kernel/bio.c: the buffers on a ring through the head, by two
  fields of theirs. The ring holds every buffer once; the scans of bget search it from
  either end; releasing the last reference moves a buffer to the front.
\<close>

section \<open>Paths\<close>

primrec path :: "(nat \<Rightarrow> nat) \<Rightarrow> nat \<Rightarrow> nat list \<Rightarrow> nat \<Rightarrow> bool" where
  "path f a [] z \<longleftrightarrow> f a = z"
| "path f a (x # xs) z \<longleftrightarrow> f a = x \<and> path f x xs z"

lemma path_append: "path f a (xs @ x # ys) z \<longleftrightarrow> path f a xs x \<and> path f x ys z"
  by (induction xs arbitrary: a) auto

lemma path_upd: "c \<noteq> a \<Longrightarrow> c \<notin> set xs \<Longrightarrow> path (f(c := y)) a xs z = path f a xs z"
  by (induction xs arbitrary: a) auto

lemma path_hd: "path f a xs z \<Longrightarrow> f a = hd (xs @ [z])"
  by (cases xs) auto

lemma path_end: "distinct (a # xs) \<Longrightarrow> path f a xs z \<Longrightarrow> path (f(last (a # xs) := y)) a xs y"
proof (induction xs arbitrary: a)
  case (Cons x xs)
  have "last (x # xs) \<in> set (x # xs)" by (rule last_in_set) simp
  then have "last (x # xs) \<noteq> a" using Cons.prems(1) by force
  then show ?case using Cons by auto
qed simp

lemma path_unlink:
  assumes "distinct (a # xs @ b # ys)" and "path f a (xs @ b # ys) z"
  shows "path (f(last (a # xs) := hd (ys @ [z]))) a (xs @ ys) z"
proof -
  have xs: "path f a xs b" and ys: "path f b ys z" using assms(2) by (simp_all add: path_append)
  have "path (f(last (a # xs) := hd (ys @ [z]))) a xs (hd (ys @ [z]))"
    using assms(1) xs by (intro path_end) auto
  moreover have "path (f(last (a # xs) := y)) (hd (ys @ [z])) (tl ys) z" if "ys \<noteq> []" for y
  proof -
    have "last (a # xs) \<in> set (a # xs)" by (rule last_in_set) simp
    then have "last (a # xs) \<notin> set ys" using assms(1) by auto
    moreover have "path f (hd ys) (tl ys) z" and "hd ys \<in> set ys" and "set (tl ys) \<subseteq> set ys"
      using ys that by (cases ys; auto)+
    ultimately show ?thesis using that by (subst path_upd) auto
  qed
  ultimately show ?thesis
    by (cases ys) (auto simp: path_append)
qed

lemma path_push:
  assumes "path f a xs z" and "a \<notin> set xs" and "b \<notin> set xs" and "a \<noteq> b"
  shows "path (f(b := f a, a := b)) a (b # xs) z"
  using assms by (cases xs) (auto simp: path_upd)

lemma path_last: "path f a xs z \<Longrightarrow> f (last (a # xs)) = z"
  by (induction xs arbitrary: a) auto

section \<open>The ring of buffers\<close>

lemma bhead_out [simp]: "\<not> bhead < NBUF"
  by (simp add: bhead_def)

definition lru :: "(nat \<Rightarrow> buf) \<Rightarrow> nat list \<Rightarrow> bool" where
  "lru bs L \<longleftrightarrow> distinct (bhead # L) \<and> set L = {..<NBUF} \<and>
     path (bnext \<circ> bs) bhead L bhead \<and> path (bprev \<circ> bs) bhead (rev L) bhead"

lemma lru_cong: "\<forall>b. bnext (bs' b) = bnext (bs b) \<and> bprev (bs' b) = bprev (bs b) \<Longrightarrow> lru bs' L = lru bs L"
  by (simp add: lru_def comp_def)

lemma lru_length: "lru bs L \<Longrightarrow> length L = NBUF"
  unfolding lru_def by (metis card_lessThan distinct.simps(2) distinct_card)

lemma scan_cached_path:
  "path (bnext \<circ> bs) a xs bhead \<Longrightarrow> bhead \<notin> set xs \<Longrightarrow> length xs \<le> n \<Longrightarrow>
    scan_cached (Suc n) bs d k (bnext (bs a)) = find (\<lambda>b. bdev (bs b) = d \<and> bblockno (bs b) = k) xs"
proof (induction xs arbitrary: a n)
  case (Cons x xs)
  then obtain m where "n = Suc m" by (cases n) auto
  then show ?case using Cons by auto
qed simp

lemma scan_unused_path:
  "path (bprev \<circ> bs) a xs bhead \<Longrightarrow> bhead \<notin> set xs \<Longrightarrow> length xs \<le> n \<Longrightarrow>
    scan_unused (Suc n) bs (bprev (bs a)) = find (\<lambda>b. brefcnt (bs b) = 0) xs"
proof (induction xs arbitrary: a n)
  case (Cons x xs)
  then obtain m where "n = Suc m" by (cases n) auto
  then show ?case using Cons by auto
qed simp

lemma scan_lru:
  assumes "lru bs L"
  shows "scan_cached (NBUF + 1) bs d k (bnext (bs bhead)) = find (\<lambda>b. bdev (bs b) = d \<and> bblockno (bs b) = k) L"
    and "scan_unused (NBUF + 1) bs (bprev (bs bhead)) = find (\<lambda>b. brefcnt (bs b) = 0) (rev L)"
  using assms lru_length [OF assms] scan_cached_path [of bs bhead L NBUF d k]
    scan_unused_path [of bs bhead "rev L" NBUF]
  by (simp_all add: lru_def del: scan_cached.simps scan_unused.simps)

section \<open>Moving a buffer to the front\<close>

text \<open>The six assignments of brelse.\<close>

definition to_front :: "nat \<Rightarrow> (nat \<Rightarrow> buf) \<Rightarrow> nat \<Rightarrow> buf" where
  "to_front b bs =
     (let s1 = bs(bnext (bs b) := (bs (bnext (bs b)))\<lparr>bprev := bprev (bs b)\<rparr>);
          s2 = s1(bprev (s1 b) := (s1 (bprev (s1 b)))\<lparr>bnext := bnext (s1 b)\<rparr>);
          s3 = s2(b := (s2 b)\<lparr>bnext := bnext (s2 bhead)\<rparr>);
          s4 = s3(b := (s3 b)\<lparr>bprev := bhead\<rparr>);
          s5 = s4(bnext (s4 bhead) := (s4 (bnext (s4 bhead)))\<lparr>bprev := b\<rparr>)
      in s5(bhead := (s5 bhead)\<lparr>bnext := b\<rparr>))"

lemma links_upd:
  "bnext \<circ> (bs(x := (bs x)\<lparr>bnext := y\<rparr>)) = (bnext \<circ> bs)(x := y)" "bprev \<circ> (bs(x := (bs x)\<lparr>bnext := y\<rparr>)) = bprev \<circ> bs"
  "bprev \<circ> (bs(x := (bs x)\<lparr>bprev := y\<rparr>)) = (bprev \<circ> bs)(x := y)" "bnext \<circ> (bs(x := (bs x)\<lparr>bprev := y\<rparr>)) = bnext \<circ> bs"
  by (auto simp: fun_eq_iff)

lemma to_front_lru:
  assumes "lru bs L" and "b \<in> set L"
  shows "\<exists>L'. lru (to_front b bs) L'"
proof -
  obtain xs ys where L: "L = xs @ b # ys" using assms(2) by (meson split_list)
  have d: "distinct (bhead # xs @ b # ys)" "set (xs @ b # ys) = {..<NBUF}"
    and fw: "path (bnext \<circ> bs) bhead (xs @ b # ys) bhead" and bw: "path (bprev \<circ> bs) bhead (rev ys @ b # rev xs) bhead"
    using assms(1) by (simp_all add: lru_def L)
  define f g where "f = bnext \<circ> bs" and "g = bprev \<circ> bs"
  define n q where "n = hd (ys @ [bhead])" and "q = last (bhead # xs)"
  have nq: "f b = n" "g b = q" "last (bhead # rev ys) = n" "hd (rev xs @ [bhead]) = q" "n \<noteq> b" "q \<noteq> b" "b \<noteq> bhead"
  proof -
    show "f b = n" and "g b = q"
      using path_hd [of f b ys bhead] path_hd [of g b "rev xs" bhead] fw bw
      by (simp_all add: f_def g_def n_def q_def path_append hd_append last_rev [symmetric] hd_rev)
    show "last (bhead # rev ys) = n" "hd (rev xs @ [bhead]) = q"
      by (auto simp: n_def q_def last_rev hd_append hd_rev)
    have "n \<in> set (ys @ [bhead])" and "q \<in> set (bhead # xs)"
      unfolding n_def q_def by (rule hd_in_set, simp, rule last_in_set, simp)
    then show "n \<noteq> b" "q \<noteq> b" "b \<noteq> bhead" using d(1) by auto
  qed
  have f1: "path (f(q := n)) bhead (xs @ ys) bhead"
    using path_unlink [OF d(1), of f bhead] fw by (simp add: f_def n_def q_def)
  have g1: "path (g(n := q)) bhead (rev ys @ rev xs) bhead"
    using path_unlink [of bhead "rev ys" b "rev xs" g bhead] bw d(1) nq(3,4) by (simp add: g_def Int_commute)
  define f1' g1' where "f1' = f(q := n)" and "g1' = g(n := q)"
  have f2: "path (f1'(b := f1' bhead, bhead := b)) bhead (b # xs @ ys) bhead"
    by (rule path_push) (use d f1 nq(7) in \<open>auto simp: f1'_def\<close>)
  define h where "h = f1' bhead"
  have h: "h = hd ((xs @ ys) @ [bhead])" using path_hd [OF f1] by (simp add: h_def f1'_def)
  then have "h = last (bhead # rev (xs @ ys))" by (simp add: last_rev hd_append)
  moreover have "distinct (bhead # rev ys @ rev xs)" using d(1) by auto
  ultimately have "path (g1'(h := b)) bhead (rev ys @ rev xs) b"
    using path_end [of bhead "rev ys @ rev xs" g1' bhead b] g1 by (simp add: g1'_def)
  moreover have hb: "h \<noteq> b"
  proof -
    have "h \<in> set ((xs @ ys) @ [bhead])" unfolding h by (rule hd_in_set) simp
    then show ?thesis using d(1) by auto
  qed
  ultimately have "path (g1'(b := bhead, h := b)) bhead (rev ys @ rev xs) b"
    using d(1) nq(7) by (subst fun_upd_twist) (auto intro!: path_upd [THEN iffD2])
  then have g2: "path (g1'(b := bhead, h := b)) bhead (rev (b # xs @ ys)) bhead"
    using hb path_append [of _ bhead "rev ys @ rev xs" b "[]" bhead] by simp
  define s1 where "s1 = bs(n := (bs n)\<lparr>bprev := q\<rparr>)"
  define s2 where "s2 = s1(q := (s1 q)\<lparr>bnext := n\<rparr>)"
  define s3 where "s3 = s2(b := (s2 b)\<lparr>bnext := h\<rparr>)"
  define s4 where "s4 = s3(b := (s3 b)\<lparr>bprev := bhead\<rparr>)"
  define s5 where "s5 = s4(h := (s4 h)\<lparr>bprev := b\<rparr>)"
  have nx1: "bnext \<circ> s1 = f" and pv1: "bprev \<circ> s1 = g1'"
    by (simp_all only: s1_def links_upd f_def g_def g1'_def)
  have nx2: "bnext \<circ> s2 = f1'" and pv2: "bprev \<circ> s2 = g1'"
    by (simp_all only: s2_def links_upd nx1 pv1 f1'_def)
  have nx3: "bnext \<circ> s3 = f1'(b := h)" and pv3: "bprev \<circ> s3 = g1'"
    by (simp_all only: s3_def links_upd nx2 pv2)
  have nx4: "bnext \<circ> s4 = f1'(b := h)" and pv4: "bprev \<circ> s4 = g1'(b := bhead)"
    by (simp_all only: s4_def links_upd nx3 pv3)
  have nx5: "bnext \<circ> s5 = f1'(b := h)" and pv5: "bprev \<circ> s5 = g1'(b := bhead, h := b)"
    by (simp_all only: s5_def links_upd nx4 pv4)
  have at: "bnext (bs b) = n" "bprev (bs b) = q" "bprev (s1 b) = q" "bnext (s1 b) = n" "bnext (s2 bhead) = h"
    "bnext (s4 bhead) = h"
    using nq fun_cong [OF nx1, of b] fun_cong [OF pv1, of b] fun_cong [OF nx2, of bhead] fun_cong [OF nx4, of bhead]
    by (simp_all add: f_def g_def g1'_def h_def)
  have "to_front b bs = s5(bhead := (s5 bhead)\<lparr>bnext := b\<rparr>)"
    unfolding to_front_def Let_def at s1_def [symmetric] s2_def [symmetric] s3_def [symmetric] s4_def [symmetric]
      s5_def [symmetric] ..
  then have "bnext \<circ> to_front b bs = f1'(b := h, bhead := b)" and "bprev \<circ> to_front b bs = g1'(b := bhead, h := b)"
    by (simp_all only: links_upd nx5 pv5)
  then have "lru (to_front b bs) (b # xs @ ys)"
    using f2 g2 d by (auto simp: lru_def h_def)
  then show ?thesis by blast
qed

lemma to_front_field:
  assumes "\<And>x y. sel (x\<lparr>bnext := y\<rparr>) = sel x" and "\<And>x y. sel (x\<lparr>bprev := y\<rparr>) = sel x"
  shows "sel (to_front b bs i) = sel (bs i)"
proof -
  have "sel ((s(x := (s x)\<lparr>bnext := y\<rparr>)) i) = sel (s i)" "sel ((s(x := (s x)\<lparr>bprev := y\<rparr>)) i) = sel (s i)"
    for s :: "nat \<Rightarrow> buf" and x y
    using assms by simp_all
  then show ?thesis unfolding to_front_def Let_def by (simp only:)
qed

lemma to_front_keeps [simp]:
  "bvalid (to_front b bs i) = bvalid (bs i)" "bdisk (to_front b bs i) = bdisk (bs i)"
  "bdev (to_front b bs i) = bdev (bs i)" "bblockno (to_front b bs i) = bblockno (bs i)"
  "brefcnt (to_front b bs i) = brefcnt (bs i)" "bdata (to_front b bs i) = bdata (bs i)"
  by (rule to_front_field; simp)+

section \<open>The first ring\<close>

text \<open>What binit leaves behind: every buffer in front of the one before.\<close>

lemma path_down: "f a = n - 1 \<Longrightarrow> (\<And>i. 0 < i \<Longrightarrow> i < n \<Longrightarrow> f i = i - 1) \<Longrightarrow> 0 < n \<Longrightarrow> f 0 = z \<Longrightarrow> path f a (rev [0..<n]) z"
proof (induction n arbitrary: a)
  case (Suc n)
  show ?case
  proof (cases n)
    case 0
    then show ?thesis using Suc.prems by simp
  next
    case (Suc m)
    then have "path f n (rev [0..<n]) z"
      using Suc.prems by (intro Suc.IH) auto
    then show ?thesis using Suc.prems(1) by simp
  qed
qed simp

lemma path_up: "f a = l \<Longrightarrow> (\<And>i. l \<le> i \<Longrightarrow> i < n - 1 \<Longrightarrow> f i = i + 1) \<Longrightarrow> l < n \<Longrightarrow> f (n - 1) = z \<Longrightarrow> path f a [l..<n] z"
proof (induction "n - l" arbitrary: a l)
  case (Suc d)
  show ?case
  proof (cases "Suc l = n")
    case True
    then show ?thesis using Suc.prems by (auto simp: upt_conv_Cons)
  next
    case False
    then have "path f l [Suc l..<n] z"
      using Suc.prems Suc.hyps(2) by (intro Suc.hyps(1)) auto
    then show ?thesis using Suc.prems by (simp add: upt_conv_Cons)
  qed
qed simp

end
