(* ===== verification/Cache.thy ===== *)
theory Cache
  imports Disk Lru Triples
begin

text \<open>
  The buffer cache as a store of blocks: reading a block gives what was last written to it,
  whether that is in a buffer or on the disk; a block nobody refers to is on the disk. The
  operations of kernel/bio.c act on this store as the contract at the end says; a power
  failure during one leaves the disk as it was.
\<close>

section \<open>Sleep locks of a calm kernel\<close>

lemma calm_keeps [simp]:
  "calm p k (settled s) = calm p k s" "calm p k (set_buf b f s) = calm p k s"
  "calm p k (s\<lparr>bufs := bs\<rparr>) = calm p k s"
  by (simp_all add: calm_def pr_ready_def tty_ok_def set_buf_def)

lemma set_slock_simps [simp]:
  "hart_ok (set_slock x f s) = hart_ok s" "hart (set_slock x f s) = hart s" "cpus (set_slock x f s) = cpus s"
  "curproc (set_slock x f s) = curproc s" "lock_free (set_slock x f s) lk = lock_free s lk"
  "procs (set_slock x f s) = procs s" "intr_enabled (set_slock x f s) = intr_enabled s"
  "sleeplocks (set_slock x f s) = (sleeplocks s)(x := f (sleeplocks s x))"
  by (simp_all add: set_slock_def)

lemma set_slock_disk [simp]:
  fixes s :: "'a dev_state_scheme"
  shows "bufs (set_slock x f s) = bufs s" "platter (set_slock x f s) = platter s"
    "snd (log_vars (set_slock x f s)) = snd (log_vars s)"
  by (simp_all add: set_slock_def log_vars_def)

lemma set_slock_lock: "set_slock x f (acquired lk s) = acquired lk (set_slock x f s)"
  by (simp add: set_slock_def sleeplocks_lock)

lemma set_slock_twice: "set_slock x f (set_slock x g s) = set_slock x (\<lambda>l. f (g l)) s"
  by (simp add: set_slock_def)

lemma calm_set_slock [simp]: "calm p k (set_slock x f s) = calm p k s"
  by (simp add: calm_def pr_ready_def tty_ok_def) (simp add: set_slock_def)

lemma sleeplocks_woken [simp]: "sleeplocks (woken ch is s) = sleeplocks s"
  by (simp add: woken_def)

lemma calm_woken [simp]: "calm p k (woken ch is s) = calm p k s"
  by (simp add: calm_def pr_ready_def tty_ok_def awake_def)

lemma acquiresleep_run:
  assumes "calm p k s" and "\<not> slocked (sleeplocks s x)"
  shows "acquiresleep x (s, e) = Ok () (settled (set_slock x (\<lambda>l. l\<lparr>slocked := True, slpid := k\<rparr>) s), e)"
proof -
  note c = calmD [OF assms(1)]
  have "release (slk x) (acquired (slk x) (set_slock x (\<lambda>l. l\<lparr>slocked := True, slpid := k\<rparr>) s), e) =
      Ok () (settled (set_slock x (\<lambda>l. l\<lparr>slocked := True, slpid := k\<rparr>) s), e)"
    by (rule release_run) (use c in simp_all)
  then show ?thesis
    using c assms(2)
    by (simp add: acquiresleep_def kthen_def kbind_def acquire_run kloop_done with_myproc_run set_slock_lock
        set_slock_twice)
qed

lemma releasesleep_run:
  assumes "calm p k s"
  shows "releasesleep x (s, e) = Ok () (settled (woken (Some (ChSleep x)) {..<NPROC}
     (set_slock x (\<lambda>l. l\<lparr>slocked := False, slpid := 0\<rparr>) s)), e)" (is "_ = Ok () (settled ?t, e)")
proof -
  note c = calmD [OF assms]
  let ?s = "set_slock x (\<lambda>l. l\<lparr>slocked := False, slpid := 0\<rparr>) s"
  have free: "lock_free (acquired (slk x) ?s) (LkProc i)" for i
    using c by (cases x) (simp_all add: slk_def)
  have "wakeup (ChSleep x) (acquired (slk x) ?s, e) = Ok () (acquired (slk x) ?t, e)"
    using wakeup_run [of "acquired (slk x) ?s" "ChSleep x" e] c free by (simp add: woken_lock)
  moreover have "release (slk x) (acquired (slk x) ?t, e) = Ok () (settled ?t, e)"
    by (rule release_run) (use c in simp_all)
  ultimately show ?thesis
    using c by (simp add: releasesleep_def kthen_def kbind_def acquire_run set_slock_lock set_slock_twice)
qed

lemma holdingsleep_run:
  assumes "calm p k s"
  shows "holdingsleep x (s, e) = Ok (slocked (sleeplocks s x) \<and> slpid (sleeplocks s x) = k) (settled s, e)"
proof -
  note c = calmD [OF assms]
  show ?thesis
    using c by (simp add: holdingsleep_def kthen_def kbind_def acquire_run with_myproc_run release_run)
qed

section \<open>The store\<close>

text \<open>The block numbers whose sectors a 32-bit product still tells apart, and the disk by block.\<close>

definition blk_ok :: "u32 \<Rightarrow> bool" where
  "blk_ok n \<longleftrightarrow> unat n < 2 ^ 31"

definition blocks :: "'a dev_state_scheme \<Rightarrow> u32 \<Rightarrow> u8 list" where
  "blocks s n = (if blk_ok n then platter s (sector_of n) else [])"

lemma sector_of_inj: "blk_ok m \<Longrightarrow> blk_ok n \<Longrightarrow> sector_of m = sector_of n \<longleftrightarrow> m = n"
proof
  assume ok: "blk_ok m" "blk_ok n" and eq: "sector_of m = sector_of n"
  have two: "(of_nat (BSIZE div 512) :: u32) = 2" by (simp add: BSIZE_def)
  have "unat (sector_of x) = 2 * unat x" if "blk_ok x" for x
  proof -
    have "unat (x * 2) = unat x * unat (2 :: u32)"
      by (rule unat_mult_lem [THEN iffD1]) (use that in \<open>simp add: blk_ok_def\<close>)
    then show ?thesis by (simp add: sector_of_def two unsigned_ucast_eq take_bit_nat_eq_self_iff
          unsigned_less [of "x * 2", simplified] order_less_le_trans)
  qed
  then have "unat m = unat n" using ok eq by (metis mult_left_cancel zero_neq_numeral)
  then show "m = n" by (simp add: word_unat_eq_iff)
qed simp

text \<open>
  \<open>vw\<close> is the content of the blocks as read through the cache, \<open>dk\<close> that of the disk; \<open>rf\<close>
  counts the references to a block, \<open>hl\<close> is the blocks whose buffers the process has locked,
  \<open>slot\<close> these buffers, \<open>fr\<close> those of them that may still have to be read from the disk. The rest is the log's: its first block, its header, its counters.
\<close>

record store =
  vw :: "u32 \<Rightarrow> u8 list"
  dk :: "u32 \<Rightarrow> u8 list"
  rf :: "u32 \<Rightarrow> nat"
  hl :: "u32 set"
  slot :: "u32 \<Rightarrow> nat"
  fr :: "u32 set"
  st_start :: u32
  st_out :: int
  st_com :: bool
  st_n :: int
  st_blk :: "nat \<Rightarrow> u32"

definition buf_rel :: "nat \<Rightarrow> int \<Rightarrow> u32 \<Rightarrow> store \<Rightarrow> 'a dev_state_scheme \<Rightarrow> nat \<Rightarrow> bool" where
  "buf_rel p k D a s b \<longleftrightarrow> (let x = bufs s b; n = bblockno x; l = sleeplocks s (SlBuf b) in
     if bdev x = D
     then blk_ok n \<and> unat (brefcnt x) = rf a n \<and> (if bvalid x then bdata x = vw a n else vw a n = dk a n \<and> (n \<in> hl a \<longrightarrow> n \<in> fr a)) \<and>
       (slocked l \<longleftrightarrow> n \<in> hl a) \<and> (n \<in> hl a \<longrightarrow> slpid l = k \<and> slot a n = b)
     else brefcnt x = 0 \<and> \<not> slocked l)"

definition cache_rel :: "nat \<Rightarrow> int \<Rightarrow> u32 \<Rightarrow> store \<Rightarrow> 'a dev_state_scheme \<Rightarrow> bool" where
  "cache_rel p k D a s \<longleftrightarrow>
     calm p k s \<and> (\<exists>L. lru (bufs s) L) \<and>
     (\<forall>b < NBUF. buf_rel p k D a s b) \<and>
     (\<forall>b < NBUF. \<forall>c < NBUF. bdev (bufs s b) = D \<and> bdev (bufs s c) = D \<and> bblockno (bufs s b) = bblockno (bufs s c) \<longrightarrow> b = c) \<and>
     (\<forall>n. 0 < rf a n \<longrightarrow> (\<exists>b < NBUF. bdev (bufs s b) = D \<and> bblockno (bufs s b) = n)) \<and>
     (\<forall>n. blk_ok n \<longrightarrow> rf a n = 0 \<longrightarrow> vw a n = dk a n) \<and> (\<forall>n \<in> hl a. 0 < rf a n) \<and> fr a \<subseteq> hl a \<and>
     dk a = blocks s \<and>
     snd (log_vars s) = (st_start a, st_out a, st_com a, D, st_n a, st_blk a)"

text \<open>What the operations do to the store.\<close>

definition got :: "u32 \<Rightarrow> nat \<Rightarrow> store \<Rightarrow> store" where
  "got n b a = a\<lparr>rf := (rf a)(n := rf a n + 1), hl := insert n (hl a), slot := (slot a)(n := b)\<rparr>"

definition edited :: "u32 \<Rightarrow> (u8 list \<Rightarrow> u8 list) \<Rightarrow> store \<Rightarrow> store" where
  "edited n f a = a\<lparr>vw := (vw a)(n := f (vw a n))\<rparr>"

definition flushed :: "u32 \<Rightarrow> store \<Rightarrow> store" where
  "flushed n a = a\<lparr>dk := (dk a)(n := vw a n)\<rparr>"

definition given :: "u32 \<Rightarrow> store \<Rightarrow> store" where
  "given n a = a\<lparr>rf := (rf a)(n := rf a n - 1), hl := hl a - {n}\<rparr>"

definition unpinned :: "u32 \<Rightarrow> store \<Rightarrow> store" where
  "unpinned n a = a\<lparr>rf := (rf a)(n := rf a n - 1)\<rparr>"

lemma buf_relD:
  assumes "buf_rel p k D a s b"
  shows "bdev (bufs s b) = D \<Longrightarrow> blk_ok (bblockno (bufs s b))"
    "bdev (bufs s b) = D \<Longrightarrow> unat (brefcnt (bufs s b)) = rf a (bblockno (bufs s b))"
    "bdev (bufs s b) = D \<Longrightarrow> bvalid (bufs s b) \<Longrightarrow> bdata (bufs s b) = vw a (bblockno (bufs s b))"
    "bdev (bufs s b) = D \<Longrightarrow> \<not> bvalid (bufs s b) \<Longrightarrow> vw a (bblockno (bufs s b)) = dk a (bblockno (bufs s b))"
    "bdev (bufs s b) = D \<Longrightarrow> slocked (sleeplocks s (SlBuf b)) = (bblockno (bufs s b) \<in> hl a)"
    "bdev (bufs s b) \<noteq> D \<Longrightarrow> brefcnt (bufs s b) = 0" "bdev (bufs s b) \<noteq> D \<Longrightarrow> \<not> slocked (sleeplocks s (SlBuf b))"
  using assms by (auto simp: buf_rel_def Let_def split: if_splits)

lemma buf_rel_cong:
  assumes "bufs t b = bufs s b" and "sleeplocks t (SlBuf b) = sleeplocks s (SlBuf b)"
    and "bdev (bufs s b) = D \<Longrightarrow> (let n = bblockno (bufs s b) in rf a' n = rf a n \<and> vw a' n = vw a n \<and> dk a' n = dk a n \<and>
      (n \<in> hl a' \<longleftrightarrow> n \<in> hl a) \<and> (n \<in> fr a' \<longleftrightarrow> n \<in> fr a) \<and> slot a' n = slot a n)"
  shows "buf_rel p k D a' t b = buf_rel p k D a s b"
  using assms unfolding buf_rel_def Let_def by (cases "bdev (bufs s b) = D") simp_all

lemma unat_inc: "unat w + 1 < 2 ^ 32 \<Longrightarrow> unat (w + 1) = unat w + 1" for w :: u32
  by (simp add: unat_word_ariths)

lemma cache_relD:
  assumes "cache_rel p k D a s"
  shows "calm p k s" "\<exists>L. lru (bufs s) L" "b < NBUF \<Longrightarrow> buf_rel p k D a s b"
    "\<lbrakk>b < NBUF; c < NBUF; bdev (bufs s b) = D; bdev (bufs s c) = D; bblockno (bufs s b) = bblockno (bufs s c)\<rbrakk> \<Longrightarrow> b = c"
    "0 < rf a n \<Longrightarrow> \<exists>b < NBUF. bdev (bufs s b) = D \<and> bblockno (bufs s b) = n"
    "blk_ok n \<Longrightarrow> rf a n = 0 \<Longrightarrow> vw a n = dk a n" "n \<in> hl a \<Longrightarrow> 0 < rf a n" "dk a = blocks s" "n \<in> fr a \<Longrightarrow> n \<in> hl a"
    "snd (log_vars s) = (st_start a, st_out a, st_com a, D, st_n a, st_blk a)"
  using assms unfolding cache_rel_def by blast+

lemma cache_relI:
  assumes "calm p k s" "\<exists>L. lru (bufs s) L" "\<And>b. b < NBUF \<Longrightarrow> buf_rel p k D a s b"
    and "\<And>b c. \<lbrakk>b < NBUF; c < NBUF; bdev (bufs s b) = D; bdev (bufs s c) = D; bblockno (bufs s b) = bblockno (bufs s c)\<rbrakk> \<Longrightarrow> b = c"
    and "\<And>n. 0 < rf a n \<Longrightarrow> \<exists>b < NBUF. bdev (bufs s b) = D \<and> bblockno (bufs s b) = n"
    and "\<And>n. blk_ok n \<Longrightarrow> rf a n = 0 \<Longrightarrow> vw a n = dk a n" "\<And>n. n \<in> hl a \<Longrightarrow> 0 < rf a n" "dk a = blocks s"
    and "\<And>n. n \<in> fr a \<Longrightarrow> n \<in> hl a"
    and "snd (log_vars s) = (st_start a, st_out a, st_com a, D, st_n a, st_blk a)"
  shows "cache_rel p k D a s"
  using assms unfolding cache_rel_def by blast

text \<open>A buffer the process has locked.\<close>

lemma held_buf:
  assumes "cache_rel p k D a s" and "n \<in> hl a"
  shows "slot a n < NBUF" "bdev (bufs s (slot a n)) = D" "bblockno (bufs s (slot a n)) = n"
    "n \<notin> fr a \<Longrightarrow> bvalid (bufs s (slot a n))" "n \<notin> fr a \<Longrightarrow> bdata (bufs s (slot a n)) = vw a n" "slocked (sleeplocks s (SlBuf (slot a n)))"
    "slpid (sleeplocks s (SlBuf (slot a n))) = k" "unat (brefcnt (bufs s (slot a n))) = rf a n" "blk_ok n"
proof -
  obtain b where b: "b < NBUF" "bdev (bufs s b) = D" "bblockno (bufs s b) = n"
    using cache_relD(5) [OF assms(1)] cache_relD(7) [OF assms] by blast
  moreover have "buf_rel p k D a s b" by (rule cache_relD(3) [OF assms(1) b(1)])
  ultimately show "slot a n < NBUF" "bdev (bufs s (slot a n)) = D" "bblockno (bufs s (slot a n)) = n"
    "n \<notin> fr a \<Longrightarrow> bvalid (bufs s (slot a n))" "n \<notin> fr a \<Longrightarrow> bdata (bufs s (slot a n)) = vw a n" "slocked (sleeplocks s (SlBuf (slot a n)))"
    "slpid (sleeplocks s (SlBuf (slot a n))) = k" "unat (brefcnt (bufs s (slot a n))) = rf a n" "blk_ok n"
    using assms(2) by (auto simp: buf_rel_def Let_def split: if_splits)
qed

lemma blocks_cong: "platter t = platter s \<Longrightarrow> blocks t = blocks s"
  by (rule ext) (simp add: blocks_def)

text \<open>The store depends on the buffers, their locks and the disk.\<close>

lemma cache_rel_cong:
  assumes "bufs t = bufs s" and "sleeplocks t = sleeplocks s" and "platter t = platter s"
    and "snd (log_vars t) = snd (log_vars s)" and "calm p k t = calm p k s"
  shows "cache_rel p k D a t = cache_rel p k D a s"
  unfolding cache_rel_def buf_rel_def blocks_cong [OF assms(3)] assms ..

lemma settled_rel [simp]: "cache_rel p k D a (settled s) = cache_rel p k D a s"
  by (rule cache_rel_cong) simp_all

lemma woken_rel [simp]: "cache_rel p k D a (woken ch is s) = cache_rel p k D a s"
  by (rule cache_rel_cong) (simp_all add: log_vars_def)

section \<open>Getting a buffer\<close>

definition room :: "u32 \<Rightarrow> store \<Rightarrow> bool" where
  "room n a \<longleftrightarrow> 0 < rf a n \<or> card {m. 0 < rf a m} < NBUF"

lemma unused_buffer:
  assumes "cache_rel p k D a s" and "card {m. 0 < rf a m} < NBUF"
  shows "\<exists>b < NBUF. brefcnt (bufs s b) = 0"
proof (rule ccontr)
  assume "\<not> (\<exists>b < NBUF. brefcnt (bufs s b) = 0)"
  then have used: "brefcnt (bufs s b) \<noteq> 0" if "b < NBUF" for b using that by blast
  have D: "bdev (bufs s b) = D \<and> 0 < rf a (bblockno (bufs s b))" if "b < NBUF" for b
  proof -
    note B = buf_relD [OF cache_relD(3) [OF assms(1) that]]
    have "bdev (bufs s b) = D" using B(6) used [OF that] by blast
    moreover have "unat (brefcnt (bufs s b)) \<noteq> 0" using used [OF that] by (simp add: unat_eq_0)
    ultimately show ?thesis using B(2) by simp
  qed
  have "inj_on (\<lambda>b. bblockno (bufs s b)) {..<NBUF}"
    using cache_relD(4) [OF assms(1)] D by (auto simp: inj_on_def)
  then have "card {..<NBUF} \<le> card {m. 0 < rf a m}"
    using D by (intro card_inj_on_le [where f = "\<lambda>b. bblockno (bufs s b)"]) auto
  then show False using assms(2) by simp
qed

text \<open>Counting one more reference to a cached block.\<close>

definition fetched :: "u32 \<Rightarrow> nat \<Rightarrow> store \<Rightarrow> store" where
  "fetched n b a = (got n b a)\<lparr>fr := insert n (fr a)\<rparr>"

lemma lock_buf_rel:
  fixes s :: "'a dev_state_scheme"
  assumes rel: "cache_rel p k D a s" and b: "b < NBUF" and ok: "blk_ok n" "n \<notin> hl a" "rf a n + 1 < 2 ^ 32"
    and x: "bdev x = D" "bblockno x = n" "brefcnt x = (if rf a n = 0 then 0 else brefcnt (bufs s b)) + 1"
      "bnext x = bnext (bufs s b)" "bprev x = bprev (bufs s b)"
      "if bvalid x then bdata x = vw a n else vw a n = dk a n"
    and was: "if bdev (bufs s b) = D \<and> bblockno (bufs s b) = n then True
      else brefcnt (bufs s b) = 0 \<and> (\<forall>c < NBUF. bdev (bufs s c) = D \<longrightarrow> bblockno (bufs s c) \<noteq> n)"
  shows "cache_rel p k D (fetched n b a)
     (set_slock (SlBuf b) (\<lambda>l. l\<lparr>slocked := True, slpid := k\<rparr>) (s\<lparr>bufs := (bufs s)(b := x)\<rparr>))" (is "cache_rel p k D ?a ?t")
proof -
  note R = cache_relD [OF rel]
  have same: "c = b" if "c < NBUF" "bdev (bufs s c) = D" "bblockno (bufs s c) = n" for c
    using was that R(4) [of c b] b by (auto split: if_splits)
  have nb: "rf a n = 0" if "\<not> (bdev (bufs s b) = D \<and> bblockno (bufs s b) = n)"
    using was that R(5) [of n] by auto
  have ref: "unat (brefcnt x) = rf a n + 1"
  proof (cases "bdev (bufs s b) = D \<and> bblockno (bufs s b) = n")
    case True
    then have "unat (brefcnt (bufs s b)) = rf a n"
      using buf_relD(2) [OF R(3) [OF b]] by simp
    moreover from this have "brefcnt x = brefcnt (bufs s b) + 1"
      using x(3) by (auto simp: unat_eq_0)
    ultimately show ?thesis using ok(3) by (simp add: unat_inc)
  next
    case False
    then show ?thesis using nb x(3) by simp
  qed
  have was0: "rf a (bblockno (bufs s b)) = 0" if "bdev (bufs s b) = D" "bblockno (bufs s b) \<noteq> n"
    using buf_relD(2) [OF R(3) [OF b]] was that by simp
  have bufs: "buf_rel p k D ?a ?t c" if c: "c < NBUF" for c
  proof (cases "c = b")
    case True
    then show ?thesis
      using x ref ok by (simp add: buf_rel_def fetched_def got_def)
  next
    case False
    then have "bblockno (bufs s c) \<noteq> n" if "bdev (bufs s c) = D" using same c that by blast
    with False have "buf_rel p k D ?a ?t c = buf_rel p k D a s c"
      by (intro buf_rel_cong) (simp_all add: fetched_def got_def)
    then show ?thesis using R(3) [OF c] by simp
  qed
  have ring: "\<exists>L. lru (bufs ?t) L"
    using R(2) x(4,5) lru_cong [of "(bufs s)(b := x)" "bufs s"] by simp
  have one: "c = d" if "c < NBUF" "d < NBUF" "bdev (bufs ?t c) = D" "bdev (bufs ?t d) = D"
    "bblockno (bufs ?t c) = bblockno (bufs ?t d)" for c d
  proof -
    have num: "e = b" if "e < NBUF" "bdev (bufs ?t e) = D" "bblockno (bufs ?t e) = n" for e
    proof (rule ccontr)
      assume "e \<noteq> b"
      then have "bdev (bufs s e) = D" "bblockno (bufs s e) = n" using that by simp_all
      with \<open>e < NBUF\<close> have "e = b" by (rule same)
      then show False using \<open>e \<noteq> b\<close> by simp
    qed
    have "bblockno (bufs ?t b) = n" using x(2) by simp
    then have "c = d" if "c = b \<or> d = b"
      using that num \<open>c < NBUF\<close> \<open>d < NBUF\<close> \<open>bdev (bufs ?t c) = D\<close> \<open>bdev (bufs ?t d) = D\<close>
        \<open>bblockno (bufs ?t c) = bblockno (bufs ?t d)\<close> by metis
    moreover have "c = d" if "c \<noteq> b" "d \<noteq> b"
      by (rule R(4)) (use that \<open>c < NBUF\<close> \<open>d < NBUF\<close> \<open>bdev (bufs ?t c) = D\<close> \<open>bdev (bufs ?t d) = D\<close>
        \<open>bblockno (bufs ?t c) = bblockno (bufs ?t d)\<close> in simp_all)
    ultimately show ?thesis by blast
  qed
  have ex: "\<exists>c < NBUF. bdev (bufs ?t c) = D \<and> bblockno (bufs ?t c) = m" if "0 < rf ?a m" for m
  proof (cases "m = n")
    case True
    then show ?thesis using b x by (intro exI [of _ b]) simp
  next
    case False
    then have "0 < rf a m" using that by (simp add: fetched_def got_def)
    moreover from this obtain c where c: "c < NBUF" "bdev (bufs s c) = D" "bblockno (bufs s c) = m"
      using R(5) by blast
    ultimately have "c \<noteq> b" using was0 False by auto
    then show ?thesis using c by (intro exI [of _ c]) simp
  qed
  have disk: "dk ?a = blocks ?t"
    using R(8) blocks_cong [of ?t s] by (simp add: fetched_def got_def)
  have vars: "snd (log_vars ?t) = snd (log_vars s)"
    by (simp add: log_vars_def set_slock_def)
  show ?thesis
  proof (rule cache_relI)
    show "calm p k ?t" using R(1) by simp
    show "vw ?a m = dk ?a m" if "blk_ok m" "rf ?a m = 0" for m
      using R(6) that by (simp add: fetched_def got_def split: if_splits)
    show "0 < rf ?a m" if "m \<in> hl ?a" for m
      using R(7) that by (auto simp: fetched_def got_def)
    show "m \<in> hl ?a" if "m \<in> fr ?a" for m
      using R(9) that by (auto simp: fetched_def got_def)
    show "snd (log_vars ?t) = (st_start ?a, st_out ?a, st_com ?a, D, st_n ?a, st_blk ?a)"
      using R(10) by (simp only: vars) (simp add: fetched_def got_def)
  qed (fact ring bufs one ex disk)+
qed

lemma find_in: "find P xs = Some x \<Longrightarrow> x \<in> set xs \<and> P x"
  by (auto simp: find_Some_iff)

lemma bget_tail:
  fixes s :: "'a dev_state_scheme"
  assumes "calm p k s" and "\<not> slocked (sleeplocks s (SlBuf b))"
  shows "kthen (kseq [release LkBcache, acquiresleep (SlBuf b)]) (kret b) (acquired LkBcache s, e) =
    Ok b (settled (set_slock (SlBuf b) (\<lambda>l. l\<lparr>slocked := True, slpid := k\<rparr>) (settled s)), e)"
  using acquiresleep_run [of p k "settled s" "SlBuf b" e] assms calmD [OF assms(1)]
  by (simp add: kthen_def kbind_def release_run)

lemma bget_run:
  assumes rel: "cache_rel p k D a s" and ok: "blk_ok n" "n \<notin> hl a" "rf a n + 1 < 2 ^ 32" "room n a"
  shows "\<exists>b t. bget D n (s, e) = Ok b (t, e) \<and> cache_rel p k D (fetched n b a) t"
proof -
  note R = cache_relD [OF rel]
  obtain L where L: "lru (bufs s) L" using R(2) by blast
  then have setL: "set L = {..<NBUF}" by (simp add: lru_def)
  let ?lock = "\<lambda>b s. set_slock (SlBuf b) (\<lambda>l. l\<lparr>slocked := True, slpid := k\<rparr>) s"
  have fin: "\<exists>b t. bget D n (s, e) = Ok b (t, e) \<and> cache_rel p k D (fetched n b a) t"
    if run: "bget D n (s, e) = kthen (kseq [release LkBcache, acquiresleep (SlBuf b)]) (kret b)
        (acquired LkBcache (s\<lparr>bufs := (bufs s)(b := x)\<rparr>), e)"
      and free: "\<not> slocked (sleeplocks s (SlBuf b))"
      and rel': "cache_rel p k D (fetched n b a) (?lock b (s\<lparr>bufs := (bufs s)(b := x)\<rparr>))" for b x
  proof -
    let ?s = "s\<lparr>bufs := (bufs s)(b := x)\<rparr>"
    have "bget D n (s, e) = Ok b (settled (?lock b (settled ?s)), e)"
      unfolding run by (rule bget_tail) (use R(1) free in simp_all)
    moreover have "cache_rel p k D (fetched n b a) (settled (?lock b (settled ?s))) =
        cache_rel p k D (fetched n b a) (?lock b ?s)"
      by (rule cache_rel_cong) simp_all
    ultimately show ?thesis using rel' by auto
  qed
  have acq: "acquire LkBcache (s, e) = Ok () (acquired LkBcache s, e)"
    using calmD [OF R(1)] by (simp add: acquire_run)
  show ?thesis
  proof (cases "find (\<lambda>b. bdev (bufs s b) = D \<and> bblockno (bufs s b) = n) L")
    case (Some b)
    then have b: "b < NBUF" "bdev (bufs s b) = D" "bblockno (bufs s b) = n"
      using find_in [OF Some] setL by auto
    have "scan_cached (NBUF + 1) (bufs s) D n (bnext (bufs s bhead)) = Some b"
      using scan_lru(1) [OF L] Some by simp
    then have "bget D n (s, e) = kthen (kseq [release LkBcache, acquiresleep (SlBuf b)]) (kret b)
        (acquired LkBcache (s\<lparr>bufs := (bufs s)(b := (bufs s b)\<lparr>brefcnt := brefcnt (bufs s b) + 1\<rparr>)\<rparr>), e)"
      by (simp add: bget_def kthen_def kbind_def acq set_buf_lock set_buf_def disk_upd_lock del: scan_cached.simps)
    moreover have "\<not> slocked (sleeplocks s (SlBuf b))"
      using buf_relD(5) [OF R(3) [OF b(1)]] b ok(2) by simp
    moreover have "cache_rel p k D (fetched n b a)
        (?lock b (s\<lparr>bufs := (bufs s)(b := (bufs s b)\<lparr>brefcnt := brefcnt (bufs s b) + 1\<rparr>)\<rparr>))"
      by (rule lock_buf_rel [OF rel b(1) ok(1-3)])
        (use b buf_relD(2-4) [OF R(3) [OF b(1)]] in \<open>auto simp: unat_eq_0\<close>)
    ultimately show ?thesis by (rule fin)
  next
    case None
    then have none: "bblockno (bufs s c) \<noteq> n" if "c < NBUF" "bdev (bufs s c) = D" for c
      using that setL by (auto simp: find_None_iff)
    have n0: "rf a n = 0" using none R(5) [of n] by (metis gr0I)
    then obtain c where c: "c < NBUF" "brefcnt (bufs s c) = 0"
      using unused_buffer [OF rel] ok(4) by (auto simp: room_def)
    then have "find (\<lambda>b. brefcnt (bufs s b) = 0) (rev L) \<noteq> None"
      using setL by (auto simp: find_None_iff)
    then obtain b where f: "find (\<lambda>b. brefcnt (bufs s b) = 0) (rev L) = Some b" by blast
    then have b: "b < NBUF" "brefcnt (bufs s b) = 0"
      using find_in [OF f] setL by auto
    let ?x = "(bufs s b)\<lparr>bdev := D, bblockno := n, bvalid := False, brefcnt := 1\<rparr>"
    have "scan_unused (NBUF + 1) (bufs s) (bprev (bufs s bhead)) = Some b"
      and "scan_cached (NBUF + 1) (bufs s) D n (bnext (bufs s bhead)) = None"
      using scan_lru [OF L] None f by simp_all
    then have "bget D n (s, e) = kthen (kseq [release LkBcache, acquiresleep (SlBuf b)]) (kret b)
        (acquired LkBcache (s\<lparr>bufs := (bufs s)(b := ?x)\<rparr>), e)"
      by (simp add: bget_def kthen_def kbind_def acq set_buf_lock set_buf_def disk_upd_lock
          del: scan_cached.simps scan_unused.simps)
    moreover have "\<not> slocked (sleeplocks s (SlBuf b))"
      using buf_relD(2,5,7) [OF R(3) [OF b(1)]] b R(7) [of "bblockno (bufs s b)"]
      by (cases "bdev (bufs s b) = D") auto
    moreover have "cache_rel p k D (fetched n b a) (?lock b (s\<lparr>bufs := (bufs s)(b := ?x)\<rparr>))"
      by (rule lock_buf_rel [OF rel b(1) ok(1-3)]) (use b none n0 R(6) [OF ok(1) n0] in auto)
    ultimately show ?thesis by (rule fin)
  qed
qed

section \<open>Changing a locked buffer, and the disk\<close>

lemma edit_rel:
  fixes s :: "'a dev_state_scheme"
  assumes rel: "cache_rel p k D a s" and n: "n \<in> hl a"
    and x: "bdev x = D" "bblockno x = n" "brefcnt x = brefcnt (bufs s (slot a n))" "bvalid x"
      "bnext x = bnext (bufs s (slot a n))" "bprev x = bprev (bufs s (slot a n))"
  shows "cache_rel p k D (a\<lparr>vw := (vw a)(n := bdata x), fr := fr a - {n}\<rparr>) (s\<lparr>bufs := (bufs s)(slot a n := x)\<rparr>)"
    (is "cache_rel p k D ?a ?t")
proof (rule cache_relI)
  note R = cache_relD [OF rel] and H = held_buf [OF rel n]
  show "calm p k ?t" using R(1) by simp
  show "\<exists>L. lru (bufs ?t) L"
    using R(2) x(5,6) lru_cong [of "(bufs s)(slot a n := x)" "bufs s"] by simp
  show "buf_rel p k D ?a ?t c" if c: "c < NBUF" for c
  proof (cases "c = slot a n")
    case True
    then show ?thesis using x H(6-9) n by (simp add: buf_rel_def)
  next
    case False
    then have "bblockno (bufs s c) \<noteq> n" if "bdev (bufs s c) = D"
      using R(4) [of c "slot a n"] c H(1-3) that by auto
    with False have "buf_rel p k D ?a ?t c = buf_rel p k D a s c"
      by (intro buf_rel_cong) simp_all
    then show ?thesis using R(3) [OF c] by simp
  qed
  have same: "bdev (bufs ?t c) = bdev (bufs s c) \<and> bblockno (bufs ?t c) = bblockno (bufs s c)" for c
    using x(1,2) H(2,3) by simp
  show "b = c" if "b < NBUF" "c < NBUF" "bdev (bufs ?t b) = D" "bdev (bufs ?t c) = D"
    "bblockno (bufs ?t b) = bblockno (bufs ?t c)" for b c
    using that unfolding same [THEN conjunct1] same [THEN conjunct2] by (rule R(4))
  show "\<exists>b < NBUF. bdev (bufs ?t b) = D \<and> bblockno (bufs ?t b) = m" if "0 < rf ?a m" for m
    unfolding same [THEN conjunct1] same [THEN conjunct2] by (rule R(5)) (use that in simp)
  show "vw ?a m = dk ?a m" if "blk_ok m" "rf ?a m = 0" for m
    using R(6) [of m] R(7) [OF n] that by auto
  show "0 < rf ?a m" if "m \<in> hl ?a" for m using R(7) that by simp
  show "dk ?a = blocks ?t" using R(8) blocks_cong [of ?t s] by simp
  show "m \<in> hl ?a" if "m \<in> fr ?a" for m using R(9) that by simp
  show "snd (log_vars ?t) = (st_start ?a, st_out ?a, st_com ?a, D, st_n ?a, st_blk ?a)"
    using R(10) by (simp add: log_vars_def)
qed

lemma blocks_write:
  "blk_ok n \<Longrightarrow> platter t = (platter s)(sector_of n := v) \<Longrightarrow> blocks t = (blocks s)(n := v)"
  by (rule ext) (auto simp: blocks_def sector_of_inj)

lemma flush_rel:
  fixes s t :: "'a dev_state_scheme"
  assumes rel: "cache_rel p k D a s" and n: "n \<in> hl a" "n \<notin> fr a"
    and t: "calm p k t" "log_vars t = log_vars s" "platter t = (platter s)(sector_of n := vw a n)"
      "bufs t = (bufs s)(slot a n := (bufs s (slot a n))\<lparr>bdisk := x\<rparr>)"
  shows "cache_rel p k D (flushed n a) t" (is "cache_rel p k D ?a t")
proof (rule cache_relI)
  note R = cache_relD [OF rel] and H = held_buf [OF rel n(1)]
  have sl: "sleeplocks t = sleeplocks s" using t(2) by (simp add: log_vars_def)
  show "calm p k t" by (rule t(1))
  show "\<exists>L. lru (bufs t) L"
    using R(2) lru_cong [of "bufs t" "bufs s"] t(4) by simp
  have same: "bdev (bufs t c) = bdev (bufs s c)" "bblockno (bufs t c) = bblockno (bufs s c)" for c
    by (simp_all add: t(4))
  show "buf_rel p k D ?a t c" if c: "c < NBUF" for c
  proof (cases "c = slot a n")
    case True
    then show ?thesis using H n by (simp add: buf_rel_def t(4) sl flushed_def)
  next
    case False
    then have "bblockno (bufs s c) \<noteq> n" if "bdev (bufs s c) = D"
      using R(4) [of c "slot a n"] c H(1-3) that by auto
    with False have "buf_rel p k D ?a t c = buf_rel p k D a s c"
      by (intro buf_rel_cong) (simp_all add: t(4) sl flushed_def)
    then show ?thesis using R(3) [OF c] by simp
  qed
  show "b = c" if "b < NBUF" "c < NBUF" "bdev (bufs t b) = D" "bdev (bufs t c) = D"
    "bblockno (bufs t b) = bblockno (bufs t c)" for b c
    using that unfolding same by (rule R(4))
  show "\<exists>b < NBUF. bdev (bufs t b) = D \<and> bblockno (bufs t b) = m" if "0 < rf ?a m" for m
    unfolding same by (rule R(5)) (use that in \<open>simp add: flushed_def\<close>)
  show "vw ?a m = dk ?a m" if "blk_ok m" "rf ?a m = 0" for m
    using R(6) [of m] that by (cases "m = n") (simp_all add: flushed_def)
  show "0 < rf ?a m" if "m \<in> hl ?a" for m using R(7) that by (simp add: flushed_def)
  show "dk ?a = blocks t"
    using R(8) blocks_write [OF H(9) t(3)] by (simp add: flushed_def)
  show "m \<in> hl ?a" if "m \<in> fr ?a" for m using R(9) that by (simp add: flushed_def)
  show "snd (log_vars t) = (st_start ?a, st_out ?a, st_com ?a, D, st_n ?a, st_blk ?a)"
    using R(10) by (simp add: t(2) flushed_def)
qed

section \<open>The operations\<close>

text \<open>What a run that is cut leaves on the disk is what was there before.\<close>

lemma chl_bget:
  assumes "blk_ok n" and "n \<notin> hl a" and "rf a n + 1 < 2 ^ 32" and "room n a"
  shows "chl (disk_action dev p) blocks 0 (cache_rel p k D a) (bget D n) (\<lambda>b. cache_rel p k D (fetched n b a)) C"
  by (rule chl_run) (use assms bget_run in blast)

lemma got_fetched: "n \<notin> fr a \<Longrightarrow> (fetched n b a)\<lparr>vw := (vw a)(n := vw a n), fr := fr (fetched n b a) - {n}\<rparr> = got n b a"
  by (simp add: fetched_def got_def)

lemma fetched_simps:
  "vw (fetched n b a) = vw a" "dk (fetched n b a) = dk a" "slot (fetched n b a) n = b" "n \<in> hl (fetched n b a)"
  by (simp_all add: fetched_def got_def)

lemma fill_run:
  assumes rel: "cache_rel p k D (fetched n b a) s" and n: "n \<notin> fr a" and dev: "virtio_device dev"
    and inv: "\<not> bvalid (bufs s b)"
  shows "\<exists>t. kthen (virtio_disk_rw b False) (kmod (set_buf b (\<lambda>x. x\<lparr>bvalid := True\<rparr>))) (s, disk_action dev p # e) =
      Ok () (t, e) \<and> cache_rel p k D (got n b a) t"
    and "\<exists>t. kthen (virtio_disk_rw b False) (kmod (set_buf b (\<lambda>x. x\<lparr>bvalid := True\<rparr>))) (s, []) = Blocked (t, []) \<and>
      blocks t = dk a"
proof -
  note R = cache_relD [OF rel] and H = held_buf [OF rel fetched_simps(4), unfolded fetched_simps]
  have data: "platter s (sector_of n) = vw a n"
    using buf_relD(4) [OF R(3) [OF H(1)]] H(2,3,9) inv R(8) fun_cong [OF R(8), of n]
    by (simp add: fetched_simps blocks_def)
  obtain t where t: "virtio_disk_rw b False (s, disk_action dev p # e) = Ok () (t, e)" "calm p k t"
      "log_vars t = log_vars s" "platter t = platter s"
      "bufs t = (bufs s)(b := (bufs s b)\<lparr>bdata := vw a n, bdisk := False\<rparr>)"
    using disk_rw_run(1) [OF R(1) dev, of b False e] H(3) data by auto
  let ?x = "(bufs s b)\<lparr>bdata := vw a n, bdisk := False, bvalid := True\<rparr>"
  have "cache_rel p k D (got n b a) (s\<lparr>bufs := (bufs s)(b := ?x)\<rparr>)"
    using edit_rel [OF rel fetched_simps(4), of ?x] H(2,3) got_fetched [OF n, of b]
    by (simp add: fetched_simps)
  moreover have "cache_rel p k D (got n b a) (set_buf b (\<lambda>x. x\<lparr>bvalid := True\<rparr>) t) =
      cache_rel p k D (got n b a) (s\<lparr>bufs := (bufs s)(b := ?x)\<rparr>)"
    by (rule cache_rel_cong)
      (use t R(1) in \<open>simp_all add: log_vars_def set_buf_def\<close>)
  ultimately show "\<exists>t. kthen (virtio_disk_rw b False) (kmod (set_buf b (\<lambda>x. x\<lparr>bvalid := True\<rparr>))) (s, disk_action dev p # e) =
      Ok () (t, e) \<and> cache_rel p k D (got n b a) t"
    using t(1) by (simp add: kthen_def kbind_def)
  obtain t where "virtio_disk_rw b False (s, []) = Blocked (t, [])" "platter t = platter s"
    using disk_rw_run(2) [OF R(1) dev, of b False] by blast
  then show "\<exists>t. kthen (virtio_disk_rw b False) (kmod (set_buf b (\<lambda>x. x\<lparr>bvalid := True\<rparr>))) (s, []) = Blocked (t, []) \<and>
      blocks t = dk a"
    using R(8) blocks_cong [of t s] by (simp add: kthen_def kbind_def fetched_simps)
qed

lemma chl_fill:
  assumes n: "n \<notin> fr a" and dev: "virtio_device dev" and C: "C (dk a)"
  shows "chl (disk_action dev p) blocks 1 (cache_rel p k D (fetched n b a))
    (kthen (kwhen (\<lambda>s. \<not> bvalid (bufs s b))
       (kthen (virtio_disk_rw b False) (kmod (set_buf b (\<lambda>x. x\<lparr>bvalid := True\<rparr>))))) (kret b))
    (\<lambda>b. cache_rel p k D (got n b a)) C" (is "chl _ _ _ ?P ?m ?Q C")
proof (rule chlI)
  fix s j
  assume rel: "?P s"
  note R = cache_relD [OF rel] and H = held_buf [OF rel fetched_simps(4), unfolded fetched_simps]
  show "(\<exists>x t i. i \<le> 1 \<and> i \<le> j \<and> ?m (s, replicate j (disk_action dev p)) =
      Ok x (t, replicate (j - i) (disk_action dev p)) \<and> ?Q x t) \<or>
    (j < 1 \<and> (\<exists>t. ?m (s, replicate j (disk_action dev p)) = Blocked (t, []) \<and> C (blocks t)))"
  proof (cases "bvalid (bufs s b)")
    case True
    then have "bdata (bufs s b) = vw a n"
      using buf_relD(3) [OF R(3) [OF H(1)]] H(2,3) by (simp add: fetched_simps)
    then have "?Q b s"
      using edit_rel [OF rel fetched_simps(4), of "bufs s b"] True H(2,3) got_fetched [OF n, of b]
      by (simp add: fetched_simps)
    moreover have "?m (s, replicate j (disk_action dev p)) = Ok b (s, replicate j (disk_action dev p))"
      using True by (simp add: kthen_def kbind_def)
    ultimately show ?thesis by (metis diff_zero le0)
  next
    case False
    note F = fill_run [OF rel n dev False]
    show ?thesis
    proof (cases j)
      case 0
      obtain t where "kthen (virtio_disk_rw b False) (kmod (set_buf b (\<lambda>x. x\<lparr>bvalid := True\<rparr>))) (s, []) = Blocked (t, [])"
        "blocks t = dk a"
        using F(2) by blast
      then show ?thesis using 0 False C by (simp add: kthen_def [of "kwhen _ _"] kbind_def [of "kwhen _ _"])
    next
      case (Suc i)
      obtain t where "kthen (virtio_disk_rw b False) (kmod (set_buf b (\<lambda>x. x\<lparr>bvalid := True\<rparr>)))
          (s, disk_action dev p # replicate i (disk_action dev p)) = Ok () (t, replicate i (disk_action dev p))" "?Q b t"
        using F(1) [of "replicate i (disk_action dev p)"] by blast
      then have "?m (s, replicate j (disk_action dev p)) = Ok b (t, replicate (j - 1) (disk_action dev p))"
        using Suc False by (simp add: kthen_def [of "kwhen _ _"] kbind_def [of "kwhen _ _"])
      then show ?thesis using Suc \<open>?Q b t\<close> by (metis le_refl le_add1 plus_1_eq_Suc)
    qed
  qed
qed

lemma chl_bread:
  assumes "blk_ok n" and "n \<notin> hl a" and "fr a = {}" and "rf a n + 1 < 2 ^ 32" and "room n a"
    and "virtio_device dev" and "C (dk a)"
  shows "chl (disk_action dev p) blocks 1 (cache_rel p k D a) (bread D n) (\<lambda>b. cache_rel p k D (got n b a)) C"
proof -
  have "chl (disk_action dev p) blocks (0 + 1) (cache_rel p k D a) (bread D n) (\<lambda>b. cache_rel p k D (got n b a)) C"
    unfolding bread_def by (rule chl_kbind [OF chl_bget chl_fill]) (use assms in simp_all)
  then show ?thesis by simp
qed

lemma chl_bwrite:
  assumes n: "n \<in> hl a" "n \<notin> fr a" and dev: "virtio_device dev" and C: "C (dk a)"
  shows "chl (disk_action dev p) blocks 1 (cache_rel p k D a) (bwrite (slot a n)) (\<lambda>_. cache_rel p k D (flushed n a)) C"
    (is "chl _ _ _ ?P ?m ?Q C")
proof (rule chlI)
  fix s :: "'a dev_state_scheme" and j
  assume rel: "?P s"
  note R = cache_relD [OF rel] and H = held_buf [OF rel n(1)]
  have calm: "calm p k (settled s)" using R(1) by simp
  have m: "?m (s, e) = virtio_disk_rw (slot a n) True (settled s, e)" for e
    using holdingsleep_run [OF R(1), of "SlBuf (slot a n)" e] H(6,7) by (simp add: bwrite_def kbind_def)
  show "(\<exists>x t i. i \<le> 1 \<and> i \<le> j \<and> ?m (s, replicate j (disk_action dev p)) =
      Ok x (t, replicate (j - i) (disk_action dev p)) \<and> ?Q x t) \<or>
    (j < 1 \<and> (\<exists>t. ?m (s, replicate j (disk_action dev p)) = Blocked (t, []) \<and> C (blocks t)))"
  proof (cases j)
    case 0
    obtain t where "virtio_disk_rw (slot a n) True (settled s, []) = Blocked (t, [])" "platter t = platter s"
      using disk_rw_run(2) [OF calm dev, of "slot a n" True] by auto
    then show ?thesis using 0 m C R(8) blocks_cong [of t s] by simp
  next
    case (Suc i)
    have same: "(bufs s (slot a n))\<lparr>bdata := vw a n, bdisk := False\<rparr> = (bufs s (slot a n))\<lparr>bdisk := False\<rparr>"
      using H(5) [OF n(2)] by (cases "bufs s (slot a n)") simp
    obtain t where t: "virtio_disk_rw (slot a n) True (settled s, disk_action dev p # replicate i (disk_action dev p)) =
        Ok () (t, replicate i (disk_action dev p))" "calm p k t" "log_vars t = log_vars (settled s)"
        "platter t = (platter s)(sector_of n := vw a n)"
        "bufs t = (bufs s)(slot a n := (bufs s (slot a n))\<lparr>bdata := vw a n, bdisk := False\<rparr>)"
      using disk_rw_run(1) [OF calm dev, of "slot a n" True "replicate i (disk_action dev p)"] H(3,5) n(2) by auto
    note t(5) [unfolded same]
    with t(2-4) have "?Q () t" by (intro flush_rel [OF rel n]) simp_all
    moreover have "?m (s, replicate j (disk_action dev p)) = Ok () (t, replicate (j - 1) (disk_action dev p))"
      using Suc m t(1) by simp
    ultimately show ?thesis using Suc by (metis le_refl le_add1 plus_1_eq_Suc)
  qed
qed

lemma chl_buf_data:
  assumes "n \<in> hl a" "n \<notin> fr a" and "chl act blocks c (cache_rel p k D a) (f (vw a n)) Q C"
  shows "chl act blocks c (cache_rel p k D a) (kbind (buf_data (slot a n)) f) Q C"
  unfolding buf_data_def by (rule chl_kget_bind) (use assms held_buf(5) in auto)

lemma chl_buf_update:
  assumes n: "n \<in> hl a" "n \<notin> fr a"
  shows "chl act blocks 0 (cache_rel p k D a) (buf_update (slot a n) g) (\<lambda>_. cache_rel p k D (edited n g a)) C"
proof (rule chl_pure)
  fix s :: "'a dev_state_scheme" and e
  assume rel: "cache_rel p k D a s"
  note H = held_buf [OF rel n(1)]
  let ?x = "(bufs s (slot a n))\<lparr>bdata := g (bdata (bufs s (slot a n)))\<rparr>"
  have "fr a - {n} = fr a" using n(2) by simp
  then have "cache_rel p k D (edited n g a) (s\<lparr>bufs := (bufs s)(slot a n := ?x)\<rparr>)"
    using edit_rel [OF rel n(1), of ?x] H n(2) by (simp add: edited_def)
  then show "\<exists>t. buf_update (slot a n) g (s, e) = Ok () (t, e) \<and> cache_rel p k D (edited n g a) t"
    by (simp add: buf_update_def set_buf_def)
qed

text \<open>Losing a reference, and with it perhaps the lock.\<close>

lemma drop_rel:
  fixes s t :: "'a dev_state_scheme"
  assumes rel: "cache_rel p k D a s" and n: "n \<in> hl a" "n \<notin> fr a" "blk_ok n" "rf a n = 1 \<longrightarrow> vw a n = dk a n"
    and keep: "H = hl a \<and> 1 < rf a n \<or> H = hl a - {n} \<and> n \<notin> fr a"
    and t: "calm p k t" "snd (log_vars t) = snd (log_vars s)" "platter t = platter s" "\<exists>L. lru (bufs t) L"
    and buf: "\<And>c. bdev (bufs t c) = bdev (bufs s c) \<and> bblockno (bufs t c) = bblockno (bufs s c) \<and>
        bvalid (bufs t c) = bvalid (bufs s c) \<and> bdata (bufs t c) = bdata (bufs s c) \<and>
        brefcnt (bufs t c) = (if c = slot a n then brefcnt (bufs s c) - 1 else brefcnt (bufs s c))"
    and sl: "\<And>c. c \<noteq> slot a n \<Longrightarrow> sleeplocks t (SlBuf c) = sleeplocks s (SlBuf c)"
      "slocked (sleeplocks t (SlBuf (slot a n))) = (n \<in> H)" "n \<in> H \<Longrightarrow> sleeplocks t (SlBuf (slot a n)) = sleeplocks s (SlBuf (slot a n))"
  shows "cache_rel p k D (a\<lparr>rf := (rf a)(n := rf a n - 1), hl := H\<rparr>) t" (is "cache_rel p k D ?a t")
proof (rule cache_relI)
  note R = cache_relD [OF rel] and B = held_buf [OF rel n(1)]
  have pos: "0 < rf a n" by (rule R(7) [OF n(1)])
  then have "1 \<le> brefcnt (bufs s (slot a n))" using B(8) by (simp add: word_le_nat_alt)
  then have dec: "unat (brefcnt (bufs s (slot a n)) - 1) = rf a n - 1"
    using B(8) by (simp add: unat_sub)
  show "calm p k t" by (rule t(1))
  show "\<exists>L. lru (bufs t) L" by (rule t(4))
  show "buf_rel p k D ?a t c" if c: "c < NBUF" for c
  proof (cases "c = slot a n")
    case True
    then show ?thesis using B buf [of c] dec n sl(2,3) by (auto simp: buf_rel_def Let_def)
  next
    case False
    have "bblockno (bufs s c) \<noteq> n" if "bdev (bufs s c) = D"
      using R(4) [of c "slot a n"] c B(1-3) that False by auto
    moreover have "bufs t c = bufs s c \<or> True" by simp
    ultimately show ?thesis
      using buf [of c] sl(1) [OF False] False R(3) [OF c] keep by (auto simp: buf_rel_def Let_def split: if_splits)
  qed
  have same: "bdev (bufs t c) = bdev (bufs s c)" "bblockno (bufs t c) = bblockno (bufs s c)" for c
    using buf by simp_all
  show "b = c" if "b < NBUF" "c < NBUF" "bdev (bufs t b) = D" "bdev (bufs t c) = D"
    "bblockno (bufs t b) = bblockno (bufs t c)" for b c
    using that unfolding same by (rule R(4))
  show "\<exists>b < NBUF. bdev (bufs t b) = D \<and> bblockno (bufs t b) = m" if "0 < rf ?a m" for m
    unfolding same by (rule R(5)) (use that pos in \<open>auto split: if_splits\<close>)
  show "vw ?a m = dk ?a m" if "blk_ok m" "rf ?a m = 0" for m
  proof (cases "m = n")
    case True
    then show ?thesis using that n(4) pos by simp
  next
    case False
    then show ?thesis using R(6) that by simp
  qed
  show "0 < rf ?a m" if "m \<in> hl ?a" for m using R(7) [of m] that keep by auto
  show "dk ?a = blocks t" using R(8) blocks_cong [OF t(3)] by simp
  show "m \<in> hl ?a" if "m \<in> fr ?a" for m using R(9) that keep by auto
  show "snd (log_vars t) = (st_start ?a, st_out ?a, st_com ?a, D, st_n ?a, st_blk ?a)"
    using R(10) by (simp add: t(2))
qed

lemma chl_bunpin:
  assumes n: "n \<in> hl a" "n \<notin> fr a" and r: "1 < rf a n"
  shows "chl act blocks 0 (cache_rel p k D a) (bunpin (slot a n)) (\<lambda>_. cache_rel p k D (unpinned n a)) C"
proof (rule chl_pure)
  fix s :: "'a dev_state_scheme" and e
  assume rel: "cache_rel p k D a s"
  note R = cache_relD [OF rel] and H = held_buf [OF rel n(1)]
  let ?t = "set_buf (slot a n) (\<lambda>x. x\<lparr>brefcnt := brefcnt x - 1\<rparr>) s"
  have "bunpin (slot a n) (s, e) = Ok () (settled ?t, e)"
    using calmD [OF R(1)] by (simp add: bunpin_def kthen_def kbind_def acquire_run release_run set_buf_lock)
  moreover have "cache_rel p k D (a\<lparr>rf := (rf a)(n := rf a n - 1), hl := hl a\<rparr>) (settled ?t)"
  proof (rule drop_rel [OF rel n H(9)])
    show "\<exists>L. lru (bufs (settled ?t)) L"
      using R(2) lru_cong [of "bufs ?t" "bufs s"] by simp
    show "snd (log_vars (settled ?t)) = snd (log_vars s)" by (simp add: log_vars_def)
  qed (use r R(1) n H(6) in simp_all)
  ultimately show "\<exists>t. bunpin (slot a n) (s, e) = Ok () (t, e) \<and> cache_rel p k D (unpinned n a) t"
    by (auto simp: unpinned_def)
qed

lemma kseq_run: "kseq (m # ms) w = kbind m (\<lambda>_. kseq ms) w" "kseq [] w = Ok () w"
  by (simp_all add: kthen_def)

lemma set_buf_upd: "set_buf x f (s\<lparr>bufs := g\<rparr>) = s\<lparr>bufs := g(x := f (g x))\<rparr>" "bufs (s\<lparr>bufs := g\<rparr>) = g"
  by (simp_all add: set_buf_def)

lemma brelse_move:
  fixes s :: "'a dev_state_scheme"
  shows "kseq
    [ kmod (\<lambda>s. set_buf (bnext (bufs s b)) (\<lambda>x. x\<lparr>bprev := bprev (bufs s b)\<rparr>) s),
      kmod (\<lambda>s. set_buf (bprev (bufs s b)) (\<lambda>x. x\<lparr>bnext := bnext (bufs s b)\<rparr>) s),
      kmod (\<lambda>s. set_buf b (\<lambda>x. x\<lparr>bnext := bnext (bufs s bhead)\<rparr>) s),
      kmod (set_buf b (\<lambda>x. x\<lparr>bprev := bhead\<rparr>)),
      kmod (\<lambda>s. set_buf (bnext (bufs s bhead)) (\<lambda>x. x\<lparr>bprev := b\<rparr>) s),
      kmod (set_buf bhead (\<lambda>x. x\<lparr>bnext := b\<rparr>)) ] (s\<lparr>bufs := g\<rparr>, e) =
    Ok () (s\<lparr>bufs := to_front b g\<rparr>, e)"
  by (simp only: kseq.simps kthen_def kbind_def kmod_run res.case fst_conv snd_conv set_buf_upd to_front_def Let_def)

lemma chl_brelse:
  assumes n: "n \<in> hl a" "n \<notin> fr a" and r: "rf a n = 1 \<longrightarrow> vw a n = dk a n"
  shows "chl act blocks 0 (cache_rel p k D a) (brelse (slot a n)) (\<lambda>_. cache_rel p k D (given n a)) C"
proof (rule chl_pure)
  fix s :: "'a dev_state_scheme" and e
  assume rel: "cache_rel p k D a s"
  note R = cache_relD [OF rel] and H = held_buf [OF rel n(1)]
  let ?b = "slot a n"
  let ?s1 = "settled (woken (Some (ChSleep (SlBuf ?b))) {..<NPROC}
     (set_slock (SlBuf ?b) (\<lambda>l. l\<lparr>slocked := False, slpid := 0\<rparr>) (settled s)))"
  let ?s2 = "set_buf ?b (\<lambda>x. x\<lparr>brefcnt := brefcnt x - 1\<rparr>) ?s1"
  let ?s3 = "if brefcnt (bufs ?s2 ?b) = 0 then ?s2\<lparr>bufs := to_front ?b (bufs ?s2)\<rparr> else ?s2"
  have calm: "calm p k ?s1" using R(1) by simp
  have hold: "holdingsleep (SlBuf ?b) (s, e) = Ok True (settled s, e)"
    using holdingsleep_run [OF R(1), of "SlBuf ?b" e] H(6,7) by simp
  have rls: "releasesleep (SlBuf ?b) (settled s, e) = Ok () (?s1, e)"
    by (rule releasesleep_run) (use R(1) in simp)
  have move: "kwhen (\<lambda>s. brefcnt (bufs s ?b) = 0) (kseq
           [ kmod (\<lambda>s. set_buf (bnext (bufs s ?b)) (\<lambda>x. x\<lparr>bprev := bprev (bufs s ?b)\<rparr>) s),
             kmod (\<lambda>s. set_buf (bprev (bufs s ?b)) (\<lambda>x. x\<lparr>bnext := bnext (bufs s ?b)\<rparr>) s),
             kmod (\<lambda>s. set_buf ?b (\<lambda>x. x\<lparr>bnext := bnext (bufs s bhead)\<rparr>) s),
             kmod (set_buf ?b (\<lambda>x. x\<lparr>bprev := bhead\<rparr>)),
             kmod (\<lambda>s. set_buf (bnext (bufs s bhead)) (\<lambda>x. x\<lparr>bprev := ?b\<rparr>) s),
             kmod (set_buf bhead (\<lambda>x. x\<lparr>bnext := ?b\<rparr>)) ]) (acquired LkBcache ?s2, e) = Ok () (acquired LkBcache ?s3, e)"
    using brelse_move [where b = "?b" and s = "acquired LkBcache ?s2" and g = "bufs (acquired LkBcache ?s2)" and e = e]
    by (simp add: disk_upd_lock del: set_buf_keep kseq.simps)
  have calm3: "calm p k ?s3" using calm by simp
  have out: "release LkBcache (acquired LkBcache ?s3, e) = Ok () (settled ?s3, e)"
    by (rule release_run) (use calmD [OF calm3] in blast)+
  have acq: "acquire LkBcache (?s1, e) = Ok () (acquired LkBcache ?s1, e)"
    by (rule acquire_run) (rule calmD(5) [OF calm])
  have dec: "kmod (set_buf ?b (\<lambda>x. x\<lparr>brefcnt := brefcnt x - 1\<rparr>)) (acquired LkBcache ?s1, e) = Ok () (acquired LkBcache ?s2, e)"
    by (simp only: kmod_run fst_conv snd_conv set_buf_lock)
  have run: "brelse ?b (s, e) = Ok () (settled ?s3, e)"
    by (simp only: brelse_def kbind_def [of "holdingsleep _"] hold res.case not_True_eq_False if_False kseq_run
        kbind_def [of "releasesleep _"] rls kbind_def [of "acquire _"] acq kbind_def [of "kmod _"] dec
        kbind_def [of "kwhen _ _"] move kbind_def [of "release _"] out)
  have "cache_rel p k D (a\<lparr>rf := (rf a)(n := rf a n - 1), hl := hl a - {n}\<rparr>) (settled ?s3)"
  proof (rule drop_rel [OF rel n H(9) r])
    obtain L where L: "lru (bufs s) L" using R(2) by blast
    moreover have "lru (bufs ?s2) L = lru (bufs s) L" by (rule lru_cong) simp
    moreover have "?b \<in> set L" using L H(1) by (simp add: lru_def)
    ultimately show "\<exists>L. lru (bufs (settled ?s3)) L"
      using to_front_lru [of "bufs ?s2" L ?b] by (auto simp del: set_buf_keep)
    show "calm p k (settled ?s3)" using calm3 by simp
    show "snd (log_vars (settled ?s3)) = snd (log_vars s)" by (simp add: log_vars_def set_slock_def woken_def)
    show "platter (settled ?s3) = platter s" by (simp add: set_slock_def woken_def)
  qed (use n H(6) in simp_all)
  with run show "\<exists>t. brelse ?b (s, e) = Ok () (t, e) \<and> cache_rel p k D (given n a) t"
    by (auto simp: given_def)
qed

end
