(* ===== verification/Header.thy ===== *)
theory Header
  imports FsLog
begin

text \<open>
  The header block of the log, kernel/log.c: what write_head stores in it and read_head reads
  from it, and the disk that a header describes: every block it names has the content of its
  copy in the log.
\<close>

section \<open>32-bit fields of a block\<close>

lemma length_put32 [simp]: "off + 4 \<le> length bs \<Longrightarrow> length (put32 off v bs) = length bs"
  by (simp add: put32_def put_le_def)

lemma get32_put32_same: "off + 4 \<le> length bs \<Longrightarrow> get32 off (put32 off v bs) = v"
proof -
  assume len: "off + 4 \<le> length bs"
  then have "take 4 (drop off (put32 off v bs)) = le_enc 4 (unat v)"
    by (simp add: put32_def put_le_def)
  moreover have "unat v < 2 ^ LENGTH(32)" by (rule unsigned_less)
  then have "unat v mod 256 ^ 4 = unat v" by simp
  ultimately show ?thesis by (simp add: get32_def get_le_def le_dec_enc)
qed

lemma unat_sum: "unat v + unat w < 2 ^ 32 \<Longrightarrow> unat (v + w) = unat v + unat w" for v w :: u32
  by (simp add: unat_word_ariths)

lemma get32_put32_other:
  assumes "off + 4 \<le> length bs" and "off' + 4 \<le> off \<or> off + 4 \<le> off'"
  shows "get32 off' (put32 off v bs) = get32 off' bs"
proof -
  have "take 4 (drop off' (put32 off v bs)) = take 4 (drop off' bs)"
  proof (cases "off' + 4 \<le> off")
    case True
    then have "4 \<le> off - off'" "off' \<le> off" by simp_all
    then show ?thesis using assms(1)
      by (simp add: put32_def put_le_def drop_take min_def)
  next
    case False
    then have le: "off + 4 \<le> off'" using assms(2) by blast
    have "drop off' (take off bs @ le_enc 4 (unat v) @ drop (off + 4) bs) = drop off' bs"
      using assms(1) le by (simp add: drop_append)
    then show ?thesis by (simp add: put32_def put_le_def)
  qed
  then show ?thesis by (simp add: get32_def get_le_def)
qed

section \<open>The header\<close>

primrec put_blocks :: "nat \<Rightarrow> (nat \<Rightarrow> u32) \<Rightarrow> u8 list \<Rightarrow> u8 list" where
  "put_blocks 0 blk bs = bs"
| "put_blocks (Suc i) blk bs = put32 (4 + 4 * i) (blk i) (put_blocks i blk bs)"

definition header :: "nat \<Rightarrow> (nat \<Rightarrow> u32) \<Rightarrow> u8 list \<Rightarrow> u8 list" where
  "header n blk bs = put_blocks n blk (put32 0 (of_nat n) bs)"

definition hd_count :: "u8 list \<Rightarrow> nat" where
  "hd_count bs = nat (sint (get32 0 bs))"

definition hd_block :: "u8 list \<Rightarrow> nat \<Rightarrow> u32" where
  "hd_block bs i = get32 (4 + 4 * i) bs"

lemma put_blocks_keep:
  assumes "4 + 4 * n \<le> length bs"
  shows "length (put_blocks n blk bs) = length bs"
    and "get32 0 (put_blocks n blk bs) = get32 0 bs"
    and "i < n \<Longrightarrow> get32 (4 + 4 * i) (put_blocks n blk bs) = blk i"
  using assms
proof (induction n)
  case (Suc n)
  { case 1 then show ?case using Suc by simp }
  { case 2 then show ?case using Suc by (simp add: get32_put32_other) }
  { case 3
    then show ?case
      using Suc by (cases "i = n") (simp_all add: get32_put32_same get32_put32_other) }
qed simp_all

lemma header_read:
  assumes "4 + 4 * n \<le> length bs" and "n < 2 ^ 31"
  shows "length (header n blk bs) = length bs" "hd_count (header n blk bs) = n"
    "i < n \<Longrightarrow> hd_block (header n blk bs) i = blk i" "sint (get32 0 (header n blk bs)) = int n"
proof -
  have s: "sint (of_nat n :: u32) = int n"
    using assms(2) by (simp add: signed_of_nat signed_take_bit_int_eq_self)
  have l: "length (put32 0 (of_nat n) bs) = length bs" using assms(1) by simp
  then show "length (header n blk bs) = length bs" "hd_count (header n blk bs) = n"
    "i < n \<Longrightarrow> hd_block (header n blk bs) i = blk i" "sint (get32 0 (header n blk bs)) = int n"
    using assms put_blocks_keep [where n = n and bs = "put32 0 (of_nat n) bs" and blk = blk] s
    by (simp_all add: header_def hd_count_def hd_block_def get32_put32_same)
qed

section \<open>The disk a header describes\<close>

text \<open>The log is the LOGBLOCKS + 1 blocks from \<open>st\<close> on, the header first.\<close>

definition log_area :: "u32 \<Rightarrow> u32 set" where
  "log_area st = {n. unat st \<le> unat n \<and> unat n \<le> unat st + LOGBLOCKS}"

definition copy_at :: "u32 \<Rightarrow> nat \<Rightarrow> u32" where
  "copy_at st i = st + of_nat i + 1"

text \<open>The disk \<open>K\<close> with the first \<open>n\<close> copies installed at the blocks \<open>tg\<close>.\<close>

primrec install :: "u32 \<Rightarrow> (nat \<Rightarrow> u32) \<Rightarrow> nat \<Rightarrow> (u32 \<Rightarrow> u8 list) \<Rightarrow> u32 \<Rightarrow> u8 list" where
  "install st tg 0 K = K"
| "install st tg (Suc n) K = (install st tg n K)(tg n := K (copy_at st n))"

definition replay :: "u32 \<Rightarrow> (u32 \<Rightarrow> u8 list) \<Rightarrow> u32 \<Rightarrow> u8 list" where
  "replay st K = install st (hd_block (K st)) (hd_count (K st)) K"

text \<open>A header recovery can use: as many entries as the array holds, none of them in the log.\<close>

definition log_ok :: "u32 \<Rightarrow> (u32 \<Rightarrow> u8 list) \<Rightarrow> bool" where
  "log_ok st K \<longleftrightarrow> length (K st) = BSIZE \<and> hd_count (K st) \<le> LOGBLOCKS \<and>
     (\<forall>i < hd_count (K st). unat (hd_block (K st) i) < 2 ^ 31 \<and> hd_block (K st) i \<notin> log_area st)"

lemma install_other: "(\<forall>i < n. tg i \<noteq> m) \<Longrightarrow> install st tg n K m = K m"
  by (induction n) auto

lemma install_cong:
  "(\<And>i. i < n \<Longrightarrow> tg i = tg' i \<and> K (copy_at st i) = K' (copy_at st i)) \<Longrightarrow> K m = K' m \<Longrightarrow>
    install st tg n K m = install st tg' n K' m"
  by (induction n) auto

lemma copy_at_area:
  assumes "unat st + LOGBLOCKS < 2 ^ 31" and "i < LOGBLOCKS"
  shows "unat (copy_at st i) = unat st + i + 1" "copy_at st i \<in> log_area st" "copy_at st i \<noteq> st" "st \<in> log_area st"
proof -
  have "i < 2 ^ LENGTH(32)" using assms by (simp add: LOGBLOCKS_def MAXOPBLOCKS_def)
  then have i: "unat (of_nat i :: u32) = i" by (simp add: unat_of_nat take_bit_nat_eq_self)
  then have s: "unat (st + of_nat i) = unat st + i"
    using assms unat_sum [of st "of_nat i"] by simp
  show u: "unat (copy_at st i) = unat st + i + 1"
    using assms unat_sum [of "st + of_nat i" 1] s unfolding copy_at_def by simp
  then show "copy_at st i \<in> log_area st" "copy_at st i \<noteq> st" "st \<in> log_area st"
    using assms(2) by (auto simp: log_area_def)
qed

lemma copy_at_inj: "unat st + LOGBLOCKS < 2 ^ 31 \<Longrightarrow> i < LOGBLOCKS \<Longrightarrow> j < LOGBLOCKS \<Longrightarrow>
    copy_at st i = copy_at st j \<longleftrightarrow> i = j"
  by (simp add: word_unat_eq_iff copy_at_area(1))

text \<open>Blocks that are targets are not read as copies: installing a second time changes nothing.\<close>

lemma install_twice:
  assumes fit: "unat st + LOGBLOCKS < 2 ^ 31" and "n \<le> LOGBLOCKS" and "i \<le> n"
    and out: "\<And>j. j < n \<Longrightarrow> tg j \<notin> log_area st"
  shows "install st tg n (install st tg i K) m = install st tg n K m"
proof -
  have log: "install st tg i K l = K l" if "l \<in> log_area st" for l
    by (rule install_other) (use that out \<open>i \<le> n\<close> in \<open>meson order_less_le_trans\<close>)
  have copy: "install st tg i K (copy_at st j) = K (copy_at st j)" if "j < n" for j
    using log copy_at_area(2) [OF fit] that \<open>n \<le> LOGBLOCKS\<close> by simp
  show ?thesis
  proof (cases "\<exists>j < n. tg j = m")
    case True
    then have "install st tg l (install st tg i K) m = install st tg l K m \<or> (\<forall>j < l. tg j \<noteq> m)" if "l \<le> n" for l
      using that by (induction l) (auto simp: copy less_Suc_eq)
    from this [of n] True show ?thesis by auto
  next
    case False
    then show ?thesis using \<open>i \<le> n\<close> by (simp add: install_other)
  qed
qed

end
