(* ===== verification/Commit.thy ===== *)
theory Commit
  imports Cache Header
begin

text \<open>
  The redo log, kernel/log.c, over any store of blocks that keeps the contract of the buffer
  cache: committing a transaction and recovering from the log, each possibly cut by a power
  failure.
\<close>

section \<open>Transactions\<close>

text \<open>The blocks of the file system proper.\<close>

definition home :: "u32 \<Rightarrow> u32 \<Rightarrow> bool" where
  "home st n \<longleftrightarrow> blk_ok n \<and> n \<notin> log_area st"

text \<open>
  A transaction of the blocks \<open>blk 0 .. blk (N - 1)\<close>: distinct, outside the log, each with a
  reference that keeps it in the cache; at least one buffer is left to work with.
\<close>

definition txn :: "u32 \<Rightarrow> nat \<Rightarrow> (nat \<Rightarrow> u32) \<Rightarrow> (u32 \<Rightarrow> nat) \<Rightarrow> bool" where
  "txn st N blk R \<longleftrightarrow> unat st + LOGBLOCKS < 2 ^ 31 \<and> N \<le> LOGBLOCKS \<and> inj_on blk {..<N} \<and>
     (\<forall>i < N. home st (blk i) \<and> 0 < R (blk i)) \<and> (\<forall>n. R n + 1 < 2 ^ 32) \<and> card {n. 0 < R n} < NBUF"

text \<open>What a power failure during the commit may leave: the old content or the new.\<close>

definition atomic :: "u32 \<Rightarrow> (u32 \<Rightarrow> u8 list) \<Rightarrow> (u32 \<Rightarrow> u8 list) \<Rightarrow> (u32 \<Rightarrow> u8 list) \<Rightarrow> bool" where
  "atomic st A B K \<longleftrightarrow> log_ok st K \<and>
     ((\<forall>n. home st n \<longrightarrow> replay st K n = A n) \<or> (\<forall>n. home st n \<longrightarrow> replay st K n = B n))"

text \<open>The copies of the first \<open>n\<close> blocks of a transaction, in the log.\<close>

primrec copied :: "u32 \<Rightarrow> (nat \<Rightarrow> u32) \<Rightarrow> (u32 \<Rightarrow> u8 list) \<Rightarrow> nat \<Rightarrow> (u32 \<Rightarrow> u8 list) \<Rightarrow> u32 \<Rightarrow> u8 list" where
  "copied st blk V 0 F = F"
| "copied st blk V (Suc n) F = (copied st blk V n F)(copy_at st n := V (blk n))"

lemma txnD:
  assumes "txn st N blk R"
  shows "unat st + LOGBLOCKS < 2 ^ 31" "N \<le> LOGBLOCKS" "inj_on blk {..<N}" "i < N \<Longrightarrow> blk_ok (blk i)"
    "i < N \<Longrightarrow> blk i \<notin> log_area st" "i < N \<Longrightarrow> 0 < R (blk i)" "R n + 1 < 2 ^ 32" "card {n. 0 < R n} < NBUF"
    "i < N \<Longrightarrow> blk_ok (copy_at st i)" "blk_ok st"
proof -
  show "i < N \<Longrightarrow> blk_ok (copy_at st i)"
    using assms copy_at_area(1) [of st i] by (simp add: txn_def blk_ok_def)
  show "blk_ok st" using assms by (simp add: txn_def blk_ok_def)
qed (use assms in \<open>auto simp: txn_def home_def\<close>)

lemma txn_apart: "txn st N blk R \<Longrightarrow> i < N \<Longrightarrow> j < N \<Longrightarrow> blk i \<noteq> copy_at st j"
  using txnD(5) copy_at_area(2) [OF txnD(1)] txnD(2) by (metis order_less_le_trans)

lemma copied_other:
  assumes "\<And>i. i < n \<Longrightarrow> m \<noteq> copy_at st i"
  shows "copied st blk V n F m = F m"
  using assms by (induction n) auto

lemma copied_copy:
  assumes "unat st + LOGBLOCKS < 2 ^ 31" and "n \<le> LOGBLOCKS"
  shows "i < n \<Longrightarrow> copied st blk V n F (copy_at st i) = V (blk i)"
  using assms(2) by (induction n) (auto simp: copy_at_inj [OF assms(1)] less_Suc_eq)

lemma replay_clear: "hd_count (K st) = 0 \<Longrightarrow> replay st K = K"
  by (simp add: replay_def)

text \<open>Before the header is written, the disk still stands for the old content.\<close>

lemma atomic_before:
  assumes T: "txn st N blk R" and K: "length (K st) = BSIZE" "hd_count (K st) = 0" and "i \<le> N"
  shows "atomic st K B (copied st blk V i K)"
proof -
  note t = txnD [OF T]
  have away: "copied st blk V i K m = K m" if "m \<notin> log_area st \<or> m = st" for m
  proof (rule copied_other)
    fix j
    assume "j < i"
    then have "j < LOGBLOCKS" using assms(4) t(2) by simp
    then show "m \<noteq> copy_at st j" using that copy_at_area(2,3) [OF t(1), of j] by auto
  qed
  then show ?thesis
    using K by (simp add: atomic_def log_ok_def replay_clear home_def)
qed

text \<open>Once it is written, it stands for the new.\<close>

lemma atomic_after:
  assumes T: "txn st N blk R" and hd: "length (K st) = BSIZE" "hd_count (K st) = N" "\<And>i. i < N \<Longrightarrow> hd_block (K st) i = blk i"
    and copy: "\<And>i. i < N \<Longrightarrow> K (copy_at st i) = B (blk i)"
    and rest: "\<And>n. home st n \<Longrightarrow> (\<forall>i < N. n \<noteq> blk i) \<Longrightarrow> K n = B n" and "i \<le> N"
  shows "atomic st A B (install st blk i K)" "home st n \<Longrightarrow> install st blk N K n = B n"
proof -
  note t = txnD [OF T]
  have st: "install st blk j K st = K st" if "j \<le> N" for j
  proof (rule install_other, intro allI impI)
    fix i
    assume "i < j"
    then have "blk i \<notin> log_area st" using that t(5) by simp
    moreover have "st \<in> log_area st" by (simp add: log_area_def)
    ultimately show "blk i \<noteq> st" by auto
  qed
  have new: "install st blk N K n = B n" if "home st n" for n
  proof (cases "\<exists>i < N. blk i = n")
    case True
    have "install st blk l K n = B n \<or> (\<forall>i < l. blk i \<noteq> n)" if "l \<le> N" for l
      using that by (induction l) (auto simp: copy less_Suc_eq)
    from this [of N] True show ?thesis by auto
  next
    case False
    then show ?thesis using rest [OF that] by (auto simp: install_other)
  qed
  then show "home st n \<Longrightarrow> install st blk N K n = B n" .
  have "replay st (install st blk i K) n = B n" if "home st n" for n
  proof -
    have "replay st (install st blk i K) n = install st blk N (install st blk i K) n"
      unfolding replay_def st [OF assms(7)] hd(2) by (rule install_cong) (use hd(3) in auto)
    also have "\<dots> = install st blk N K n"
      by (rule install_twice) (use t assms(7) in auto)
    finally show ?thesis using new [OF that] by simp
  qed
  then show "atomic st A B (install st blk i K)"
    using hd t by (auto simp: atomic_def log_ok_def st [OF assms(7)] blk_ok_def)
qed

text \<open>The references the installed blocks lose when they are no longer pinned.\<close>

primrec dropped :: "(nat \<Rightarrow> u32) \<Rightarrow> nat \<Rightarrow> (u32 \<Rightarrow> nat) \<Rightarrow> u32 \<Rightarrow> nat" where
  "dropped blk 0 R = R"
| "dropped blk (Suc n) R = (dropped blk n R)(blk n := dropped blk n R (blk n) - 1)"

lemma dropped_le: "dropped blk n R m \<le> R m"
  by (induction n) (auto intro: le_trans [OF diff_le_self])

lemma dropped_other: "(\<And>i. i < n \<Longrightarrow> blk i \<noteq> m) \<Longrightarrow> dropped blk n R m = R m"
  by (induction n) auto

lemma few_refs:
  assumes "card {n. 0 < R n} < NBUF"
  shows "card {n. 0 < dropped blk i R n} < NBUF"
proof -
  have "{n. 0 < dropped blk i R n} \<subseteq> {n. 0 < R n}"
    using dropped_le [of blk i R] by (auto intro: less_le_trans)
  then have "card {n. 0 < dropped blk i R n} \<le> card {n. 0 < R n}"
    by (intro card_mono) auto
  then show ?thesis using assms by simp
qed

section \<open>What the log relies on\<close>

text \<open>
  \<open>rel a s\<close>: the state \<open>s\<close> holds the store \<open>a\<close>. The laws are those of bread, bwrite, brelse
  and bunpin for the one device \<open>D\<close>; a cut run leaves the disk as it was when it began.
\<close>

locale block_cache =
  fixes act :: "'a dev_state_scheme \<Rightarrow> 'a dev_state_scheme"
    and rel :: "store \<Rightarrow> 'a dev_state_scheme \<Rightarrow> bool"
    and D :: u32
  assumes read_law: "\<lbrakk>blk_ok n; n \<notin> hl a; fr a = {}; rf a n + 1 < 2 ^ 32; room n a; C (dk a)\<rbrakk> \<Longrightarrow>
      chl act blocks 1 (rel a) (bread D n) (\<lambda>b. rel (got n b a)) C"
    and write_law: "\<lbrakk>n \<in> hl a; fr a = {}; slot a n = b; C (dk a)\<rbrakk> \<Longrightarrow>
      chl act blocks 1 (rel a) (bwrite b) (\<lambda>_. rel (flushed n a)) C"
    and data_law: "\<lbrakk>n \<in> hl a; fr a = {}; slot a n = b; chl act blocks c (rel a) (f (vw a n) :: ('a dev_state_scheme, unit) kfun) Q C\<rbrakk> \<Longrightarrow>
      chl act blocks c (rel a) (kbind (buf_data b) f) Q C"
    and update_law: "\<lbrakk>n \<in> hl a; fr a = {}; slot a n = b\<rbrakk> \<Longrightarrow>
      chl act blocks 0 (rel a) (buf_update b g) (\<lambda>_. rel (edited n g a)) C"
    and release_law: "\<lbrakk>n \<in> hl a; fr a = {}; slot a n = b; rf a n = 1 \<longrightarrow> vw a n = dk a n\<rbrakk> \<Longrightarrow>
      chl act blocks 0 (rel a) (brelse b) (\<lambda>_. rel (given n a)) C"
    and unpin_law: "\<lbrakk>n \<in> hl a; fr a = {}; slot a n = b; 1 < rf a n\<rbrakk> \<Longrightarrow>
      chl act blocks 0 (rel a) (bunpin b) (\<lambda>_. rel (unpinned n a)) C"
    and clean: "rel a s \<Longrightarrow> blk_ok n \<Longrightarrow> rf a n = 0 \<Longrightarrow> vw a n = dk a n"
    and vars: "rel a s \<Longrightarrow> fl_dev s = D \<and> fl_start s = st_start a \<and> lh_n s = st_n a \<and> lh_block s = st_blk a"
    and set_n: "rel a s \<Longrightarrow> rel (a\<lparr>st_n := m\<rparr>) (s\<lparr>lh_n := m\<rparr>)"
    and set_blk: "rel a s \<Longrightarrow> rel (a\<lparr>st_blk := (st_blk a)(i := v)\<rparr>) (set_lh_block i v s)"
    and print_law: "rel a s \<Longrightarrow> printable fmt ap \<Longrightarrow> \<exists>t. printf fmt ap (s, e) = Ok () (t, e) \<and> rel a t"
begin

text \<open>The state between two operations: no buffer locked.\<close>

definition idle :: "u32 \<Rightarrow> int \<Rightarrow> (nat \<Rightarrow> u32) \<Rightarrow> (u32 \<Rightarrow> u8 list) \<Rightarrow> (u32 \<Rightarrow> u8 list) \<Rightarrow> (u32 \<Rightarrow> nat) \<Rightarrow>
    'a dev_state_scheme \<Rightarrow> bool" where
  "idle st n blk V K R s \<longleftrightarrow> (\<exists>a. rel a s \<and> vw a = V \<and> dk a = K \<and> rf a = R \<and> hl a = {} \<and> fr a = {} \<and>
     st_start a = st \<and> st_n a = n \<and> st_blk a = blk)"

lemma chl_idle:
  assumes "\<And>a. \<lbrakk>vw a = V; dk a = K; rf a = R; hl a = {}; fr a = {}; st_start a = st; st_n a = n; st_blk a = blk\<rbrakk> \<Longrightarrow>
    chl act blocks c (rel a) m Q C"
  shows "chl act blocks c (idle st n blk V K R) m Q C"
  using assms unfolding chl_def idle_def by blast

lemma idleI:
  assumes "rel a s" "vw a = V" "dk a = K" "rf a = R" "hl a = {}" "fr a = {}" "st_start a = st" "st_n a = n" "st_blk a = blk"
  shows "idle st n blk V K R s"
  using assms unfolding idle_def by blast

lemma read_log_law:
  assumes "st_start a = st" "blk_ok (off st)" "off st \<notin> hl a" "fr a = {}" "rf a (off st) + 1 < 2 ^ 32" "room (off st) a" "C (dk a)"
  shows "chl act blocks 1 (rel a) (bread_log off) (\<lambda>b. rel (got (off st) b a)) C"
  unfolding bread_log_def
  by (rule chl_kget_bind [where x = "(D, off st)"]) (use assms vars read_law in auto)

section \<open>The copies\<close>

lemma write_step:
  assumes K: "C K" and i: "blk i = b" "copy_at st i = l" "b \<noteq> l" "blk_ok b" "blk_ok l"
    and R: "0 < R b" "R b + 1 < 2 ^ 32" "R l + 1 < 2 ^ 32" "card {m. 0 < R m} < NBUF"
  shows "chl act blocks 3 (idle st n blk V K R)
     (kbind (bread_log (\<lambda>st. st + of_nat i + 1)) (\<lambda>tb.
      kbind (kget (\<lambda>s. (fl_dev s, lh_block s i))) (\<lambda>(d, bn).
      kbind (bread d bn) (\<lambda>fb. kseq
       [ kbind (buf_data fb) (\<lambda>bs. buf_update tb (\<lambda>_. bs)),
         bwrite tb,
         brelse fb,
         brelse tb ]))))
     (\<lambda>_. idle st n blk (V(l := V b)) (K(l := V b)) R) C"
proof (rule chl_idle)
  fix a :: store
  assume a: "vw a = V" "dk a = K" "rf a = R" "hl a = {}" "fr a = {}" "st_start a = st" "st_n a = n" "st_blk a = blk"
  have l: "st + of_nat i + 1 = l" using i(2) by (simp add: copy_at_def)
  have rest: "chl act blocks 1 (rel (got b fb (got l tb a)))
      (kseq [kbind (buf_data fb) (\<lambda>bs. buf_update tb (\<lambda>_. bs)), bwrite tb, brelse fb, brelse tb])
      (\<lambda>_. idle st n blk (V(l := V b)) (K(l := V b)) R) C" for fb tb
  proof -
    let ?a2 = "got b fb (got l tb a)"
    let ?a3 = "edited l (\<lambda>_. V b) ?a2"
    let ?a4 = "flushed l ?a3"
    let ?a5 = "given b ?a4"
    let ?a6 = "given l ?a5"
    have upd: "chl act blocks 0 (rel ?a2) (kbind (buf_data fb) (\<lambda>bs. buf_update tb (\<lambda>_. bs))) (\<lambda>_. rel ?a3) C"
    proof (rule data_law [where n = b])
      show "chl act blocks 0 (rel ?a2) (buf_update tb (\<lambda>_. vw ?a2 b)) (\<lambda>_. rel ?a3) C"
        using update_law [of l ?a2 tb "\<lambda>_. V b" C] i(3) a by (simp add: got_def)
    qed (use a in \<open>simp_all add: got_def\<close>)
    have wr: "chl act blocks 1 (rel ?a3) (bwrite tb) (\<lambda>_. rel ?a4) C"
      by (rule write_law) (use i(3) a K in \<open>auto simp: got_def edited_def\<close>)
    have r1: "chl act blocks 0 (rel ?a4) (brelse fb) (\<lambda>_. rel ?a5) C"
      by (rule release_law) (use i(3) a R in \<open>auto simp: got_def edited_def flushed_def\<close>)
    have r2: "chl act blocks 0 (rel ?a5) (brelse tb) (\<lambda>_. rel ?a6) C"
      by (rule release_law) (use i(3) a in \<open>auto simp: got_def edited_def flushed_def given_def\<close>)
    have "rel ?a6 s \<Longrightarrow> idle st n blk (V(l := V b)) (K(l := V b)) R s" for s
      by (rule idleI [where a = "?a6"], assumption)
        (use i(3) a in \<open>auto simp: got_def edited_def flushed_def given_def fun_eq_iff\<close>)
    then have fin: "chl act blocks 0 (rel ?a6) (kseq []) (\<lambda>_. idle st n blk (V(l := V b)) (K(l := V b)) R) C"
      by (intro chl_run) (auto simp: kseq_run)
    have "chl act blocks (0 + (1 + (0 + (0 + 0)))) (rel ?a2)
        (kseq [kbind (buf_data fb) (\<lambda>bs. buf_update tb (\<lambda>_. bs)), bwrite tb, brelse fb, brelse tb])
        (\<lambda>_. idle st n blk (V(l := V b)) (K(l := V b)) R) C"
      by (rule chl_kseq_Cons upd wr r1 r2 fin)+
    then show ?thesis by (simp only: add_0 add_0_right)
  qed
  have "chl act blocks (1 + (1 + 1)) (rel a)
     (kbind (bread_log (\<lambda>st. st + of_nat i + 1)) (\<lambda>tb.
      kbind (kget (\<lambda>s. (fl_dev s, lh_block s i))) (\<lambda>(d, bn).
      kbind (bread d bn) (\<lambda>fb. kseq
       [ kbind (buf_data fb) (\<lambda>bs. buf_update tb (\<lambda>_. bs)), bwrite tb, brelse fb, brelse tb ]))))
     (\<lambda>_. idle st n blk (V(l := V b)) (K(l := V b)) R) C"
  proof (rule chl_kbind)
    show "chl act blocks 1 (rel a) (bread_log (\<lambda>st. st + of_nat i + 1)) (\<lambda>tb. rel (got l tb a)) C"
      using read_log_law [of a st "\<lambda>st. st + of_nat i + 1" C] a i R K by (simp add: l room_def)
    show "chl act blocks (1 + 1) (rel (got l tb a))
       (kbind (kget (\<lambda>s. (fl_dev s, lh_block s i))) (\<lambda>(d, bn). kbind (bread d bn) (\<lambda>fb. kseq
         [ kbind (buf_data fb) (\<lambda>bs. buf_update tb (\<lambda>_. bs)), bwrite tb, brelse fb, brelse tb ])))
       (\<lambda>_. idle st n blk (V(l := V b)) (K(l := V b)) R) C" for tb
    proof (rule chl_kget_bind [where x = "(D, b)"])
      show "(fl_dev s, lh_block s i) = (D, b)" if "rel (got l tb a) s" for s
        using vars [OF that] a(8) i(1) by (simp add: got_def)
      have "chl act blocks 1 (rel (got l tb a)) (bread D b) (\<lambda>fb. rel (got b fb (got l tb a))) C"
        by (rule read_law) (use i a R K in \<open>auto simp: got_def room_def\<close>)
      then show "chl act blocks (1 + 1) (rel (got l tb a)) (case (D, b) of (d, bn) \<Rightarrow> kbind (bread d bn) (\<lambda>fb. kseq
         [ kbind (buf_data fb) (\<lambda>bs. buf_update tb (\<lambda>_. bs)), bwrite tb, brelse fb, brelse tb ]))
       (\<lambda>_. idle st n blk (V(l := V b)) (K(l := V b)) R) C"
        unfolding prod.case using rest by (rule chl_kbind)
    qed
  qed
  then show "chl act blocks 3 (rel a)
     (kbind (bread_log (\<lambda>st. st + of_nat i + 1)) (\<lambda>tb.
      kbind (kget (\<lambda>s. (fl_dev s, lh_block s i))) (\<lambda>(d, bn).
      kbind (bread d bn) (\<lambda>fb. kseq
       [ kbind (buf_data fb) (\<lambda>bs. buf_update tb (\<lambda>_. bs)), bwrite tb, brelse fb, brelse tb ]))))
     (\<lambda>_. idle st n blk (V(l := V b)) (K(l := V b)) R) C"
    by (simp add: numeral_3_eq_3)
qed

text \<open>One block of install_trans: \<open>rec\<close> is its argument.\<close>

lemma install_step:
  assumes K: "C K" and i: "blk i = b" "copy_at st i = l" "b \<noteq> l" "blk_ok b" "blk_ok l"
    and R: "rec \<or> 0 < R b" "R b + 1 < 2 ^ 32" "R l + 1 < 2 ^ 32" "card {m. 0 < R m} + 1 < NBUF \<or> 0 < R b \<and> card {m. 0 < R m} < NBUF"
    and l: "V l = K l"
  shows "chl act blocks 3 (idle st n blk V K R)
    (kseq
     [ if rec then kbind (kget (\<lambda>s. lh_block s i)) (\<lambda>d.
         printf (ln ''recovering tail %d dst %d'') [va_nat i, va_u32 d]) else kret (),
       kbind (bread_log (\<lambda>st. st + of_nat i + 1)) (\<lambda>lbuf.
       kbind (kget (\<lambda>s. (fl_dev s, lh_block s i))) (\<lambda>(d, bn).
       kbind (bread d bn) (\<lambda>dbuf. kseq
         [ kbind (buf_data lbuf) (\<lambda>bs. buf_update dbuf (\<lambda>_. bs)),
           bwrite dbuf,
           if \<not> rec then bunpin dbuf else kret (),
           brelse lbuf,
           brelse dbuf ]))) ])
     (\<lambda>_. idle st n blk (V(b := V l)) (K(b := V l)) (if rec then R else R(b := R b - 1))) C"
proof (rule chl_idle)
  fix a :: store
  assume a: "vw a = V" "dk a = K" "rf a = R" "hl a = {}" "fr a = {}" "st_start a = st" "st_n a = n" "st_blk a = blk"
  let ?Q = "idle st n blk (V(b := V l)) (K(b := V l)) (if rec then R else R(b := R b - 1))"
  have at: "st + of_nat i + 1 = l" using i(2) by (simp add: copy_at_def)
  have print: "chl act blocks 0 (rel a) (if rec then kbind (kget (\<lambda>s. lh_block s i)) (\<lambda>d.
         printf (ln ''recovering tail %d dst %d'') [va_nat i, va_u32 d]) else kret ()) (\<lambda>_. rel a) C"
  proof (rule chl_pure)
    fix s e
    assume "rel a s"
    moreover have "printable (ln ''recovering tail %d dst %d'') [va_nat i, va_u32 d]" for d
      by (simp add: printable_def render_eval va_nat_def va_u32_def)
    ultimately show "\<exists>t. (if rec then kbind (kget (\<lambda>s. lh_block s i)) (\<lambda>d.
         printf (ln ''recovering tail %d dst %d'') [va_nat i, va_u32 d]) else kret ()) (s, e) = Ok () (t, e) \<and> rel a t"
      using print_law by (simp add: kbind_def)
  qed
  have rest: "chl act blocks 1 (rel (got b db (got l lb a)))
      (kseq [kbind (buf_data lb) (\<lambda>bs. buf_update db (\<lambda>_. bs)), bwrite db,
        if \<not> rec then bunpin db else kret (), brelse lb, brelse db]) (\<lambda>_. ?Q) C" for lb db
  proof -
    let ?a2 = "got b db (got l lb a)"
    let ?a3 = "edited b (\<lambda>_. V l) ?a2"
    let ?a4 = "flushed b ?a3"
    let ?a5 = "if rec then ?a4 else unpinned b ?a4"
    let ?a6 = "given l ?a5"
    let ?a7 = "given b ?a6"
    have upd: "chl act blocks 0 (rel ?a2) (kbind (buf_data lb) (\<lambda>bs. buf_update db (\<lambda>_. bs))) (\<lambda>_. rel ?a3) C"
    proof (rule data_law [where n = l])
      show "chl act blocks 0 (rel ?a2) (buf_update db (\<lambda>_. vw ?a2 l)) (\<lambda>_. rel ?a3) C"
        using update_law [of b ?a2 db "\<lambda>_. V l" C] a by (simp add: got_def)
    qed (use a i(3) in \<open>simp_all add: got_def\<close>)
    have wr: "chl act blocks 1 (rel ?a3) (bwrite db) (\<lambda>_. rel ?a4) C"
      by (rule write_law) (use a K in \<open>auto simp: got_def edited_def\<close>)
    have un: "chl act blocks 0 (rel ?a4) (if \<not> rec then bunpin db else kret ()) (\<lambda>_. rel ?a5) C"
    proof (cases rec)
      case True
      then show ?thesis using chl_kret [of act blocks "\<lambda>_. rel ?a4" "()" C] by simp
    next
      case False
      have "chl act blocks 0 (rel ?a4) (bunpin db) (\<lambda>_. rel (unpinned b ?a4)) C"
        by (rule unpin_law) (use a i(3) R False in \<open>auto simp: got_def edited_def flushed_def\<close>)
      then show ?thesis using False by simp
    qed
    have r1: "chl act blocks 0 (rel ?a5) (brelse lb) (\<lambda>_. rel ?a6) C"
      by (rule release_law) (use i(3) a R l in \<open>auto simp: got_def edited_def flushed_def unpinned_def\<close>)
    have r2: "chl act blocks 0 (rel ?a6) (brelse db) (\<lambda>_. rel ?a7) C"
      by (rule release_law) (use i(3) a R in \<open>auto simp: got_def edited_def flushed_def given_def unpinned_def\<close>)
    have "rel ?a7 s \<Longrightarrow> ?Q s" for s
      by (rule idleI [where a = "?a7"], assumption)
        (use i(3) a R(1) in \<open>auto simp: got_def edited_def flushed_def given_def unpinned_def fun_eq_iff\<close>)
    then have fin: "chl act blocks 0 (rel ?a7) (kseq []) (\<lambda>_. ?Q) C"
      by (intro chl_run) (auto simp: kseq_run)
    have "chl act blocks (0 + (1 + (0 + (0 + (0 + 0))))) (rel ?a2)
        (kseq [kbind (buf_data lb) (\<lambda>bs. buf_update db (\<lambda>_. bs)), bwrite db,
          if \<not> rec then bunpin db else kret (), brelse lb, brelse db]) (\<lambda>_. ?Q) C"
      by (rule chl_kseq_Cons upd wr un r1 r2 fin)+
    then show ?thesis by (simp only: add_0 add_0_right)
  qed
  have body: "chl act blocks (1 + (1 + 1)) (rel a)
      (kbind (bread_log (\<lambda>st. st + of_nat i + 1)) (\<lambda>lbuf.
       kbind (kget (\<lambda>s. (fl_dev s, lh_block s i))) (\<lambda>(d, bn).
       kbind (bread d bn) (\<lambda>dbuf. kseq
         [ kbind (buf_data lbuf) (\<lambda>bs. buf_update dbuf (\<lambda>_. bs)), bwrite dbuf,
           if \<not> rec then bunpin dbuf else kret (), brelse lbuf, brelse dbuf ])))) (\<lambda>_. ?Q) C"
  proof (rule chl_kbind)
    show "chl act blocks 1 (rel a) (bread_log (\<lambda>st. st + of_nat i + 1)) (\<lambda>lb. rel (got l lb a)) C"
      using read_log_law [of a st "\<lambda>st. st + of_nat i + 1" C] a i R K by (auto simp: at room_def)
    show "chl act blocks (1 + 1) (rel (got l lb a))
       (kbind (kget (\<lambda>s. (fl_dev s, lh_block s i))) (\<lambda>(d, bn). kbind (bread d bn) (\<lambda>dbuf. kseq
         [ kbind (buf_data lb) (\<lambda>bs. buf_update dbuf (\<lambda>_. bs)), bwrite dbuf,
           if \<not> rec then bunpin dbuf else kret (), brelse lb, brelse dbuf ]))) (\<lambda>_. ?Q) C" for lb
    proof (rule chl_kget_bind [where x = "(D, b)"])
      show "(fl_dev s, lh_block s i) = (D, b)" if "rel (got l lb a) s" for s
        using vars [OF that] a(8) i(1) by (simp add: got_def)
      have "{m. 0 < rf (got l lb a) m} = insert l {m. 0 < R m}"
        using a(3) by (auto simp: got_def)
      then have "card {m. 0 < rf (got l lb a) m} \<le> card {m. 0 < R m} + 1"
        by (simp add: card_insert_if)
      then have "room b (got l lb a)" using R(4) a(3) i(3) by (auto simp: room_def) (auto simp: got_def)
      then have "chl act blocks 1 (rel (got l lb a)) (bread D b) (\<lambda>db. rel (got b db (got l lb a))) C"
        by (intro read_law) (use i a R K in \<open>auto simp: got_def\<close>)
      then show "chl act blocks (1 + 1) (rel (got l lb a)) (case (D, b) of (d, bn) \<Rightarrow> kbind (bread d bn) (\<lambda>dbuf. kseq
         [ kbind (buf_data lb) (\<lambda>bs. buf_update dbuf (\<lambda>_. bs)), bwrite dbuf,
           if \<not> rec then bunpin dbuf else kret (), brelse lb, brelse dbuf ])) (\<lambda>_. ?Q) C"
        unfolding prod.case using rest by (rule chl_kbind)
    qed
  qed
  have nil: "chl act blocks 0 ?Q (kseq []) (\<lambda>_. ?Q) C"
    by (intro chl_run) (auto simp: kseq_run)
  have "chl act blocks (0 + ((1 + (1 + 1)) + 0)) (rel a)
    (kseq
     [ if rec then kbind (kget (\<lambda>s. lh_block s i)) (\<lambda>d.
         printf (ln ''recovering tail %d dst %d'') [va_nat i, va_u32 d]) else kret (),
       kbind (bread_log (\<lambda>st. st + of_nat i + 1)) (\<lambda>lbuf.
       kbind (kget (\<lambda>s. (fl_dev s, lh_block s i))) (\<lambda>(d, bn).
       kbind (bread d bn) (\<lambda>dbuf. kseq
         [ kbind (buf_data lbuf) (\<lambda>bs. buf_update dbuf (\<lambda>_. bs)), bwrite dbuf,
           if \<not> rec then bunpin dbuf else kret (), brelse lbuf, brelse dbuf ]))) ]) (\<lambda>_. ?Q) C"
    by (rule chl_kseq_Cons print body nil)+
  then show "chl act blocks 3 (rel a)
    (kseq
     [ if rec then kbind (kget (\<lambda>s. lh_block s i)) (\<lambda>d.
         printf (ln ''recovering tail %d dst %d'') [va_nat i, va_u32 d]) else kret (),
       kbind (bread_log (\<lambda>st. st + of_nat i + 1)) (\<lambda>lbuf.
       kbind (kget (\<lambda>s. (fl_dev s, lh_block s i))) (\<lambda>(d, bn).
       kbind (bread d bn) (\<lambda>dbuf. kseq
         [ kbind (buf_data lbuf) (\<lambda>bs. buf_update dbuf (\<lambda>_. bs)), bwrite dbuf,
           if \<not> rec then bunpin dbuf else kret (), brelse lbuf, brelse dbuf ]))) ]) (\<lambda>_. ?Q) C"
    by (simp add: numeral_3_eq_3)
qed

section \<open>The header\<close>

lemma edited_edited: "edited n f (edited n g a) = edited n (\<lambda>x. f (g x)) a"
  by (simp add: edited_def)

lemma edited_simps: "st_n (edited n f a) = st_n a" "st_blk (edited n f a) = st_blk a" "hl (edited n f a) = hl a"
  "fr (edited n f a) = fr a" "slot (edited n f a) = slot a"
  by (simp_all add: edited_def)

lemma write_head_law:
  fixes V :: "u32 \<Rightarrow> u8 list" and blk :: "nat \<Rightarrow> u32"
  assumes K: "C K" and st: "blk_ok st" and n: "n = int N" and R: "R st + 1 < 2 ^ 32" "card {m. 0 < R m} < NBUF"
  defines "hdr \<equiv> header N blk (V st)"
  shows "chl act blocks 2 (idle st n blk V K R) write_head (\<lambda>_. idle st n blk (V(st := hdr)) (K(st := hdr)) R) C"
proof (rule chl_idle)
  fix a :: store
  assume a: "vw a = V" "dk a = K" "rf a = R" "hl a = {}" "fr a = {}" "st_start a = st" "st_n a = n" "st_blk a = blk"
  let ?Q = "idle st n blk (V(st := hdr)) (K(st := hdr)) R"
  have rest: "chl act blocks 1 (rel (got st b a))
      (kseq [kbind (kget lh_n) (\<lambda>n. buf_update b (put32 0 (word_of_int n))),
        for_log (\<lambda>i. kbind (kget (\<lambda>s. lh_block s i)) (\<lambda>v. buf_update b (put32 (4 + 4 * i) v))),
        bwrite b, brelse b]) (\<lambda>_. ?Q) C" for b
  proof -
    let ?a1 = "got st b a"
    let ?e = "\<lambda>i. edited st (\<lambda>bs. put_blocks i blk (put32 0 (of_nat N) bs)) ?a1"
    let ?a3 = "flushed st (?e N)"
    let ?a4 = "given st ?a3"
    have got: "st \<in> hl ?a1" "fr ?a1 = {}" "slot ?a1 st = b" "st_n ?a1 = n" "st_blk ?a1 = blk"
      using a by (simp_all add: got_def)
    have count: "chl act blocks 0 (rel ?a1) (kbind (kget lh_n) (\<lambda>n. buf_update b (put32 0 (word_of_int n)))) (\<lambda>_. rel (?e 0)) C"
    proof (rule chl_kget_bind [where x = n])
      show "lh_n s = n" if "rel ?a1 s" for s using vars [OF that] got by simp
      show "chl act blocks 0 (rel ?a1) (buf_update b (put32 0 (word_of_int n))) (\<lambda>_. rel (?e 0)) C"
        using update_law [of st ?a1 b "put32 0 (of_nat N)" C] got n by simp
    qed
    have loop: "chl act blocks 0 (rel (?e 0))
        (for_log (\<lambda>i. kbind (kget (\<lambda>s. lh_block s i)) (\<lambda>v. buf_update b (put32 (4 + 4 * i) v)))) (\<lambda>_. rel (?e N)) C"
      unfolding for_log_def
    proof (rule chl_kget_bind [where x = N])
      show "nat (lh_n s) = N" if "rel (?e 0) s" for s using vars [OF that] got n by (simp add: edited_simps)
      have "chl act blocks 0 (rel (?e i)) (kbind (kget (\<lambda>s. lh_block s i)) (\<lambda>v. buf_update b (put32 (4 + 4 * i) v)))
          (\<lambda>_. rel (?e (Suc i))) C" for i
      proof (rule chl_kget_bind [where x = "blk i"])
        show "lh_block s i = blk i" if "rel (?e i) s" for s using vars [OF that] got by (simp add: edited_simps)
        show "chl act blocks 0 (rel (?e i)) (buf_update b (put32 (4 + 4 * i) (blk i))) (\<lambda>_. rel (?e (Suc i))) C"
          using update_law [of st "?e i" b "put32 (4 + 4 * i) (blk i)" C] got by (simp add: edited_edited edited_simps)
      qed
      then have "chl act blocks (N * 0) (rel (?e 0))
          (kfor [0..<N] (\<lambda>i. kbind (kget (\<lambda>s. lh_block s i)) (\<lambda>v. buf_update b (put32 (4 + 4 * i) v)))) (\<lambda>_. rel (?e N)) C"
        by (intro chl_kfor)
      then show "chl act blocks 0 (rel (?e 0))
          (kfor [0..<N] (\<lambda>i. kbind (kget (\<lambda>s. lh_block s i)) (\<lambda>v. buf_update b (put32 (4 + 4 * i) v)))) (\<lambda>_. rel (?e N)) C"
        by simp
    qed
    have wr: "chl act blocks 1 (rel (?e N)) (bwrite b) (\<lambda>_. rel ?a3) C"
      by (rule write_law) (use a K in \<open>auto simp: got_def edited_def\<close>)
    have r1: "chl act blocks 0 (rel ?a3) (brelse b) (\<lambda>_. rel ?a4) C"
      by (rule release_law) (use a in \<open>auto simp: got_def edited_def flushed_def\<close>)
    have "rel ?a4 s \<Longrightarrow> ?Q s" for s
      by (rule idleI [where a = "?a4"], assumption)
        (use a in \<open>simp_all add: got_def edited_def flushed_def given_def hdr_def header_def\<close>)
    then have fin: "chl act blocks 0 (rel ?a4) (kseq []) (\<lambda>_. ?Q) C"
      by (intro chl_run) (auto simp: kseq_run)
    have "chl act blocks (0 + (0 + (1 + (0 + 0)))) (rel ?a1)
      (kseq [kbind (kget lh_n) (\<lambda>n. buf_update b (put32 0 (word_of_int n))),
        for_log (\<lambda>i. kbind (kget (\<lambda>s. lh_block s i)) (\<lambda>v. buf_update b (put32 (4 + 4 * i) v))),
        bwrite b, brelse b]) (\<lambda>_. ?Q) C"
      by (rule chl_kseq_Cons count loop wr r1 fin)+
    then show ?thesis by (simp only: add_0 add_0_right)
  qed
  have "chl act blocks 1 (rel a) (bread_log (\<lambda>st. st)) (\<lambda>b. rel (got st b a)) C"
    using read_log_law [of a st "\<lambda>st. st" C] a st R K by (simp add: room_def)
  then have "chl act blocks (1 + 1) (rel a) write_head (\<lambda>_. ?Q) C"
    unfolding write_head_def using rest by (rule chl_kbind)
  then show "chl act blocks 2 (rel a) write_head (\<lambda>_. ?Q) C" by (simp only: one_add_one)
qed

section \<open>The loops\<close>

lemma for_log_law:
  assumes "nat n = N" and "\<And>s. P 0 s \<Longrightarrow> lh_n s = n"
    and "\<And>i. i < N \<Longrightarrow> chl act blocks c (P i) (f i) (\<lambda>_. P (Suc i)) C"
  shows "chl act blocks (N * c) (P 0) (for_log f) (\<lambda>_. P N) C"
  unfolding for_log_def
  by (rule chl_kget_bind [where x = N]) (use assms in \<open>auto intro: chl_kfor\<close>)

lemma idle_n: "idle st n blk V K R s \<Longrightarrow> lh_n s = n"
  unfolding idle_def using vars by blast

lemma write_log_law:
  assumes T: "txn st N blk R" and n: "n = int N" and C: "\<And>i. i \<le> N \<Longrightarrow> C (copied st blk V i K)"
  shows "chl act blocks (N * 3) (idle st n blk V K R) write_log
    (\<lambda>_. idle st n blk (copied st blk V N V) (copied st blk V N K) R) C"
proof -
  note t = txnD [OF T]
  let ?P = "\<lambda>i. idle st n blk (copied st blk V i V) (copied st blk V i K) R"
  have "chl act blocks (N * 3) (?P 0) write_log (\<lambda>_. ?P N) C"
    unfolding write_log_def
  proof (rule for_log_law [where n = n])
    show "nat n = N" using n by simp
    show "?P 0 s \<Longrightarrow> lh_n s = n" for s by (rule idle_n)
    fix i
    assume i: "i < N"
    have away: "copied st blk V i V (blk i) = V (blk i)"
      by (rule copied_other) (use i txn_apart [OF T] in \<open>meson less_trans\<close>)
    have "blk i \<noteq> copy_at st i" by (rule txn_apart [OF T i i])
    then show "chl act blocks 3 (?P i)
     (kbind (bread_log (\<lambda>st. st + of_nat i + 1)) (\<lambda>tb.
      kbind (kget (\<lambda>s. (fl_dev s, lh_block s i))) (\<lambda>(d, bn).
      kbind (bread d bn) (\<lambda>fb. kseq
       [ kbind (buf_data fb) (\<lambda>bs. buf_update tb (\<lambda>_. bs)), bwrite tb, brelse fb, brelse tb ]))))
     (\<lambda>_. ?P (Suc i)) C"
      using write_step [of C "copied st blk V i K" blk i "blk i" st "copy_at st i" R n "copied st blk V i V"]
        C [of i] i t by (simp add: away)
  qed
  then show ?thesis by simp
qed

lemma install_law:
  assumes T: "txn st N blk R" and n: "n = int N" and C: "\<And>i. i \<le> N \<Longrightarrow> C (install st blk i K)"
    and copy: "\<And>i. i < N \<Longrightarrow> V (copy_at st i) = V (blk i) \<and> K (copy_at st i) = V (blk i)"
  shows "chl act blocks (N * 3) (idle st n blk V K R) (install_trans False)
    (\<lambda>_. idle st n blk V (install st blk N K) (dropped blk N R)) C"
proof -
  note t = txnD [OF T]
  let ?P = "\<lambda>i. idle st n blk V (install st blk i K) (dropped blk i R)"
  have "chl act blocks (N * 3) (?P 0) (install_trans False) (\<lambda>_. ?P N) C"
    unfolding install_trans_def
  proof (rule for_log_law [where n = n])
    show "nat n = N" using n by simp
    show "?P 0 s \<Longrightarrow> lh_n s = n" for s by (rule idle_n)
    fix i
    assume i: "i < N"
    have keep: "install st blk i K (copy_at st i) = K (copy_at st i)"
      by (rule install_other) (use i txn_apart [OF T] in \<open>meson less_trans\<close>)
    have ne: "blk i \<noteq> copy_at st i" by (rule txn_apart [OF T i i])
    have "dropped blk i R (blk i) = R (blk i)"
      by (rule dropped_other) (use i t(3) in \<open>auto simp: inj_on_def\<close>)
    moreover have "dropped blk i R m + 1 < 2 ^ 32" for m
      using dropped_le [of blk i R m] t(7) [of m] by simp
    ultimately show "chl act blocks 3 (?P i) (kseq
     [ if False then kbind (kget (\<lambda>s. lh_block s i)) (\<lambda>d.
         printf (ln ''recovering tail %d dst %d'') [va_nat i, va_u32 d]) else kret (),
       kbind (bread_log (\<lambda>st. st + of_nat i + 1)) (\<lambda>lbuf.
       kbind (kget (\<lambda>s. (fl_dev s, lh_block s i))) (\<lambda>(d, bn).
       kbind (bread d bn) (\<lambda>dbuf. kseq
         [ kbind (buf_data lbuf) (\<lambda>bs. buf_update dbuf (\<lambda>_. bs)),
           bwrite dbuf,
           if \<not> False then bunpin dbuf else kret (),
           brelse lbuf,
           brelse dbuf ]))) ]) (\<lambda>_. ?P (Suc i)) C"
      using install_step [of C "install st blk i K" blk i "blk i" st "copy_at st i" False "dropped blk i R" V n]
        C [of i] i t few_refs [OF t(8)] copy [OF i] ne by (simp add: keep fun_upd_idem del: kseq.simps)
  qed
  then show ?thesis by simp
qed

section \<open>Commit\<close>

definition committed :: "u32 \<Rightarrow> (nat \<Rightarrow> u32) \<Rightarrow> (u32 \<Rightarrow> u8 list) \<Rightarrow> (u32 \<Rightarrow> nat) \<Rightarrow> 'a dev_state_scheme \<Rightarrow> bool" where
  "committed st blk V R s \<longleftrightarrow> (\<exists>V' K'. idle st 0 blk V' K' R s \<and> (\<forall>n. home st n \<longrightarrow> K' n = V n \<and> V' n = V n) \<and>
     V' st = K' st \<and> length (K' st) = BSIZE \<and> hd_count (K' st) = 0)"

lemma clear_law:
  "chl act blocks 0 (idle st n blk V K R) (kmod (\<lambda>s. s\<lparr>lh_n := 0\<rparr>)) (\<lambda>_. idle st 0 blk V K R) C"
proof (rule chl_pure)
  fix s e
  assume "idle st n blk V K R s"
  then obtain a where "rel a s" "vw a = V" "dk a = K" "rf a = R" "hl a = {}" "fr a = {}" "st_start a = st" "st_blk a = blk"
    unfolding idle_def by blast
  then have "idle st 0 blk V K R (s\<lparr>lh_n := 0\<rparr>)"
    by (intro idleI [OF set_n [where m = 0]]) simp_all
  then show "\<exists>t. kmod (\<lambda>s. s\<lparr>lh_n := 0\<rparr>) (s, e) = Ok () (t, e) \<and> idle st 0 blk V K R t" by simp
qed

lemma commit_law:
  fixes V K :: "u32 \<Rightarrow> u8 list"
  assumes T: "txn st N blk R" and n: "n = int N" and K: "length (K st) = BSIZE" "hd_count (K st) = 0" and st: "V st = K st"
    and rest: "\<And>n. home st n \<Longrightarrow> (\<forall>i < N. n \<noteq> blk i) \<Longrightarrow> V n = K n"
  shows "chl act blocks (6 * N + 4) (idle st n blk V K R) commit (\<lambda>_. committed st blk V (dropped blk N R)) (atomic st K V)"
proof -
  note t = txnD [OF T]
  let ?C = "atomic st K V"
  let ?V1 = "copied st blk V N V" and ?K1 = "copied st blk V N K"
  let ?h = "header N blk (?V1 st)"
  let ?V2 = "?V1(st := ?h)" and ?K2 = "?K1(st := ?h)"
  let ?K3 = "install st blk N ?K2" and ?R = "dropped blk N R"
  let ?clr = "header 0 blk (?V2 st)"
  have size: "4 + 4 * N \<le> BSIZE" and "N < 2 ^ 31" using t(2) by (simp_all add: BSIZE_def LOGBLOCKS_def MAXOPBLOCKS_def)
  have st_area: "st \<in> log_area st" by (simp add: log_area_def)
  have away: "copied st blk V N F m = F m" if "m \<notin> log_area st \<or> m = st" for F m
    by (rule copied_other) (use that copy_at_area(2,3) [OF t(1)] t(2) in \<open>metis order_less_le_trans\<close>)
  have V1: "length (?V1 st) = BSIZE" using away [of st V] st K(1) by simp
  note h = header_read [where n = N and bs = "?V1 st" and blk = blk, unfolded V1, OF size \<open>N < 2 ^ 31\<close>]
  have copy: "?V1 (copy_at st i) = V (blk i)" "?K1 (copy_at st i) = V (blk i)" "copy_at st i \<noteq> st" "?V1 (blk i) = V (blk i)"
    "blk i \<noteq> st" if "i < N" for i
    using copied_copy [OF t(1,2) that] copy_at_area(3) [OF t(1), of i] that t(2) away [of "blk i" V] t(5) [OF that] st_area
    by auto
  have after: "atomic st K V (install st blk i ?K2)" "home st n \<Longrightarrow> ?K3 n = V n" if "i \<le> N" for i n
    by (rule atomic_after [OF T, where i = i];
        use that h copy away [of _ K] rest st_area in \<open>auto simp: home_def\<close>)+
  have K3: "?K3 st = ?h"
    by (subst install_other) (use copy(5) in auto)
  have h0: "length ?clr = BSIZE" "hd_count ?clr = 0"
    using header_read [where n = 0 and bs = "?h" and blk = blk] h(1) by (simp_all add: BSIZE_def)
  have before: "atomic st K V (copied st blk V i K)" if "i \<le> N" for i
    by (rule atomic_before) (use T K that in auto)
  have p1: "chl act blocks (N * 3) (idle st n blk V K R) write_log (\<lambda>_. idle st n blk ?V1 ?K1 R) ?C"
    by (rule write_log_law [OF T n]) (rule before)
  have p2: "chl act blocks 2 (idle st n blk ?V1 ?K1 R) write_head (\<lambda>_. idle st n blk ?V2 ?K2 R) ?C"
    by (rule write_head_law) (use t n before [of N] in simp_all)
  have p3: "chl act blocks (N * 3) (idle st n blk ?V2 ?K2 R) (install_trans False) (\<lambda>_. idle st n blk ?V2 ?K3 ?R) ?C"
    by (rule install_law [OF T n]) (use after copy in simp_all)
  have p5: "chl act blocks 2 (idle st 0 blk ?V2 ?K3 ?R) write_head
      (\<lambda>_. idle st 0 blk (?V2(st := ?clr)) (?K3(st := ?clr)) ?R) ?C"
    by (rule write_head_law) (use t after few_refs [OF t(8)] dropped_le [of blk N R st] in \<open>auto intro: le_less_trans\<close>)
  have "idle st 0 blk (?V2(st := ?clr)) (?K3(st := ?clr)) ?R s \<Longrightarrow> committed st blk V ?R s" for s
    unfolding committed_def
    by (rule exI [of _ "?V2(st := ?clr)"], rule exI [of _ "?K3(st := ?clr)"])
      (use after(2) [of N] away [of _ V] h0 st_area in \<open>auto simp: home_def\<close>)
  then have p6: "chl act blocks 0 (idle st 0 blk (?V2(st := ?clr)) (?K3(st := ?clr)) ?R) (kseq []) (\<lambda>_. committed st blk V ?R) ?C"
    by (intro chl_run) (auto simp: kseq_run)
  have all: "chl act blocks (N * 3 + (2 + (N * 3 + (0 + (2 + 0))))) (idle st n blk V K R)
      (kseq [write_log, write_head, install_trans False, kmod (\<lambda>s. s\<lparr>lh_n := 0\<rparr>), write_head]) (\<lambda>_. committed st blk V ?R) ?C"
    by (rule chl_kseq_Cons p1 p2 p3 clear_law p5 p6)+
  show ?thesis
  proof (cases "N = 0")
    case True
    have "idle st n blk V K R s \<Longrightarrow> committed st blk V ?R s" for s
      unfolding committed_def using True K st rest n
      by (intro exI [of _ V] exI [of _ K]) auto
    then have "chl act blocks 0 (idle st n blk V K R) commit (\<lambda>_. committed st blk V ?R) ?C"
      using True n idle_n by (intro chl_run) (auto simp: commit_def)
    then show ?thesis by (rule chl_conseq) simp_all
  next
    case False
    have "chl act blocks (N * 3 + (2 + (N * 3 + (0 + (2 + 0))))) (idle st n blk V K R) commit (\<lambda>_. committed st blk V ?R) ?C"
      unfolding commit_def by (rule chl_kwhen [where v = True]) (use False n idle_n all in auto)
    moreover have "N * 3 + (2 + (N * 3 + (0 + (2 + 0)))) = 6 * N + 4" by simp
    ultimately show ?thesis by (simp only:)
  qed
qed

section \<open>Recovery\<close>

lemma read_head_law:
  assumes C: "C K" and st: "blk_ok st" "K st = V st" and R: "R st + 1 < 2 ^ 32" "card {m. 0 < R m} < NBUF"
    and cnt: "hd_count (V st) = N" "N \<le> LOGBLOCKS"
  shows "chl act blocks 1 (idle st n blk V K R) read_head
    (\<lambda>_ s. \<exists>blk'. idle st (sint (get32 0 (V st))) blk' V K R s \<and> (\<forall>i < N. blk' i = hd_block (V st) i)) C"
proof (rule chl_idle)
  fix a :: store
  assume a: "vw a = V" "dk a = K" "rf a = R" "hl a = {}" "fr a = {}" "st_start a = st" "st_n a = n" "st_blk a = blk"
  let ?n = "sint (get32 0 (V st))"
  let ?Q = "\<lambda>s. \<exists>blk'. idle st ?n blk' V K R s \<and> (\<forall>i < N. blk' i = hd_block (V st) i)"
  have N: "nat ?n = N" using cnt(1) by (simp add: hd_count_def)
  have rest: "chl act blocks 0 (rel (got st b a))
      (kseq
     [ kbind (buf_data b) (\<lambda>bs. kthen
         (kmod (\<lambda>s. s\<lparr>lh_n := sint (get32 0 bs)\<rparr>))
         (kif (\<lambda>s. int LOGBLOCKS < lh_n s) kundef
           (for_log (\<lambda>i. kmod (set_lh_block i (get32 (4 + 4 * i) bs)))))),
       brelse b ]) (\<lambda>_. ?Q) C" for b
  proof -
    let ?a1 = "got st b a"
    define e where "e i = (?a1\<lparr>st_n := ?n, st_blk := (\<lambda>j. if j < i then hd_block (V st) j else blk j)\<rparr>)" for i
    have got: "st \<in> hl ?a1" "fr ?a1 = {}" "slot ?a1 st = b" "st_blk ?a1 = blk" "vw ?a1 st = V st"
      using a by (simp_all add: got_def)
    have set: "chl act blocks 0 (rel ?a1) (kmod (\<lambda>s. s\<lparr>lh_n := ?n\<rparr>)) (\<lambda>_. rel (e 0)) C"
    proof (rule chl_pure)
      fix s w
      assume "rel ?a1 s"
      then have "rel (?a1\<lparr>st_n := ?n\<rparr>) (s\<lparr>lh_n := ?n\<rparr>)" by (rule set_n)
      moreover have "?a1\<lparr>st_n := ?n\<rparr> = e 0" using got(4) by (simp add: e_def)
      ultimately show "\<exists>t. kmod (\<lambda>s. s\<lparr>lh_n := ?n\<rparr>) (s, w) = Ok () (t, w) \<and> rel (e 0) t" by simp
    qed
    have ee: "st_n (e i) = ?n" for i by (simp add: e_def)
    have step: "chl act blocks 0 (rel (e i)) (kmod (set_lh_block i (get32 (4 + 4 * i) (V st)))) (\<lambda>_. rel (e (Suc i))) C" for i
    proof (rule chl_pure)
      fix s w
      assume "rel (e i) s"
      then have "rel ((e i)\<lparr>st_blk := (st_blk (e i))(i := hd_block (V st) i)\<rparr>) (set_lh_block i (hd_block (V st) i) s)"
        by (rule set_blk)
      moreover have "(e i)\<lparr>st_blk := (st_blk (e i))(i := hd_block (V st) i)\<rparr> = e (Suc i)"
        by (auto simp: e_def fun_eq_iff less_Suc_eq intro!: arg_cong [where f = "\<lambda>f. st_blk_update (\<lambda>_. f) _"])
      ultimately show "\<exists>t. kmod (set_lh_block i (get32 (4 + 4 * i) (V st))) (s, w) = Ok () (t, w) \<and> rel (e (Suc i)) t"
        by (simp add: hd_block_def)
    qed
    have loop: "chl act blocks 0 (rel (e 0)) (kif (\<lambda>s. int LOGBLOCKS < lh_n s) kundef
           (for_log (\<lambda>i. kmod (set_lh_block i (get32 (4 + 4 * i) (V st)))))) (\<lambda>_. rel (e N)) C"
    proof (rule chl_kif [where v = False])
      show "(int LOGBLOCKS < lh_n s) = False" if "rel (e 0) s" for s
        using vars [OF that] cnt(2) N ee by auto
      have "chl act blocks (N * 0) (rel (e 0)) (for_log (\<lambda>i. kmod (set_lh_block i (get32 (4 + 4 * i) (V st))))) (\<lambda>_. rel (e N)) C"
      proof (rule for_log_law [where n = ?n])
        show "nat ?n = N" by (rule N)
        show "lh_n s = ?n" if "rel (e 0) s" for s using vars [OF that] ee by simp
      qed (rule step)
      then show "chl act blocks 0 (rel (e 0)) (if False then kundef else
           for_log (\<lambda>i. kmod (set_lh_block i (get32 (4 + 4 * i) (V st))))) (\<lambda>_. rel (e N)) C" by simp
    qed
    have read: "chl act blocks 0 (rel ?a1) (kbind (buf_data b) (\<lambda>bs. kthen
         (kmod (\<lambda>s. s\<lparr>lh_n := sint (get32 0 bs)\<rparr>))
         (kif (\<lambda>s. int LOGBLOCKS < lh_n s) kundef
           (for_log (\<lambda>i. kmod (set_lh_block i (get32 (4 + 4 * i) bs))))))) (\<lambda>_. rel (e N)) C"
    proof (rule data_law [OF got(1,2,3)])
      have "chl act blocks (0 + 0) (rel ?a1) (kthen (kmod (\<lambda>s. s\<lparr>lh_n := ?n\<rparr>))
         (kif (\<lambda>s. int LOGBLOCKS < lh_n s) kundef
           (for_log (\<lambda>i. kmod (set_lh_block i (get32 (4 + 4 * i) (V st))))))) (\<lambda>_. rel (e N)) C"
        using set loop by (rule chl_kthen)
      then show "chl act blocks 0 (rel ?a1) (kthen (kmod (\<lambda>s. s\<lparr>lh_n := sint (get32 0 (vw ?a1 st))\<rparr>))
         (kif (\<lambda>s. int LOGBLOCKS < lh_n s) kundef
           (for_log (\<lambda>i. kmod (set_lh_block i (get32 (4 + 4 * i) (vw ?a1 st))))))) (\<lambda>_. rel (e N)) C"
        using got(5) by simp
    qed
    have eN: "hl (e N) = {st}" "fr (e N) = {}" "slot (e N) st = b" "rf (e N) = R(st := R st + 1)" "vw (e N) = V" "dk (e N) = K"
      using a by (simp_all add: e_def got_def)
    have rls: "chl act blocks 0 (rel (e N)) (brelse b) (\<lambda>_. rel (given st (e N))) C"
      by (rule release_law) (use eN st(2) in auto)
    have "rel (given st (e N)) s \<Longrightarrow> idle st ?n (\<lambda>j. if j < N then hd_block (V st) j else blk j) V K R s" for s
      by (rule idleI [where a = "given st (e N)"], assumption) (use a in \<open>simp_all add: given_def e_def got_def\<close>)
    then have fin: "chl act blocks 0 (rel (given st (e N))) (kseq []) (\<lambda>_. ?Q) C"
      by (intro chl_run) (fastforce simp: kseq_run)
    have "chl act blocks (0 + (0 + 0)) (rel ?a1) (kseq
     [ kbind (buf_data b) (\<lambda>bs. kthen
         (kmod (\<lambda>s. s\<lparr>lh_n := sint (get32 0 bs)\<rparr>))
         (kif (\<lambda>s. int LOGBLOCKS < lh_n s) kundef
           (for_log (\<lambda>i. kmod (set_lh_block i (get32 (4 + 4 * i) bs)))))),
       brelse b ]) (\<lambda>_. ?Q) C"
      by (rule chl_kseq_Cons read rls fin)+
    then show ?thesis by simp
  qed
  have "chl act blocks 1 (rel a) (bread_log (\<lambda>st. st)) (\<lambda>b. rel (got st b a)) C"
    using read_log_law [of a st "\<lambda>st. st" C] a st R C by (simp add: room_def)
  then have "chl act blocks (1 + 0) (rel a) read_head (\<lambda>_. ?Q) C"
    unfolding read_head_def using rest by (rule chl_kbind)
  then show "chl act blocks 1 (rel a) read_head (\<lambda>_. ?Q) C" by simp
qed

lemma recover_install_law:
  assumes st: "unat st + LOGBLOCKS < 2 ^ 31" and N: "nat n = N" "N \<le> LOGBLOCKS" and tg: "\<And>i. i < N \<Longrightarrow> home st (blk i)"
    and V: "\<And>m. blk_ok m \<Longrightarrow> V m = K m" and C: "\<And>i. i \<le> N \<Longrightarrow> C (install st blk i K)"
  shows "chl act blocks (N * 3) (idle st n blk V K (\<lambda>_. 0)) (install_trans True)
    (\<lambda>_. idle st n blk (install st blk N V) (install st blk N K) (\<lambda>_. 0)) C"
proof -
  let ?P = "\<lambda>i. idle st n blk (install st blk i V) (install st blk i K) (\<lambda>_. 0)"
  have "chl act blocks (N * 3) (?P 0) (install_trans True) (\<lambda>_. ?P N) C"
    unfolding install_trans_def
  proof (rule for_log_law [OF N(1)])
    show "?P 0 s \<Longrightarrow> lh_n s = n" for s by (rule idle_n)
    fix i
    assume i: "i < N"
    then have "i < LOGBLOCKS" using N(2) by simp
    note at = copy_at_area [OF st this]
    have apart: "blk j \<noteq> copy_at st i" if "j < N" for j
      using tg [OF that] at(2) by (auto simp: home_def)
    have keep: "install st blk i F (copy_at st i) = F (copy_at st i)" for F
      by (rule install_other) (use i apart in \<open>meson less_trans\<close>)
    have "blk_ok (copy_at st i)" using at(1) st \<open>i < LOGBLOCKS\<close> by (simp add: blk_ok_def)
    then show "chl act blocks 3 (?P i) (kseq
     [ if True then kbind (kget (\<lambda>s. lh_block s i)) (\<lambda>d.
         printf (ln ''recovering tail %d dst %d'') [va_nat i, va_u32 d]) else kret (),
       kbind (bread_log (\<lambda>st. st + of_nat i + 1)) (\<lambda>lbuf.
       kbind (kget (\<lambda>s. (fl_dev s, lh_block s i))) (\<lambda>(d, bn).
       kbind (bread d bn) (\<lambda>dbuf. kseq
         [ kbind (buf_data lbuf) (\<lambda>bs. buf_update dbuf (\<lambda>_. bs)),
           bwrite dbuf,
           if \<not> True then bunpin dbuf else kret (),
           brelse lbuf,
           brelse dbuf ]))) ]) (\<lambda>_. ?P (Suc i)) C"
      using install_step [of C "install st blk i K" blk i "blk i" st "copy_at st i" True "\<lambda>_. 0" "install st blk i V" n]
        C [of i] i tg [OF i] apart [OF i] V
      by (simp add: keep home_def NBUF_def MAXOPBLOCKS_def del: kseq.simps)
  qed
  then show ?thesis by simp
qed

text \<open>Recovery installs what the header on the disk describes, and clears it.\<close>

lemma recover_law:
  fixes V K :: "u32 \<Rightarrow> u8 list"
  assumes st: "unat st + LOGBLOCKS < 2 ^ 31" and K: "log_ok st K" and V: "\<And>m. blk_ok m \<Longrightarrow> V m = K m"
  shows "chl act blocks (3 * hd_count (K st) + 3) (idle st n blk V K (\<lambda>_. 0)) recover_from_log
    (\<lambda>_ s. \<exists>blk. committed st blk (replay st K) (\<lambda>_. 0) s) (atomic st (replay st K) (replay st K))"
proof -
  let ?N = "hd_count (K st)" and ?n = "sint (get32 0 (K st))" and ?C = "atomic st (replay st K) (replay st K)"
  have ok: "blk_ok st" using st by (simp add: blk_ok_def)
  have N: "nat ?n = ?N" "?N \<le> LOGBLOCKS" and len: "length (K st) = BSIZE"
    using K by (simp_all add: hd_count_def log_ok_def)
  have tg: "home st (hd_block (K st) i)" if "i < ?N" for i
    using K that by (simp add: log_ok_def home_def blk_ok_def)
  have st_area: "st \<in> log_area st" by (simp add: log_area_def)
  have keep: "install st blk' i F st = F st" if "\<And>i. i < ?N \<Longrightarrow> blk' i = hd_block (K st) i" "i \<le> ?N" for blk' i F
  proof (rule install_other, intro allI impI)
    fix j
    assume "j < i"
    then have "j < ?N" using that(2) by simp
    then have "blk' j \<notin> log_area st" using that(1) tg by (simp add: home_def)
    then show "blk' j \<noteq> st" using st_area by auto
  qed
  have C: "?C (install st blk' i K)" if b: "\<And>i. i < ?N \<Longrightarrow> blk' i = hd_block (K st) i" and i: "i \<le> ?N" for blk' i
  proof -
    have k: "install st blk' i K st = K st" by (rule keep) (use b i in auto)
    have "replay st (install st blk' i K) m = replay st K m" for m
    proof -
      have "replay st (install st blk' i K) m = install st blk' ?N (install st blk' i K) m"
        unfolding replay_def k by (rule install_cong) (use b in auto)
      also have "\<dots> = install st blk' ?N K m"
        by (rule install_twice [OF st N(2) i]) (use b tg in \<open>simp add: home_def\<close>)
      also have "\<dots> = replay st K m"
        unfolding replay_def by (rule install_cong) (use b in auto)
      finally show ?thesis .
    qed
    moreover have "log_ok st (install st blk' i K)" using K by (simp add: log_ok_def k)
    ultimately show ?thesis by (simp add: atomic_def)
  qed
  have C0: "?C K" using C [of "hd_block (K st)" 0] by simp
  let ?I = "\<lambda>blk' F. install st blk' ?N F"
  have p1: "chl act blocks 1 (idle st n blk V K (\<lambda>_. 0)) read_head
      (\<lambda>_ s. \<exists>blk'. idle st ?n blk' V K (\<lambda>_. 0) s \<and> (\<forall>i < ?N. blk' i = hd_block (K st) i)) ?C"
    using read_head_law [of ?C K st V "\<lambda>_. 0" ?N n blk] C0 ok V [OF ok] N(2)
    by (simp add: NBUF_def MAXOPBLOCKS_def)
  have "chl act blocks (?N * 3 + (0 + (2 + 0))) (idle st ?n blk' V K (\<lambda>_. 0))
      (kseq [install_trans True, kmod (\<lambda>s. s\<lparr>lh_n := 0\<rparr>), write_head])
      (\<lambda>_ s. \<exists>blk. committed st blk (replay st K) (\<lambda>_. 0) s) ?C" if b: "\<And>i. i < ?N \<Longrightarrow> blk' i = hd_block (K st) i" for blk'
  proof -
    let ?V = "?I blk' V" and ?K = "?I blk' K"
    let ?h = "header 0 blk' (?V st)"
    have VK: "?V m = ?K m" if "blk_ok m" for m
    proof (rule install_cong)
      fix i
      assume "i < ?N"
      then have "i < LOGBLOCKS" using N(2) by simp
      then have "blk_ok (copy_at st i)" using copy_at_area(1) [OF st] st by (simp add: blk_ok_def)
      then show "blk' i = blk' i \<and> V (copy_at st i) = K (copy_at st i)" using V by simp
    qed (use V that in simp)
    have q1: "chl act blocks (?N * 3) (idle st ?n blk' V K (\<lambda>_. 0)) (install_trans True) (\<lambda>_. idle st ?n blk' ?V ?K (\<lambda>_. 0)) ?C"
      by (rule recover_install_law [OF st N]) (use b tg V C in simp_all)
    have q3: "chl act blocks 2 (idle st 0 blk' ?V ?K (\<lambda>_. 0)) write_head
        (\<lambda>_. idle st 0 blk' (?V(st := ?h)) (?K(st := ?h)) (\<lambda>_. 0)) ?C"
      by (rule write_head_law) (use ok C [OF b order_refl] in \<open>simp_all add: NBUF_def MAXOPBLOCKS_def\<close>)
    have "length (?V st) = BSIZE" using keep [OF b order_refl, of V] V [OF ok] len by simp
    then have h: "length ?h = BSIZE" "hd_count ?h = 0"
      using header_read [where n = 0 and bs = "?V st" and blk = blk'] by (simp_all add: BSIZE_def)
    have new: "?K m = replay st K m" for m
      unfolding replay_def by (rule install_cong) (use b in auto)
    have "committed st blk' (replay st K) (\<lambda>_. 0) s" if "idle st 0 blk' (?V(st := ?h)) (?K(st := ?h)) (\<lambda>_. 0) s" for s
      unfolding committed_def using that h st_area VK new
      by (intro exI [of _ "?V(st := ?h)"] exI [of _ "?K(st := ?h)"]) (auto simp: home_def)
    then have q4: "chl act blocks 0 (idle st 0 blk' (?V(st := ?h)) (?K(st := ?h)) (\<lambda>_. 0)) (kseq [])
        (\<lambda>_ s. \<exists>blk. committed st blk (replay st K) (\<lambda>_. 0) s) ?C"
      by (intro chl_run) (auto simp: kseq_run)
    show ?thesis
      by (rule chl_kseq_Cons q1 clear_law q3 q4)+
  qed
  then have p2: "chl act blocks (?N * 3 + (0 + (2 + 0)))
      (\<lambda>s. \<exists>blk'. idle st ?n blk' V K (\<lambda>_. 0) s \<and> (\<forall>i < ?N. blk' i = hd_block (K st) i))
      (kseq [install_trans True, kmod (\<lambda>s. s\<lparr>lh_n := 0\<rparr>), write_head])
      (\<lambda>_ s. \<exists>blk. committed st blk (replay st K) (\<lambda>_. 0) s) ?C"
    unfolding chl_def by blast
  have "chl act blocks (1 + (?N * 3 + (0 + (2 + 0)))) (idle st n blk V K (\<lambda>_. 0)) recover_from_log
      (\<lambda>_ s. \<exists>blk. committed st blk (replay st K) (\<lambda>_. 0) s) ?C"
    unfolding recover_from_log_def using p1 p2 by (rule chl_kseq_Cons)
  moreover have "1 + (?N * 3 + (0 + (2 + 0))) = 3 * ?N + 3" by simp
  ultimately show ?thesis by (simp only:)
qed

end

end
