(* ===== verification/Crash.thy ===== *)
theory Crash
  imports Commit
begin

text \<open>
  The file system's log on the real buffer cache, driver and device: what a power failure at
  any moment of a commit or of a recovery leaves behind, and what recovery makes of it.
\<close>

section \<open>The cache keeps the contract of the log\<close>

lemma chl_fact:
  "(A \<Longrightarrow> chl act disk c P m Q C) \<Longrightarrow> (\<And>x. A \<Longrightarrow> B x) \<Longrightarrow> chl act disk c (\<lambda>s. A \<and> P s) m (\<lambda>x s. B x \<and> Q x s) C"
  unfolding chl_def by (cases A) auto

lemma store_log_vars [simp]:
  "st_out (got n b a) = st_out a" "st_out (edited n g a) = st_out a" "st_out (flushed n a) = st_out a"
  "st_out (given n a) = st_out a" "st_out (unpinned n a) = st_out a"
  "st_com (got n b a) = st_com a" "st_com (edited n g a) = st_com a" "st_com (flushed n a) = st_com a"
  "st_com (given n a) = st_com a" "st_com (unpinned n a) = st_com a"
  by (simp_all add: got_def edited_def flushed_def given_def unpinned_def)

lemma calm_log_upd [simp]:
  "calm p k (s\<lparr>lh_n := n\<rparr>) = calm p k s" "calm p k (s\<lparr>lh_block := f\<rparr>) = calm p k s"
  by (simp_all add: calm_def pr_ready_def tty_ok_def)

lemma cache_set_n: "cache_rel p k D a s \<Longrightarrow> cache_rel p k D (a\<lparr>st_n := n\<rparr>) (s\<lparr>lh_n := n\<rparr>)"
proof -
  assume rel: "cache_rel p k D a s"
  let ?a = "a\<lparr>st_n := n\<rparr>" and ?s = "s\<lparr>lh_n := n\<rparr>"
  have "buf_rel p k D ?a ?s b = buf_rel p k D a s b" for b
    by (rule buf_rel_cong) simp_all
  moreover have "blocks ?s = blocks s" by (rule blocks_cong) simp
  ultimately show ?thesis using rel by (simp add: cache_rel_def log_vars_def)
qed

lemma cache_set_blk: "cache_rel p k D a s \<Longrightarrow> cache_rel p k D (a\<lparr>st_blk := (st_blk a)(i := v)\<rparr>) (set_lh_block i v s)"
proof -
  assume rel: "cache_rel p k D a s"
  let ?a = "a\<lparr>st_blk := (st_blk a)(i := v)\<rparr>" and ?s = "s\<lparr>lh_block := (lh_block s)(i := v)\<rparr>"
  have "buf_rel p k D ?a ?s b = buf_rel p k D a s b" for b
    by (rule buf_rel_cong) simp_all
  moreover have "blocks ?s = blocks s" by (rule blocks_cong) simp
  ultimately show ?thesis using rel by (simp add: cache_rel_def log_vars_def set_lh_block_def)
qed

lemma printed_keeps:
  fixes s :: "'a dev_state_scheme"
  shows "bufs (printed txt s) = bufs s" "sleeplocks (printed txt s) = sleeplocks s" "platter (printed txt s) = platter s"
    "log_vars (printed txt s) = log_vars s" "vd_free (printed txt s) = vd_free s"
    "vd_used_idx (printed txt s) = vd_used_idx s" "dev_used_idx (printed txt s) = dev_used_idx s"
    "noff (cpus (printed txt s) c) = noff (cpus s c)" "curproc (printed txt s) = curproc s" "hart_ok (printed txt s) = hart_ok s"
    "lock_free (printed txt s) lk = lock_free s lk"
  by (simp_all add: printed_def unpanicked_settled_def tty_put_def log_vars_def curproc_def hart_ok_def lock_free_def hart_def
      intr_enabled_def)

lemma cache_print:
  assumes rel: "cache_rel p k D a s" and "printable fmt ap"
  shows "\<exists>t. printf fmt ap (s, e) = Ok () (t, e) \<and> cache_rel p k D a t"
proof -
  note c = calmD [OF cache_relD(1) [OF rel]]
  have "cache_rel p k D a (printed (fmt_text fmt ap) s) = cache_rel p k D a s"
    by (rule cache_rel_cong) (simp_all add: printed_keeps calm_def)
  then show ?thesis
    using printf_run [OF assms(2) c(7)] rel by blast
qed

lemma cache_vars: "cache_rel p k D a s \<Longrightarrow> fl_dev s = D \<and> fl_start s = st_start a \<and> lh_n s = st_n a \<and> lh_block s = st_blk a"
  using cache_relD(10) [of p k D a s] by (simp add: log_vars_def)

text \<open>The cache with the counters of the log, which none of its operations touches.\<close>

abbreviation disk_store :: "('a dev_state_scheme \<Rightarrow> 'a dev_state_scheme) \<Rightarrow> nat \<Rightarrow> int \<Rightarrow> u32 \<Rightarrow> int \<Rightarrow> bool \<Rightarrow> store \<Rightarrow>
    'a dev_state_scheme \<Rightarrow> bool" where
  "disk_store dev p k D out com a s \<equiv> (virtio_device dev \<and> st_out a = out \<and> st_com a = com) \<and> cache_rel p k D a s"

interpretation cache_log: block_cache "disk_action dev p" "disk_store dev p k D out com" D
proof unfold_locales
  show "chl (disk_action dev p) blocks 1 (disk_store dev p k D out com a) (bread D n)
      (\<lambda>b. disk_store dev p k D out com (got n b a)) C"
    if "blk_ok n" "n \<notin> hl a" "fr a = {}" "rf a n + 1 < 2 ^ 32" "room n a" "C (dk a)" for n a C
    by (rule chl_fact, use that chl_bread in blast) simp
  show "chl (disk_action dev p) blocks 1 (disk_store dev p k D out com a) (bwrite b)
      (\<lambda>_. disk_store dev p k D out com (flushed n a)) C"
    if "n \<in> hl a" "fr a = {}" "slot a n = b" "C (dk a)" for n a b C
    by (rule chl_fact, use that chl_bwrite [of n a dev C p k D] in simp) simp
  show "chl (disk_action dev p) blocks c (disk_store dev p k D out com a) (kbind (buf_data b) f) Q C"
    if "n \<in> hl a" "fr a = {}" "slot a n = b"
      "chl (disk_action dev p) blocks c (disk_store dev p k D out com a) (f (vw a n)) Q C"
    for n a b c and f :: "u8 list \<Rightarrow> ('a dev_state_scheme, unit) kfun" and Q C
    unfolding buf_data_def
  proof (rule chl_kget_bind [where x = "vw a n"])
    show "bdata (bufs s b) = vw a n" if "disk_store dev p k D out com a s" for s
      using that \<open>n \<in> hl a\<close> \<open>fr a = {}\<close> \<open>slot a n = b\<close> held_buf(5) [of p k D a s n] by simp
  qed (rule that)
  show "chl (disk_action dev p) blocks 0 (disk_store dev p k D out com a) (buf_update b g)
      (\<lambda>_. disk_store dev p k D out com (edited n g a)) C"
    if "n \<in> hl a" "fr a = {}" "slot a n = b" for n a b g C
    by (rule chl_fact) (use that in \<open>auto intro!: chl_buf_update\<close>)
  show "chl (disk_action dev p) blocks 0 (disk_store dev p k D out com a) (brelse b)
      (\<lambda>_. disk_store dev p k D out com (given n a)) C"
    if "n \<in> hl a" "fr a = {}" "slot a n = b" "rf a n = 1 \<longrightarrow> vw a n = dk a n" for n a b C
    by (rule chl_fact) (use that in \<open>auto intro!: chl_brelse\<close>)
  show "chl (disk_action dev p) blocks 0 (disk_store dev p k D out com a) (bunpin b)
      (\<lambda>_. disk_store dev p k D out com (unpinned n a)) C"
    if "n \<in> hl a" "fr a = {}" "slot a n = b" "1 < rf a n" for n a b C
    by (rule chl_fact) (use that in \<open>auto intro!: chl_bunpin\<close>)
  show "disk_store dev p k D out com (a\<lparr>st_blk := (st_blk a)(i := v)\<rparr>) (set_lh_block i v s)"
    if "disk_store dev p k D out com a s" for a s i v
    using that by (simp add: cache_set_blk)
  show "\<exists>t. printf fmt ap (s, e) = Ok () (t, e) \<and> disk_store dev p k D out com a t"
    if "disk_store dev p k D out com a s" "printable fmt ap" for a s fmt ap e
    using that cache_print [of p k D a s fmt ap e] by simp
qed (use cache_relD(6) cache_vars cache_set_n in \<open>blast+\<close>, simp add: cache_set_n)

section \<open>Commit and recovery, cut by a power failure\<close>

text \<open>
  The kernel about to commit \<open>N\<close> blocks: no buffer locked, the header of the log on the disk
  empty, and the blocks of the transaction the only ones whose cached content is not on the
  disk yet.
\<close>

definition commit_ready :: "nat \<Rightarrow> int \<Rightarrow> u32 \<Rightarrow> store \<Rightarrow> nat \<Rightarrow> 'a dev_state_scheme \<Rightarrow> bool" where
  "commit_ready p k D a N s \<longleftrightarrow> cache_rel p k D a s \<and> hl a = {} \<and> fr a = {} \<and>
     txn (st_start a) N (st_blk a) (rf a) \<and> st_n a = int N \<and>
     length (blocks s (st_start a)) = BSIZE \<and> hd_count (blocks s (st_start a)) = 0 \<and>
     vw a (st_start a) = blocks s (st_start a) \<and>
     (\<forall>n. home (st_start a) n \<and> (\<forall>i < N. n \<noteq> st_blk a i) \<longrightarrow> vw a n = blocks s n)"

text \<open>After a reboot: nothing in the cache is in use; \<open>K\<close> is the disk.\<close>

definition booted :: "nat \<Rightarrow> int \<Rightarrow> u32 \<Rightarrow> u32 \<Rightarrow> (u32 \<Rightarrow> u8 list) \<Rightarrow> 'a dev_state_scheme \<Rightarrow> bool" where
  "booted p k D st K s \<longleftrightarrow> blocks s = K \<and>
     (\<exists>a. cache_rel p k D a s \<and> hl a = {} \<and> fr a = {} \<and> rf a = (\<lambda>_. 0) \<and> st_start a = st)"

text \<open>The disks that any number of recoveries, each cut by a power failure, may leave.\<close>

inductive failed_boots :: "('a dev_state_scheme \<Rightarrow> 'a dev_state_scheme) \<Rightarrow> u32 \<Rightarrow> u32 \<Rightarrow> (u32 \<Rightarrow> u8 list) \<Rightarrow>
    (u32 \<Rightarrow> u8 list) \<Rightarrow> bool" for dev D st K where
  no_boot: "failed_boots dev D st K K"
| failed_boot: "failed_boots dev D st K K' \<Longrightarrow> booted p k D st K' s \<Longrightarrow>
    recover_from_log (s, replicate j (disk_action dev p)) = Blocked (t, e) \<Longrightarrow> failed_boots dev D st K (blocks t)"

lemma chl_unitE:
  assumes "chl act disk c P m Q C" and "P s"
  obtains (returns) t i where "i \<le> c" "i \<le> j" "m (s, replicate j act) = Ok () (t, replicate (j - i) act)" "Q () t"
    | (cut) t where "j < c" "m (s, replicate j act) = Blocked (t, [])" "C (disk t)"
  by (rule chlE [OF assms, where j = j]) (use that in auto)

lemma recover_run:
  assumes dev: "virtio_device dev" and st: "unat st + LOGBLOCKS < 2 ^ 31" and K: "log_ok st K" and s: "booted p k D st K s"
  shows "(\<exists>t i. i \<le> j \<and> recover_from_log (s, replicate j (disk_action dev p)) = Ok () (t, replicate (j - i) (disk_action dev p)) \<and>
      (\<forall>n. home st n \<longrightarrow> blocks t n = replay st K n) \<and> hd_count (blocks t st) = 0) \<or>
    (j < 3 * LOGBLOCKS + 3 \<and> (\<exists>t. recover_from_log (s, replicate j (disk_action dev p)) = Blocked (t, []) \<and>
      log_ok st (blocks t) \<and> (\<forall>n. home st n \<longrightarrow> replay st (blocks t) n = replay st K n)))"
proof -
  obtain a where a: "cache_rel p k D a s" "hl a = {}" "fr a = {}" "rf a = (\<lambda>_. 0)" "st_start a = st" and K': "blocks s = K"
    using s unfolding booted_def by blast
  have V: "vw a m = K m" if "blk_ok m" for m
    using cache_relD(6,8) [OF a(1)] that a(4) K' by simp
  have idle: "cache_log.idle dev (st_out a) (st_com a) p k D st (st_n a) (st_blk a) (vw a) K (\<lambda>_. 0) s"
    by (rule cache_log.idleI [of dev a "st_out a" "st_com a" p k D]) (use dev a cache_relD(8) [OF a(1)] K' in simp_all)
  have few: "3 * hd_count (K st) + 3 \<le> 3 * LOGBLOCKS + 3" using K by (simp add: log_ok_def)
  have law: "chl (disk_action dev p) blocks (3 * hd_count (K st) + 3)
      (cache_log.idle dev (st_out a) (st_com a) p k D st (st_n a) (st_blk a) (vw a) K (\<lambda>_. 0)) recover_from_log
      (\<lambda>_ s. \<exists>blk. cache_log.committed dev (st_out a) (st_com a) p k D st blk (replay st K) (\<lambda>_. 0) s)
      (atomic st (replay st K) (replay st K))"
    by (rule cache_log.recover_law [OF st K]) (rule V)
  from law idle show ?thesis
  proof (cases rule: chl_unitE [where j = j])
    case (returns t i)
    then obtain blk where "cache_log.committed dev (st_out a) (st_com a) p k D st blk (replay st K) (\<lambda>_. 0) t" by blast
    then obtain V' K' where k: "cache_log.idle dev (st_out a) (st_com a) p k D st 0 blk V' K' (\<lambda>_. 0) t"
        "\<forall>n. home st n \<longrightarrow> K' n = replay st K n" "hd_count (K' st) = 0"
      unfolding cache_log.committed_def by blast
    moreover have "blocks t = K'"
      using k(1) unfolding cache_log.idle_def by (auto dest: cache_relD(8))
    ultimately show ?thesis using returns by blast
  next
    case (cut t)
    then show ?thesis using few by (auto simp: atomic_def)
  qed
qed

lemma failed_boots_keep:
  assumes dev: "virtio_device dev" and st: "unat st + LOGBLOCKS < 2 ^ 31" and K: "log_ok st K" and boots: "failed_boots dev D st K K'"
  shows "log_ok st K' \<and> (\<forall>n. home st n \<longrightarrow> replay st K' n = replay st K n)"
  using boots
proof (induction rule: failed_boots.induct)
  case no_boot
  then show ?case using K by simp
next
  case (failed_boot K' p k s j t e)
  then show ?case
    using recover_run [OF dev st _ failed_boot(2), of j] by auto
qed

section \<open>A kernel with one dirty block\<close>

text \<open>
  The log starts at block 2; block 100 is the one block of the transaction, in buffer 0, full
  of sevens; the disk is all zeros. After the reboot the buffers are as binit leaves them and
  the disk has a committed log: the header names block 100, the sevens are in block 3.
\<close>

definition zeros :: "u8 list" where "zeros = replicate BSIZE 0"

definition sevens :: "u8 list" where "sevens = replicate BSIZE 7"

definition sample_dev :: "(nat \<Rightarrow> buf) \<Rightarrow> int \<Rightarrow> (u64 \<Rightarrow> u8 list) \<Rightarrow> dev_state" where
  "sample_dev bs n pl = (log_state.extend (log_state.truncate sample_kernel) (dev_state.fields pl))
     \<lparr>bufs := bs, lh_n := n, lh_block := (\<lambda>_. 100)\<rparr>"

definition dirty_bufs :: "nat \<Rightarrow> buf" where
  "dirty_bufs = sample_bufs(0 := (sample_bufs 0)\<lparr>bvalid := True, bdev := 1, bblockno := 100, brefcnt := 1, bdata := sevens\<rparr>)"

definition dirty_kernel :: dev_state where
  "dirty_kernel = sample_dev dirty_bufs 1 (\<lambda>_. zeros)"

definition dirty_store :: store where
  "dirty_store = \<lparr>vw = (blocks dirty_kernel)(100 := sevens), dk = blocks dirty_kernel, rf = (\<lambda>_. 0)(100 := 1), hl = {},
     slot = (\<lambda>_. 0), fr = {}, st_start = 2, st_out = 0, st_com = False, st_n = 1, st_blk = (\<lambda>_. 100)\<rparr>"

definition sample_boot :: dev_state where
  "sample_boot = sample_dev sample_bufs 0 ((\<lambda>_. zeros)(sector_of 2 := header 1 (\<lambda>_. 100) zeros, sector_of 3 := sevens))"

definition boot_store :: store where
  "boot_store = \<lparr>vw = blocks sample_boot, dk = blocks sample_boot, rf = (\<lambda>_. 0), hl = {}, slot = (\<lambda>_. 0), fr = {},
     st_start = 2, st_out = 0, st_com = False, st_n = 0, st_blk = (\<lambda>_. 100)\<rparr>"

text \<open>A device that serves what is queued.\<close>

definition sample_device :: "dev_state \<Rightarrow> dev_state" where
  "sample_device s =
     (let i = unat (avail_ring s (unat (avail_idx s - 1) mod VQ_NUM))
      in case d_addr (vd_desc s (unat (d_next (vd_desc s i)))) of
           DmaData b \<Rightarrow> if queued s i b then served s i b else s
         | _ \<Rightarrow> s)"

lemma sample_device_ok: "virtio_device sample_device"
  unfolding virtio_device_def
proof (intro allI impI)
  fix s :: dev_state and i b
  assume q: "queued s i b"
  then have "unat (avail_ring s (unat (avail_idx s - 1) mod VQ_NUM)) = i"
    and "d_addr (vd_desc s (unat (d_next (vd_desc s i)))) = DmaData b"
    by (simp_all add: queued_def Let_def)
  then show "sample_device s = served s i b" using q by (simp add: sample_device_def)
qed

lemma sample_dev_simps [simp]:
  "bufs (sample_dev bs n pl) = bs" "platter (sample_dev bs n pl) = pl"
  "sleeplocks (sample_dev bs n pl) x = \<lparr>slocked = False, slname = [], slpid = 0\<rparr>"
  "fl_start (sample_dev bs n pl) = 2" "fl_outstanding (sample_dev bs n pl) = 0" "\<not> fl_committing (sample_dev bs n pl)"
  "fl_dev (sample_dev bs n pl) = 1" "lh_n (sample_dev bs n pl) = n" "lh_block (sample_dev bs n pl) = (\<lambda>_. 100)"
  by (simp_all add: sample_dev_def log_state.defs dev_state.defs sample_kernel_def)

lemma sample_dev_calm: "calm 2 7 (sample_dev bs n pl)"
proof -
  let ?s = "sample_dev bs n pl"
  have same: "csr ?s = csr sample_kernel" "gpr ?s = gpr sample_kernel" "cpus ?s = cpus sample_kernel"
    "locks ?s = locks sample_kernel" "procs ?s = procs sample_kernel" "uart_idle ?s = uart_idle sample_kernel"
    "panicked ?s = panicked sample_kernel" "panicking ?s = panicking sample_kernel" "uart_reg ?s = uart_reg sample_kernel"
    "vd_free ?s = (\<lambda>_. True)" "vd_used_idx ?s = 0" "dev_used_idx ?s = 0"
    by (simp_all add: sample_dev_def log_state.defs dev_state.defs sample_kernel_def)
  have "hart ?s = hart sample_kernel" "hart_ok ?s = hart_ok sample_kernel" "lock_free ?s lk = lock_free sample_kernel lk"
    "curproc ?s = curproc sample_kernel" for lk
    by (simp_all add: hart_def hart_ok_def lock_free_def curproc_def same)
  then show ?thesis
    by (simp add: calm_def pr_ready_def tty_ok_def same NPROC_def)
qed

lemma first_ring: "lru sample_bufs (rev [0..<NBUF])"
proof -
  have n: "NBUF = 30" by (simp add: NBUF_def MAXOPBLOCKS_def)
  have "path (bnext \<circ> sample_bufs) bhead (rev [0..<NBUF]) bhead"
    by (rule path_down) (simp_all add: sample_bufs_def bhead_def n)
  moreover have "path (bprev \<circ> sample_bufs) bhead [0..<NBUF] bhead"
    by (rule path_up) (auto simp: sample_bufs_def bhead_def n)
  ultimately show ?thesis by (auto simp: lru_def bhead_def)
qed

lemma sample_buf_simps [simp]:
  "bdev (sample_bufs b) = 0" "brefcnt (sample_bufs b) = 0"
  by (simp_all add: sample_bufs_def)

lemma small_blocks [simp]: "blk_ok 2" "blk_ok 3" "blk_ok 100"
  by (simp_all add: blk_ok_def)

section \<open>The theorems\<close>

text \<open>
  A power failure at any moment of a commit leaves the old content of the file system or
  the new one, never a mixture: with \<open>j\<close> rounds of the disk before the power goes, commit
  either returns, and then every block outside the log has its new content on the disk and
  the log is empty, or the disk, as recovery reads it through the log, has the old content of
  all blocks or the new content of all. Six rounds per block and four more are enough.
\<close>

theorem commit_crash_atomic:
  assumes dev: "virtio_device dev" and s: "commit_ready p k D a N s"
  shows "(\<exists>t i b. i \<le> j \<and> commit (s, replicate j (disk_action dev p)) = Ok () (t, replicate (j - i) (disk_action dev p)) \<and>
      cache_rel p k D b t \<and> hl b = {} \<and> st_n b = 0 \<and> hd_count (blocks t (st_start a)) = 0 \<and>
      (\<forall>n. home (st_start a) n \<longrightarrow> blocks t n = vw a n \<and> vw b n = vw a n)) \<or>
    (j < 6 * N + 4 \<and> (\<exists>t. commit (s, replicate j (disk_action dev p)) = Blocked (t, []) \<and>
      atomic (st_start a) (blocks s) (vw a) (blocks t)))"
proof -
  let ?st = "st_start a"
  note c = s [unfolded commit_ready_def]
  have rel: "cache_rel p k D a s" using c by blast
  note K = cache_relD(8) [OF rel]
  have idle: "cache_log.idle dev (st_out a) (st_com a) p k D ?st (st_n a) (st_blk a) (vw a) (blocks s) (rf a) s"
    by (rule cache_log.idleI [of dev a "st_out a" "st_com a" p k D]) (use dev c K in simp_all)
  have law: "chl (disk_action dev p) blocks (6 * N + 4)
      (cache_log.idle dev (st_out a) (st_com a) p k D ?st (st_n a) (st_blk a) (vw a) (blocks s) (rf a)) commit
      (\<lambda>_. cache_log.committed dev (st_out a) (st_com a) p k D ?st (st_blk a) (vw a) (dropped (st_blk a) N (rf a)))
      (atomic ?st (blocks s) (vw a))"
    by (rule cache_log.commit_law) (use c in auto)
  from law idle show ?thesis
  proof (cases rule: chl_unitE [where j = j])
    case (returns t i)
    then obtain V' K' where k: "cache_log.idle dev (st_out a) (st_com a) p k D ?st 0 (st_blk a) V' K' (dropped (st_blk a) N (rf a)) t"
        "\<forall>n. home ?st n \<longrightarrow> K' n = vw a n \<and> V' n = vw a n" "hd_count (K' ?st) = 0"
      unfolding cache_log.committed_def by blast
    then obtain b where b: "cache_rel p k D b t" "vw b = V'" "dk b = K'" "hl b = {}" "st_n b = 0"
      unfolding cache_log.idle_def by blast
    then have "blocks t = K'" using cache_relD(8) [OF b(1)] by simp
    then show ?thesis using returns b k by blast
  qed blast
qed

lemma dirty_ready: "commit_ready 2 7 1 dirty_store 1 dirty_kernel"
proof -
  let ?s = "dirty_kernel"
  have "lru dirty_bufs (rev [0..<NBUF])"
    using first_ring lru_cong [of dirty_bufs sample_bufs] by (simp add: dirty_bufs_def)
  then have rel: "cache_rel 2 7 1 dirty_store ?s"
    by (intro cache_relI)
      (auto simp: dirty_kernel_def dirty_store_def dirty_bufs_def buf_rel_def Let_def log_vars_def sample_dev_calm NBUF_def
        MAXOPBLOCKS_def split: if_splits)
  have zero: "hd_count zeros = 0"
    by (simp add: hd_count_def zeros_def get32_def get_le_def BSIZE_def numeral_eq_Suc)
  have "{n. (0 :: nat) < ((\<lambda>_. 0)(100 := 1)) n} = {100 :: u32}" by auto
  then have "txn 2 1 (\<lambda>_. 100) ((\<lambda>_. 0)(100 := 1))"
    by (simp add: txn_def home_def log_area_def LOGBLOCKS_def NBUF_def MAXOPBLOCKS_def inj_on_def)
  moreover have "length zeros = BSIZE" by (simp add: zeros_def)
  ultimately show ?thesis
    using rel zero by (simp add: commit_ready_def dirty_store_def blocks_def dirty_kernel_def)
qed

lemma commit_crash_atomic_witness:
  "commit_ready 2 7 1 dirty_store 1 dirty_kernel \<and> blocks dirty_kernel 100 = zeros \<and>
    (\<exists>t e. commit (dirty_kernel, replicate 10 (disk_action sample_device 2)) = Ok () (t, e) \<and> blocks t 100 = sevens)"
proof -
  have "home 2 100" by (simp add: home_def log_area_def LOGBLOCKS_def MAXOPBLOCKS_def)
  moreover have "vw dirty_store 100 = sevens" "st_start dirty_store = 2" by (simp_all add: dirty_store_def)
  moreover have "blocks dirty_kernel 100 = zeros" by (simp add: blocks_def dirty_kernel_def)
  ultimately show ?thesis
    using commit_crash_atomic [OF sample_device_ok dirty_ready, of 10] dirty_ready by fastforce
qed

text \<open>
  C8. Recovery may fail any number of times: whatever disk the cuts of earlier recoveries
  left, it still stands for the same content of the file system as the first one, and a
  recovery that is given \<open>3 * LOGBLOCKS + 3\<close> rounds of the disk returns with exactly this
  content in place and the log empty.
\<close>

theorem recovery_survives_crashes:
  assumes dev: "virtio_device dev" and st: "unat st + LOGBLOCKS < 2 ^ 31" and K: "log_ok st K"
    and boots: "failed_boots dev D st K K'" and s: "booted p k D st K' s" and j: "3 * LOGBLOCKS + 3 \<le> j"
  shows "(\<forall>n. home st n \<longrightarrow> replay st K' n = replay st K n) \<and>
    (\<exists>t e. recover_from_log (s, replicate j (disk_action dev p)) = Ok () (t, e) \<and>
      (\<forall>n. home st n \<longrightarrow> blocks t n = replay st K n) \<and> hd_count (blocks t st) = 0)"
proof -
  note same = failed_boots_keep [OF dev st K boots]
  have "log_ok st K'" and eq: "\<forall>n. home st n \<longrightarrow> replay st K' n = replay st K n" using same by simp_all
  with recover_run [OF dev st _ s, of j] j show ?thesis by auto
qed

lemma sample_boot_ok: "booted 2 7 1 2 (blocks sample_boot) sample_boot"
proof -
  have "cache_rel 2 7 1 boot_store sample_boot"
    using first_ring
    by (intro cache_relI)
      (auto simp: sample_boot_def boot_store_def buf_rel_def Let_def log_vars_def sample_dev_calm)
  then show ?thesis
    unfolding booted_def by (intro conjI exI [of _ boot_store]) (simp_all add: boot_store_def)
qed

lemma sample_boot_log:
  "log_ok 2 (blocks sample_boot)" "replay 2 (blocks sample_boot) 100 = sevens"
proof -
  have "sector_of 2 \<noteq> sector_of 3" "sector_of 100 \<noteq> sector_of 2" "sector_of 100 \<noteq> sector_of 3"
    by (simp_all add: sector_of_inj)
  then have b: "blocks sample_boot 2 = header 1 (\<lambda>_. 100) zeros" "blocks sample_boot 3 = sevens"
    by (simp_all add: blocks_def sample_boot_def)
  have len: "length zeros = BSIZE" by (simp add: zeros_def)
  then have size: "4 + 4 * 1 \<le> length zeros" by (simp add: BSIZE_def)
  note h = header_read [OF size, where blk = "\<lambda>_. 100"]
  show "log_ok 2 (blocks sample_boot)"
    using h len by (simp add: log_ok_def b log_area_def LOGBLOCKS_def MAXOPBLOCKS_def)
  have "copy_at 2 0 = 3" by (simp add: copy_at_def)
  then show "replay 2 (blocks sample_boot) 100 = sevens"
    using h b by (simp add: replay_def)
qed

lemma recovery_survives_crashes_witness:
  "\<exists>t e. recover_from_log (sample_boot, replicate 93 (disk_action sample_device 2)) = Ok () (t, e) \<and> blocks t 100 = sevens"
proof -
  have "unat (2 :: u32) + LOGBLOCKS < 2 ^ 31" "3 * LOGBLOCKS + 3 \<le> 93" by (simp_all add: LOGBLOCKS_def MAXOPBLOCKS_def)
  moreover have "home 2 100" by (simp add: home_def log_area_def LOGBLOCKS_def MAXOPBLOCKS_def)
  ultimately show ?thesis
    using recovery_survives_crashes [OF sample_device_ok _ sample_boot_log(1) no_boot sample_boot_ok, of 93]
      sample_boot_log(2) by fastforce
qed

end
