(* ===== verification/Transact.thy ===== *)
theory Transact
  imports Crash
begin

text \<open>
  Transactions of the file system, from begin_op to end_op, on the real log, cache, driver and
  device: what a sequence of them, a power failure in the middle of one, any number of failed
  reboots and a recovery leave on the disk.
\<close>

section \<open>Transactions as a file system writes them\<close>

text \<open>
  An update of block \<open>n\<close> by \<open>f\<close> the way the comment at log_write asks for: bread, change the
  data, log_write, brelse. A transaction is any list of updates between begin_op and end_op.
\<close>

type_synonym update = "u32 \<times> (u8 list \<Rightarrow> u8 list)"

definition update_block :: "u32 \<Rightarrow> update \<Rightarrow> ('a dev_state_scheme, unit) kfun" where
  "update_block D u = kbind (bread D (fst u)) (\<lambda>b. kseq [buf_update b (snd u), log_write b, brelse b])"

definition transaction :: "u32 \<Rightarrow> update list \<Rightarrow> ('a dev_state_scheme, unit) kfun" where
  "transaction D us = kseq [begin_op, kseq (map (update_block D) us), end_op]"

text \<open>The content it stands for, and the blocks it touches.\<close>

definition written :: "update list \<Rightarrow> (u32 \<Rightarrow> u8 list) \<Rightarrow> u32 \<Rightarrow> u8 list" where
  "written us V = fold (\<lambda>u V. V(fst u := snd u (V (fst u)))) us V"

definition targets :: "update list \<Rightarrow> u32 set" where
  "targets us = fst ` set us"

lemma written_simps [simp]: "written [] V = V" "written (u # us) V = written us (V(fst u := snd u (V (fst u))))"
  "written (us @ ws) V = written ws (written us V)"
  by (simp_all add: written_def)

lemma written_other: "n \<notin> targets us \<Longrightarrow> written us V n = V n"
  by (induction us arbitrary: V) (auto simp: targets_def)

lemma written_cong: "V n = W n \<Longrightarrow> written us V n = written us W n"
proof (induction us arbitrary: V W)
  case (Cons u us)
  have "written us (V(fst u := snd u (V (fst u)))) n = written us (W(fst u := snd u (W (fst u)))) n"
    by (rule Cons.IH) (use Cons.prems in auto)
  then show ?case by (simp only: written_simps)
qed simp

lemma targets_simps [simp]: "targets [] = {}" "targets (us @ [u]) = insert (fst u) (targets us)" "finite (targets us)"
  by (simp_all add: targets_def)

section \<open>The counters and the list of the log\<close>

lemma cache_set_out: "cache_rel p k D a s \<Longrightarrow> cache_rel p k D (a\<lparr>st_out := x\<rparr>) (s\<lparr>fl_outstanding := x\<rparr>)"
proof -
  assume rel: "cache_rel p k D a s"
  let ?a = "a\<lparr>st_out := x\<rparr>" and ?s = "s\<lparr>fl_outstanding := x\<rparr>"
  have "buf_rel p k D ?a ?s b = buf_rel p k D a s b" for b
    by (rule buf_rel_cong) simp_all
  moreover have "blocks ?s = blocks s" by (rule blocks_cong) simp
  moreover have "calm p k ?s = calm p k s" by (simp add: calm_def pr_ready_def tty_ok_def)
  ultimately show ?thesis using rel by (simp add: cache_rel_def log_vars_def)
qed

lemma cache_set_com: "cache_rel p k D a s \<Longrightarrow> cache_rel p k D (a\<lparr>st_com := x\<rparr>) (s\<lparr>fl_committing := x\<rparr>)"
proof -
  assume rel: "cache_rel p k D a s"
  let ?a = "a\<lparr>st_com := x\<rparr>" and ?s = "s\<lparr>fl_committing := x\<rparr>"
  have "buf_rel p k D ?a ?s b = buf_rel p k D a s b" for b
    by (rule buf_rel_cong) simp_all
  moreover have "blocks ?s = blocks s" by (rule blocks_cong) simp
  moreover have "calm p k ?s = calm p k s" by (simp add: calm_def pr_ready_def tty_ok_def)
  ultimately show ?thesis using rel by (simp add: cache_rel_def log_vars_def)
qed

lemma cache_log_vars:
  assumes "cache_rel p k D a s"
  shows "fl_start s = st_start a" "fl_outstanding s = st_out a" "fl_committing s = st_com a" "lh_n s = st_n a" "lh_block s = st_blk a"
  using cache_relD(10) [OF assms] by (simp_all add: log_vars_def)

text \<open>Pinning a locked buffer.\<close>

lemma pin_rel:
  assumes rel: "cache_rel p k D a s" and n: "n \<in> hl a" and r: "rf a n + 1 < 2 ^ 32"
  shows "cache_rel p k D (a\<lparr>rf := (rf a)(n := rf a n + 1)\<rparr>) (set_buf (slot a n) (\<lambda>x. x\<lparr>brefcnt := brefcnt x + 1\<rparr>) s)"
    (is "cache_rel p k D ?a ?s")
proof (rule cache_relI)
  note R = cache_relD [OF rel] and H = held_buf [OF rel n]
  show "calm p k ?s" using R(1) by simp
  show "\<exists>L. lru (bufs ?s) L" using R(2) lru_cong [of "bufs ?s" "bufs s"] by (simp add: set_buf_def)
  show "buf_rel p k D ?a ?s c" if c: "c < NBUF" for c
  proof (cases "c = slot a n")
    case True
    then show ?thesis using R(3) [OF c] H unat_inc [of "brefcnt (bufs s c)"] r
      by (auto simp: buf_rel_def Let_def set_buf_def)
  next
    case False
    then have "bblockno (bufs s c) \<noteq> n" if "bdev (bufs s c) = D"
      using R(4) [of c "slot a n"] c H(1-3) that by auto
    with False have "buf_rel p k D ?a ?s c = buf_rel p k D a s c"
      by (intro buf_rel_cong) (simp_all add: set_buf_def)
    then show ?thesis using R(3) [OF c] by simp
  qed
  have same: "bdev (bufs ?s c) = bdev (bufs s c)" "bblockno (bufs ?s c) = bblockno (bufs s c)" for c
    by (simp_all add: set_buf_def)
  show "b = c" if "b < NBUF" "c < NBUF" "bdev (bufs ?s b) = D" "bdev (bufs ?s c) = D"
    "bblockno (bufs ?s b) = bblockno (bufs ?s c)" for b c
    using that unfolding same by (rule R(4))
  show "\<exists>b < NBUF. bdev (bufs ?s b) = D \<and> bblockno (bufs ?s b) = m" if "0 < rf ?a m" for m
    unfolding same by (rule R(5)) (use that R(7) [OF n] in \<open>auto split: if_splits\<close>)
  show "vw ?a m = dk ?a m" if "blk_ok m" "rf ?a m = 0" for m
    using R(6) that by (simp split: if_splits)
  show "0 < rf ?a m" if "m \<in> hl ?a" for m using R(7) that by simp
  show "dk ?a = blocks ?s" using R(8) blocks_cong [of ?s s] by simp
  show "m \<in> hl ?a" if "m \<in> fr ?a" for m using R(9) that by simp
  show "snd (log_vars ?s) = (st_start ?a, st_out ?a, st_com ?a, D, st_n ?a, st_blk ?a)"
    using R(10) by (simp add: log_vars_def)
qed

text \<open>What log_write does to the store: a block it has already is absorbed.\<close>

definition logged :: "u32 \<Rightarrow> store \<Rightarrow> store" where
  "logged n a = (if n \<in> st_blk a ` {..<nat (st_n a)} then a
     else a\<lparr>rf := (rf a)(n := rf a n + 1), st_blk := (st_blk a)(nat (st_n a) := n), st_n := st_n a + 1\<rparr>)"

lemma log_slot_lock [simp]: "log_slot_of n (acquired lk s) = log_slot_of n s"
  by (simp add: log_slot_of_def split: option.split)

lemma set_lh_lock: "set_lh_block i v (acquired lk s) = acquired lk (set_lh_block i v s)"
  by (simp add: set_lh_block_def log_upd_lock)

lemma set_lh_keep [simp]:
  "hart_ok (set_lh_block i v s) = hart_ok s" "lock_free (set_lh_block i v s) lk = lock_free s lk"
  "lh_n (set_lh_block i v s) = lh_n s"
  by (simp_all add: set_lh_block_def)

lemma set_buf_lh: "set_buf b f (set_lh_block i v s) = set_lh_block i v (set_buf b f s)"
  by (simp add: set_buf_def set_lh_block_def)

lemma bpin_run:
  assumes "hart_ok s" and "lock_free s LkBcache"
  shows "bpin b (acquired LkLog s, e) = Ok () (acquired LkLog (set_buf b (\<lambda>x. x\<lparr>brefcnt := brefcnt x + 1\<rparr>) s), e)"
  using assms by (simp add: bpin_def kthen_def kbind_def acquire_run release_run set_buf_lock)

lemma chl_log_write:
  assumes n: "n \<in> hl a" "rf a n + 1 < 2 ^ 32" and c: "0 \<le> st_n a" "st_n a < int LOGBLOCKS" "1 \<le> st_out a"
  shows "chl act blocks 0 (cache_rel p k D a) (log_write (slot a n)) (\<lambda>_. cache_rel p k D (logged n a)) C"
proof (rule chl_pure)
  fix s :: "'a dev_state_scheme" and e
  assume rel: "cache_rel p k D a s"
  note R = cache_relD [OF rel] and H = held_buf [OF rel n(1)] and V = cache_log_vars [OF rel]
  note calm = calmD [OF R(1)]
  show "\<exists>t. log_write (slot a n) (s, e) = Ok () (t, e) \<and> cache_rel p k D (logged n a) t"
  proof (cases "find (\<lambda>i. st_blk a i = n) [0..<nat (st_n a)]")
    case (Some i)
    then have i: "i < nat (st_n a)" "st_blk a i = n" by (auto simp: find_Some_iff)
    then have ne: "int i \<noteq> st_n a" by auto
    have "set_lh_block i n s = s" using i V by (simp add: set_lh_block_def fun_upd_idem)
    moreover have "log_slot_of n s = i" using Some V by (simp add: log_slot_of_def)
    ultimately have "log_write (slot a n) (s, e) = Ok () (settled s, e)"
      using calm i ne c H(3) V
      by (simp add: log_write_def kthen_def kbind_def acquire_run release_run set_lh_lock)
    moreover have "logged n a = a" using i by (auto simp: logged_def)
    ultimately show ?thesis using rel by simp
  next
    case None
    then have new: "n \<notin> st_blk a ` {..<nat (st_n a)}" by (auto simp: find_None_iff)
    have sl: "log_slot_of n s = nat (st_n a)" using None V by (simp add: log_slot_of_def)
    let ?s = "set_buf (slot a n) (\<lambda>x. x\<lparr>brefcnt := brefcnt x + 1\<rparr>) s"
    let ?t = "(set_lh_block (nat (st_n a)) n ?s)\<lparr>lh_n := st_n a + 1\<rparr>"
    have pin: "bpin (slot a n) (acquired LkLog (set_lh_block i n s), e) = Ok () (acquired LkLog (set_lh_block i n ?s), e)" for i
      using bpin_run [of "set_lh_block i n s" "slot a n" e] calm by (simp add: set_buf_lh)
    have "release LkLog (acquired LkLog ?t, e) = Ok () (settled ?t, e)"
      by (rule release_run) (use calm in simp_all)
    then have "log_write (slot a n) (s, e) = Ok () (settled ?t, e)"
      using calm c H(3) V sl pin
      by (simp add: log_write_def kthen_def kbind_def acquire_run set_lh_lock log_upd_lock)
    moreover have "cache_rel p k D (logged n a) ?t"
      using cache_set_n [OF cache_set_blk [OF pin_rel [OF rel n]], of "st_n a + 1" "nat (st_n a)" n] new
      by (simp add: logged_def)
    ultimately show ?thesis by auto
  qed
qed

section \<open>One transaction\<close>

text \<open>Between transactions: no reference, no operation, an empty log; \<open>K\<close> is the disk.\<close>

definition at_rest :: "nat \<Rightarrow> int \<Rightarrow> u32 \<Rightarrow> u32 \<Rightarrow> (u32 \<Rightarrow> u8 list) \<Rightarrow> 'a dev_state_scheme \<Rightarrow> bool" where
  "at_rest p k D st K s \<longleftrightarrow> (\<exists>a. cache_rel p k D a s \<and> hl a = {} \<and> fr a = {} \<and> rf a = (\<lambda>_. 0) \<and> dk a = K \<and>
     st_start a = st \<and> st_out a = 0 \<and> \<not> st_com a \<and> st_n a = 0) \<and>
     unat st + LOGBLOCKS < 2 ^ 31 \<and> length (K st) = BSIZE \<and> hd_count (K st) = 0"

text \<open>Inside one: the updates \<open>us\<close> are in the cache, their blocks pinned and in the list of the log.\<close>

definition pending :: "nat \<Rightarrow> int \<Rightarrow> u32 \<Rightarrow> u32 \<Rightarrow> (u32 \<Rightarrow> u8 list) \<Rightarrow> (u32 \<Rightarrow> u8 list) \<Rightarrow> update list \<Rightarrow> 'a dev_state_scheme \<Rightarrow> bool" where
  "pending p k D st V K us s \<longleftrightarrow> (\<exists>a. cache_rel p k D a s \<and> hl a = {} \<and> fr a = {} \<and> dk a = K \<and> st_start a = st \<and>
     st_out a = 1 \<and> \<not> st_com a \<and> vw a = written us V \<and> rf a = (\<lambda>n. if n \<in> targets us then 1 else 0) \<and>
     st_n a = int (card (targets us)) \<and> st_blk a ` {..<card (targets us)} = targets us)"

text \<open>Blocks of the file system, fewer than there are buffers.\<close>

definition fits :: "u32 \<Rightarrow> update list \<Rightarrow> bool" where
  "fits st us \<longleftrightarrow> (\<forall>u \<in> set us. home st (fst u)) \<and> card (targets us) < NBUF"

lemma chl_exists: "(\<And>a. chl act disk c (P a) m Q C) \<Longrightarrow> chl act disk c (\<lambda>s. \<exists>a. P a s) m Q C"
  unfolding chl_def by blast

lemma chl_given:
  assumes "A \<Longrightarrow> B \<Longrightarrow> E \<Longrightarrow> chl act disk c P m Q C" and "\<And>s. P s \<Longrightarrow> A" and "\<And>s. P s \<Longrightarrow> B" and "\<And>s. P s \<Longrightarrow> E"
  shows "chl act disk c P m Q C"
  using assms unfolding chl_def by metis

lemma chl_assume: "(A \<Longrightarrow> chl act disk c P m Q C) \<Longrightarrow> chl act disk c (\<lambda>s. A \<and> P s) m Q C"
  unfolding chl_def by blast

lemma begin_op_run:
  assumes "calm p k s" and "\<not> fl_committing s" and "lh_n s + (fl_outstanding s + 1) * int MAXOPBLOCKS \<le> int LOGBLOCKS"
  shows "begin_op (s, e) = Ok () (settled (s\<lparr>fl_outstanding := fl_outstanding s + 1\<rparr>), e)"
  using assms(2,3) calmD [OF assms(1)]
  by (simp add: begin_op_def kretry_def kthen_def kbind_def acquire_run release_run log_upd_lock)

lemma begin_law:
  "chl act blocks 0 (at_rest p k D st K) begin_op
    (\<lambda>_ s. \<exists>V. (\<forall>n. blk_ok n \<longrightarrow> V n = K n) \<and> pending p k D st V K [] s) C"
proof (rule chl_pure)
  fix s :: "'a dev_state_scheme" and e
  assume "at_rest p k D st K s"
  then obtain a where a: "cache_rel p k D a s" "hl a = {}" "fr a = {}" "rf a = (\<lambda>_. 0)" "dk a = K"
      "st_start a = st" "st_out a = 0" "\<not> st_com a" "st_n a = 0"
    unfolding at_rest_def by blast
  let ?t = "settled (s\<lparr>fl_outstanding := fl_outstanding s + 1\<rparr>)"
  note V = cache_log_vars [OF a(1)]
  have "begin_op (s, e) = Ok () (?t, e)"
    by (rule begin_op_run [OF cache_relD(1) [OF a(1)]]) (use V a in \<open>simp_all add: LOGBLOCKS_def MAXOPBLOCKS_def\<close>)
  moreover have "cache_rel p k D (a\<lparr>st_out := 1\<rparr>) ?t"
    using cache_set_out [OF a(1), of 1] V a(7) by simp
  then have "pending p k D st (vw a) K [] ?t"
    unfolding pending_def by (intro exI [of _ "a\<lparr>st_out := 1\<rparr>"]) (use a in simp)
  moreover have "vw a n = K n" if "blk_ok n" for n
    using cache_relD(6) [OF a(1) that] a(4,5) by simp
  ultimately show "\<exists>t. begin_op (s, e) = Ok () (t, e) \<and> (\<exists>V. (\<forall>n. blk_ok n \<longrightarrow> V n = K n) \<and> pending p k D st V K [] t)"
    by blast
qed

lemma update_law:
  assumes dev: "virtio_device dev" and C: "C K" and fits: "fits st (us @ [u])"
  shows "chl (disk_action dev p) blocks 1 (pending p k D st V K us) (update_block D u) (\<lambda>_. pending p k D st V K (us @ [u])) C"
  unfolding pending_def [of _ _ _ _ _ _ us]
proof (intro chl_exists, unfold conj_assoc [symmetric], unfold conj_assoc)
  fix a :: store
  obtain n f where u: "u = (n, f)" by (cases u)
  let ?N = "card (targets us)"
  have n: "blk_ok n" and few: "card (insert n (targets us)) < NBUF"
    using fits by (auto simp: fits_def u home_def)
  have few': "?N < NBUF" using few by (simp add: card_insert_if split: if_splits)
  have "chl (disk_action dev p) blocks 1 (cache_rel p k D a) (update_block D u) (\<lambda>_. pending p k D st V K (us @ [u])) C"
    if a: "hl a = {}" "fr a = {}" "dk a = K" "st_start a = st" "st_out a = 1" "\<not> st_com a" "vw a = written us V"
      "rf a = (\<lambda>n. if n \<in> targets us then 1 else 0)" "st_n a = int ?N" "st_blk a ` {..<?N} = targets us"
  proof -
    have "{m. 0 < rf a m} = targets us" using a(8) by auto
    then have room: "room n a" using few' by (simp add: room_def)
    have read: "chl (disk_action dev p) blocks 1 (cache_rel p k D a) (bread D n) (\<lambda>b. cache_rel p k D (got n b a)) C"
      by (rule chl_bread) (use n room dev C a in auto)
    have rest: "chl (disk_action dev p) blocks 0 (cache_rel p k D (got n b a))
        (kseq [buf_update b f, log_write b, brelse b]) (\<lambda>_. pending p k D st V K (us @ [u])) C" for b
    proof -
      let ?a1 = "got n b a"
      let ?a2 = "edited n f ?a1"
      let ?a3 = "logged n ?a2"
      let ?a4 = "given n ?a3"
      have s: "slot ?a1 n = b" "slot ?a2 n = b" "slot ?a3 n = b"
        by (simp_all add: got_def edited_def logged_def)
      have h: "n \<in> hl ?a1" "n \<notin> fr ?a1" "n \<in> hl ?a2" "n \<in> hl ?a3" "n \<notin> fr ?a3"
        by (simp_all add: got_def edited_def logged_def a(2))
      have e: "chl (disk_action dev p) blocks 0 (cache_rel p k D ?a1) (buf_update b f) (\<lambda>_. cache_rel p k D ?a2) C"
        by (rule chl_buf_update [OF h(1,2), unfolded s])
      have "rf ?a2 n + 1 < 2 ^ 32" "0 \<le> st_n ?a2" "st_n ?a2 < int LOGBLOCKS" "1 \<le> st_out ?a2"
        using a(5,8,9) few' by (simp_all add: got_def edited_def NBUF_def LOGBLOCKS_def)
      note l = chl_log_write [OF h(3) this, unfolded s]
      have "rf ?a3 n = 1 \<longrightarrow> vw ?a3 n = dk ?a3 n"
        using a(8,9,10) by (simp add: got_def edited_def logged_def)
      note r = chl_brelse [OF h(4,5) this, unfolded s]
      have "pending p k D st V K (us @ [u]) s" if rel: "cache_rel p k D ?a4 s" for s
      proof (cases "n \<in> targets us")
        case True
        then have ins: "insert n (targets us) = targets us" by blast
        show ?thesis
          unfolding pending_def
          by (intro exI [of _ ?a4] conjI, rule rel) (use ins True a in \<open>auto simp: u got_def edited_def logged_def given_def\<close>)
      next
        case False
        have old: "(if i = ?N then n else st_blk a i) = st_blk a i" if "i \<in> {..<?N}" for i using that by simp
        have img: "(\<lambda>i. if i = ?N then n else st_blk a i) ` {..<Suc ?N} = insert n (st_blk a ` {..<?N})"
          unfolding lessThan_Suc image_insert image_cong [OF refl old] by simp
        show ?thesis
          unfolding pending_def
          by (intro exI [of _ ?a4] conjI, rule rel)
            (use img False a in \<open>auto simp: u got_def edited_def logged_def given_def fun_upd_def\<close>)
      qed
      then have fin: "chl (disk_action dev p) blocks 0 (cache_rel p k D ?a4) (kseq []) (\<lambda>_. pending p k D st V K (us @ [u])) C"
        by (intro chl_run) (auto simp: kseq_run)
      have "chl (disk_action dev p) blocks (0 + (0 + (0 + 0))) (cache_rel p k D ?a1)
          (kseq [buf_update b f, log_write b, brelse b]) (\<lambda>_. pending p k D st V K (us @ [u])) C"
        by (rule chl_kseq_Cons e l r fin)+
      then show ?thesis by simp
    qed
    have "chl (disk_action dev p) blocks (1 + 0) (cache_rel p k D a) (update_block D u) (\<lambda>_. pending p k D st V K (us @ [u])) C"
      unfolding update_block_def u fst_conv snd_conv using read rest [unfolded u] by (rule chl_kbind)
    then show ?thesis by simp
  qed
  then show "chl (disk_action dev p) blocks 1
      (\<lambda>s. cache_rel p k D a s \<and> hl a = {} \<and> fr a = {} \<and> dk a = K \<and> st_start a = st \<and>
     st_out a = 1 \<and> \<not> st_com a \<and> vw a = written us V \<and> rf a = (\<lambda>n. if n \<in> targets us then 1 else 0) \<and>
     st_n a = int ?N \<and> st_blk a ` {..<?N} = targets us) (update_block D u) (\<lambda>_. pending p k D st V K (us @ [u])) C"
    unfolding chl_def by blast
qed

lemma dropped_pins:
  assumes "inj_on blk {..<N}" and "blk ` {..<N} = T"
  shows "dropped blk N (\<lambda>n. if n \<in> T then 1 else 0) = (\<lambda>_. 0)"
proof -
  have "dropped blk i R n = (if n \<in> blk ` {..<i} then R n - 1 else R n)" if "i \<le> N" for i R n
    using that
  proof (induction i)
    case (Suc i)
    have "blk i \<noteq> blk j" if "j < i" for j
      using assms(1) Suc.prems that inj_onD [of blk "{..<N}" i j] by auto
    then have "blk i \<notin> blk ` {..<i}" by blast
    then show ?case using Suc by (auto simp: lessThan_Suc)
  qed simp
  then show ?thesis using assms(2) by (auto simp: fun_eq_iff)
qed

lemma home_start: "\<not> home st st"
  by (simp add: home_def log_area_def)

text \<open>The state while end_op commits.\<close>

lemma end_commit_law:
  fixes V K :: "u32 \<Rightarrow> u8 list"
  assumes dev: "virtio_device dev" and fits: "fits st us" and st: "unat st + LOGBLOCKS < 2 ^ 31"
    and K: "length (K st) = BSIZE" "hd_count (K st) = 0" and V: "\<And>n. blk_ok n \<Longrightarrow> V n = K n"
    and a: "hl a = {}" "fr a = {}" "dk a = K" "st_start a = st" "vw a = written us V"
      "rf a = (\<lambda>n. if n \<in> targets us then 1 else 0)" "st_n a = int (card (targets us))"
      "st_blk a ` {..<card (targets us)} = targets us" "st_out a = 0" "st_com a"
  shows "chl (disk_action dev p) blocks (6 * card (targets us) + 4) (cache_rel p k D a) commit
    (\<lambda>_ s. \<exists>b. cache_rel p k D b s \<and> hl b = {} \<and> fr b = {} \<and> rf b = (\<lambda>_. 0) \<and> st_start b = st \<and> st_out b = 0 \<and> st_com b \<and>
       st_n b = 0 \<and> length (dk b st) = BSIZE \<and> hd_count (dk b st) = 0 \<and> (\<forall>n. home st n \<longrightarrow> dk b n = written us K n))
    (atomic st K (written us K))"
proof -
  let ?N = "card (targets us)"
  have inj: "inj_on (st_blk a) {..<?N}"
    by (rule eq_card_imp_inj_on) (simp_all add: a(8))
  have home: "home st n" if "n \<in> targets us" for n
    using fits that by (auto simp: fits_def targets_def)
  have home': "home st (st_blk a i)" if "i < ?N" for i
    using home a(8) that by blast
  have pos: "{n. 0 < rf a n} = targets us" using a(6) by auto
  have ok: "blk_ok st" using st by (simp add: blk_ok_def)
  have same: "written us V n = written us K n" if "home st n" for n
    using V that by (intro written_cong) (simp add: home_def)
  have T: "txn st ?N (st_blk a) (rf a)"
    using st fits inj home' a(6,8) pos by (auto simp: txn_def fits_def NBUF_def LOGBLOCKS_def)
  have at: "written us V st = K st"
    using written_other [of st us V] home home_start V [OF ok] by metis
  have rest: "written us V n = K n" if "home st n" "\<forall>i < ?N. n \<noteq> st_blk a i" for n
  proof -
    have "n \<notin> targets us" using that(2) a(8) by auto
    then show ?thesis using written_other V that(1) by (simp add: home_def)
  qed
  have law: "chl (disk_action dev p) blocks (6 * ?N + 4)
      (cache_log.idle dev 0 True p k D st (st_n a) (st_blk a) (written us V) K (rf a)) commit
      (\<lambda>_. cache_log.committed dev 0 True p k D st (st_blk a) (written us V) (dropped (st_blk a) ?N (rf a)))
      (atomic st K (written us V))"
    by (rule cache_log.commit_law) (fact T a(7) K at rest)+
  have drop: "dropped (st_blk a) ?N (rf a) = (\<lambda>_. 0)"
    unfolding a(6) by (rule dropped_pins [OF inj a(8)])
  show ?thesis
  proof (rule chl_conseq [OF law])
    show "cache_log.idle dev 0 True p k D st (st_n a) (st_blk a) (written us V) K (rf a) s" if "cache_rel p k D a s" for s
      by (rule cache_log.idleI [of dev a 0 True p k D]) (use that dev a in simp_all)
    show "atomic st K (written us K) d" if "atomic st K (written us V) d" for d
      using that same by (auto simp: atomic_def)
    fix x t
    assume "cache_log.committed dev 0 True p k D st (st_blk a) (written us V) (dropped (st_blk a) ?N (rf a)) t"
    then obtain V' K' where c: "cache_log.idle dev 0 True p k D st 0 (st_blk a) V' K' (\<lambda>_. 0) t"
        "\<forall>n. home st n \<longrightarrow> K' n = written us V n" "length (K' st) = BSIZE" "hd_count (K' st) = 0"
      unfolding cache_log.committed_def drop by blast
    then obtain b where "cache_rel p k D b t" "dk b = K'" "rf b = (\<lambda>_. 0)" "hl b = {}" "fr b = {}" "st_start b = st"
        "st_n b = 0" "st_out b = 0" "st_com b"
      unfolding cache_log.idle_def by auto
    then show "\<exists>b. cache_rel p k D b t \<and> hl b = {} \<and> fr b = {} \<and> rf b = (\<lambda>_. 0) \<and> st_start b = st \<and> st_out b = 0 \<and> st_com b \<and>
       st_n b = 0 \<and> length (dk b st) = BSIZE \<and> hd_count (dk b st) = 0 \<and> (\<forall>n. home st n \<longrightarrow> dk b n = written us K n)"
      using c same by (intro exI [of _ b]) simp
  qed simp
qed

lemma wakeup_log_run:
  assumes "calm p k s"
  shows "wakeup ch (acquired LkLog s, e) = Ok () (acquired LkLog (woken (Some ch) {..<NPROC} s), e)"
  using wakeup_run [of "acquired LkLog s" ch e] calmD [OF assms] by (simp add: woken_lock)

lemma end_op_first:
  assumes "calm p k s" and "fl_outstanding s = 1" and "\<not> fl_committing s"
  shows "end_op (s, e) = kseq [commit, acquire LkLog, kmod (\<lambda>s. s\<lparr>fl_committing := False\<rparr>), wakeup ChLog, release LkLog]
    (settled (s\<lparr>fl_outstanding := 0, fl_committing := True\<rparr>), e)"
proof -
  note c = calmD [OF assms(1)]
  let ?t = "s\<lparr>fl_outstanding := 0, fl_committing := True\<rparr>"
  have "release LkLog (acquired LkLog ?t, e) = Ok () (settled ?t, e)"
    by (rule release_run) (use c in simp_all)
  then show ?thesis
    using c assms(2,3) by (simp add: end_op_def kthen_def kbind_def acquire_run log_upd_lock split: res.splits)
qed

lemma end_law:
  fixes V K :: "u32 \<Rightarrow> u8 list"
  assumes dev: "virtio_device dev" and fits: "fits st us" and st: "unat st + LOGBLOCKS < 2 ^ 31"
    and K: "length (K st) = BSIZE" "hd_count (K st) = 0" and V: "\<And>n. blk_ok n \<Longrightarrow> V n = K n"
  shows "chl (disk_action dev p) blocks (6 * card (targets us) + 4) (pending p k D st V K us) end_op
    (\<lambda>_ s. \<exists>K'. at_rest p k D st K' s \<and> (\<forall>n. home st n \<longrightarrow> K' n = written us K n)) (atomic st K (written us K))"
    (is "chl ?act blocks ?c _ _ (\<lambda>_. ?Q) ?C")
proof (rule chlI)
  fix s :: "'a dev_state_scheme" and j
  assume "pending p k D st V K us s"
  then obtain a where a: "cache_rel p k D a s" "hl a = {}" "fr a = {}" "dk a = K" "st_start a = st" "st_out a = 1" "\<not> st_com a"
      "vw a = written us V" "rf a = (\<lambda>n. if n \<in> targets us then 1 else 0)" "st_n a = int (card (targets us))"
      "st_blk a ` {..<card (targets us)} = targets us"
    unfolding pending_def by blast
  let ?b = "a\<lparr>st_out := 0, st_com := True\<rparr>" and ?s = "s\<lparr>fl_outstanding := 0, fl_committing := True\<rparr>"
  let ?R = "\<lambda>s. \<exists>b. cache_rel p k D b s \<and> hl b = {} \<and> fr b = {} \<and> rf b = (\<lambda>_. 0) \<and> st_start b = st \<and> st_out b = 0 \<and> st_com b \<and>
       st_n b = 0 \<and> length (dk b st) = BSIZE \<and> hd_count (dk b st) = 0 \<and> (\<forall>n. home st n \<longrightarrow> dk b n = written us K n)"
  let ?rest = "kseq [acquire LkLog, kmod (\<lambda>s. s\<lparr>fl_committing := False\<rparr>), wakeup ChLog, release LkLog]"
  have law: "chl ?act blocks ?c (cache_rel p k D ?b) commit (\<lambda>_. ?R) ?C"
    by (rule end_commit_law [OF dev fits st, where V = V]) (use K V a in simp_all)
  have rest: "chl ?act blocks 0 ?R ?rest (\<lambda>_. ?Q) ?C"
  proof (rule chl_pure)
    fix t :: "'a dev_state_scheme" and e
    assume "?R t"
    then obtain b where b: "cache_rel p k D b t" "hl b = {}" "fr b = {}" "rf b = (\<lambda>_. 0)" "st_start b = st" "st_out b = 0" "st_n b = 0"
        "length (dk b st) = BSIZE" "hd_count (dk b st) = 0" "\<forall>n. home st n \<longrightarrow> dk b n = written us K n" by blast
    let ?t = "t\<lparr>fl_committing := False\<rparr>"
    have rel: "cache_rel p k D (b\<lparr>st_com := False\<rparr>) ?t" by (rule cache_set_com [OF b(1)])
    note c = cache_relD(1) [OF rel] and c0 = calmD [OF cache_relD(1) [OF b(1)]]
    let ?u = "settled (woken (Some ChLog) {..<NPROC} ?t)"
    have "release LkLog (acquired LkLog (woken (Some ChLog) {..<NPROC} ?t), e) = Ok () (?u, e)"
      by (rule release_run) (use calmD [OF c] in simp_all)
    then have "?rest (t, e) = Ok () (?u, e)"
      using c0 wakeup_log_run [OF c] by (simp add: kthen_def kbind_def acquire_run log_upd_lock)
    moreover have "at_rest p k D st (dk b) ?u"
      unfolding at_rest_def using rel b st by (intro conjI exI [of _ "b\<lparr>st_com := False\<rparr>"]) simp_all
    ultimately show "\<exists>u. ?rest (t, e) = Ok () (u, e) \<and> ?Q u" using b(10) by blast
  qed
  have "chl ?act blocks (?c + 0) (cache_rel p k D ?b) (kseq [commit, acquire LkLog, kmod (\<lambda>s. s\<lparr>fl_committing := False\<rparr>),
      wakeup ChLog, release LkLog]) (\<lambda>_. ?Q) ?C"
    using law rest by (rule chl_kseq_Cons)
  moreover have "cache_rel p k D ?b (settled ?s)"
    using cache_set_com [OF cache_set_out [OF a(1), of 0], of True] by simp
  moreover have "end_op (s, e) = kseq [commit, acquire LkLog, kmod (\<lambda>s. s\<lparr>fl_committing := False\<rparr>), wakeup ChLog, release LkLog]
      (settled ?s, e)" for e
    by (rule end_op_first [OF cache_relD(1) [OF a(1)]]) (use cache_log_vars [OF a(1)] a in simp_all)
  ultimately show "(\<exists>x t i. i \<le> ?c \<and> i \<le> j \<and> end_op (s, replicate j ?act) = Ok x (t, replicate (j - i) ?act) \<and> ?Q t) \<or>
     (j < ?c \<and> (\<exists>t. end_op (s, replicate j ?act) = Blocked (t, []) \<and> ?C (blocks t)))"
    unfolding chl_def by simp
qed

text \<open>One transaction: at most one read for each update, then the commit.\<close>

definition rounds :: "update list \<Rightarrow> nat" where
  "rounds us = length us + (6 * card (targets us) + 4)"

lemma at_restD:
  assumes "at_rest p k D st K s"
  shows "unat st + LOGBLOCKS < 2 ^ 31" "length (K st) = BSIZE" "hd_count (K st) = 0" "blocks s = K" "calm p k s"
proof -
  obtain a where "cache_rel p k D a s" "dk a = K" using assms unfolding at_rest_def by blast
  then show "blocks s = K" "calm p k s" using cache_relD(1,8) by metis+
qed (use assms in \<open>simp_all add: at_rest_def\<close>)

lemma transaction_law:
  assumes dev: "virtio_device dev" and fits: "fits st us"
  shows "chl (disk_action dev p) blocks (rounds us) (at_rest p k D st K) (transaction D us)
    (\<lambda>_ s. \<exists>K'. at_rest p k D st K' s \<and> (\<forall>n. home st n \<longrightarrow> K' n = written us K n)) (atomic st K (written us K))"
    (is "chl ?act blocks _ _ _ (\<lambda>_. ?Q) ?C")
proof -
  have "chl ?act blocks (rounds us) (at_rest p k D st K) (transaction D us) (\<lambda>_. ?Q) ?C"
    if K: "unat st + LOGBLOCKS < 2 ^ 31" "length (K st) = BSIZE" "hd_count (K st) = 0"
  proof -
    have C: "?C K" using K by (simp add: atomic_def log_ok_def replay_clear)
    have part: "fits st (ws @ [w])" if "us = ws @ w # vs" for ws w vs
    proof -
      have "targets (ws @ [w]) \<subseteq> targets us" using that by (auto simp: targets_def)
      then have "card (targets (ws @ [w])) \<le> card (targets us)" by (rule card_mono [rotated]) simp
      then show ?thesis using fits that by (auto simp: fits_def)
    qed
    have body: "chl ?act blocks (length vs) (pending p k D st V K ws) (kseq (map (update_block D) vs)) (\<lambda>_. pending p k D st V K us) ?C"
      if "us = ws @ vs" for V ws vs
      using that
    proof (induction vs arbitrary: ws)
      case Nil
      then show ?case using chl_kret [of ?act blocks "\<lambda>_. pending p k D st V K us"] by simp
    next
      case (Cons w vs)
      have "chl ?act blocks (1 + length vs) (pending p k D st V K ws) (kseq (update_block D w # map (update_block D) vs))
          (\<lambda>_. pending p k D st V K us) ?C"
        by (rule chl_kseq_Cons [OF update_law [where C = ?C and us = ws, OF dev C part] Cons.IH]) (use Cons.prems in simp_all)
      then show ?case by simp
    qed
    have nil: "chl ?act blocks 0 ?Q (kseq []) (\<lambda>_. ?Q) ?C"
      by (intro chl_run) (auto simp: kseq_run)
    have "chl ?act blocks (0 + (length us + ((6 * card (targets us) + 4) + 0))) (at_rest p k D st K) (transaction D us) (\<lambda>_. ?Q) ?C"
      unfolding transaction_def
    proof (rule chl_kseq_Cons [OF begin_law], rule chl_exists, rule chl_assume)
      fix V :: "u32 \<Rightarrow> u8 list"
      assume V: "\<forall>n. blk_ok n \<longrightarrow> V n = K n"
      have "chl ?act blocks (6 * card (targets us) + 4) (pending p k D st V K us) end_op (\<lambda>_. ?Q) ?C"
        by (rule end_law [OF dev fits, where V = V]) (use K V in simp_all)
      then show "chl ?act blocks (length us + ((6 * card (targets us) + 4) + 0)) (pending p k D st V K [])
          (kseq [kseq (map (update_block D) us), end_op]) (\<lambda>_. ?Q) ?C"
        using body [of "[]" us V] nil by (intro chl_kseq_Cons) simp_all
    qed
    then show ?thesis by (simp add: rounds_def)
  qed
  then show ?thesis by (rule chl_given) (use at_restD in blast)+
qed

section \<open>Sequences of transactions\<close>

lemma home_written: "\<forall>n. home st n \<longrightarrow> K' n = written us K n \<Longrightarrow> home st n \<Longrightarrow> written ws K' n = written (us @ ws) K n"
  using written_cong [of K' n "written us K" ws] by simp

lemma transactions_law:
  assumes dev: "virtio_device dev" and fits: "\<forall>us \<in> set uss. fits st us"
  shows "chl (disk_action dev p) blocks (sum_list (map rounds uss)) (at_rest p k D st K) (kseq (map (transaction D) uss))
    (\<lambda>_ s. \<exists>K'. at_rest p k D st K' s \<and> (\<forall>n. home st n \<longrightarrow> K' n = written (concat uss) K n)) (\<lambda>_. True)"
  using fits
proof (induction uss arbitrary: K)
  case Nil
  have "chl (disk_action dev p) blocks 0 (at_rest p k D st K) (kseq [])
      (\<lambda>_ s. \<exists>K'. at_rest p k D st K' s \<and> (\<forall>n. home st n \<longrightarrow> K' n = written [] K n)) (\<lambda>_. True)"
    by (rule chl_run) (auto simp: kseq_run)
  then show ?case by simp
next
  case (Cons us uss)
  let ?Q = "\<lambda>K s. \<exists>K'. at_rest p k D st K' s \<and> (\<forall>n. home st n \<longrightarrow> K' n = written (concat uss) K n)"
  have first: "chl (disk_action dev p) blocks (rounds us) (at_rest p k D st K) (transaction D us)
      (\<lambda>_ s. \<exists>K1. (\<forall>n. home st n \<longrightarrow> K1 n = written us K n) \<and> at_rest p k D st K1 s) (\<lambda>_. True)"
    by (rule chl_conseq [OF transaction_law [OF dev]]) (use Cons.prems in auto)
  have "chl (disk_action dev p) blocks (rounds us + sum_list (map rounds uss)) (at_rest p k D st K)
      (kseq (transaction D us # map (transaction D) uss))
      (\<lambda>_ s. \<exists>K'. at_rest p k D st K' s \<and> (\<forall>n. home st n \<longrightarrow> K' n = written (concat (us # uss)) K n)) (\<lambda>_. True)"
  proof (rule chl_kseq_Cons [OF first], rule chl_exists, rule chl_assume)
    fix K1
    assume K1: "\<forall>n. home st n \<longrightarrow> K1 n = written us K n"
    show "chl (disk_action dev p) blocks (sum_list (map rounds uss)) (at_rest p k D st K1) (kseq (map (transaction D) uss))
      (\<lambda>_ s. \<exists>K'. at_rest p k D st K' s \<and> (\<forall>n. home st n \<longrightarrow> K' n = written (concat (us # uss)) K n)) (\<lambda>_. True)"
      by (rule chl_conseq [OF Cons.IH [of K1]]) (use Cons.prems home_written [OF K1] in auto)
  qed
  then show ?case by simp
qed

section \<open>A kernel at rest\<close>

definition rest_kernel :: "(u64 \<Rightarrow> u8 list) \<Rightarrow> dev_state" where
  "rest_kernel pl = sample_dev sample_bufs 0 pl"

definition rest_store :: "(u64 \<Rightarrow> u8 list) \<Rightarrow> store" where
  "rest_store pl = \<lparr>vw = blocks (rest_kernel pl), dk = blocks (rest_kernel pl), rf = (\<lambda>_. 0), hl = {}, slot = (\<lambda>_. 0), fr = {},
     st_start = 2, st_out = 0, st_com = False, st_n = 0, st_blk = (\<lambda>_. 100)\<rparr>"

lemma rest_rel: "cache_rel 2 7 1 (rest_store pl) (rest_kernel pl)"
  using first_ring
  by (intro cache_relI) (auto simp: rest_kernel_def rest_store_def buf_rel_def Let_def log_vars_def sample_dev_calm)

lemma zero_log: "length zeros = BSIZE" "hd_count zeros = 0"
  by (simp_all add: zeros_def hd_count_def get32_def get_le_def BSIZE_def numeral_eq_Suc)

lemma rest_at_rest: "at_rest 2 7 1 2 (blocks (rest_kernel (\<lambda>_. zeros))) (rest_kernel (\<lambda>_. zeros))"
proof -
  have "blocks (rest_kernel (\<lambda>_. zeros)) 2 = zeros" by (simp add: blocks_def rest_kernel_def)
  then show ?thesis
    unfolding at_rest_def using rest_rel [of "\<lambda>_. zeros"] zero_log
    by (intro conjI exI [of _ "rest_store (\<lambda>_. zeros)"]) (simp_all add: rest_store_def LOGBLOCKS_def MAXOPBLOCKS_def)
qed

lemma rest_booted: "booted 2 7 1 2 (blocks (rest_kernel pl)) (rest_kernel pl)"
  unfolding booted_def using rest_rel [of pl] by (intro conjI exI [of _ "rest_store pl"]) (simp_all add: rest_store_def)

lemma home_100: "home 2 100" "home 2 101"
  by (simp_all add: home_def log_area_def LOGBLOCKS_def MAXOPBLOCKS_def blk_ok_def)

lemma rest_fits: "fits 2 [(100, f)]" "fits 2 [(101, f), (100, g)]"
  by (simp_all add: fits_def home_100 targets_def NBUF_def MAXOPBLOCKS_def card_insert_if)

section \<open>The theorems\<close>



text \<open>
  C6. The file system's promise. Transactions \<open>uss\<close> have returned and the power fails in the
  next one, \<open>us\<close>; after any number of reboots whose recovery fails too, a recovery that runs to
  its end leaves all of \<open>uss\<close> on the disk, and \<open>us\<close> completely or not at all.
\<close>

theorem crash_recovers:
  assumes dev: "virtio_device dev" and s: "at_rest p k D st K s" and fits: "\<forall>vs \<in> set (uss @ [us]). fits st vs"
    and run: "kseq (map (transaction D) uss) (s, replicate j (disk_action dev p)) = Ok () w"
    and cut: "transaction D us w = Blocked (t, e)"
    and boots: "failed_boots dev D st (blocks t) K'" and boot: "booted p' k' D st K' s'"
    and i: "3 * LOGBLOCKS + 3 \<le> i"
  shows "\<exists>t' e'. recover_from_log (s', replicate i (disk_action dev p')) = Ok () (t', e') \<and>
    ((\<forall>n. home st n \<longrightarrow> blocks t' n = written (concat uss) K n) \<or>
     (\<forall>n. home st n \<longrightarrow> blocks t' n = written (concat (uss @ [us])) K n))"
proof -
  note st = at_restD(1) [OF s]
  have "\<forall>vs \<in> set uss. fits st vs" and us: "fits st us" using fits by simp_all
  from transactions_law [OF dev this(1), of p k D K] s
  obtain t1 m K1 where w: "w = (t1, replicate m (disk_action dev p))" and K1: "at_rest p k D st K1 t1"
      "\<forall>n. home st n \<longrightarrow> K1 n = written (concat uss) K n"
    by (cases rule: chl_unitE [where j = j]) (use run in auto)
  from transaction_law [OF dev us, of p k D K1] K1(1)
  have at: "atomic st K1 (written us K1) (blocks t)"
    by (cases rule: chl_unitE [where j = m]) (use cut w in auto)
  then have ok: "log_ok st (blocks t)" by (simp add: atomic_def)
  have new: "written us K1 n = written (concat (uss @ [us])) K n" if "home st n" for n
    using home_written [OF K1(2) that, of us] by simp
  have keep: "log_ok st K'" "\<forall>n. home st n \<longrightarrow> replay st K' n = replay st (blocks t) n"
    using failed_boots_keep [OF dev st ok boots] by simp_all
  obtain t' e' where t': "recover_from_log (s', replicate i (disk_action dev p')) = Ok () (t', e')"
      "\<forall>n. home st n \<longrightarrow> blocks t' n = replay st K' n"
    using recover_run [OF dev st keep(1) boot, of i] i by auto
  have "(\<forall>n. home st n \<longrightarrow> blocks t' n = written (concat uss) K n) \<or>
      (\<forall>n. home st n \<longrightarrow> blocks t' n = written (concat (uss @ [us])) K n)"
    using at keep(2) t'(2) K1(2) new unfolding atomic_def by auto
  then show ?thesis using t'(1) by blast
qed

text \<open>The power fails before the disk does anything.\<close>

lemma first_bread_cut:
  fixes s :: dev_state
  assumes c: "calm 2 7 s" and b: "bufs s = sample_bufs" and l: "\<not> slocked (sleeplocks s (SlBuf 0))"
  shows "\<exists>t. bread 1 100 (s, []) = Blocked (t, []) \<and> platter t = platter s"
proof -
  let ?x = "(sample_bufs 0)\<lparr>bdev := 1, bblockno := 100, bvalid := False, brefcnt := 1\<rparr>"
  let ?t = "settled (set_slock (SlBuf 0) (\<lambda>l. l\<lparr>slocked := True, slpid := 7\<rparr>) (settled (s\<lparr>bufs := (bufs s)(0 := ?x)\<rparr>)))"
  have up: "rev (rev [0..<NBUF]) = 0 # [1..<NBUF]" by (simp add: upt_conv_Cons NBUF_def MAXOPBLOCKS_def)
  have "find (\<lambda>b. bdev (sample_bufs b) = 1 \<and> bblockno (sample_bufs b) = 100) (rev [0..<NBUF]) = None"
    by (simp add: find_None_iff)
  then have scan: "scan_cached (NBUF + 1) sample_bufs 1 100 (bnext (sample_bufs bhead)) = None"
      "scan_unused (NBUF + 1) sample_bufs (bprev (sample_bufs bhead)) = Some 0"
    using scan_lru [OF first_ring] up by simp_all
  have "bget 1 100 (s, []) = kthen (kseq [release LkBcache, acquiresleep (SlBuf 0)]) (kret 0)
      (acquired LkBcache (s\<lparr>bufs := (bufs s)(0 := ?x)\<rparr>), [])"
    using calmD [OF c] b scan
    by (simp add: bget_def kthen_def kbind_def acquire_run set_buf_lock set_buf_def disk_upd_lock del: scan_cached.simps scan_unused.simps)
  also have "\<dots> = Ok 0 (?t, [])"
    by (rule bget_tail) (use c l in simp_all)
  finally have get: "bget 1 100 (s, []) = Ok 0 (?t, [])" .
  have "calm 2 7 ?t" using c by simp
  then obtain t where "virtio_disk_rw 0 False (?t, []) = Blocked (t, [])" "platter t = platter ?t"
    using disk_rw_run(2) [OF _ sample_device_ok, of 2 7 ?t 0 False] by blast
  moreover have "\<not> bvalid (bufs ?t 0)" "platter ?t = platter s" by simp_all
  ultimately show ?thesis using get
    by (simp add: bread_def kthen_def kbind_def)
qed

lemma rest_cut: "\<exists>t. transaction 1 [(100, f)] (rest_kernel pl, []) = Blocked (t, []) \<and> platter t = pl"
proof -
  define s where "s = settled (rest_kernel pl\<lparr>fl_outstanding := 1\<rparr>)"
  have "calm 2 7 s" using cache_relD(1) [OF cache_set_out [OF rest_rel, of 1]] by (simp add: s_def)
  moreover have "bufs s = sample_bufs" "\<not> slocked (sleeplocks s (SlBuf 0))" "platter s = pl"
    by (simp_all add: s_def rest_kernel_def)
  ultimately obtain t where "bread 1 100 (s, []) = Blocked (t, [])" "platter t = pl"
    using first_bread_cut [of s] by blast
  moreover have "begin_op (rest_kernel pl, []) = Ok () (s, [])"
    using begin_op_run [OF cache_relD(1) [OF rest_rel], of pl "[]"]
    by (simp add: s_def rest_kernel_def LOGBLOCKS_def MAXOPBLOCKS_def)
  ultimately show ?thesis
    by (simp add: transaction_def update_block_def kthen_def kbind_def)
qed

lemma crash_recovers_witness:
  "\<exists>t s' t' e'. transaction 1 [(100, \<lambda>_. sevens)] (rest_kernel (\<lambda>_. zeros), []) = Blocked (t, []) \<and>
    recover_from_log (s', replicate 93 (disk_action sample_device 2)) = Ok () (t', e') \<and>
    blocks s' = blocks t \<and> (blocks t' 100 = zeros \<or> blocks t' 100 = sevens)"
proof -
  let ?us = "[(100, \<lambda>_. sevens)] :: update list" and ?s = "rest_kernel (\<lambda>_. zeros)"
  obtain t where t: "transaction 1 ?us (?s, []) = Blocked (t, [])" "platter t = (\<lambda>_. zeros)"
    using rest_cut by blast
  have K: "blocks t = blocks ?s" by (rule blocks_cong) (simp add: t(2) rest_kernel_def)
  have run: "kseq (map (transaction 1) []) (?s, replicate 0 (disk_action sample_device 2)) = Ok () (?s, [])"
    by (simp add: kseq_run)
  have fits: "\<forall>vs \<in> set ([] @ [?us]). fits 2 vs" by (simp add: rest_fits)
  have n: "3 * LOGBLOCKS + 3 \<le> 93" by (simp add: LOGBLOCKS_def MAXOPBLOCKS_def)
  have boot: "booted 2 7 1 2 (blocks t) ?s" unfolding K by (rule rest_booted)
  have "blocks ?s 100 = zeros" by (simp add: blocks_def rest_kernel_def)
  then show ?thesis
    using crash_recovers [OF sample_device_ok rest_at_rest fits run t(1) no_boot boot n] t(1) K home_100(1) by fastforce
qed

end
