(* ===== verification/LogFull.thy ===== *)
theory LogFull
  imports Crash
begin

text \<open>
  The largest transaction the log admits, LOGBLOCKS blocks, pins as many buffers as the cache
  has: its commit finds no buffer for the first block of the log.
\<close>

lemma find_none_unused: "\<forall>b < NBUF. brefcnt (bs b) \<noteq> 0 \<Longrightarrow> lru bs L \<Longrightarrow> find (\<lambda>b. brefcnt (bs b) = 0) (rev L) = None"
  by (auto simp: lru_def find_None_iff)

lemma bget_no_buffers:
  assumes ok: "hart_ok s" "lock_free s LkBcache" and L: "lru (bufs s) L"
    and none: "\<forall>b < NBUF. brefcnt (bufs s b) \<noteq> 0" "\<forall>b < NBUF. bdev (bufs s b) = d \<longrightarrow> bblockno (bufs s b) \<noteq> n"
  shows "bget d n (s, e) = Panic ''bget: no buffers'' (acquired LkBcache s, e)"
proof -
  have "find (\<lambda>b. bdev (bufs s b) = d \<and> bblockno (bufs s b) = n) L = None"
    using L none(2) by (auto simp: lru_def find_None_iff)
  then show ?thesis
    using ok scan_lru [OF L] find_none_unused [OF none(1) L]
    by (simp add: bget_def kthen_def kbind_def acquire_run del: scan_cached.simps scan_unused.simps)
qed


definition full_bufs :: "nat \<Rightarrow> buf" where
  "full_bufs b = (sample_bufs b)\<lparr>bvalid := True, bdev := 1, bblockno := 100 + of_nat b, brefcnt := 1\<rparr>"


end
