(* ===== verification/Umalloc.thy ===== *)
theory Umalloc
  imports Prelude
begin

text \<open>
  The allocator of the user library, user/umalloc.c: a circular list of free blocks in the
  order of their addresses. An address is a natural number, a header is at the start of each
  block; a size counts units of sizeof(Header) bytes.
\<close>

section \<open>The heap\<close>

definition HDR :: nat where "HDR = 16"

record block_header =
  h_ptr :: nat
  h_size :: u32

text \<open>
  \<open>hbase\<close> is the address of the static header \<open>base\<close>, \<open>freep\<close> the static variable (0 at
  first), \<open>brk\<close> the end of the process's memory; \<open>grants\<close> says which of the coming calls of
  sbrk the kernel can serve.
\<close>

record heap =
  hmem :: "nat \<Rightarrow> block_header"
  hbase :: nat
  freep :: nat
  brk :: nat
  grants :: "bool list"

abbreviation ptr :: "heap \<Rightarrow> nat \<Rightarrow> nat" where "ptr h p \<equiv> h_ptr (hmem h p)"
abbreviation units :: "heap \<Rightarrow> nat \<Rightarrow> u32" where "units h p \<equiv> h_size (hmem h p)"

definition set_ptr :: "nat \<Rightarrow> nat \<Rightarrow> heap \<Rightarrow> heap" where
  "set_ptr p q h = h\<lparr>hmem := (hmem h)(p := (hmem h p)\<lparr>h_ptr := q\<rparr>)\<rparr>"

definition set_units :: "nat \<Rightarrow> u32 \<Rightarrow> heap \<Rightarrow> heap" where
  "set_units p n h = h\<lparr>hmem := (hmem h)(p := (hmem h p)\<lparr>h_size := n\<rparr>)\<rparr>"

text \<open>\<open>p + n\<close> of the C code, for a pointer to a header.\<close>

definition hplus :: "nat \<Rightarrow> u32 \<Rightarrow> nat" where
  "hplus p n = p + HDR * unat n"

section \<open>free\<close>

text \<open>The loop: the place of the block in the list. It may run for ever on a damaged list.\<close>

partial_function (option) free_slot :: "heap \<Rightarrow> nat \<Rightarrow> nat \<Rightarrow> nat option" where
  "free_slot h bp p =
     (if p < bp \<and> bp < ptr h p then Some p
      else if ptr h p \<le> p \<and> (p < bp \<or> bp < ptr h p) then Some p
      else free_slot h bp (ptr h p))"

definition free_link_up :: "nat \<Rightarrow> nat \<Rightarrow> heap \<Rightarrow> heap" where
  "free_link_up bp p h =
     (if hplus bp (units h bp) = ptr h p
      then let h1 = set_units bp (units h bp + units h (ptr h p)) h in set_ptr bp (ptr h1 (ptr h1 p)) h1
      else set_ptr bp (ptr h p) h)"

definition free_link_down :: "nat \<Rightarrow> nat \<Rightarrow> heap \<Rightarrow> heap" where
  "free_link_down bp p h =
     (if hplus p (units h p) = bp
      then let h1 = set_units p (units h p + units h bp) h in set_ptr p (ptr h1 bp) h1
      else set_ptr p bp h)"

definition ufree :: "nat \<Rightarrow> heap \<Rightarrow> heap option" where
  "ufree ap h = (let bp = ap - HDR in
     case free_slot h bp (freep h) of
       None \<Rightarrow> None
     | Some p \<Rightarrow> Some ((free_link_down bp p (free_link_up bp p h))\<lparr>freep := p\<rparr>))"

section \<open>malloc\<close>

text \<open>
  sbrk takes an int; it returns the old end of memory or SBRK_ERROR, here \<open>None\<close>. A negative
  argument takes memory away, or nothing when there is not so much; that never fails.
\<close>

definition usbrk :: "int \<Rightarrow> heap \<Rightarrow> nat option \<times> heap" where
  "usbrk n h =
     (if n \<le> 0 then (Some (brk h), h\<lparr>brk := (if 0 \<le> int (brk h) + n then nat (int (brk h) + n) else brk h)\<rparr>)
      else case grants h of
        True # gs \<Rightarrow> (Some (brk h), h\<lparr>brk := brk h + nat n, grants := gs\<rparr>)
      | False # gs \<Rightarrow> (None, h\<lparr>grants := gs\<rparr>)
      | [] \<Rightarrow> (None, h))"

text \<open>The size in bytes is computed in 64 bits and then passed as an int.\<close>

definition morecore :: "u32 \<Rightarrow> heap \<Rightarrow> (nat \<times> heap) option" where
  "morecore nunits h =
     (let nu = (if nunits < 4096 then 4096 else nunits);
          bytes = sint (ucast (ucast nu * of_nat HDR :: u64) :: u32)
      in case usbrk bytes h of
           (None, h1) \<Rightarrow> Some (0, h1)
         | (Some p, h1) \<Rightarrow> (case ufree (p + HDR) (set_units p nu h1) of
             None \<Rightarrow> None
           | Some h2 \<Rightarrow> Some (freep h2, h2)))"

text \<open>A block that is large enough is taken whole, or its tail is.\<close>

definition malloc_take :: "u32 \<Rightarrow> nat \<Rightarrow> nat \<Rightarrow> heap \<Rightarrow> nat \<times> heap" where
  "malloc_take nunits prevp p h =
     (if units h p = nunits then (p + HDR, (set_ptr prevp (ptr h p) h)\<lparr>freep := prevp\<rparr>)
      else let h1 = set_units p (units h p - nunits) h;
               r = hplus p (units h1 p);
               h2 = set_units r nunits h1
           in (r + HDR, h2\<lparr>freep := prevp\<rparr>))"

partial_function (option) malloc_loop :: "u32 \<Rightarrow> nat \<Rightarrow> nat \<Rightarrow> heap \<Rightarrow> (nat \<times> heap) option" where
  "malloc_loop nunits prevp p h =
     (if nunits \<le> units h p then Some (malloc_take nunits prevp p h)
      else if p = freep h then
        (case morecore nunits h of
           None \<Rightarrow> None
         | Some (q, h1) \<Rightarrow> if q = 0 then Some (0, h1) else malloc_loop nunits q (ptr h1 q) h1)
      else malloc_loop nunits p (ptr h p) h)"

definition nunits_of :: "u32 \<Rightarrow> u32" where
  "nunits_of nbytes = ucast ((ucast nbytes + of_nat HDR - 1) div of_nat HDR + 1 :: u64)"

definition started :: "heap \<Rightarrow> heap" where
  "started h = (if freep h = 0 then set_units (hbase h) 0 ((set_ptr (hbase h) (hbase h) h)\<lparr>freep := hbase h\<rparr>) else h)"

definition malloc :: "u32 \<Rightarrow> heap \<Rightarrow> (nat \<times> heap) option" where
  "malloc nbytes h =
     (let nunits = nunits_of nbytes;
          h1 = started h
      in malloc_loop nunits (freep h1) (ptr h1 (freep h1)) h1)"

end
