(* ===== verification/FreeList.thy ===== *)
theory FreeList
  imports Umalloc
begin

text \<open>
  The invariant of the allocator of user/umalloc.c: the list runs through the free blocks in
  the order of their addresses and no two of them touch. free and malloc keep it, and give
  back and take exactly their block.
\<close>

section \<open>The circular list\<close>

definition hend :: "heap \<Rightarrow> nat \<Rightarrow> nat" where
  "hend h a = hplus a (units h a)"

text \<open>From \<open>a\<close> upwards through \<open>xs\<close>, with a gap after each block.\<close>

primrec asc :: "heap \<Rightarrow> nat \<Rightarrow> nat list \<Rightarrow> bool" where
  "asc h a [] \<longleftrightarrow> True"
| "asc h a (x # xs) \<longleftrightarrow> ptr h a = x \<and> hend h a < x \<and> 0 < units h x \<and> asc h x xs"

definition chain :: "heap \<Rightarrow> nat \<Rightarrow> nat list \<Rightarrow> bool" where
  "chain h a xs \<longleftrightarrow> asc h a xs \<and> ptr h (last (a # xs)) = hbase h \<and> hend h (last (a # xs)) \<le> brk h"

text \<open>
  All of memory lies below 2^36, so that a count of units fits the 32 bits of a size. The
  static header is an empty block in front of all others.
\<close>

definition heap_ok :: "heap \<Rightarrow> nat list \<Rightarrow> bool" where
  "heap_ok h L \<longleftrightarrow> chain h (hbase h) L \<and> 0 < hbase h \<and> units h (hbase h) = 0 \<and> freep h \<in> set (hbase h # L) \<and>
     hbase h + HDR \<le> brk h \<and> brk h \<le> 2 ^ 36"

definition block :: "heap \<Rightarrow> nat \<Rightarrow> nat set" where
  "block h a = {a ..< hend h a}"

definition area :: "heap \<Rightarrow> nat list \<Rightarrow> nat set" where
  "area h L = (\<Union>a \<in> set L. block h a)"

lemma hend_ge: "a \<le> hend h a"
  by (simp add: hend_def hplus_def)

lemma pos_units: "0 < units h a \<Longrightarrow> a < hend h a"
  by (simp add: hend_def hplus_def HDR_def unat_gt_0)

lemma asc_append: "asc h a (xs @ ys) \<longleftrightarrow> asc h a xs \<and> asc h (last (a # xs)) ys"
  by (induction xs arbitrary: a) auto

lemma asc_above: "asc h a xs \<Longrightarrow> x \<in> set xs \<Longrightarrow> hend h a < x"
proof (induction xs arbitrary: a)
  case (Cons y ys)
  then show ?case using hend_ge [of y h] by (fastforce dest: less_trans le_less_trans)
qed simp

lemma asc_pos: "asc h a xs \<Longrightarrow> x \<in> set xs \<Longrightarrow> 0 < units h x"
  by (induction xs arbitrary: a) auto

lemma asc_above': "asc h a xs \<Longrightarrow> x \<in> set xs \<Longrightarrow> a < x"
  using asc_above [of h a xs x] hend_ge [of a h] by simp

lemma asc_distinct: "asc h a xs \<Longrightarrow> distinct (a # xs)"
proof (induction xs arbitrary: a)
  case (Cons y ys)
  have "x \<noteq> a" if "x \<in> set (y # ys)" for x using asc_above' [OF Cons.prems that] by simp
  then show ?case using Cons by auto
qed simp

lemma asc_head:
  assumes "asc h a xs" and "ptr h' b = ptr h a" and "hend h' b \<le> hend h a" and "\<forall>c \<in> set xs. hmem h' c = hmem h c"
  shows "asc h' b xs"
  using assms
proof (induction xs arbitrary: a b)
  case (Cons y ys)
  have "hend h' y = hend h y" using Cons.prems(4) by (simp add: hend_def)
  then show ?case using Cons by auto
qed simp

text \<open>Only the size of the last block matters, and only that it is not 0.\<close>

lemma asc_last:
  assumes "asc h a xs" and "\<forall>c \<in> set (a # xs). c \<noteq> last (a # xs) \<longrightarrow> hmem h' c = hmem h c"
    and "xs \<noteq> [] \<longrightarrow> 0 < units h' (last (a # xs))"
  shows "asc h' a xs"
  using assms
proof (induction xs arbitrary: a)
  case (Cons y ys)
  have "last (y # ys) \<in> set (y # ys)" by (rule last_in_set) simp
  then have "a \<noteq> last (y # ys)" using asc_distinct [OF Cons.prems(1)] by auto
  then have same: "hmem h' a = hmem h a" using Cons.prems(2) by simp
  have "asc h' y ys" by (rule Cons.IH) (use Cons.prems in auto)
  moreover have "0 < units h' y"
    using Cons.prems by (cases ys) auto
  ultimately show ?case using Cons.prems(1) same by (simp add: hend_def)
qed simp

lemma chain_append: "chain h a (xs @ ys) \<longleftrightarrow> asc h a xs \<and> chain h (last (a # xs)) ys"
  by (cases ys) (auto simp: chain_def asc_append)

lemma chain_head:
  assumes "chain h a xs" and "ptr h' b = ptr h a" and "hend h' b \<le> hend h a" and "\<forall>c \<in> set xs. hmem h' c = hmem h c"
    and "hbase h' = hbase h" and "brk h' = brk h"
  shows "chain h' b xs"
proof -
  have "ptr h' (last (b # xs)) = ptr h (last (a # xs)) \<and> hend h' (last (b # xs)) \<le> hend h (last (a # xs))"
  proof (cases "xs = []")
    case False
    then have "hmem h' (last xs) = hmem h (last xs)" using assms(4) last_in_set by blast
    then show ?thesis using False by (simp add: hend_def)
  qed (use assms(2,3) in simp)
  then show ?thesis using assms asc_head [OF _ assms(2-4)] by (auto simp: chain_def)
qed

lemma area_simps [simp]:
  "area h [] = {}" "area h (a # xs) = block h a \<union> area h xs" "area h (xs @ ys) = area h xs \<union> area h ys"
  by (auto simp: area_def)

lemma area_cong: "(\<forall>c \<in> set xs. hmem h' c = hmem h c) \<Longrightarrow> area h' xs = area h xs"
  by (auto simp: area_def block_def hend_def)

lemma block_base: "units h a = 0 \<Longrightarrow> block h a = {}"
  by (simp add: block_def hend_def hplus_def)

section \<open>The place of a block\<close>

lemma slot_up:
  assumes "asc h p ys" and "ptr h (last (p # ys)) = b" and "b \<le> p" and "p < bp" and "bp \<notin> set ys"
  shows "free_slot h bp p = Some (last (p # takeWhile (\<lambda>y. y < bp) ys))"
  using assms
proof (induction ys arbitrary: p)
  case Nil
  then show ?case by (simp add: free_slot.simps [of h bp p])
next
  case (Cons y ys)
  have y: "ptr h p = y" "p < y" using Cons.prems(1) asc_above' [OF Cons.prems(1), of y] by simp_all
  show ?case
  proof (cases "bp < y")
    case True
    then show ?thesis using y Cons.prems(4) by (simp add: free_slot.simps [of h bp p])
  next
    case False
    then have "y < bp" using Cons.prems(5) by simp
    then have "free_slot h bp y = Some (last (y # takeWhile (\<lambda>y. y < bp) ys))"
      by (intro Cons.IH) (use Cons.prems y in auto)
    then show ?thesis using y False \<open>y < bp\<close> by (simp add: free_slot.simps [of h bp p])
  qed
qed

lemma slot_wrap:
  assumes "asc h p ys" and "ptr h (last (p # ys)) = b" and "b < bp" and "bp < p"
  shows "free_slot h bp p = free_slot h bp b"
  using assms
proof (induction ys arbitrary: p)
  case Nil
  then show ?case by (simp add: free_slot.simps [of h bp p])
next
  case (Cons y ys)
  have y: "ptr h p = y" "p < y" using Cons.prems(1) asc_above' [OF Cons.prems(1), of y] by simp_all
  then have "free_slot h bp y = free_slot h bp b" by (intro Cons.IH) (use Cons.prems in auto)
  then show ?case using y Cons.prems(4) by (simp add: free_slot.simps [of h bp p])
qed

text \<open>Wherever the search starts it finds the last block below \<open>bp\<close>.\<close>

lemma slot_found:
  assumes ok: "heap_ok h L" and bp: "hbase h < bp" "bp \<notin> set L"
  shows "free_slot h bp (freep h) = Some (last (hbase h # takeWhile (\<lambda>y. y < bp) L))"
proof -
  let ?b = "hbase h" and ?f = "freep h"
  have L: "asc h ?b L" "ptr h (last (?b # L)) = ?b" and f: "?f \<in> set (?b # L)"
    using ok by (simp_all add: heap_ok_def chain_def)
  have base: "free_slot h bp ?b = Some (last (?b # takeWhile (\<lambda>y. y < bp) L))"
    by (rule slot_up [OF L]) (use bp in simp_all)
  show ?thesis
  proof (cases "?f = ?b")
    case True
    then show ?thesis using base by simp
  next
    case False
    then obtain us vs where s: "L = us @ ?f # vs" using f by (auto dest: split_list)
    have v: "asc h ?f vs" "ptr h (last (?f # vs)) = ?b" "?b < ?f" and u: "asc h ?b (us @ [?f])"
      using L asc_above' [OF L(1) , of ?f] by (auto simp: s asc_append)
    show ?thesis
    proof (cases "bp < ?f")
      case True
      then show ?thesis using slot_wrap [OF v(1,2) bp(1)] base by simp
    next
      case False
      then have less: "?f < bp" using bp(2) s by (metis in_set_conv_decomp linorder_neqE_nat)
      have "x < ?f" if x: "x \<in> set us" for x
      proof -
        obtain as bs where us: "us = as @ x # bs" using x by (meson split_list)
        have "asc h x (bs @ [?f])" using u by (simp add: us asc_append)
        then show ?thesis by (rule asc_above') simp
      qed
      then have all: "\<forall>x \<in> set (us @ [?f]). x < bp" using less by (auto intro: less_trans)
      have "takeWhile (\<lambda>y. y < bp) L = us @ ?f # takeWhile (\<lambda>y. y < bp) vs"
        using all unfolding s by (subst takeWhile_append2) auto
      moreover have "free_slot h bp ?f = Some (last (?f # takeWhile (\<lambda>y. y < bp) vs))"
        by (rule slot_up [OF v(1,2)]) (use v(3) less bp s in auto)
      ultimately show ?thesis by simp
    qed
  qed
qed

section \<open>Joining the neighbours\<close>

lemma set_simps [simp]:
  "hmem (set_ptr p q h) = (hmem h)(p := (hmem h p)\<lparr>h_ptr := q\<rparr>)" "hmem (set_units p n h) = (hmem h)(p := (hmem h p)\<lparr>h_size := n\<rparr>)"
  "hbase (set_ptr p q h) = hbase h" "hbase (set_units p n h) = hbase h" "brk (set_ptr p q h) = brk h" "brk (set_units p n h) = brk h"
  "freep (set_ptr p q h) = freep h" "freep (set_units p n h) = freep h" "grants (set_ptr p q h) = grants h" "grants (set_units p n h) = grants h"
  by (simp_all add: set_ptr_def set_units_def)

text \<open>Sizes of adjacent blocks add up without wrap-around.\<close>

lemma units_add:
  assumes "hplus a m + HDR * unat n \<le> 2 ^ 36" and "0 < a"
  shows "unat (m + n) = unat m + unat n" "hplus a (m + n) = hplus (hplus a m) n"
proof -
  have "unat m + unat n < 2 ^ 32" using assms unfolding hplus_def HDR_def by simp
  then show "unat (m + n) = unat m + unat n" by (simp add: unat_word_ariths)
  then show "hplus a (m + n) = hplus (hplus a m) n" by (simp add: hplus_def algebra_simps)
qed

lemma chain_bound: "chain h a xs \<Longrightarrow> hend h a \<le> brk h"
proof (induction xs arbitrary: a)
  case (Cons y ys)
  then have "chain h y ys" "hend h a < y" by (auto simp: chain_def)
  then show ?case using Cons.IH [of y] hend_ge [of y h] by simp
qed (simp add: chain_def)

text \<open>The block is put in front of the rest of the list, and swallows the next one it touches.\<close>

lemma link_up:
  assumes rest: "chain h p ys" and bp: "0 < units h bp" "p < bp" "hend h bp \<le> brk h" "hbase h < bp" "\<forall>y \<in> set ys. hend h bp \<le> y"
    and lim: "brk h \<le> 2 ^ 36" "0 < bp"
  shows "\<exists>zs. chain (free_link_up bp p h) bp zs \<and> set zs \<subseteq> set ys \<and>
    block (free_link_up bp p h) bp \<union> area (free_link_up bp p h) zs = block h bp \<union> area h ys \<and>
    units h bp \<le> units (free_link_up bp p h) bp"
proof (cases ys)
  case Nil
  then have p: "ptr h p = hbase h" using rest by (simp add: chain_def)
  then have "free_link_up bp p h = set_ptr bp (hbase h) h"
    using bp(4) hend_ge [of bp h] by (simp add: free_link_up_def hend_def)
  then show ?thesis
    using Nil bp by (intro exI [of _ "[]"]) (simp add: chain_def hend_def block_def)
next
  case (Cons q qs)
  have p: "ptr h p = q" and q: "chain h q qs" "0 < units h q" "p < q"
    using rest hend_ge [of p h] by (auto simp: Cons chain_def)
  have b: "bp < hend h bp" by (rule pos_units [OF bp(1)])
  have ne: "bp \<notin> set ys" using bp(5) b by auto
  show ?thesis
  proof (cases "hend h bp = q")
    case False
    then have "free_link_up bp p h = set_ptr bp q h" by (simp add: free_link_up_def p hend_def)
    moreover have "hend h bp < q" using False bp(5) Cons by auto
    moreover have "chain (set_ptr bp q h) q qs"
      by (rule chain_head [OF q(1)]) (use ne Cons in \<open>auto simp: hend_def\<close>)
    moreover have "area (set_ptr bp q h) ys = area h ys" by (rule area_cong) (use ne in auto)
    ultimately show ?thesis
      using Cons q(2) ne by (intro exI [of _ ys]) (auto simp: chain_def hend_def block_def)
  next
    case True
    have fit: "hplus bp (units h bp) + HDR * unat (units h q) \<le> 2 ^ 36"
      using chain_bound [OF q(1)] True lim(1) by (simp add: hend_def hplus_def)
    note sum = units_add [OF fit lim(2)]
    let ?h = "free_link_up bp p h"
    have h: "?h = set_ptr bp (ptr h q) (set_units bp (units h bp + units h q) h)"
      using True ne Cons bp(2) by (simp add: free_link_up_def hend_def p Let_def)
    have e: "hend ?h bp = hend h q" using sum(2) True by (simp add: h hend_def)
    have "chain ?h bp qs"
      by (rule chain_head [OF q(1)]) (use e ne Cons in \<open>auto simp: h\<close>)
    moreover have "area ?h qs = area h qs" by (rule area_cong) (use ne Cons in \<open>auto simp: h\<close>)
    moreover have "block ?h bp = block h bp \<union> block h q"
      using e True b hend_ge [of q h] by (auto simp: block_def)
    moreover have "units h bp \<le> units ?h bp"
      using sum(1) by (simp add: h word_le_nat_alt)
    ultimately show ?thesis using Cons by (intro exI [of _ qs]) auto
  qed
qed

lemma link_down:
  assumes rest: "chain h bp zs" and p: "p < bp" "hend h p \<le> bp" "p \<notin> set zs" and bp: "0 < units h bp" and lim: "brk h \<le> 2 ^ 36" "0 < p"
  shows "\<exists>vs. chain (free_link_down bp p h) p vs \<and> set vs \<subseteq> insert bp (set zs) \<and>
    block (free_link_down bp p h) p \<union> area (free_link_down bp p h) vs = block h p \<union> block h bp \<union> area h zs \<and>
    units h p \<le> units (free_link_down bp p h) p \<and> (\<exists>v \<in> insert p (set vs). units h bp \<le> units (free_link_down bp p h) v) \<and>
    (units h p = 0 \<longrightarrow> units (free_link_down bp p h) p = 0)"
proof (cases "hend h p = bp")
  case False
  let ?h = "free_link_down bp p h"
  have h: "?h = set_ptr p bp h" using False by (simp add: free_link_down_def hend_def)
  have "chain ?h bp zs"
    by (rule chain_head [OF rest]) (use p in \<open>auto simp: h hend_def\<close>)
  moreover have "area ?h (bp # zs) = area h (bp # zs)" by (rule area_cong) (use p in \<open>auto simp: h\<close>)
  moreover have "hend h p < bp" using False p(2) by simp
  ultimately show ?thesis
    using bp p by (intro exI [of _ "bp # zs"]) (auto simp: h chain_def hend_def block_def)
next
  case True
  let ?h = "free_link_down bp p h"
  have fit: "hplus p (units h p) + HDR * unat (units h bp) \<le> 2 ^ 36"
    using chain_bound [OF rest] True lim(1) by (simp add: hend_def hplus_def)
  note sum = units_add [OF fit lim(2)]
  have h: "?h = set_ptr p (ptr h bp) (set_units p (units h p + units h bp) h)"
    using True p(1) by (simp add: free_link_down_def hend_def Let_def)
  have e: "hend ?h p = hend h bp" using sum(2) True by (simp add: h hend_def)
  have "chain ?h p zs"
    by (rule chain_head [OF rest]) (use e p in \<open>auto simp: h\<close>)
  moreover have "area ?h zs = area h zs" by (rule area_cong) (use p in \<open>auto simp: h\<close>)
  moreover have "block ?h p = block h p \<union> block h bp"
    using e True p hend_ge [of bp h] by (auto simp: block_def)
  moreover have "units h p \<le> units ?h p" "units h bp \<le> units ?h p"
    using sum(1) by (simp_all add: h word_le_nat_alt)
  moreover have "units h p \<noteq> 0" using True p(1) by (auto simp: hend_def hplus_def)
  ultimately show ?thesis by (intro exI [of _ zs]) auto
qed

lemma link_fields [simp]:
  "hbase (free_link_up bp p h) = hbase h" "brk (free_link_up bp p h) = brk h" "grants (free_link_up bp p h) = grants h"
  "hbase (free_link_down bp p h) = hbase h" "brk (free_link_down bp p h) = brk h" "grants (free_link_down bp p h) = grants h"
  "c \<noteq> bp \<Longrightarrow> hmem (free_link_up bp p h) c = hmem h c" "c \<noteq> p \<Longrightarrow> hmem (free_link_down bp p h) c = hmem h c"
  by (simp_all add: free_link_up_def free_link_down_def Let_def)

lemma heap_freep: "chain (h\<lparr>freep := f\<rparr>) a xs = chain h a xs" "area (h\<lparr>freep := f\<rparr>) xs = area h xs" "block (h\<lparr>freep := f\<rparr>) a = block h a"
proof -
  have "asc (h\<lparr>freep := f\<rparr>) a xs = asc h a xs" for a by (induction xs arbitrary: a) (simp_all add: hend_def)
  then show "chain (h\<lparr>freep := f\<rparr>) a xs = chain h a xs" by (simp add: chain_def hend_def)
qed (simp_all add: area_def block_def hend_def)

text \<open>A block that is not free, at \<open>bp\<close>.\<close>

definition used :: "heap \<Rightarrow> nat list \<Rightarrow> nat \<Rightarrow> bool" where
  "used h L bp \<longleftrightarrow> hbase h < bp \<and> 0 < units h bp \<and> hend h bp \<le> brk h \<and> block h bp \<inter> area h L = {}"

lemma used_apart:
  assumes "used h L bp" and "y \<in> set L" and "0 < units h y"
  shows "y < bp \<Longrightarrow> hend h y \<le> bp" "bp \<le> y \<Longrightarrow> hend h bp \<le> y"
proof -
  have b: "bp < hend h bp" "y < hend h y" using assms pos_units by (auto simp: used_def)
  have "x \<notin> block h bp \<or> x \<notin> block h y" for x using assms(1,2) by (auto simp: used_def area_def)
  from this [of bp] this [of y] b show "y < bp \<Longrightarrow> hend h y \<le> bp" "bp \<le> y \<Longrightarrow> hend h bp \<le> y"
    by (auto simp: block_def)
qed

lemma free_gives_back:
  assumes ok: "heap_ok h L" and used: "used h L bp"
  shows "\<exists>h' L'. ufree (bp + HDR) h = Some h' \<and> heap_ok h' L' \<and> area h' L' = area h L \<union> block h bp \<and> brk h' = brk h \<and>
    grants h' = grants h \<and> hbase h' = hbase h \<and> (\<forall>c. c \<notin> insert bp (set (hbase h # L)) \<longrightarrow> hmem h' c = hmem h c) \<and>
    (\<exists>v \<in> set L'. units h bp \<le> units h' v)"
proof -
  let ?b = "hbase h"
  define xs ys where "xs = takeWhile (\<lambda>y. y < bp) L" and "ys = dropWhile (\<lambda>y. y < bp) L"
  define p where "p = last (?b # xs)"
  have L: "L = xs @ ys" by (simp add: xs_def ys_def)
  have c: "asc h ?b xs" "chain h p ys" "0 < ?b" "units h ?b = 0" "brk h \<le> 2 ^ 36"
    using ok by (simp_all add: heap_ok_def L chain_append p_def)
  have pos: "0 < units h y" if "y \<in> set L" for y
    using ok asc_pos that by (auto simp: heap_ok_def chain_def)
  have u: "?b < bp" "0 < units h bp" "hend h bp \<le> brk h" using used by (simp_all add: used_def)
  note apart = used_apart [OF used _ pos]
  have xs: "y < bp \<and> hend h y \<le> bp" if "y \<in> set xs" for y
  proof -
    have y: "y \<in> set L" "y < bp" using set_takeWhileD that unfolding xs_def by fast+
    show ?thesis using apart(1) [OF y(1) y(1) y(2)] y(2) by simp
  qed
  have ge: "bp \<le> y" if y: "y \<in> set ys" for y
  proof -
    obtain z zs where ys: "ys = z # zs" using y by (cases ys) auto
    then have "bp \<le> z" unfolding ys_def by (metis (mono_tags) dropWhile_eq_Cons_conv not_le)
    moreover have "asc h z zs" using c(2) by (simp add: ys chain_def)
    then have "z \<le> y" using y asc_above' [of h z zs y] by (auto simp: ys)
    ultimately show ?thesis by simp
  qed
  have ys: "hend h bp \<le> y" if "y \<in> set ys" for y
  proof -
    have "y \<in> set L" using that by (simp add: L)
    then show ?thesis using apart(2) ge [OF that] by blast
  qed
  have bpL: "bp \<notin> set L"
    using apart(2) [of bp] pos_units [OF u(2)] by auto
  have p: "p < bp" "hend h p \<le> bp" "0 < p" "p \<in> set (?b # xs)"
  proof -
    show in': "p \<in> set (?b # xs)" unfolding p_def by (rule last_in_set) simp
    have "?b \<le> p" using asc_above' [OF c(1), of p] in' by (cases "p = ?b") auto
    then show "0 < p" using c(3) by simp
    show "p < bp" "hend h p \<le> bp" using in' xs [of p] u(1) c(4) by (auto simp: hend_def hplus_def)
  qed
  have slot: "free_slot h bp (freep h) = Some p"
    using slot_found [OF ok u(1) bpL] by (simp add: p_def xs_def)
  let ?h1 = "free_link_up bp p h"
  obtain zs where zs: "chain ?h1 bp zs" "set zs \<subseteq> set ys" "block ?h1 bp \<union> area ?h1 zs = block h bp \<union> area h ys"
      "units h bp \<le> units ?h1 bp"
    using link_up [OF c(2) u(2) p(1) u(3,1) _ c(5)] ys u(1) by auto
  let ?h2 = "free_link_down bp p ?h1"
  have same: "hmem ?h1 p = hmem h p" using p(1) by simp
  then have p1: "hend ?h1 p = hend h p" "block ?h1 p = block h p" by (simp_all add: hend_def block_def)
  have "p \<notin> set zs" using zs(2) ge p(1) by force
  moreover have "0 < units ?h1 bp" using zs(4) u(2) by (simp add: word_less_nat_alt word_le_nat_alt)
  ultimately obtain vs where vs: "chain ?h2 p vs" "set vs \<subseteq> insert bp (set zs)"
      "block ?h2 p \<union> area ?h2 vs = block h p \<union> block ?h1 bp \<union> area ?h1 zs" "units h p \<le> units ?h2 p"
      "\<exists>v \<in> insert p (set vs). units ?h1 bp \<le> units ?h2 v" "units h p = 0 \<longrightarrow> units ?h2 p = 0"
    using link_down [OF zs(1) p(1), unfolded p1(1) link_fields same] p(2,3) c(5) p1(2) by auto
  let ?h = "?h2\<lparr>freep := p\<rparr>" and ?L = "xs @ vs"
  define ws where "ws = butlast (?b # xs)"
  have ws: "?b # xs = ws @ [p]" unfolding ws_def p_def by (rule append_butlast_last_id [symmetric]) simp
  have "distinct (?b # xs)" by (rule asc_distinct [OF c(1)])
  then have pw: "p \<notin> set ws" unfolding ws by simp
  have keep: "hmem ?h2 a = hmem h a" if "a \<noteq> p" "a \<noteq> bp" for a using that by simp
  have old: "\<forall>a \<in> set ws. hmem ?h2 a = hmem h a"
  proof
    fix a
    assume "a \<in> set ws"
    then have "a \<in> set (?b # xs)" "a \<noteq> p" using pw unfolding ws by auto
    moreover from this have "a \<noteq> bp" using xs u(1) by auto
    ultimately show "hmem ?h2 a = hmem h a" using keep by simp
  qed
  have "asc ?h2 ?b xs"
  proof (rule asc_last [OF c(1)])
    show "\<forall>a \<in> set (?b # xs). a \<noteq> last (?b # xs) \<longrightarrow> hmem ?h2 a = hmem h a"
      using old unfolding ws by (simp del: link_fields)
    have "0 < units h p" if "xs \<noteq> []" using that pos [of p] by (simp add: p_def L)
    then show "xs \<noteq> [] \<longrightarrow> 0 < units ?h2 (last (?b # xs))"
      using vs(4) unfolding p_def [symmetric] by (auto intro: less_le_trans)
  qed
  then have chain: "chain ?h2 ?b ?L" using vs(1) by (simp add: chain_append p_def)
  have b0: "units ?h2 ?b = 0"
  proof (cases "p = ?b")
    case True
    then show ?thesis using vs(6) c(4) by simp
  next
    case False
    then show ?thesis using keep [of ?b] u(1) c(4) by simp
  qed
  have "area ?h2 (?b # xs) \<union> area ?h2 vs = area ?h2 ws \<union> (block ?h2 p \<union> area ?h2 vs)"
    unfolding ws by (simp add: Un_assoc)
  also have "\<dots> = area h ws \<union> (block h p \<union> (block h bp \<union> area h ys))"
    unfolding vs(3) zs(3) [symmetric] area_cong [OF old] by (simp only: Un_assoc)
  also have "\<dots> = area h (?b # xs) \<union> area h ys \<union> block h bp"
    unfolding ws by auto
  finally have area: "area ?h2 ?L = area h L \<union> block h bp"
    using block_base [OF b0] block_base [OF c(4)] by (simp add: L)
  obtain v where v: "v \<in> insert p (set vs)" "units h bp \<le> units ?h2 v"
    using vs(5) zs(4) order_trans by blast
  then have "v \<noteq> ?b" using b0 u(2) by (auto simp: word_le_nat_alt word_less_nat_alt)
  then have big: "v \<in> set ?L" using v(1) p(4) by auto
  have "hbase h + HDR \<le> brk h" using ok by (simp add: heap_ok_def)
  then have "heap_ok ?h ?L"
    using chain c(3,5) b0 p(4) by (auto simp: heap_ok_def heap_freep)
  moreover have "ufree (bp + HDR) h = Some ?h" using slot by (simp add: ufree_def Let_def)
  moreover have "hmem ?h a = hmem h a" if "a \<notin> insert bp (set (?b # L))" for a
  proof -
    have "a \<noteq> p" "a \<noteq> bp" using that p(4) L by auto
    then show ?thesis using keep by simp
  qed
  ultimately show ?thesis
    using area v(2) big by (intro exI [of _ ?h] exI [of _ ?L]) (auto simp: heap_freep)
qed

section \<open>Taking a block\<close>

lemma chain_Cons: "chain h a (x # xs) \<longleftrightarrow> ptr h a = x \<and> hend h a < x \<and> 0 < units h x \<and> chain h x xs"
  by (auto simp: chain_def)

lemma chain_bounds: "chain h a xs \<Longrightarrow> x \<in> set xs \<Longrightarrow> hend h x \<le> brk h"
proof (induction xs arbitrary: a)
  case (Cons y ys)
  then show ?case using chain_bound [of h y ys] by (auto simp: chain_Cons)
qed simp

lemma area_bound: "chain h a xs \<Longrightarrow> area h xs \<subseteq> {..<brk h}"
  using chain_bounds [of h a xs] by (fastforce simp: area_def block_def)

text \<open>The blocks of the list are apart.\<close>

lemma asc_before:
  assumes "asc h a (xs @ c # ys)" and x: "x \<in> set (a # xs)"
  shows "hend h x < c"
proof (cases "x = a")
  case True
  then show ?thesis using asc_above [OF assms(1)] by simp
next
  case False
  then obtain us vs where "xs = us @ x # vs" using x by (metis set_ConsD split_list)
  then have "asc h x (vs @ c # ys)" using assms(1) by (simp add: asc_append)
  then show ?thesis by (rule asc_above) simp
qed

lemma asc_apart:
  assumes "asc h a (xs @ c # ys)"
  shows "block h c \<inter> area h xs = {}" "block h c \<inter> area h ys = {}"
proof -
  have "hend h x < c" if "x \<in> set xs" for x using asc_before [OF assms] that by simp
  then show "block h c \<inter> area h xs = {}" by (fastforce simp: area_def block_def)
  have "asc h c ys" using assms by (simp add: asc_append)
  then have "hend h c < y" if "y \<in> set ys" for y using asc_above that by blast
  then show "block h c \<inter> area h ys = {}" by (fastforce simp: area_def block_def)
qed

lemma take_whole:
  assumes ok: "heap_ok h (xs @ c # ys)" and r: "r = last (hbase h # xs)"
  shows "heap_ok ((set_ptr r (ptr h c) h)\<lparr>freep := r\<rparr>) (xs @ ys)"
proof -
  let ?h = "set_ptr r (ptr h c) h"
  have c: "asc h (hbase h) xs" "ptr h r = c" "hend h r < c" "0 < units h c" "chain h c ys"
    using ok by (simp_all add: heap_ok_def chain_append chain_Cons r)
  have in': "r \<in> set (hbase h # xs)" unfolding r by (rule last_in_set) simp
  have "asc h (hbase h) (xs @ c # ys)" using ok by (simp add: heap_ok_def chain_def)
  then have "distinct (hbase h # xs @ c # ys)" by (rule asc_distinct)
  then have ne: "r \<notin> set (c # ys)" using in' by auto
  have "0 < units h r" if "xs \<noteq> []" using asc_pos [OF c(1)] that by (simp add: r)
  then have "asc ?h (hbase h) xs"
    by (intro asc_last [OF c(1)]) (auto simp: r)
  moreover have "chain ?h r ys"
  proof (rule chain_head [OF c(5)])
    show "hend ?h r \<le> hend h c" using c(3) hend_ge [of c h] by (simp add: hend_def)
  qed (use ne in auto)
  ultimately have "chain ?h (hbase h) (xs @ ys)" by (simp add: chain_append r)
  then show ?thesis using ok in' by (auto simp: heap_ok_def heap_freep)
qed

lemma take_tail:
  assumes ok: "heap_ok h (xs @ c # ys)" and r: "r \<in> set (hbase h # xs @ c # ys)" and n: "0 < n" "n < units h c"
  defines "b \<equiv> hplus c (units h c - n)"
  defines "h' \<equiv> (set_units b n (set_units c (units h c - n) h))\<lparr>freep := r\<rparr>"
  shows "heap_ok h' (xs @ c # ys)" "c < b" "units h' b = n" "hend h' b = hend h c" "block h' c = {c..<b}"
    "\<forall>y \<in> set (xs @ ys). hmem h' y = hmem h y"
proof -
  let ?h = "set_units b n (set_units c (units h c - n) h)"
  have c: "asc h (hbase h) xs" "ptr h (last (hbase h # xs)) = c" "hend h (last (hbase h # xs)) < c" "chain h c ys"
    using ok by (simp_all add: heap_ok_def chain_append chain_Cons)
  have less: "unat (units h c - n) = unat (units h c) - unat n" "unat n < unat (units h c)" "0 < unat n"
    using n by (simp_all add: unat_sub word_less_nat_alt word_le_nat_alt)
  then show cb: "c < b" by (simp add: b_def hplus_def HDR_def)
  have be: "b + HDR * unat n = hend h c"
    using less by (simp add: b_def hend_def hplus_def HDR_def)
  then have bc: "b < hend h c" using less(3) unfolding HDR_def by simp
  have "asc h (hbase h) (xs @ c # ys)" using ok by (simp add: heap_ok_def chain_def)
  then have below: "\<forall>x \<in> set (hbase h # xs). x < c"
    using asc_before hend_ge le_less_trans by blast
  have above: "\<forall>y \<in> set ys. hend h c < y"
    using asc_above [of h c ys] c(4) by (simp add: chain_def)
  show keep: "\<forall>y \<in> set (xs @ ys). hmem h' y = hmem h y"
    using below above cb bc by (fastforce simp: h'_def)
  have keep0: "hmem ?h x = hmem h x" if "x \<in> set (hbase h # xs)" for x
    using below that cb by auto
  show u: "units h' b = n" "hend h' b = hend h c" "block h' c = {c..<b}"
    using cb be by (simp_all add: h'_def hend_def hplus_def block_def) (simp_all add: b_def hplus_def)
  have asc: "asc ?h (hbase h) xs"
    by (rule asc_head [OF c(1)]) (use keep0 in \<open>simp_all add: hend_def\<close>)
  have "last (hbase h # xs) \<in> set (hbase h # xs)" by (rule last_in_set) simp
  then have l: "hmem ?h (last (hbase h # xs)) = hmem h (last (hbase h # xs))" by (rule keep0)
  have "chain ?h c ys"
  proof (rule chain_head [OF c(4)])
    show "hend ?h c \<le> hend h c" using cb bc by (simp add: hend_def b_def)
    show "\<forall>y \<in> set ys. hmem ?h y = hmem h y" using keep by (simp add: h'_def)
  qed (use cb in simp_all)
  moreover have "0 < units ?h c" using cb less by (simp add: word_less_nat_alt)
  ultimately have "chain ?h (hbase h) (xs @ c # ys)"
    using asc c(2,3) l by (simp add: chain_append chain_Cons hend_def)
  then show "heap_ok h' (xs @ c # ys)"
    using ok r keep0 [of "hbase h"] by (simp add: heap_ok_def heap_freep h'_def)
qed

section \<open>The search of malloc\<close>

text \<open>Once around the list: \<open>cs\<close> are the blocks met after \<open>q\<close>, up to freep.\<close>

primrec walk_list :: "heap \<Rightarrow> nat \<Rightarrow> nat list \<Rightarrow> bool" where
  "walk_list h q [] \<longleftrightarrow> True"
| "walk_list h q (c # cs) \<longleftrightarrow> ptr h q = c \<and> walk_list h c cs"

definition more :: "u32 \<Rightarrow> heap \<Rightarrow> (nat \<times> heap) option" where
  "more n h = (case morecore n h of
     None \<Rightarrow> None
   | Some (q, h1) \<Rightarrow> if q = 0 then Some (0, h1) else malloc_loop n q (ptr h1 q) h1)"

lemma malloc_loop_step:
  "malloc_loop n q p h = (if n \<le> units h p then Some (malloc_take n q p h)
     else if p = freep h then more n h else malloc_loop n p (ptr h p) h)"
  by (simp only: malloc_loop.simps [of n q p h] more_def)

lemma search_run:
  assumes "walk_list h q cs" and "cs \<noteq> []" and "last cs = freep h" and "distinct cs"
  shows "malloc_loop n q (ptr h q) h = (case find (\<lambda>(r, c). n \<le> units h c) (zip (q # cs) cs) of
    Some (r, c) \<Rightarrow> Some (malloc_take n r c h) | None \<Rightarrow> more n h)"
  using assms
proof (induction cs arbitrary: q)
  case (Cons c cs)
  show ?case
  proof (cases "cs = []")
    case True
    then show ?thesis using Cons.prems by (simp add: malloc_loop_step [of n q])
  next
    case False
    then have "c \<noteq> freep h" using Cons.prems(3,4) last_in_set [OF False] by auto
    moreover have "malloc_loop n c (ptr h c) h = (case find (\<lambda>(r, c). n \<le> units h c) (zip (c # cs) cs) of
        Some (r, c) \<Rightarrow> Some (malloc_take n r c h) | None \<Rightarrow> more n h)"
      by (rule Cons.IH) (use Cons.prems False in auto)
    ultimately show ?thesis using Cons.prems by (simp add: malloc_loop_step [of n q])
  qed
qed simp

lemma walk_append: "walk_list h q (xs @ ys) \<longleftrightarrow> walk_list h q xs \<and> walk_list h (last (q # xs)) ys"
  by (induction xs arbitrary: q) auto

lemma walk_asc: "asc h q xs \<Longrightarrow> walk_list h q xs"
  by (induction xs arbitrary: q) auto

lemma walk_zip: "walk_list h q cs \<Longrightarrow> (r, c) \<in> set (zip (q # cs) cs) \<Longrightarrow> ptr h r = c \<and> r \<in> set (q # cs) \<and> c \<in> set cs"
  by (induction cs arbitrary: q) auto

text \<open>The round trip from freep visits the static header and every free block.\<close>

lemma round_trip:
  assumes "heap_ok h L"
  shows "\<exists>cs. walk_list h (freep h) cs \<and> cs \<noteq> [] \<and> last cs = freep h \<and> distinct cs \<and> set cs = set (hbase h # L)"
proof -
  let ?b = "hbase h" and ?f = "freep h"
  have L: "asc h ?b L" "ptr h (last (?b # L)) = ?b" and f: "?f \<in> set (?b # L)"
    using assms by (simp_all add: heap_ok_def chain_def)
  note d = asc_distinct [OF L(1)]
  obtain us vs where s: "?b # L = us @ ?f # vs" using f by (meson split_list)
  show ?thesis
  proof (cases us)
    case Nil
    then have "?f = ?b" "vs = L" using s by simp_all
    then show ?thesis using L d walk_asc [OF L(1)] by (intro exI [of _ "L @ [?b]"]) (auto simp: walk_append)
  next
    case (Cons b us')
    then have e: "b = ?b" "L = us' @ ?f # vs" using s by simp_all
    then have "walk_list h ?b (us' @ [?f])" "walk_list h ?f vs" "ptr h (last (?f # vs)) = ?b"
      using L walk_asc by (simp_all add: asc_append)
    then show ?thesis using d e by (intro exI [of _ "vs @ ?b # us' @ [?f]"]) (auto simp: walk_append)
  qed
qed

lemma predecessor:
  assumes ok: "heap_ok h L" and r: "r \<in> set (hbase h # L)" "ptr h r = c" and c: "c \<in> set L"
  shows "\<exists>xs ys. L = xs @ c # ys \<and> r = last (hbase h # xs)"
proof -
  have L: "asc h (hbase h) L" "ptr h (last (hbase h # L)) = hbase h" using ok by (simp_all add: heap_ok_def chain_def)
  then have cb: "c \<noteq> hbase h" using asc_distinct c by auto
  obtain us vs where s: "hbase h # L = us @ r # vs" using r(1) by (meson split_list)
  have "vs \<noteq> []"
  proof
    assume "vs = []"
    then have "last (hbase h # L) = r" using s by simp
    then show False using L(2) r(2) cb by simp
  qed
  then obtain v vs' where v: "vs = v # vs'" by (cases vs) auto
  show ?thesis
  proof (cases us)
    case Nil
    then have e: "r = hbase h" "L = v # vs'" using s v by simp_all
    then show ?thesis using L r(2) by (intro exI [of _ "[]"] exI [of _ vs']) simp
  next
    case (Cons b us')
    then have e: "L = (us' @ [r]) @ v # vs'" using s v by simp
    then have "asc h r (v # vs')" using L(1) by (simp add: asc_append)
    then show ?thesis using e r(2) by (intro exI [of _ "us' @ [r]"] exI [of _ vs']) simp
  qed
qed

section \<open>malloc takes a block\<close>

text \<open>\<open>b\<close> is cut out of the free area; no header outside of it is written.\<close>

definition takes :: "heap \<Rightarrow> nat list \<Rightarrow> u32 \<Rightarrow> nat \<Rightarrow> heap \<Rightarrow> nat list \<Rightarrow> bool" where
  "takes h L n b h' L' \<longleftrightarrow> heap_ok h' L' \<and> used h' L' b \<and> units h' b = n \<and> block h' b \<subseteq> area h L \<and>
     area h' L' = area h L - block h' b \<and> hbase h' = hbase h \<and> brk h' = brk h \<and> grants h' = grants h \<and>
     (\<forall>x. x \<notin> insert (hbase h) (area h L) \<longrightarrow> hmem h' x = hmem h x)"

lemma list_in_area: "heap_ok h L \<Longrightarrow> y \<in> set L \<Longrightarrow> y \<in> area h L"
  using asc_pos [of h "hbase h" L y] pos_units [of h y] by (auto simp: heap_ok_def chain_def area_def block_def)

lemma block_freep: "block (h\<lparr>freep := f\<rparr>) = block h" "hend (h\<lparr>freep := f\<rparr>) = hend h"
  by (simp_all add: fun_eq_iff block_def hend_def)

lemma take_takes:
  assumes ok: "heap_ok h (xs @ c # ys)" and r: "r = last (hbase h # xs)" and n: "0 < n" "n \<le> units h c"
  shows "\<exists>b h' L'. malloc_take n r c h = (b + HDR, h') \<and> takes h (xs @ c # ys) n b h' L'"
proof -
  let ?L = "xs @ c # ys"
  have asc: "asc h (hbase h) ?L" and lim: "chain h (hbase h) ?L" using ok by (simp_all add: heap_ok_def chain_def)
  have in': "r \<in> set (hbase h # ?L)" using last_in_set [of "hbase h # xs"] by (auto simp: r)
  have rA: "r \<in> insert (hbase h) (area h ?L)" using in' list_in_area [OF ok] by auto
  note apart = asc_apart [OF asc]
  have cb: "hbase h < c" using asc_above' [OF asc] by simp
  have cl: "hend h c \<le> brk h" using chain_bounds [OF lim] by simp
  show ?thesis
  proof (cases "units h c = n")
    case True
    let ?h = "(set_ptr r (ptr h c) h)\<lparr>freep := r\<rparr>"
    have u: "units ?h x = units h x" for x by simp
    then have same: "block ?h x = block h x" "hend ?h x = hend h x" for x by (simp_all add: block_def hend_def)
    then have area: "area ?h L = area h L" for L by (simp add: area_def)
    have "area h (xs @ ys) = area h ?L - block h c" using apart by auto
    moreover have "heap_ok ?h (xs @ ys)" by (rule take_whole [OF ok r])
    moreover have "used ?h (xs @ ys) c" unfolding used_def area same u using apart cb cl n True by auto
    ultimately have "takes h ?L n c ?h (xs @ ys)"
      unfolding takes_def area same using True rA by auto
    then show ?thesis using True by (auto simp: malloc_take_def)
  next
    case False
    then have less: "n < units h c" using n(2) by simp
    define b where "b = hplus c (units h c - n)"
    define h' where "h' = (set_units b n (set_units c (units h c - n) h))\<lparr>freep := r\<rparr>"
    note t = take_tail [OF ok in' n(1) less, folded b_def, folded h'_def]
    have bend: "b < hend h c" using pos_units [of h' b] t(3,4) n(1) by simp
    have block: "block h' b = {b..<hend h c}" by (simp add: block_def t(4))
    have "area h' (xs @ ys) = area h (xs @ ys)" by (rule area_cong [OF t(6)])
    then have "area h' ?L = area h (xs @ ys) \<union> {c..<b}" using t(5) by auto
    moreover have "area h ?L = area h (xs @ ys) \<union> block h c" by auto
    moreover have "block h c = {c..<b} \<union> block h' b" using t(2) bend by (auto simp: block_def t(4))
    moreover have "block h' b \<inter> area h (xs @ ys) = {}" using apart calculation(3) by auto
    moreover have "{c..<b} \<inter> block h' b = {}" by (auto simp: block)
    ultimately have A: "area h' ?L = area h ?L - block h' b" "block h' b \<subseteq> area h ?L" by auto
    have "hbase h' = hbase h" "brk h' = brk h" "grants h' = grants h" by (simp_all add: h'_def)
    moreover have "used h' ?L b"
      unfolding used_def using A(1) t(2-4) cb cl n(1) calculation by auto
    moreover have "b \<in> area h ?L" using A(2) bend by (auto simp: block)
    then have "hmem h' x = hmem h x" if "x \<notin> insert (hbase h) (area h ?L)" for x
      using that list_in_area [OF ok, of c] by (auto simp: h'_def)
    ultimately have "takes h ?L n b h' ?L"
      unfolding takes_def using t(1,3) A by simp
    moreover have "malloc_take n r c h = (b + HDR, h')"
      using False t(2) by (simp add: malloc_take_def Let_def b_def h'_def)
    ultimately show ?thesis by blast
  qed
qed

lemma loop_found:
  assumes ok: "heap_ok h L" and n: "0 < n" and c: "c \<in> set L" "n \<le> units h c"
  shows "\<exists>b h' L'. malloc_loop n (freep h) (ptr h (freep h)) h = Some (b + HDR, h') \<and> takes h L n b h' L'"
proof -
  obtain cs where cs: "walk_list h (freep h) cs" "cs \<noteq> []" "last cs = freep h" "distinct cs" "set cs = set (hbase h # L)"
    using round_trip [OF ok] by blast
  let ?zs = "zip (freep h # cs) cs"
  have "map snd ?zs = cs" by (simp add: map_snd_zip_take)
  then have "c \<in> snd ` set ?zs" using c(1) cs(5) by (metis image_set list.set_intros(2))
  then obtain r' where "(r', c) \<in> set ?zs" by auto
  then have "find (\<lambda>(r, c). n \<le> units h c) ?zs \<noteq> None" using c(2) by (auto simp: find_None_iff)
  then obtain r d where f: "find (\<lambda>(r, c). n \<le> units h c) ?zs = Some (r, d)" by auto
  then have d: "(r, d) \<in> set ?zs" "n \<le> units h d" by (auto simp: find_Some_iff in_set_conv_nth)
  then have z: "ptr h r = d" "r \<in> set (hbase h # L)" "d \<in> set (hbase h # L)"
    using walk_zip [OF cs(1) d(1)] cs(3,5) last_in_set [OF cs(2)] by auto
  have "d \<noteq> hbase h" using d(2) n ok by (auto simp: heap_ok_def)
  then have "d \<in> set L" using z(3) by simp
  then obtain xs ys where L: "L = xs @ d # ys" "r = last (hbase h # xs)"
    using predecessor [OF ok z(2,1)] by blast
  then show ?thesis
    using take_takes [OF _ L(2) n d(2), of ys] ok search_run [OF cs(1-4), of n] f by auto
qed

lemma loop_none:
  assumes ok: "heap_ok h L" and n: "0 < n" and no: "\<forall>c \<in> set L. units h c < n"
  shows "malloc_loop n (freep h) (ptr h (freep h)) h = more n h"
proof -
  obtain cs where cs: "walk_list h (freep h) cs" "cs \<noteq> []" "last cs = freep h" "distinct cs" "set cs = set (hbase h # L)"
    using round_trip [OF ok] by blast
  have "units h d < n" if "(r, d) \<in> set (zip (freep h # cs) cs)" for r d
    using walk_zip [OF cs(1) that] cs(5) no n ok by (auto simp: heap_ok_def)
  then have "find (\<lambda>(r, c). n \<le> units h c) (zip (freep h # cs) cs) = None"
    by (force simp: find_None_iff)
  then show ?thesis using search_run [OF cs(1-4), of n] by simp
qed

section \<open>More memory\<close>

definition asked :: "u32 \<Rightarrow> u32" where
  "asked n = (if n < 4096 then 4096 else n)"

lemma bytes_asked:
  assumes "HDR * unat n < 2 ^ 31"
  shows "sint (ucast (ucast n * of_nat HDR :: u64) :: u32) = int (HDR * unat n)"
proof -
  define m where "m = HDR * unat n"
  have "(ucast n :: u64) = of_nat (unat n)" by simp
  then have "(ucast n * of_nat HDR :: u64) = of_nat m" by (simp add: m_def mult.commute)
  moreover have "(ucast (of_nat m :: u64) :: u32) = of_nat m"
    using assms by (simp add: m_def [symmetric] unsigned_of_nat take_bit_nat_eq_self)
  moreover have "sint (of_nat m :: u32) = int m"
    using assms by (simp add: m_def [symmetric] signed_of_nat signed_take_bit_int_eq_self)
  ultimately show ?thesis by (simp only: m_def)
qed

lemma asked_pos: "0 < HDR * unat (asked n)"
proof -
  have "0 < asked n" by (auto simp: asked_def word_less_nat_alt)
  then show ?thesis by (simp add: HDR_def word_less_nat_alt)
qed

lemma morecore_fails:
  assumes "HDR * unat (asked n) < 2 ^ 31" and "grants h = [] \<or> \<not> hd (grants h)"
  shows "morecore n h = Some (0, h\<lparr>grants := tl (grants h)\<rparr>)"
proof -
  have "usbrk (int (HDR * unat (asked n))) h = (None, h\<lparr>grants := tl (grants h)\<rparr>)"
    unfolding usbrk_def using asked_pos [of n] assms(2) by (cases "grants h") (auto simp del: of_nat_mult)
  then show ?thesis
    unfolding morecore_def asked_def [symmetric] Let_def bytes_asked [OF assms(1)] by simp
qed

lemma morecore_grows:
  assumes ok: "heap_ok h L" and g: "grants h = True # gs" and n: "0 < n" "HDR * unat (asked n) < 2 ^ 31"
    and lim: "brk h + HDR * unat (asked n) \<le> 2 ^ 36"
  shows "\<exists>h1 L1. morecore n h = Some (freep h1, h1) \<and> heap_ok h1 L1 \<and> area h1 L1 = area h L \<union> {brk h..<brk h1} \<and>
    brk h1 = brk h + HDR * unat (asked n) \<and> grants h1 = gs \<and> hbase h1 = hbase h \<and> (\<exists>v \<in> set L1. n \<le> units h1 v) \<and>
    (\<forall>x. x \<notin> insert (hbase h) (area h1 L1) \<longrightarrow> hmem h1 x = hmem h x)"
proof -
  let ?n = "asked n" and ?p = "brk h"
  let ?k = "?p + HDR * unat ?n"
  let ?g = "set_units ?p ?n (h\<lparr>brk := ?k, grants := gs\<rparr>)"
  have n0: "n \<le> ?n" "0 < ?n" using n(1) by (auto simp: asked_def)
  have sb: "usbrk (sint (ucast (ucast ?n * of_nat HDR :: u64) :: u32)) h = (Some ?p, h\<lparr>brk := ?k, grants := gs\<rparr>)"
    unfolding bytes_asked [OF n(2)] usbrk_def nat_int using g asked_pos [of n] by (simp del: of_nat_mult)
  have c: "chain h (hbase h) L" "hbase h + HDR \<le> ?p" using ok by (simp_all add: heap_ok_def)
  have below: "x < ?p" if "x \<in> area h L" for x using area_bound [OF c(1)] that by auto
  have out: "?p \<notin> set (hbase h # L)" using list_in_area [OF ok] below c(2) by (force simp: HDR_def)
  have agree: "hmem ?g x = hmem h x" if "x \<noteq> ?p" for x using that by simp
  have asc: "asc ?g a xs = asc h a xs" if "?p \<notin> set (a # xs)" for a xs
    using that by (induction xs arbitrary: a) (auto simp: hend_def)
  have "chain ?g (hbase h) L"
  proof -
    have "last (hbase h # L) \<in> set (hbase h # L)" by (rule last_in_set) simp
    then have "last (hbase h # L) \<noteq> ?p" using out by metis
    then show ?thesis using c(1) asc [OF out] by (auto simp: chain_def hend_def)
  qed
  then have gok: "heap_ok ?g L"
    using ok out lim by (auto simp: heap_ok_def)
  have garea: "area ?g L = area h L" by (rule area_cong) (use out in auto)
  have gblock: "block ?g ?p = {?p..<?k}" by (simp add: block_def hend_def hplus_def)
  have "{?p..<?k} \<inter> area h L = {}" using below by fastforce
  then have "used ?g L ?p"
    unfolding used_def gblock garea using c(2) n0(2) by (simp add: hend_def hplus_def HDR_def)
  from free_gives_back [OF gok this] obtain h1 L1 where f: "ufree (?p + HDR) ?g = Some h1" "heap_ok h1 L1"
      "area h1 L1 = area h L \<union> {?p..<?k}" "brk h1 = ?k" "grants h1 = gs" "hbase h1 = hbase h"
      "\<forall>x. x \<notin> insert ?p (set (hbase h # L)) \<longrightarrow> hmem h1 x = hmem ?g x" "\<exists>v \<in> set L1. ?n \<le> units h1 v"
    unfolding garea gblock by auto
  have "hmem h1 x = hmem h x" if "x \<notin> insert (hbase h) (area h1 L1)" for x
  proof -
    have "?p < ?k" using n0(2) by (simp add: HDR_def word_less_nat_alt)
    then have "x \<noteq> ?p" "x \<notin> set (hbase h # L)" using that f(3) list_in_area [OF ok] by auto
    then show ?thesis using f(7) agree by simp
  qed
  moreover have "morecore n h = Some (freep h1, h1)"
    using f(1) sb by (simp add: morecore_def asked_def [symmetric])
  moreover have "\<exists>v \<in> set L1. n \<le> units h1 v" using f(8) n0(1) order_trans by blast
  ultimately show ?thesis using f(2-6) by (intro exI [of _ h1] exI [of _ L1]) simp
qed

section \<open>malloc\<close>

text \<open>Requests whose size in bytes an int can hold, while memory is below the limit.\<close>

definition request_ok :: "u32 \<Rightarrow> heap \<Rightarrow> bool" where
  "request_ok n h \<longleftrightarrow> unat n + 2 * HDR < 2 ^ 31 \<and> brk h + HDR * unat (asked (nunits_of n)) \<le> 2 ^ 36"

lemma unat_nunits:
  assumes "unat n + 2 * HDR < 2 ^ 31"
  shows "unat (nunits_of n) = (unat n + 15) div 16 + 1"
proof -
  have "(ucast n :: u64) = of_nat (unat n)" by simp
  then have s: "(ucast n + of_nat HDR - 1 :: u64) = of_nat (unat n + 15)" by (simp add: HDR_def)
  have "unat (of_nat (unat n + 15) :: u64) = unat n + 15"
    using assms by (simp add: unsigned_of_nat take_bit_nat_eq_self HDR_def del: of_nat_add)
  then have "unat (of_nat (unat n + 15) div of_nat HDR :: u64) = (unat n + 15) div 16"
    unfolding unat_div_distrib by (simp add: HDR_def)
  then have "of_nat (unat n + 15) div of_nat HDR = (of_nat ((unat n + 15) div 16) :: u64)"
    by (metis of_nat_unat ucast_id)
  then have "nunits_of n = ucast (of_nat ((unat n + 15) div 16 + 1) :: u64)"
    unfolding nunits_of_def s by (simp add: ac_simps)
  also have "\<dots> = of_nat ((unat n + 15) div 16 + 1)"
    using assms by (simp add: unsigned_of_nat take_bit_nat_eq_self HDR_def del: of_nat_add of_nat_Suc)
  finally show ?thesis
    using assms by (simp add: unsigned_of_nat take_bit_nat_eq_self HDR_def del: of_nat_add of_nat_Suc)
qed

lemma nunits_enough:
  assumes "unat n + 2 * HDR < 2 ^ 31"
  shows "0 < nunits_of n" "unat n + HDR \<le> HDR * unat (nunits_of n)" "HDR * unat (asked (nunits_of n)) < 2 ^ 31"
proof -
  note u = unat_nunits [OF assms]
  then show "0 < nunits_of n" "unat n + HDR \<le> HDR * unat (nunits_of n)"
    by (simp_all add: word_less_nat_alt HDR_def)
  have "HDR * unat (nunits_of n) < 2 ^ 31" using u assms by (simp add: HDR_def)
  then show "HDR * unat (asked (nunits_of n)) < 2 ^ 31" by (simp add: asked_def HDR_def)
qed

text \<open>The part of memory malloc may take from: the free blocks and what sbrk adds.\<close>

definition pool :: "heap \<Rightarrow> nat list \<Rightarrow> heap \<Rightarrow> nat set" where
  "pool h L h' = area h L \<union> {brk h..<brk h'}"

definition gives :: "heap \<Rightarrow> nat list \<Rightarrow> u32 \<Rightarrow> nat \<Rightarrow> heap \<Rightarrow> nat list \<Rightarrow> bool" where
  "gives h L n b h' L' \<longleftrightarrow> heap_ok h' L' \<and> used h' L' b \<and> b + HDR + unat n \<le> hend h' b \<and> block h' b \<subseteq> pool h L h' \<and>
     area h' L' = pool h L h' - block h' b \<and> brk h \<le> brk h' \<and> hbase h' = hbase h \<and>
     (\<forall>x. x \<notin> insert (hbase h) (pool h L h') \<longrightarrow> hmem h' x = hmem h x)"

lemma malloc_run:
  assumes ok: "heap_ok h L" and r: "request_ok n h"
  shows "(\<exists>b h' L'. malloc n h = Some (b + HDR, h') \<and> gives h L n b h' L') \<or>
    ((\<forall>c \<in> set L. units h c < nunits_of n) \<and> (grants h = [] \<or> \<not> hd (grants h)) \<and>
     malloc n h = Some (0, h\<lparr>grants := tl (grants h)\<rparr>))"
proof -
  let ?n = "nunits_of n"
  have small: "unat n + 2 * HDR < 2 ^ 31" and lim: "brk h + HDR * unat (asked ?n) \<le> 2 ^ 36"
    using r by (simp_all add: request_ok_def)
  note n = nunits_enough [OF small]
  have "asc h (hbase h) L" "0 < hbase h" "freep h \<in> set (hbase h # L)" using ok by (simp_all add: heap_ok_def chain_def)
  then have "freep h \<noteq> 0" using asc_above' [of h "hbase h" L "freep h"] by auto
  then have m: "malloc n h = malloc_loop ?n (freep h) (ptr h (freep h)) h"
    by (simp add: malloc_def started_def Let_def)
  have size: "b + HDR + unat n \<le> hend g b" if "units g b = ?n" for g b
    using n(2) that by (simp add: hend_def hplus_def)
  show ?thesis
  proof (cases "\<exists>c \<in> set L. ?n \<le> units h c")
    case True
    then obtain b h' L' where "malloc n h = Some (b + HDR, h')" "takes h L ?n b h' L'"
      using loop_found [OF ok n(1)] m by metis
    then show ?thesis using size [of h' b] by (fastforce simp: takes_def gives_def pool_def)
  next
    case False
    then have no: "\<forall>c \<in> set L. units h c < ?n" by (simp add: not_le)
    then have mm: "malloc n h = more ?n h" using m loop_none [OF ok n(1)] by simp
    show ?thesis
    proof (cases "grants h = [] \<or> \<not> hd (grants h)")
      case True
      then show ?thesis using no mm morecore_fails [OF n(3) True] by (simp add: more_def)
    next
      case False
      then obtain gs where g: "grants h = True # gs" by (cases "grants h") auto
      obtain h1 L1 where h1: "morecore ?n h = Some (freep h1, h1)" "heap_ok h1 L1" "area h1 L1 = area h L \<union> {brk h..<brk h1}"
          "brk h1 = brk h + HDR * unat (asked ?n)" "hbase h1 = hbase h" "\<exists>v \<in> set L1. ?n \<le> units h1 v"
          "\<forall>x. x \<notin> insert (hbase h) (area h1 L1) \<longrightarrow> hmem h1 x = hmem h x"
        using morecore_grows [OF ok g n(1,3) lim] by blast
      have "brk h \<le> brk h1" using h1(4) by simp
      note h1' = h1(3,5,7) this
      have "asc h1 (hbase h1) L1" "0 < hbase h1" "freep h1 \<in> set (hbase h1 # L1)"
        using h1(2) by (simp_all add: heap_ok_def chain_def)
      then have "freep h1 \<noteq> 0" using asc_above' [of h1 "hbase h1" L1 "freep h1"] by auto
      then have "malloc n h = malloc_loop ?n (freep h1) (ptr h1 (freep h1)) h1" using mm h1(1) by (simp add: more_def)
      then obtain b h' L' where t: "malloc n h = Some (b + HDR, h')" "takes h1 L1 ?n b h' L'"
        using loop_found [OF h1(2) n(1)] h1(6) by metis
      then have "gives h L n b h' L'"
        using size [of h' b] h1' by (simp add: takes_def gives_def pool_def)
      then show ?thesis using t(1) by blast
    qed
  qed
qed

section \<open>A program that allocates and frees\<close>

text \<open>Before the first malloc: memory above the static header, nothing set up.\<close>

definition fresh :: "heap \<Rightarrow> bool" where
  "fresh h \<longleftrightarrow> freep h = 0 \<and> 0 < hbase h \<and> hbase h + HDR \<le> brk h \<and> brk h \<le> 2 ^ 36"

text \<open>\<open>live\<close> holds the headers of the blocks the program has and has not given back.\<close>

inductive client :: "heap \<Rightarrow> heap \<Rightarrow> nat set \<Rightarrow> bool" for h0 where
  client_start: "client h0 h0 {}"
| client_malloc: "client h0 h live \<Longrightarrow> request_ok n h \<Longrightarrow> malloc n h = Some (r, h') \<Longrightarrow>
    client h0 h' (if r = 0 then live else insert (r - HDR) live)"
| client_free: "client h0 h live \<Longrightarrow> b \<in> live \<Longrightarrow> ufree (b + HDR) h = Some h' \<Longrightarrow> client h0 h' (live - {b})"

definition balanced :: "heap \<Rightarrow> heap \<Rightarrow> nat list \<Rightarrow> nat set \<Rightarrow> bool" where
  "balanced h0 h L live \<longleftrightarrow> heap_ok h L \<and> brk h0 \<le> brk h \<and> (\<forall>b \<in> live. used h L b) \<and>
     (\<forall>b \<in> live. \<forall>c \<in> live. b \<noteq> c \<longrightarrow> block h b \<inter> block h c = {}) \<and>
     area h L \<union> (\<Union>b \<in> live. block h b) = {brk h0..<brk h}"

lemma fresh_started:
  assumes "fresh h"
  shows "heap_ok (started h) []" "malloc n h = malloc n (started h)" "request_ok n (started h) = request_ok n h"
    "brk (started h) = brk h"
proof -
  show "heap_ok (started h) []"
    using assms by (simp add: fresh_def started_def heap_ok_def chain_def hend_def hplus_def)
  have "freep (started h) \<noteq> 0" using assms by (simp add: fresh_def started_def)
  then have "started (started h) = started h" by (simp add: started_def [of "started h"])
  then show "malloc n h = malloc n (started h)" by (simp add: malloc_def)
  show "brk (started h) = brk h" by (simp add: started_def)
  then show "request_ok n (started h) = request_ok n h" by (simp add: request_ok_def)
qed

lemma fresh_balanced: "fresh h \<Longrightarrow> balanced h (started h) [] {}"
  by (simp add: balanced_def fresh_started)

text \<open>A used block keeps its header when nothing at its address is written.\<close>

lemma used_keep: "hmem h' b = hmem h b \<Longrightarrow> block h' b = block h b \<and> hend h' b = hend h b \<and> units h' b = units h b"
  by (simp add: block_def hend_def)

lemma used_in: "used h L b \<Longrightarrow> b \<in> block h b \<and> b \<noteq> hbase h \<and> b \<notin> area h L \<and> b < brk h"
  using pos_units [of h b] by (auto simp: used_def block_def)

lemma balanced_gives:
  assumes bal: "balanced h0 h L live" and g: "gives h L n b h' L'"
  shows "balanced h0 h' L' (insert b live)"
proof -
  have g': "heap_ok h' L'" "used h' L' b" "block h' b \<subseteq> pool h L h'" "area h' L' = pool h L h' - block h' b" "brk h \<le> brk h'"
      "hbase h' = hbase h" "\<forall>x. x \<notin> insert (hbase h) (pool h L h') \<longrightarrow> hmem h' x = hmem h x"
    using g by (simp_all add: gives_def)
  have u: "used h L c" if "c \<in> live" for c using bal that by (simp add: balanced_def)
  have keep: "hmem h' c = hmem h c" if "c \<in> live" for c
    using g'(7) used_in [OF u [OF that]] by (simp add: pool_def)
  note k = used_keep [OF keep]
  have apart: "block h c \<inter> pool h L h' = {}" if "c \<in> live" for c
    using u [OF that] by (auto simp: used_def pool_def block_def)
  have "used h' L' c" if "c \<in> live" for c
    using u [OF that] k [OF that] g'(4-6) apart [OF that] by (auto simp: used_def)
  moreover have "block h' b \<inter> block h' c = {}" if "c \<in> live" for c
    using apart [OF that] g'(3) k [OF that] by auto
  moreover have "block h' c \<inter> block h' d = {}" if "c \<in> live" "d \<in> live" "c \<noteq> d" for c d
    using bal that k [OF that(1)] k [OF that(2)] by (simp add: balanced_def)
  moreover have "area h' L' \<union> (\<Union>c \<in> insert b live. block h' c) = {brk h0..<brk h'}"
  proof -
    have "(\<Union>c \<in> live. block h' c) = (\<Union>c \<in> live. block h c)" using k by simp
    then have "area h' L' \<union> (\<Union>c \<in> insert b live. block h' c) = (area h L \<union> (\<Union>c \<in> live. block h c)) \<union> {brk h..<brk h'}"
      using g'(3,4) by (auto simp: pool_def)
    also have "\<dots> = {brk h0..<brk h} \<union> {brk h..<brk h'}" using bal by (simp add: balanced_def)
    also have "\<dots> = {brk h0..<brk h'}" using bal g'(5) by (auto simp: balanced_def)
    finally show ?thesis .
  qed
  moreover have "brk h0 \<le> brk h'" using bal g'(5) by (simp add: balanced_def)
  ultimately show ?thesis using g'(1,2) by (auto simp: balanced_def)
qed

lemma balanced_free:
  assumes bal: "balanced h0 h L live" and b: "b \<in> live"
  shows "\<exists>h' L'. ufree (b + HDR) h = Some h' \<and> balanced h0 h' L' (live - {b})"
proof -
  have ok: "heap_ok h L" and u: "used h L c" if "c \<in> live" for c using bal b that by (auto simp: balanced_def)
  note ok = ok [OF b]
  obtain h' L' where f: "ufree (b + HDR) h = Some h'" "heap_ok h' L'" "area h' L' = area h L \<union> block h b" "brk h' = brk h"
      "hbase h' = hbase h" "\<forall>x. x \<notin> insert b (set (hbase h # L)) \<longrightarrow> hmem h' x = hmem h x"
    using free_gives_back [OF ok u [OF b]] by blast
  have keep: "hmem h' c = hmem h c" if "c \<in> live - {b}" for c
  proof -
    have "c \<notin> set L" using used_in [OF u, of c] list_in_area [OF ok] that by auto
    then show ?thesis using f(6) used_in [OF u, of c] that by auto
  qed
  note k = used_keep [OF keep]
  have d: "block h c \<inter> block h e = {}" if "c \<in> live" "e \<in> live" "c \<noteq> e" for c e using bal that by (simp add: balanced_def)
  have "used h' L' c" if "c \<in> live - {b}" for c
    using u [of c] k [OF that] f(3-5) d [of c b] b that by (auto simp: used_def)
  moreover have "area h' L' \<union> (\<Union>c \<in> live - {b}. block h' c) = {brk h0..<brk h'}"
  proof -
    have "(\<Union>c \<in> live - {b}. block h' c) = (\<Union>c \<in> live - {b}. block h c)" using k by simp
    then have "area h' L' \<union> (\<Union>c \<in> live - {b}. block h' c) = area h L \<union> (\<Union>c \<in> live. block h c)"
      using f(3) b by auto
    then show ?thesis using bal f(4) by (simp add: balanced_def)
  qed
  moreover have "block h' c \<inter> block h' e = {}" if "c \<in> live - {b}" "e \<in> live - {b}" "c \<noteq> e" for c e
    using d that k [OF that(1)] k [OF that(2)] by simp
  ultimately have "balanced h0 h' L' (live - {b})"
    using f(2,4) bal by (simp add: balanced_def)
  then show ?thesis using f(1) by blast
qed

lemma balanced_fail: "balanced h0 h L live \<Longrightarrow> balanced h0 (h\<lparr>grants := gs\<rparr>) L live"
proof -
  have "asc (h\<lparr>grants := gs\<rparr>) a xs = asc h a xs" for a xs by (induction xs arbitrary: a) (simp_all add: hend_def)
  then show "balanced h0 h L live \<Longrightarrow> balanced h0 (h\<lparr>grants := gs\<rparr>) L live"
    by (simp add: balanced_def heap_ok_def chain_def used_def block_def area_def hend_def)
qed

text \<open>
  Invariant of every program: up to the set-up of the first malloc, its blocks and the free
  list divide the memory sbrk has given between them.
\<close>

lemma client_balanced:
  assumes "client h0 h live" and fresh: "fresh h0"
  shows "h = h0 \<and> live = {} \<or> (\<exists>L. balanced h0 h L live)"
  using assms(1)
proof (induction rule: client.induct)
  case (client_malloc h live n r h')
  then obtain L where L: "balanced h0 (started h) L live" "malloc n (started h) = Some (r, h')" "request_ok n (started h)"
  proof (elim disjE)
    assume "h = h0 \<and> live = {}"
    then show ?thesis
      using that fresh_balanced [OF fresh] client_malloc(2,3) fresh_started [OF fresh] by simp
  next
    assume "\<exists>L. balanced h0 h L live"
    then obtain L where L: "balanced h0 h L live" by blast
    have "asc h (hbase h) L" "0 < hbase h" "freep h \<in> set (hbase h # L)" using L by (simp_all add: balanced_def heap_ok_def chain_def)
    then have "freep h \<noteq> 0" using asc_above' [of h "hbase h" L "freep h"] by auto
    then have "started h = h" by (simp add: started_def)
    then show ?thesis using that L client_malloc(2,3) by simp
  qed
  have ok: "heap_ok (started h) L" using L(1) by (simp add: balanced_def)
  from malloc_run [OF ok L(3)] show ?case
  proof
    assume "\<exists>b h' L'. malloc n (started h) = Some (b + HDR, h') \<and> gives (started h) L n b h' L'"
    then obtain b L' where "r = b + HDR" "gives (started h) L n b h' L'" using L(2) by auto
    then show ?thesis using balanced_gives [OF L(1), of n b h' L'] by (auto simp: HDR_def)
  next
    assume "(\<forall>c \<in> set L. units (started h) c < nunits_of n) \<and> (grants (started h) = [] \<or> \<not> hd (grants (started h))) \<and>
      malloc n (started h) = Some (0, (started h)\<lparr>grants := tl (grants (started h))\<rparr>)"
    then show ?thesis using balanced_fail [OF L(1)] L(2) by auto
  qed
next
  case (client_free h live b h')
  then show ?case using balanced_free by fastforce
qed simp

section \<open>The theorems\<close>


definition sample_heap :: heap where
  "sample_heap = \<lparr>hmem = (\<lambda>_. \<lparr>h_ptr = 0, h_size = 0\<rparr>), hbase = 0x1000, freep = 0, brk = 0x4000, grants = [True]\<rparr>"

lemma sample_fresh: "fresh sample_heap"
  by (simp add: fresh_def sample_heap_def HDR_def)

lemma sample_request: "request_ok 100 sample_heap"
  using unat_nunits [of 100]
  by (simp add: request_ok_def sample_heap_def HDR_def asked_def word_less_nat_alt)

lemma sample_malloc: "\<exists>b h'. malloc 100 sample_heap = Some (b + HDR, h') \<and> b + 116 \<le> hend h' b"
proof -
  let ?s = "started sample_heap"
  have r: "request_ok 100 ?s" using sample_request fresh_started(3) [OF sample_fresh] by simp
  have "grants ?s = [True]" by (simp add: started_def sample_heap_def)
  then obtain b h' L' where "malloc 100 ?s = Some (b + HDR, h')" "gives ?s [] 100 b h' L'"
    using malloc_run [OF fresh_started(1) [OF sample_fresh] r] by auto
  then show ?thesis
    using fresh_started(2) [OF sample_fresh, of 100] by (auto simp: gives_def HDR_def)
qed


text \<open>
  C39. malloc and free come back in every state a program can reach. For a request whose size
  an int can hold, malloc returns a block of at least the size asked for, apart from all the
  others; it returns 0 only when sbrk has refused.
\<close>

theorem allocator_returns:
  assumes "fresh h0" and "client h0 h live"
  shows "(\<forall>b \<in> live. \<exists>h'. ufree (b + HDR) h = Some h') \<and>
    (\<forall>n. request_ok n h \<longrightarrow> (\<exists>r h'. malloc n h = Some (r, h') \<and>
      (if r = 0 then grants h = [] \<or> \<not> hd (grants h)
       else r + unat n \<le> hend h' (r - HDR) \<and> hend h' (r - HDR) \<le> brk h' \<and> (\<forall>b \<in> live. block h' (r - HDR) \<inter> block h b = {}))))"
proof -
  have "\<exists>r h'. malloc n h = Some (r, h') \<and> (if r = 0 then grants h = [] \<or> \<not> hd (grants h)
       else r + unat n \<le> hend h' (r - HDR) \<and> hend h' (r - HDR) \<le> brk h' \<and> (\<forall>b \<in> live. block h' (r - HDR) \<inter> block h b = {}))"
    if ok: "heap_ok (started h) L" and r: "request_ok n h" and eq: "malloc n h = malloc n (started h)" "brk (started h) = brk h"
      "grants (started h) = grants h" "\<forall>b \<in> live. block h b \<inter> area (started h) L = {} \<and> hend h b \<le> brk h" for n L
  proof -
    have r': "request_ok n (started h)" using r eq(2) by (simp add: request_ok_def)
    from malloc_run [OF ok r'] show ?thesis
    proof
      assume "\<exists>b h' L'. malloc n (started h) = Some (b + HDR, h') \<and> gives (started h) L n b h' L'"
      then obtain b h' L' where m: "malloc n h = Some (b + HDR, h')" "gives (started h) L n b h' L'" using eq(1) by auto
      then have g: "block h' b \<subseteq> area (started h) L \<union> {brk h..<brk h'}" "b + HDR + unat n \<le> hend h' b" "hend h' b \<le> brk h'"
        using eq(2) by (simp_all add: gives_def pool_def used_def)
      have "block h' b \<inter> block h c = {}" if "c \<in> live" for c
      proof -
        have "block h c \<inter> area (started h) L = {}" "block h c \<subseteq> {..<brk h}" using eq(4) that by (auto simp: block_def)
        then show ?thesis using g(1) by fastforce
      qed
      then show ?thesis using m(1) g(2,3) by (intro exI [of _ "b + HDR"] exI [of _ h']) (simp add: HDR_def)
    next
      assume "(\<forall>c \<in> set L. units (started h) c < nunits_of n) \<and> (grants (started h) = [] \<or> \<not> hd (grants (started h))) \<and>
        malloc n (started h) = Some (0, (started h)\<lparr>grants := tl (grants (started h))\<rparr>)"
      then show ?thesis using eq(1,3) by auto
    qed
  qed
  note main = this
  from client_balanced [OF assms(2,1)] show ?thesis
  proof
    assume e: "h = h0 \<and> live = {}"
    have "grants (started h) = grants h" by (simp add: started_def)
    then show ?thesis using e main [of "[]"] fresh_started [OF assms(1)] by simp
  next
    assume "\<exists>L. balanced h0 h L live"
    then obtain L where L: "balanced h0 h L live" by blast
    have "asc h (hbase h) L" "0 < hbase h" "freep h \<in> set (hbase h # L)" using L by (simp_all add: balanced_def heap_ok_def chain_def)
    then have "freep h \<noteq> 0" using asc_above' [of h "hbase h" L "freep h"] by auto
    then have s: "started h = h" by (simp add: started_def)
    have "\<forall>b \<in> live. block h b \<inter> area h L = {} \<and> hend h b \<le> brk h" "heap_ok h L" using L by (simp_all add: balanced_def used_def)
    moreover have "\<forall>b \<in> live. \<exists>h'. ufree (b + HDR) h = Some h'" using balanced_free [OF L] by blast
    ultimately show ?thesis using main [of L] s by simp
  qed
qed

lemma allocator_returns_witness:
  "request_ok 100 sample_heap \<and> (\<exists>r h'. malloc 100 sample_heap = Some (r, h') \<and> r \<noteq> 0 \<and> r + 100 \<le> hend h' (r - HDR))"
proof -
  have g: "grants sample_heap = [True]" by (simp add: sample_heap_def)
  obtain r h' where m: "malloc 100 sample_heap = Some (r, h')"
      "if r = 0 then grants sample_heap = [] \<or> \<not> hd (grants sample_heap) else r + unat (100 :: u32) \<le> hend h' (r - HDR)"
    using allocator_returns [OF sample_fresh client_start] sample_request by metis
  have "r \<noteq> 0" using m(2) g by (cases "r = 0") simp_all
  then show ?thesis using m sample_request by simp
qed

text \<open>
  C40. The size of a request is never checked: for 2^32 - 1 bytes the product passed to sbrk
  is cut to the int 16. malloc gets 16 bytes and returns a block whose header claims 2^28 + 1
  units, far beyond the end of memory.
\<close>

theorem malloc_overflows:
  assumes "fresh h" and "grants h = True # gs"
  shows "\<exists>h'. malloc 0xffffffff h = Some (brk h + HDR, h') \<and> brk h' = brk h + 16 \<and> hend h' (brk h) = brk h + HDR * (2 ^ 28 + 1)"
proof -
  let ?n = "0x10000001 :: u32" and ?b = "hbase h" and ?p = "brk h"
  have f: "freep h = 0" "0 < ?b" "?b < ?p" using assms(1) by (simp_all add: fresh_def HDR_def)
  have n: "nunits_of 0xffffffff = ?n" by (simp add: nunits_of_def HDR_def)
  let ?s = "started h"
  have s: "freep ?s = ?b" "ptr ?s ?b = ?b" "units ?s ?b = 0" "grants ?s = True # gs" "brk ?s = ?p" "hbase ?s = ?b"
    using f assms(2) by (simp_all add: started_def)
  let ?g = "set_units ?p ?n (?s\<lparr>brk := ?p + 16, grants := gs\<rparr>)"
  have g: "ptr ?g ?b = ?b" "units ?g ?b = 0" "units ?g ?p = ?n" "freep ?g = ?b" "brk ?g = ?p + 16" using s f by simp_all
  let ?h1 = "(set_ptr ?b ?p (set_ptr ?p ?b ?g))\<lparr>freep := ?b\<rparr>"
  have sb: "usbrk 16 ?s = (Some ?p, ?s\<lparr>brk := ?p + 16, grants := gs\<rparr>)" using s by (simp add: usbrk_def)
  have slot: "free_slot ?g ?p ?b = Some ?b" using f g by (simp add: free_slot.simps [of ?g ?p ?b])
  have up: "free_link_up ?p ?b ?g = set_ptr ?p ?b ?g" unfolding free_link_up_def g hplus_def using f by simp
  have down: "free_link_down ?p ?b (set_ptr ?p ?b ?g) = set_ptr ?b ?p (set_ptr ?p ?b ?g)"
    using f g by (simp add: free_link_down_def hplus_def)
  have "ufree (?p + HDR) ?g = Some ?h1"
    unfolding ufree_def Let_def diff_add_inverse2 g slot option.case up down ..
  then have more: "morecore ?n ?s = Some (?b, ?h1)"
    by (simp add: morecore_def HDR_def sb)
  have h1: "ptr ?h1 ?b = ?p" "units ?h1 ?p = ?n" "ptr ?h1 ?p = ?b" "brk ?h1 = ?p + 16" using f g by simp_all
  let ?h2 = "(set_ptr ?b ?b ?h1)\<lparr>freep := ?b\<rparr>"
  have "malloc 0xffffffff h = malloc_loop ?n ?b ?b ?s" by (simp add: malloc_def Let_def n s)
  also have "\<dots> = malloc_loop ?n ?b ?p ?h1"
    using f s more h1(1) by (simp add: malloc_loop_step [of ?n ?b ?b ?s] more_def)
  also have "\<dots> = Some (?p + HDR, ?h2)"
    unfolding malloc_loop_step [of ?n ?b ?p ?h1] malloc_take_def h1 by simp
  finally show ?thesis
    using h1 f by (intro exI [of _ ?h2]) (simp add: hend_def hplus_def)
qed

lemma malloc_overflows_witness:
  "\<exists>h'. malloc 0xffffffff sample_heap = Some (0x4010, h') \<and> brk h' = 0x4010"
proof -
  have "grants sample_heap = [True]" "brk sample_heap = 0x4000" by (simp_all add: sample_heap_def)
  then show ?thesis using malloc_overflows [OF sample_fresh, of "[]"] by (auto simp: HDR_def)
qed

end
