(* ===== verification/Spec2Isabelle.thy ===== *)
theory Spec2Isabelle
  imports Prelude CString Machine Sched Format Uart Printf PanicLog Panic Kalloc Vm Virtio Bio FsLog Fs Dir
    Console Pipe File Proc Exec Sysproc Sysfile Trap Pages Ring Paging Wakeup Sample Pipes Lines Total
    CrashUser CrashCalls Spin Printers Ulib Grep Sh ShParse ShPrint ShStrings Disk Triples Lru
    Cache Header Commit Crash Transact LogFull Umalloc FreeList
begin

text \<open>
  Verification of the xv6-riscv kernel with its panic logger (xv6-riscv/ of the repository;
  below, kernel/ and user/ are its directories).

  \<^bold>\<open>The program.\<close> The kernel runs on several harts, each with its own stack of disabled
  interrupts, and shares its data under spin locks. Processes sleep on channels and are
  woken by others or by interrupt handlers; file-system code holds sleep locks on buffers
  and inodes, and groups its block writes into transactions of a redo log. The panic logger
  adds a ring of 64 formatted log entries (log_add behind LOG and its relatives), a crash
  context that panic and the system call crashme fill with the registers and a stack walk,
  and its dump on the console; the programs dumppanic, logtest and crashme show it to the user.

  \<^bold>\<open>How the code is modelled.\<close> A kernel function is a function from a world (the kernel state
  and the pending actions of the environment) to a result (\<open>Prelude.res\<close>): a value, a call
  of panic, waiting without a further action, an endless loop, a step outside the C
  semantics, or a loop that ran out of the given fuel. The state is a chain of extensible
  records, one layer per component, so that a function of a component states by its type
  which layers it may touch. What other harts, devices and the scheduler do while a function
  waits is one action per wait, an arbitrary function on the state; properties say of these
  actions what they need. User programs are functions of the results of their system calls.
  Machine integers are words of their width; an \<open>int\<close> of C that must not overflow is an int.

  \<^bold>\<open>Which theory models what.\<close>
  \<^item> Prelude: worlds, results, the combinators, integers and C strings. CString: kernel/string.c.
  \<^item> Machine: kernel/riscv.h, kernel/spinlock.c, kernel/start.c, cpuid and mycpu. Sched: sleeping,
    waking, switching and killing of kernel/proc.c, kernel/sleeplock.c. Proc: processes made and
    ended (the rest of kernel/proc.c). Exec: kernel/exec.c.
  \<^item> Format: vsnprintf of kernel/paniclog.c and user/printf.c. Uart and Console: kernel/uart.c and
    kernel/console.c. Printf: kernel/printf.c. PanicLog: kernel/paniclog.c. Panic: panic itself.
  \<^item> Kalloc: kernel/kalloc.c. Vm: kernel/vm.c.
  \<^item> Virtio: kernel/virtio_disk.c. Bio: kernel/bio.c. FsLog: kernel/log.c. Fs and Dir: kernel/fs.c.
    Pipe: kernel/pipe.c. File: kernel/file.c.
  \<^item> Sysproc: kernel/sysproc.c and argument fetching. Sysfile: kernel/sysfile.c. Trap: kernel/trap.c,
    kernel/plic.c, the rest of kernel/syscall.c, kernel/main.c.
  \<^item> CrashUser: user/dumppanic.c, user/logtest.c, user/crashme.c. Ulib: user/ulib.c. Grep:
    user/grep.c. Sh: the parser of user/sh.c.

  \<^bold>\<open>What is shown, and where.\<close>
  \<^item> PanicLog and Panic: log_add keeps the last 64 rendered entries, log_flush prints them, the crash
    context holds what the machine had, panic prints log, message and dump and stops; a panic
    under the log or tick lock prints nothing. CrashCalls: the context survives its copy to user
    memory byte for byte; what crashme and dumppanic print; when logtest passes.
  \<^item> Pages: the free list refines a pool of pages. Paging: page-wise copies are byte-wise ones.
  \<^item> Spin: mutual exclusion of the spin lock under every interleaving of single steps, its misuse
    tests, a way in for every waiter; the sequential operations of Machine are such steps.
  \<^item> Wakeup: wakeup wakes exactly the sleepers; sleep loses no wakeup. Total: the blocking calls end.
  \<^item> Ring: rings with wrapping 32-bit counters. Pipes: a pipe is a byte queue. Lines: the
    console input is a line editor.
  \<^item> Format and Printers: every printer renders its format as one abstract reading of it says,
    within its buffers; where the three agree.
  \<^item> Ulib, Grep: memmove, atoi and gets of the user library; the matcher decides a language of
    patterns, grep prints the matching lines. ShParse, ShPrint, ShStrings: the shell's parser ends,
    inverts printing, returns well-formed trees, and nulterminate cuts exactly their words.
  \<^item> Lru: the ring of buffers; Disk: one block transfer of the driver with its device. Cache: the
    buffer cache is a store of blocks. Header: what the header of the log describes. Commit,
    Crash: commit and recovery, cut by a power failure anywhere. Transact: sequences of
    transactions return with their content on the disk; after a failure in the middle of one,
    and any number of failed reboots, a recovery leaves the earlier ones and that one
    completely or not at all. LogFull: a transaction that fills the log pins every buffer, and
    its commit panics.
  \<^item> Sample: one whole kernel state, used by the examples that instantiate the properties.

  Locales hold the contracts that several parts use: a section of code under a spin lock
  (Machine), a directive-wise formatter (Format), a ring indexed by wrapping counters (Ring),
  a store of blocks under the log (Commit); each is interpreted on the code's own definitions.

  \<^bold>\<open>Power failures.\<close> While the driver sleeps, one action of the environment is one round of the
  disk (\<open>Disk.disk_round\<close>): the scheduler leaves the process, the device serves the request
  and raises its interrupt, virtio_disk_intr runs, the scheduler comes back. The device is an
  argument of which only \<open>Disk.virtio_device\<close> is assumed: a queued request is served as the
  virtio standard says. A power failure is that no further round follows: the run blocks,
  and what is left of its state is the disk. Triples (Triples) say of a run that it returns
  within so many rounds or is cut with a given property of the disk. One process runs; the
  concurrency of transactions is not part of this model.

  \<^bold>\<open>Bounds and fuel.\<close> A loop that scans a table runs over its index list. A loop that the C
  code bounds by its data has that bound as its fuel (list lengths, NBUF + 1 nodes of the
  buffer list, 65536 values of the used index of the disk). A loop whose rounds sleep or spin
  needs an action of the environment in each round, so that the pending actions plus one are
  enough: \<open>Total\<close> proves that they do not run out. A recursion of user code has a termination proof.

  \<^bold>\<open>Not modelled.\<close> The assembly entry points (kernel/entry.S, trampoline.S, kernelvec.S): what C
  relies on is in the definitions that use it. Weak memory: memory is sequentially
  consistent. The running of command trees by the shell, the test drivers of user/ and the
  small programs that only call the system; the tool mkfs that writes the initial image. The
  copies of changed files and the snippets beside xv6-riscv/ are earlier states of the same files.
\<close>

end
